(* ===== verification/Prelude.thy ===== *)
theory Prelude
  imports Main "HOL-Library.AList" "HOL-Library.Sublist" "HOL-Library.List_Lexorder"
begin

section \<open>Shared vocabulary of the development\<close>

text \<open>
  What every component needs: text as lists of code points, the exceptions of the Python code as
  values, the result type of code that can raise, loops over lists that can raise, dictionaries in
  insertion order, and the counting idiom \<open>counts[k] = counts.get(k, 0) + 1\<close>.

  The collection \<open>res_simps\<close> holds the rules that take a raising computation apart; it is meant for
  \<open>auto simp: res_simps\<close>.
\<close>

named_theorems res_simps \<open>inversion of computations that can raise\<close>
named_theorems dict_simps \<open>lookup after an update of an insertion-ordered dictionary\<close>

subsection \<open>Text\<close>

text \<open>
  A Python \<open>str\<close> is a list of code points (integers, as \<open>ord\<close> returns them); \<open>u\<close> turns an Isabelle
  literal into one. Python's order on strings is the lexicographic order of the code points, which
  is the order of the instance of lists in \<open>List_Lexorder\<close>. A \<open>bytes\<close> object has the same type.
\<close>

type_synonym ustr = "int list"

definition u :: "string \<Rightarrow> ustr" where
  "u s = map of_char s"

lemma u_Nil [simp]: "u [] = []"
  by (simp add: u_def)

lemma length_u [simp]: "length (u s) = length s"
  by (simp add: u_def)

lemma u_eq_iff [simp]: "u s = u t \<longleftrightarrow> s = t"
  unfolding u_def by (rule inj_map_eq_map) (auto simp: inj_on_def)

lemma u_eq_Nil [simp]: "u s = [] \<longleftrightarrow> s = []" "[] = u s \<longleftrightarrow> s = []"
  by (auto simp: u_def)

lemma u_append: "u (s @ t) = u s @ u t"
  by (simp add: u_def)

subsection \<open>Exceptions and results\<close>

text \<open>
  An exception carries its message template and the values interpolated into it.
  \<open>InvalidOperation\<close> is the decimal module's signal; \<open>SystemExit\<close> carries the text the program
  exits with.
\<close>

datatype pyerr =
    ValueError string "ustr list"
  | RuntimeErr string "ustr list"
  | TypeErr string
  | AttributeErr string
  | KeyErr ustr
  | IndexErr
  | OverflowErr string
  | InvalidOperation
  | AssertionErr
  | UnicodeEncodeErr
  | ZeroDivisionErr
  | FileNotFoundErr string "ustr list"
  | TimeoutErr string
  | OSErr string "ustr list"
  | SystemExit string "ustr list"

type_synonym 'a res = "pyerr + 'a"

definition bind_res :: "'e + 'a \<Rightarrow> ('a \<Rightarrow> 'e + 'b) \<Rightarrow> 'e + 'b" where
  "bind_res m f = (case m of Inl e \<Rightarrow> Inl e | Inr x \<Rightarrow> f x)"

definition ensure :: "bool \<Rightarrow> 'e \<Rightarrow> 'e + unit" where
  "ensure b e = (if b then Inr () else Inl e)"

lemma bind_res_simps [simp]:
  "bind_res (Inl e) f = Inl e"
  "bind_res (Inr x) f = f x"
  by (simp_all add: bind_res_def)

lemma bind_res_Inr_iff [res_simps]:
  "bind_res m f = Inr y \<longleftrightarrow> (\<exists>x. m = Inr x \<and> f x = Inr y)"
  by (cases m) simp_all

lemma bind_res_Inl_iff [res_simps]:
  "bind_res m f = Inl e \<longleftrightarrow> m = Inl e \<or> (\<exists>x. m = Inr x \<and> f x = Inl e)"
  by (cases m) simp_all

lemma ensure_iff [res_simps]:
  "ensure b e = Inr w \<longleftrightarrow> b"
  "ensure b e = Inl e' \<longleftrightarrow> \<not> b \<and> e' = e"
  by (auto simp: ensure_def)

lemma ensure_simps [simp]: "ensure True e = Inr ()" "ensure False e = Inl e"
  by (simp_all add: ensure_def)

lemma bind_res_cong [fundef_cong]:
  "m = m' \<Longrightarrow> (\<And>x. m' = Inr x \<Longrightarrow> f x = g x) \<Longrightarrow> bind_res m f = bind_res m' g"
  by (cases m') simp_all

subsection \<open>Loops that can raise\<close>

fun fold_res :: "('a \<Rightarrow> 's \<Rightarrow> 'e + 's) \<Rightarrow> 'a list \<Rightarrow> 's \<Rightarrow> 'e + 's" where
  "fold_res f [] s = Inr s"
| "fold_res f (x # xs) s = bind_res (f x s) (fold_res f xs)"

fun map_res :: "('a \<Rightarrow> 'e + 'b) \<Rightarrow> 'a list \<Rightarrow> 'e + 'b list" where
  "map_res f [] = Inr []"
| "map_res f (x # xs) = bind_res (f x) (\<lambda>y. bind_res (map_res f xs) (\<lambda>ys. Inr (y # ys)))"

text \<open>A loop keeps what each of its iterations keeps; it raises only what one of them raises.\<close>

lemma fold_res_invariant:
  assumes "fold_res f xs s = Inr s'" and "P s"
    and "\<And>x s s'. x \<in> set xs \<Longrightarrow> P s \<Longrightarrow> f x s = Inr s' \<Longrightarrow> P s'"
  shows "P s'"
  using assms
proof (induction xs arbitrary: s)
  case Nil
  then show ?case by simp
next
  case (Cons x xs)
  from Cons.prems(1) obtain t where t: "f x s = Inr t" "fold_res f xs t = Inr s'"
    by (auto simp: res_simps)
  have "P t"
    using Cons.prems(3) [OF _ Cons.prems(2) t(1)] by simp
  with t(2) show ?case
    using Cons.prems(3) by (auto intro: Cons.IH)
qed

lemma fold_res_error:
  assumes "fold_res f xs s = Inl e" and "P s"
    and step: "\<And>x s s'. x \<in> set xs \<Longrightarrow> P s \<Longrightarrow> f x s = Inr s' \<Longrightarrow> P s'"
    and err: "\<And>x s. x \<in> set xs \<Longrightarrow> P s \<Longrightarrow> f x s = Inl e \<Longrightarrow> Q e"
  shows "Q e"
  using assms
proof (induction xs arbitrary: s)
  case Nil
  then show ?case by simp
next
  case (Cons x xs)
  show ?case
  proof (cases "f x s")
    case (Inl e')
    with Cons.prems(1,2) show ?thesis by (auto intro: Cons.prems(4))
  next
    case (Inr t)
    with Cons.prems(1) have rest: "fold_res f xs t = Inl e" by simp
    have "P t"
      using Cons.prems(3) [OF _ Cons.prems(2) Inr] by simp
    with rest show ?thesis
      using Cons.IH [of t] Cons.prems(3,4) by (meson list.set_intros(2))
  qed
qed

lemma fold_res_append:
  "fold_res f (xs @ ys) s = bind_res (fold_res f xs s) (fold_res f ys)"
  by (induction xs arbitrary: s) (auto simp: bind_res_def split: sum.splits)

lemma fold_res_cong [fundef_cong]:
  "xs = ys \<Longrightarrow> s = t \<Longrightarrow> (\<And>x s. x \<in> set ys \<Longrightarrow> f x s = g x s) \<Longrightarrow> fold_res f xs s = fold_res g ys t"
proof (induction ys arbitrary: xs s t)
  case (Cons y ys)
  then show ?case by (cases "g y t") auto
qed simp

lemma fold_res_total:
  "(\<And>x s. f x s = Inr (g x s)) \<Longrightarrow> fold_res f xs s = Inr (fold g xs s)"
  by (induction xs arbitrary: s) auto

lemma map_res_Inr_iff [res_simps]:
  "map_res f xs = Inr ys \<longleftrightarrow> list_all2 (\<lambda>x y. f x = Inr y) xs ys"
  by (induction xs arbitrary: ys) (auto simp: res_simps list_all2_Cons1)

lemma map_res_length: "map_res f xs = Inr ys \<Longrightarrow> length ys = length xs"
  by (auto simp: res_simps dest: list_all2_lengthD)

lemma map_res_mem: "map_res f xs = Inr ys \<Longrightarrow> y \<in> set ys \<Longrightarrow> \<exists>x \<in> set xs. f x = Inr y"
  by (fastforce simp: res_simps list_all2_conv_all_nth in_set_conv_nth)

lemma map_res_dom: "map_res f xs = Inr ys \<Longrightarrow> x \<in> set xs \<Longrightarrow> \<exists>y. f x = Inr y"
  by (induction xs arbitrary: ys) (auto simp: bind_res_Inr_iff)

lemma map_res_error: "map_res f xs = Inl e \<Longrightarrow> \<exists>x \<in> set xs. f x = Inl e"
  by (induction xs) (auto simp: bind_res_Inl_iff)

lemma map_res_total: "(\<And>x. x \<in> set xs \<Longrightarrow> f x = Inr (g x)) \<Longrightarrow> map_res f xs = Inr (map g xs)"
  by (induction xs) auto

subsection \<open>Dictionaries in insertion order\<close>

text \<open>
  A \<open>dict\<close> is an association list with distinct keys, in insertion order. Storing under a key that
  is present keeps its place, which is what \<open>AList.update\<close> does.
\<close>

type_synonym ('k, 'v) dict = "('k \<times> 'v) list"

abbreviation dict_get :: "('k, 'v) dict \<Rightarrow> 'k \<Rightarrow> 'v option" where
  "dict_get \<equiv> map_of"

abbreviation dict_set :: "'k \<Rightarrow> 'v \<Rightarrow> ('k, 'v) dict \<Rightarrow> ('k, 'v) dict" where
  "dict_set \<equiv> AList.update"

abbreviation dict_keys :: "('k, 'v) dict \<Rightarrow> 'k list" where
  "dict_keys d \<equiv> map fst d"

definition get_default :: "('k, 'v) dict \<Rightarrow> 'k \<Rightarrow> 'v \<Rightarrow> 'v" where
  "get_default d k v = (case dict_get d k of None \<Rightarrow> v | Some w \<Rightarrow> w)"

text \<open>\<open>d[k]\<close> of an absent key raises KeyError.\<close>

definition dict_index :: "(ustr, 'v) dict \<Rightarrow> ustr \<Rightarrow> 'v res" where
  "dict_index d k = (case dict_get d k of None \<Rightarrow> Inl (KeyErr k) | Some v \<Rightarrow> Inr v)"

definition setdefault :: "('k, 'v) dict \<Rightarrow> 'k \<Rightarrow> 'v \<Rightarrow> ('k, 'v) dict \<times> 'v" where
  "setdefault d k v = (case dict_get d k of Some w \<Rightarrow> (d, w) | None \<Rightarrow> (d @ [(k, v)], v))"

lemma dict_get_set [dict_simps, simp]:
  "dict_get (dict_set k v d) k' = (if k' = k then Some v else dict_get d k')"
  by (simp add: update_conv')

lemma get_default_set [dict_simps]:
  "get_default (dict_set k v d) k' w = (if k' = k then v else get_default d k' w)"
  by (simp add: get_default_def)

lemma set_keys_dict_set [simp]: "fst ` set (dict_set k v d) = insert k (fst ` set d)"
  by (induction d) (auto simp: image_iff)

lemma dict_keys_set: "dict_keys (dict_set k v d) = (if k \<in> set (dict_keys d) then dict_keys d else dict_keys d @ [k])"
  by (induction d) (auto simp: image_iff)

lemma dict_set_new: "k \<notin> fst ` set d \<Longrightarrow> dict_set k v d = d @ [(k, v)]"
  by (induction d) auto

lemma dict_set_map: "distinct ks \<Longrightarrow> k \<in> set ks \<Longrightarrow>
    dict_set k v (map (\<lambda>x. (x, f x)) ks) = map (\<lambda>x. (x, if x = k then v else f x)) ks"
  by (induction ks) auto

lemma dict_index_iff [res_simps]:
  "dict_index d k = Inr v \<longleftrightarrow> dict_get d k = Some v"
  "dict_index d k = Inl e \<longleftrightarrow> dict_get d k = None \<and> e = KeyErr k"
  by (auto simp: dict_index_def split: option.splits)

lemma dict_index_Some [simp]: "dict_get d k = Some v \<Longrightarrow> dict_index d k = Inr v"
  by (simp add: dict_index_def)

lemma dict_index_total: "k \<in> set (dict_keys d) \<Longrightarrow> \<exists>v. dict_index d k = Inr v"
  by (cases "dict_get d k") (auto simp: dict_index_def map_of_eq_None_iff)

lemma setdefault_get: "dict_get (fst (setdefault d k v)) k = Some (snd (setdefault d k v))"
  by (auto simp: setdefault_def map_add_def split: option.splits)

lemma setdefault_get_other: "k' \<noteq> k \<Longrightarrow> dict_get (fst (setdefault d k v)) k' = dict_get d k'"
  by (auto simp: setdefault_def map_add_def split: option.splits)

lemma setdefault_keeps: "dict_get d k' = Some w \<Longrightarrow> dict_get (fst (setdefault d k v)) k' = Some w"
  by (auto simp: setdefault_def map_add_def split: option.splits)

lemma distinct_setdefault:
  "distinct (dict_keys d) \<Longrightarrow> distinct (dict_keys (fst (setdefault d k v)))"
  by (auto simp: setdefault_def map_of_eq_None_iff split: option.splits)

subsection \<open>Counting stores\<close>

text \<open>
  Many loops of the code count keys: \<open>counts[k] = counts.get(k, 0) + 1\<close>, \<open>Counter(xs)\<close>. The locale
  states the interface such a loop relies on; its lemmas hold for every store with these laws.
\<close>

locale key_store =
  fixes empty :: "'d"
    and get :: "'d \<Rightarrow> 'k \<Rightarrow> 'v option"
    and put :: "'k \<Rightarrow> 'v \<Rightarrow> 'd \<Rightarrow> 'd"
    and keys :: "'d \<Rightarrow> 'k list"
  assumes get_empty: "get empty k = None"
    and get_put: "get (put k v d) k' = (if k' = k then Some v else get d k')"
    and keys_empty: "keys empty = []"
    and keys_put: "keys (put k v d) = (if k \<in> set (keys d) then keys d else keys d @ [k])"

locale count_store = key_store empty get put keys
  for empty :: "'d" and get :: "'d \<Rightarrow> 'k \<Rightarrow> nat option" and put keys
begin

lemma get_tally:
  "(case get (fold (\<lambda>x d. put x (Suc (case get d x of None \<Rightarrow> 0 | Some n \<Rightarrow> n)) d) xs d) k
      of None \<Rightarrow> 0 | Some n \<Rightarrow> n) =
   (case get d k of None \<Rightarrow> 0 | Some n \<Rightarrow> n) + count_list xs k"
  by (induction xs arbitrary: d) (auto simp: get_put)

lemma set_keys_tally:
  "set (keys (fold (\<lambda>x d. put x (Suc (case get d x of None \<Rightarrow> 0 | Some n \<Rightarrow> n)) d) xs d)) =
   set (keys d) \<union> set xs"
  by (induction xs arbitrary: d) (auto simp: keys_put)

lemma distinct_keys_tally:
  "distinct (keys d) \<Longrightarrow>
   distinct (keys (fold (\<lambda>x d. put x (Suc (case get d x of None \<Rightarrow> 0 | Some n \<Rightarrow> n)) d) xs d))"
  by (induction xs arbitrary: d) (auto simp: keys_put)

end

text \<open>The dictionaries of the model are such a store, and \<open>count_all\<close> is their counting loop.\<close>

definition count_all :: "'k list \<Rightarrow> ('k, nat) dict \<Rightarrow> ('k, nat) dict" where
  "count_all xs d = fold (\<lambda>x d. dict_set x (Suc (get_default d x 0)) d) xs d"

interpretation dict_store: key_store "[]" dict_get dict_set dict_keys
  by unfold_locales (auto simp: dict_keys_set)

interpretation dict_count: count_store "[]" dict_get dict_set dict_keys
  by unfold_locales

definition counter :: "'k list \<Rightarrow> ('k, nat) dict" where
  "counter xs = count_all xs []"

lemma get_default_counter: "get_default (counter xs) k 0 = count_list xs k"
  using dict_count.get_tally [of xs "[]" k]
  by (simp add: counter_def count_all_def get_default_def)

lemma set_keys_counter: "set (dict_keys (counter xs)) = set xs"
  using dict_count.set_keys_tally [of xs "[]"]
  by (simp add: counter_def count_all_def get_default_def)

lemma distinct_keys_counter: "distinct (dict_keys (counter xs))"
  using dict_count.distinct_keys_tally [of "[]" xs]
  by (simp add: counter_def count_all_def get_default_def)

lemma dict_get_counter:
  "dict_get (counter xs) k = (if k \<in> set xs then Some (count_list xs k) else None)"
proof (cases "dict_get (counter xs) k")
  case None
  then have "k \<notin> set xs"
    using set_keys_counter [of xs] by (simp add: map_of_eq_None_iff)
  with None show ?thesis by simp
next
  case (Some n)
  then have "k \<in> set (dict_keys (counter xs))"
    by (force dest: map_of_SomeD)
  with Some show ?thesis
    using get_default_counter [of xs k] by (simp add: get_default_def set_keys_counter del: set_map)
qed

lemma mem_counter_iff: "(k, n) \<in> set (counter xs) \<longleftrightarrow> k \<in> set xs \<and> n = count_list xs k"
  using map_of_eq_Some_iff [OF distinct_keys_counter, of xs k n]
  by (auto simp: dict_get_counter split: if_splits)

subsection \<open>Lists\<close>

lemma count_list_0_iff: "count_list xs x = 0 \<longleftrightarrow> x \<notin> set xs"
  by (induction xs) auto

lemma sort_key_strict: "distinct (map f xs) \<Longrightarrow> sorted_wrt (<) (map f (sort_key f xs))"
proof -
  assume "distinct (map f xs)"
  then have "distinct (map f (sort_key f xs))"
    by (simp add: distinct_map)
  then show ?thesis by (simp add: strict_sorted_iff)
qed

lemma length_takeWhile_dropWhile: "length (takeWhile P xs) + length (dropWhile P xs) = length xs"
  by (metis length_append takeWhile_dropWhile_id)

lemma set_dropWhile_subset: "set (dropWhile P xs) \<subseteq> set xs"
  using set_dropWhileD by fastforce

lemma set_takeWhile_subset: "set (takeWhile P xs) \<subseteq> set xs"
  by (auto dest: set_takeWhileD)

lemma dropWhile_Cons_False: "dropWhile P xs = x # ys \<Longrightarrow> \<not> P x"
  by (metis dropWhile_eq_Cons_conv)

lemma set_rev_dropWhile_subset: "set (rev (dropWhile P (rev xs))) \<subseteq> set xs"
  using set_dropWhile_subset [of P "rev xs"] by simp

end
