(* ===== verification/PyText.thy ===== *)
theory PyText
  imports Prelude
begin

section \<open>The text operations of the standard library\<close>

text \<open>
  The methods of \<open>str\<close> the code calls, on lists of code points, each as a total function with the
  edge cases of the Python method. What depends on the Unicode character database (case mapping,
  \<open>isalnum\<close>, \<open>isprintable\<close>) is a record of functions the definitions take; its fields are data of
  the interpreter, not code of the repository. The locale \<open>unicode_case\<close> names the part of its
  documented behaviour the development relies on: on ASCII text the case mappings are the ASCII ones.
\<close>

subsection \<open>Character classes\<close>

definition is_space :: "int \<Rightarrow> bool" where
  "is_space c \<longleftrightarrow> 9 \<le> c \<and> c \<le> 13 \<or> 28 \<le> c \<and> c \<le> 32 \<or> c = 133 \<or> c = 160 \<or> c = 5760 \<or>
     8192 \<le> c \<and> c \<le> 8202 \<or> c = 8232 \<or> c = 8233 \<or> c = 8239 \<or> c = 8287 \<or> c = 12288"

text \<open>What \<open>int\<close> and \<open>float\<close> skip around a number: whitespace except the four separators 28 to 31.\<close>

definition is_number_space :: "int \<Rightarrow> bool" where
  "is_number_space c \<longleftrightarrow> is_space c \<and> \<not> (28 \<le> c \<and> c \<le> 31)"

definition is_digit :: "int \<Rightarrow> bool" where
  "is_digit c \<longleftrightarrow> 48 \<le> c \<and> c \<le> 57"

definition is_lower :: "int \<Rightarrow> bool" where
  "is_lower c \<longleftrightarrow> 97 \<le> c \<and> c \<le> 122"

definition is_upper :: "int \<Rightarrow> bool" where
  "is_upper c \<longleftrightarrow> 65 \<le> c \<and> c \<le> 90"

definition is_ascii_alnum :: "int \<Rightarrow> bool" where
  "is_ascii_alnum c \<longleftrightarrow> is_digit c \<or> is_lower c \<or> is_upper c"

definition is_ascii :: "ustr \<Rightarrow> bool" where
  "is_ascii s \<longleftrightarrow> list_all (\<lambda>c. 0 \<le> c \<and> c < 128) s"

definition lower_cp :: "int \<Rightarrow> int" where
  "lower_cp c = (if is_upper c then c + 32 else c)"

definition upper_cp :: "int \<Rightarrow> int" where
  "upper_cp c = (if is_lower c then c - 32 else c)"

definition ascii_lower :: "ustr \<Rightarrow> ustr" where
  "ascii_lower = map lower_cp"

definition ascii_upper :: "ustr \<Rightarrow> ustr" where
  "ascii_upper = map upper_cp"

lemmas char_defs = is_digit_def is_lower_def is_upper_def is_ascii_alnum_def lower_cp_def upper_cp_def

lemma length_ascii_lower [simp]: "length (ascii_lower s) = length s"
  by (simp add: ascii_lower_def)

lemma is_ascii_simps [simp]:
  "is_ascii []"
  "is_ascii (c # s) \<longleftrightarrow> 0 \<le> c \<and> c < 128 \<and> is_ascii s"
  "is_ascii (s @ t) \<longleftrightarrow> is_ascii s \<and> is_ascii t"
  by (auto simp: is_ascii_def)

lemma is_ascii_set: "is_ascii s \<longleftrightarrow> (\<forall>c \<in> set s. 0 \<le> c \<and> c < 128)"
  by (simp add: is_ascii_def list_all_iff)

lemma is_ascii_lower [simp]: "is_ascii s \<Longrightarrow> is_ascii (ascii_lower s)"
  by (auto simp: is_ascii_set ascii_lower_def char_defs)

lemma lower_cp_idem [simp]: "lower_cp (lower_cp c) = lower_cp c"
  by (auto simp: char_defs)

lemma ascii_lower_idem [simp]: "ascii_lower (ascii_lower s) = ascii_lower s"
  by (simp add: ascii_lower_def)

subsection \<open>Stripping\<close>

definition rstrip_by :: "(int \<Rightarrow> bool) \<Rightarrow> ustr \<Rightarrow> ustr" where
  "rstrip_by P s = rev (dropWhile P (rev s))"

definition strip_by :: "(int \<Rightarrow> bool) \<Rightarrow> ustr \<Rightarrow> ustr" where
  "strip_by P s = rstrip_by P (dropWhile P s)"

definition py_rstrip :: "ustr \<Rightarrow> ustr" where
  "py_rstrip s = rstrip_by is_space s"

definition py_lstrip :: "ustr \<Rightarrow> ustr" where
  "py_lstrip s = dropWhile is_space s"

definition py_strip :: "ustr \<Rightarrow> ustr" where
  "py_strip s = strip_by is_space s"

lemma rstrip_by_Nil [simp]: "rstrip_by P [] = []"
  by (simp add: rstrip_by_def)

lemma length_rstrip_by: "length (rstrip_by P s) \<le> length s"
  using length_dropWhile_le [of P "rev s"] by (simp add: rstrip_by_def)

lemma length_strip_by: "length (strip_by P s) \<le> length s"
  using length_rstrip_by [of P "dropWhile P s"] length_dropWhile_le [of P s]
  by (simp add: strip_by_def)

lemma length_py_strip: "length (py_strip s) \<le> length s"
  by (simp add: py_strip_def length_strip_by)

lemma set_rstrip_by: "set (rstrip_by P s) \<subseteq> set s"
  by (simp add: rstrip_by_def set_rev_dropWhile_subset del: set_rev)

lemma set_strip_by: "set (strip_by P s) \<subseteq> set s"
  unfolding strip_by_def using set_rstrip_by [of P "dropWhile P s"] set_dropWhile_subset [of P s] by blast

lemma set_py_strip: "set (py_strip s) \<subseteq> set s"
  by (simp add: py_strip_def set_strip_by)

lemma rstrip_by_Nil_iff: "rstrip_by P s = [] \<longleftrightarrow> (\<forall>c \<in> set s. P c)"
  by (simp add: rstrip_by_def dropWhile_eq_Nil_conv)

lemma strip_by_Nil_iff: "strip_by P s = [] \<longleftrightarrow> (\<forall>c \<in> set s. P c)"
proof (cases "dropWhile P s")
  case Nil
  then have "\<forall>c \<in> set s. P c" by (simp add: dropWhile_eq_Nil_conv)
  moreover from Nil have "strip_by P s = []" by (simp only: strip_by_def rstrip_by_Nil)
  ultimately show ?thesis by simp
next
  case (Cons c t)
  then have "\<not> P c" and "c \<in> set s"
    using set_dropWhile_subset [of P s] by (auto dest: dropWhile_Cons_False)
  with Cons show ?thesis by (auto simp: strip_by_def rstrip_by_Nil_iff)
qed

lemma rstrip_by_snoc: "rstrip_by P (s @ [c]) = (if P c then rstrip_by P s else s @ [c])"
  by (simp add: rstrip_by_def)

lemma rstrip_by_id: "s = [] \<or> \<not> P (last s) \<Longrightarrow> rstrip_by P s = s"
  by (cases s rule: rev_cases) (auto simp: rstrip_by_snoc)

lemma strip_by_id: "s = [] \<or> \<not> P (hd s) \<and> \<not> P (last s) \<Longrightarrow> strip_by P s = s"
  by (cases s) (auto simp: strip_by_def rstrip_by_id)

subsection \<open>Prefixes, suffixes and searching\<close>

definition starts_with :: "ustr \<Rightarrow> ustr \<Rightarrow> bool" where
  "starts_with s p \<longleftrightarrow> prefix p s"

definition ends_with :: "ustr \<Rightarrow> ustr \<Rightarrow> bool" where
  "ends_with s p \<longleftrightarrow> suffix p s"

definition contains :: "ustr \<Rightarrow> ustr \<Rightarrow> bool" where
  "contains s p \<longleftrightarrow> sublist p s"

text \<open>\<open>s[:-n]\<close> for a positive \<open>n\<close>.\<close>

definition drop_last :: "nat \<Rightarrow> ustr \<Rightarrow> ustr" where
  "drop_last n s = take (length s - n) s"

lemma length_drop_last [simp]: "length (drop_last n s) = length s - n"
  by (simp add: drop_last_def)

lemma set_drop_last: "set (drop_last n s) \<subseteq> set s"
  by (simp add: drop_last_def set_take_subset)

lemma ends_with_length: "ends_with s p \<Longrightarrow> length p \<le> length s"
  by (auto simp: ends_with_def dest: suffix_length_le)

lemma drop_last_suffix: "ends_with s p \<Longrightarrow> drop_last (length p) s @ p = s"
  by (auto simp: ends_with_def suffix_def drop_last_def)

lemma ends_with_code [simp]: "ends_with (s @ p) p"
  by (simp add: ends_with_def suffix_def)

fun find_from :: "nat \<Rightarrow> ustr \<Rightarrow> ustr \<Rightarrow> nat option" where
  "find_from i s [] = (if s = [] then Some i else None)"
| "find_from i s (c # t) = (if prefix s (c # t) then Some i else find_from (Suc i) s t)"

text \<open>\<open>text.find(token)\<close>: the index of the first occurrence, \<open>None\<close> for the code's \<open>-1\<close>.\<close>

definition str_find :: "ustr \<Rightarrow> ustr \<Rightarrow> nat option" where
  "str_find text token = find_from 0 token text"

lemma find_from_shift: "find_from i s t = map_option (\<lambda>j. i + j) (find_from 0 s t)"
proof (induction t arbitrary: i)
  case (Cons c t)
  show ?case
    using Cons.IH [of "Suc i"] Cons.IH [of "Suc 0"]
    by (cases "find_from 0 s t") auto
qed simp

lemma str_find_Some: "str_find t s = Some i \<Longrightarrow> take (length s) (drop i t) = s \<and> i + length s \<le> length t"
proof (induction t arbitrary: i)
  case Nil
  then show ?case by (auto simp: str_find_def split: if_splits)
next
  case (Cons c t)
  show ?case
  proof (cases "prefix s (c # t)")
    case True
    with Cons.prems have "i = 0" by (simp add: str_find_def)
    with True prefix_length_le [OF True] show ?thesis by (auto simp: prefix_def)
  next
    case False
    with Cons.prems obtain j where "str_find t s = Some j" and i: "i = Suc j"
      by (auto simp: str_find_def find_from_shift [of "Suc 0"])
    with Cons.IH show ?thesis by auto
  qed
qed

lemma str_find_None_iff: "str_find t s = None \<longleftrightarrow> \<not> contains t s"
proof (induction t)
  case Nil
  then show ?case by (auto simp: str_find_def contains_def)
next
  case (Cons c t)
  then show ?case
    by (auto simp: str_find_def contains_def find_from_shift [of "Suc 0"] sublist_Cons_right)
qed

subsection \<open>Splitting and joining\<close>

text \<open>\<open>s.split(c, 1)\<close> and \<open>s.partition(c)\<close> for a one-character separator: \<open>None\<close> is "no separator".\<close>

definition split_once :: "int \<Rightarrow> ustr \<Rightarrow> ustr \<times> ustr option" where
  "split_once c s = (takeWhile (\<lambda>x. x \<noteq> c) s,
     case dropWhile (\<lambda>x. x \<noteq> c) s of [] \<Rightarrow> None | _ # t \<Rightarrow> Some t)"

lemma split_once_Some: "split_once c s = (a, Some b) \<Longrightarrow> s = a @ c # b \<and> c \<notin> set a"
proof -
  assume h: "split_once c s = (a, Some b)"
  then obtain d t where dw: "dropWhile (\<lambda>x. x \<noteq> c) s = d # t" and b: "b = t"
    and a: "a = takeWhile (\<lambda>x. x \<noteq> c) s"
    by (auto simp: split_once_def split: list.splits)
  have "d = c" using dropWhile_Cons_False [OF dw] by simp
  moreover have "s = a @ d # t"
    using takeWhile_dropWhile_id [of "\<lambda>x. x \<noteq> c" s] dw a by simp
  moreover have "c \<notin> set a" using a by (auto dest: set_takeWhileD)
  ultimately show ?thesis using b by simp
qed

lemma split_once_None: "split_once c s = (a, None) \<longleftrightarrow> c \<notin> set s \<and> a = s"
proof -
  have "dropWhile (\<lambda>x. x \<noteq> c) s = [] \<longleftrightarrow> c \<notin> set s"
    by (auto simp: dropWhile_eq_Nil_conv)
  moreover have "c \<notin> set s \<Longrightarrow> takeWhile (\<lambda>x. x \<noteq> c) s = s"
    by (auto simp: takeWhile_eq_all_conv)
  ultimately show ?thesis
    by (cases "dropWhile (\<lambda>x. x \<noteq> c) s") (auto simp: split_once_def simp del: dropWhile_eq_Nil_conv)
qed

lemma split_once_app: "c \<notin> set a \<Longrightarrow> split_once c (a @ c # b) = (a, Some b)"
proof -
  assume "c \<notin> set a"
  then have "\<And>x. x \<in> set a \<Longrightarrow> x \<noteq> c" by auto
  then show ?thesis
    by (simp add: split_once_def takeWhile_append2 dropWhile_append2)
qed

lemma length_fst_split_once: "length (fst (split_once c s)) \<le> length s"
  by (simp add: split_once_def length_takeWhile_le)

text \<open>\<open>s.split(c)\<close> for a one-character separator.\<close>

fun split_on :: "(int \<Rightarrow> bool) \<Rightarrow> ustr \<Rightarrow> ustr list" where
  "split_on P [] = [[]]"
| "split_on P (c # s) = (if P c then [] # split_on P s
     else (case split_on P s of [] \<Rightarrow> [[c]] | w # ws \<Rightarrow> (c # w) # ws))"

lemma split_on_nonempty [simp]: "split_on P s \<noteq> []"
  by (cases s) (auto split: list.splits)

lemma split_on_mem: "w \<in> set (split_on P s) \<Longrightarrow> set w \<subseteq> {c \<in> set s. \<not> P c} \<and> length w \<le> length s"
proof (induction s arbitrary: w)
  case (Cons c s)
  show ?case
  proof (cases "P c")
    case True
    with Cons.prems consider "w = []" | "w \<in> set (split_on P s)" by auto
    then show ?thesis using Cons.IH by cases (auto intro: le_SucI)
  next
    case False
    obtain v vs where v: "split_on P s = v # vs"
      by (cases "split_on P s") auto
    with False Cons.prems consider "w = c # v" | "w \<in> set vs" by auto
    then show ?thesis
      using Cons.IH [of v] Cons.IH [of w] v False by cases (auto intro: le_SucI)
  qed
qed auto

text \<open>\<open>s.split()\<close>: the maximal runs of non-whitespace.\<close>

definition split_ws :: "ustr \<Rightarrow> ustr list" where
  "split_ws s = filter (\<lambda>w. w \<noteq> []) (split_on is_space s)"

lemma split_ws_mem: "w \<in> set (split_ws s) \<Longrightarrow> w \<noteq> [] \<and> (\<forall>c \<in> set w. c \<in> set s \<and> \<not> is_space c)"
  by (auto simp: split_ws_def dest: split_on_mem)

fun join :: "ustr \<Rightarrow> ustr list \<Rightarrow> ustr" where
  "join sep [] = []"
| "join sep [x] = x"
| "join sep (x # y # xs) = x @ sep @ join sep (y # xs)"

text \<open>\<open>splitlines()\<close>, and the lines a text file yields, with their line feeds.\<close>

definition is_line_break :: "int \<Rightarrow> bool" where
  "is_line_break c \<longleftrightarrow> 10 \<le> c \<and> c \<le> 13 \<or> 28 \<le> c \<and> c \<le> 30 \<or> c = 133 \<or> c = 8232 \<or> c = 8233"

fun break_lines :: "(int \<Rightarrow> bool) \<Rightarrow> ustr \<Rightarrow> ustr list" where
  "break_lines P [] = []"
| "break_lines P [c] = (if P c then [[]] else [[c]])"
| "break_lines P (c # d # s) =
     (if P c then [] # (if c = 13 \<and> d = 10 then break_lines P s else break_lines P (d # s))
      else (case break_lines P (d # s) of [] \<Rightarrow> [[c]] | w # ws \<Rightarrow> (c # w) # ws))"

definition splitlines :: "ustr \<Rightarrow> ustr list" where
  "splitlines s = break_lines is_line_break s"

fun file_lines :: "ustr \<Rightarrow> ustr list" where
  "file_lines [] = []"
| "file_lines [c] = [[if c = 13 then 10 else c]]"
| "file_lines (c # d # s) =
     (if c = 13 \<and> d = 10 then [10] # file_lines s
      else if c = 10 \<or> c = 13 then [10] # file_lines (d # s)
      else (case file_lines (d # s) of [] \<Rightarrow> [[c]] | w # ws \<Rightarrow> (c # w) # ws))"

subsection \<open>Numbers as text\<close>

fun show_nat :: "nat \<Rightarrow> ustr" where
  "show_nat n = (if n < 10 then [48 + int n] else show_nat (n div 10) @ [48 + int (n mod 10)])"

declare show_nat.simps [simp del]

definition show_int :: "int \<Rightarrow> ustr" where
  "show_int i = (if i < 0 then 45 # show_nat (nat (- i)) else show_nat (nat i))"

definition digits_value :: "ustr \<Rightarrow> int" where
  "digits_value s = foldl (\<lambda>a c. 10 * a + (c - 48)) 0 s"

lemma digits_value_snoc: "digits_value (s @ [c]) = 10 * digits_value s + (c - 48)"
  by (simp add: digits_value_def)

lemma show_nat_nonempty [simp]: "show_nat n \<noteq> []"
  by (subst show_nat.simps) simp

lemma show_nat_digits: "c \<in> set (show_nat n) \<Longrightarrow> is_digit c"
proof (induction n rule: show_nat.induct)
  case (1 n)
  then show ?case
    by (cases "n < 10") (auto simp: show_nat.simps [of n] is_digit_def)
qed

lemma digits_value_show_nat: "digits_value (show_nat n) = int n"
proof (induction n rule: show_nat.induct)
  case (1 n)
  show ?case
  proof (cases "n < 10")
    case True
    then show ?thesis by (simp add: show_nat.simps [of n] digits_value_def)
  next
    case False
    with "1" have "digits_value (show_nat n) = 10 * int (n div 10) + int (n mod 10)"
      by (simp add: show_nat.simps [of n] digits_value_snoc)
    moreover have "10 * int (n div 10) + int (n mod 10) = int n" by presburger
    ultimately show ?thesis by simp
  qed
qed

lemma digits_value_nonneg: "list_all is_digit s \<Longrightarrow> 0 \<le> digits_value s"
  by (induction s rule: rev_induct) (auto simp: digits_value_snoc is_digit_def digits_value_def [of "[]"])

text \<open>
  \<open>int(s)\<close> on text: surrounding whitespace, a sign, and digits with single underscores between them.
\<close>

fun digit_groups :: "ustr \<Rightarrow> bool" where
  "digit_groups [] = False"
| "digit_groups [c] = is_digit c"
| "digit_groups (c # d # s) = (is_digit c \<and> (if d = 95 then digit_groups s else digit_groups (d # s)))"

definition parse_unsigned :: "ustr \<Rightarrow> int option" where
  "parse_unsigned s = (if digit_groups s then Some (digits_value (filter is_digit s)) else None)"

definition int_of_str :: "ustr \<Rightarrow> int option" where
  "int_of_str s = (case strip_by is_number_space s of
     [] \<Rightarrow> None
   | c # t \<Rightarrow> if c = 45 then map_option uminus (parse_unsigned t)
             else if c = 43 then parse_unsigned t else parse_unsigned (c # t))"

lemma digit_groups_digits: "s \<noteq> [] \<Longrightarrow> list_all is_digit s \<Longrightarrow> digit_groups s"
  by (induction s rule: digit_groups.induct) (auto simp: is_digit_def)

lemma parse_unsigned_show_nat: "parse_unsigned (show_nat n) = Some (int n)"
proof -
  have d: "list_all is_digit (show_nat n)" by (simp add: list_all_iff show_nat_digits)
  then have "filter is_digit (show_nat n) = show_nat n"
    by (simp add: list_all_iff)
  with d show ?thesis
    by (simp add: parse_unsigned_def digit_groups_digits digits_value_show_nat)
qed

lemma digit_not_space: "is_digit c \<Longrightarrow> \<not> is_space c"
  by (auto simp: is_digit_def is_space_def)

lemma int_of_str_show_int: "int_of_str (show_int i) = Some i"
proof -
  have nosp: "c \<in> set (show_int i) \<Longrightarrow> \<not> is_number_space c" for c
    by (auto simp: show_int_def is_number_space_def is_space_def is_digit_def dest!: show_nat_digits split: if_splits)
  then have s: "strip_by is_number_space (show_int i) = show_int i"
    by (intro strip_by_id) (metis hd_in_set last_in_set)
  show ?thesis
  proof (cases "i < 0")
    case True
    with s show ?thesis
      by (simp add: int_of_str_def show_int_def parse_unsigned_show_nat)
  next
    case False
    obtain c t where ct: "show_nat (nat i) = c # t"
      by (cases "show_nat (nat i)") auto
    then have "is_digit c" using show_nat_digits [of c "nat i"] by simp
    with False s ct show ?thesis
      using parse_unsigned_show_nat [of "nat i"]
      by (simp add: int_of_str_def show_int_def is_digit_def split: if_splits)
  qed
qed

subsection \<open>The Unicode character database\<close>

record unidb =
  u_lower :: "ustr \<Rightarrow> ustr"
  u_upper :: "ustr \<Rightarrow> ustr"
  u_alnum :: "int \<Rightarrow> bool"
  u_print :: "int \<Rightarrow> bool"
  u_decimal :: "int \<Rightarrow> int option"

locale unicode_case =
  fixes lower upper :: "ustr \<Rightarrow> ustr"
  assumes lower_ascii: "is_ascii s \<Longrightarrow> lower s = ascii_lower s"
    and upper_ascii: "is_ascii s \<Longrightarrow> upper s = ascii_upper s"
begin

lemma lower_ascii_idem: "is_ascii s \<Longrightarrow> lower (lower s) = lower s"
  by (simp add: lower_ascii)

lemma lower_ascii_length: "is_ascii s \<Longrightarrow> length (lower s) = length s"
  by (simp add: lower_ascii)

end

text \<open>
  The database restricted to ASCII. It is what the tokenizer uses after it has replaced or refused
  every other code point, and the concrete database of the examples.
\<close>

text \<open>\<open>int\<close> and \<open>Decimal\<close> accept every decimal digit of Unicode: it is replaced by its ASCII digit first.\<close>

definition ascii_digit :: "unidb \<Rightarrow> int \<Rightarrow> int" where
  "ascii_digit U c = (if c < 128 then c else case u_decimal U c of Some d \<Rightarrow> 48 + d | None \<Rightarrow> c)"

definition int_text :: "unidb \<Rightarrow> ustr \<Rightarrow> int option" where
  "int_text U s = int_of_str (map (ascii_digit U) s)"

lemma ascii_digit_id: "\<forall>c \<in> set s. c < 128 \<Longrightarrow> map (ascii_digit U) s = s"
  by (induction s) (auto simp: ascii_digit_def)

lemma show_int_ascii: "c \<in> set (show_int i) \<Longrightarrow> is_digit c \<or> c = 45"
  by (auto simp: show_int_def dest!: show_nat_digits split: if_splits)

lemma int_text_show_int [simp]: "int_text U (show_int i) = Some i"
proof -
  have "map (ascii_digit U) (show_int i) = show_int i"
    by (rule ascii_digit_id) (auto simp: is_digit_def dest!: show_int_ascii)
  then show ?thesis by (simp add: int_text_def int_of_str_show_int)
qed

definition ascii_db :: unidb where
  "ascii_db = \<lparr>u_lower = ascii_lower, u_upper = ascii_upper, u_alnum = is_ascii_alnum,
     u_print = (\<lambda>c. 32 \<le> c \<and> c < 127), u_decimal = (\<lambda>c. if is_digit c then Some (c - 48) else None)\<rparr>"

interpretation ascii_case: unicode_case ascii_lower ascii_upper
  by unfold_locales simp_all

end
