(* ===== verification/Rounding.thy ===== *)
theory Rounding
  imports Complex_Main Prelude
begin

section \<open>Rounding to a fixed number of digits\<close>

text \<open>
  The arithmetic of \<open>decimal\<close> (28 decimal digits) and of \<open>float\<close> (53 binary digits) returns the exact
  result rounded half-to-even to the format's precision. \<open>rnd b p x\<close> is that rounding on rationals,
  for base \<open>b\<close> and precision \<open>p\<close>. The exponent range of the formats (overflow, subnormal numbers)
  is not modelled.

  The facts the components need are proved once, in a locale over base and precision, and the two
  formats the code uses are its interpretations.
\<close>

subsection \<open>Rounding to an integer\<close>

definition round_half_even :: "rat \<Rightarrow> int" where
  "round_half_even q = (let f = \<lfloor>q\<rfloor>; d = q - of_int f
     in if d < 1/2 then f else if 1/2 < d then f + 1 else if even f then f else f + 1)"

definition round_half_up :: "rat \<Rightarrow> int" where
  "round_half_up q = (if 0 \<le> q then \<lfloor>q + 1/2\<rfloor> else - \<lfloor>- q + 1/2\<rfloor>)"

text \<open>\<open>int(x)\<close> on a number truncates towards zero.\<close>

definition trunc :: "rat \<Rightarrow> int" where
  "trunc q = (if 0 \<le> q then \<lfloor>q\<rfloor> else - \<lfloor>- q\<rfloor>)"

lemma round_half_even_of_int [simp]: "round_half_even (of_int n) = n"
  by (simp add: round_half_even_def)

lemma round_half_even_bounds: "\<lfloor>q\<rfloor> \<le> round_half_even q" "round_half_even q \<le> \<lfloor>q\<rfloor> + 1"
  by (auto simp: round_half_even_def Let_def)

lemma round_half_even_mono:
  assumes "x \<le> y" shows "round_half_even x \<le> round_half_even y"
proof (cases "\<lfloor>x\<rfloor> = \<lfloor>y\<rfloor>")
  case True
  with assms show ?thesis
    by (auto simp: round_half_even_def Let_def)
next
  case False
  with floor_mono [OF assms] have "\<lfloor>x\<rfloor> + 1 \<le> \<lfloor>y\<rfloor>" by simp
  with round_half_even_bounds [of x] round_half_even_bounds [of y] show ?thesis by linarith
qed

lemma round_half_even_uminus: "round_half_even (- q) = - round_half_even q"
proof (cases "q = of_int \<lfloor>q\<rfloor>")
  case True
  then show ?thesis by (metis of_int_minus round_half_even_of_int)
next
  case False
  have "\<lfloor>- q\<rfloor> = - \<lfloor>q\<rfloor> - 1"
    using False by (intro floor_unique) (linarith | metis floor_correct)+
  then show ?thesis
    by (auto simp: round_half_even_def Let_def)
qed

lemma round_half_even_le: "q \<le> of_int n \<Longrightarrow> round_half_even q \<le> n"
  using round_half_even_mono [of q "of_int n"] by simp

lemma round_half_even_ge: "of_int n \<le> q \<Longrightarrow> n \<le> round_half_even q"
  using round_half_even_mono [of "of_int n" q] by simp

lemma round_half_even_error: "\<bar>of_int (round_half_even q) - q\<bar> \<le> 1 / 2"
proof -
  define d where "d = q - of_int \<lfloor>q\<rfloor>"
  have "0 \<le> d" "d < 1" "q = of_int \<lfloor>q\<rfloor> + d"
    using of_int_floor_le [of q] floor_correct [of q] by (simp_all add: d_def)
  then show ?thesis
    unfolding round_half_even_def Let_def d_def [symmetric] by (auto simp: abs_if)
qed

lemma round_half_up_nonneg: "0 \<le> q \<Longrightarrow> 0 \<le> round_half_up q"
  by (simp add: round_half_up_def)

lemma trunc_nonneg: "0 \<le> q \<Longrightarrow> 0 \<le> trunc q"
  by (simp add: trunc_def)

lemma trunc_mono: "0 \<le> x \<Longrightarrow> x \<le> y \<Longrightarrow> trunc x \<le> trunc y"
  by (simp add: trunc_def floor_mono)

lemma trunc_of_int [simp]: "trunc (of_int n) = n"
  by (simp add: trunc_def flip: of_int_minus)

subsection \<open>The exponent of a positive number\<close>

lemma floor_div_less:
  fixes x :: rat
  assumes b: "2 \<le> b" and x: "of_nat b \<le> x"
  shows "nat \<lfloor>x / of_nat b\<rfloor> < nat \<lfloor>x\<rfloor>"
proof -
  from b have b2: "(2::rat) \<le> of_nat b" by (metis of_nat_le_iff of_nat_numeral)
  with x have "2 \<le> x" by linarith
  moreover have "x / of_nat b \<le> x / 2"
    using b2 \<open>2 \<le> x\<close> by (intro divide_left_mono) auto
  ultimately have "of_int \<lfloor>x / of_nat b\<rfloor> \<le> x - 1"
    using of_int_floor_le [of "x / of_nat b"] by linarith
  then have "\<lfloor>x / of_nat b\<rfloor> \<le> \<lfloor>x - 1\<rfloor>" by (simp only: le_floor_iff)
  then show "nat \<lfloor>x / of_nat b\<rfloor> < nat \<lfloor>x\<rfloor>"
    using \<open>2 \<le> x\<close> by simp
qed

function ilog_up :: "nat \<Rightarrow> rat \<Rightarrow> int" where
  "ilog_up b x = (if 2 \<le> b \<and> of_nat b \<le> x then 1 + ilog_up b (x / of_nat b) else 0)"
  by pat_completeness auto
termination
  by (relation "measure (\<lambda>(b, x). nat \<lfloor>x\<rfloor>)") (auto dest: floor_div_less)

lemma ceiling_div_less:
  fixes y :: rat
  assumes b: "2 \<le> b" and y: "1 < y"
  shows "nat \<lceil>y / of_nat b\<rceil> < nat \<lceil>y\<rceil>"
proof -
  define n where "n = \<lceil>y\<rceil>"
  from b have b2: "(2::rat) \<le> of_nat b" by (metis of_nat_le_iff of_nat_numeral)
  from y have n2: "2 \<le> n" by (simp add: n_def le_ceiling_iff)
  then have n2': "(2::rat) \<le> of_int n" by (metis of_int_le_iff of_int_numeral)
  have "y / of_nat b \<le> y / 2"
    using b2 y by (intro divide_left_mono) auto
  also have "\<dots> \<le> of_int n / 2"
    by (simp add: n_def)
  also have "\<dots> \<le> of_int (n - 1)"
    using n2' by simp
  finally have "\<lceil>y / of_nat b\<rceil> \<le> n - 1"
    by (simp only: ceiling_le_iff)
  with n2 show "nat \<lceil>y / of_nat b\<rceil> < nat \<lceil>y\<rceil>"
    by (simp add: n_def)
qed

function ilog_ceil :: "nat \<Rightarrow> rat \<Rightarrow> int" where
  "ilog_ceil b y = (if 2 \<le> b \<and> 1 < y then 1 + ilog_ceil b (y / of_nat b) else 0)"
  by pat_completeness auto
termination
  by (relation "measure (\<lambda>(b, y). nat \<lceil>y\<rceil>)") (auto dest: ceiling_div_less)

declare ilog_up.simps [simp del] ilog_ceil.simps [simp del]

definition ilog :: "nat \<Rightarrow> rat \<Rightarrow> int" where
  "ilog b x = (if 1 \<le> x then ilog_up b x else - ilog_ceil b (1 / x))"

definition rnd :: "nat \<Rightarrow> nat \<Rightarrow> rat \<Rightarrow> rat" where
  "rnd b p x = (if x = 0 then 0
     else let e = ilog b \<bar>x\<bar> + 1 - int p
          in of_int (round_half_even (x / of_nat b powi e)) * of_nat b powi e)"

subsection \<open>The format locale\<close>

lemma ilog_up_bounds:
  assumes "2 \<le> b" "1 \<le> x"
  shows "0 \<le> ilog_up b x \<and> of_nat b powi ilog_up b x \<le> x \<and> x < of_nat b powi (ilog_up b x + 1)"
  using assms
proof (induction b x rule: ilog_up.induct)
  case (1 b x)
  have b0: "(0::rat) < of_nat b" using "1.prems" by simp
  show ?case
  proof (cases "of_nat b \<le> x")
    case True
    with b0 have "1 \<le> x / of_nat b" by simp
    with "1" True have IH: "0 \<le> ilog_up b (x / of_nat b)"
      "of_nat b powi ilog_up b (x / of_nat b) \<le> x / of_nat b"
      "x / of_nat b < of_nat b powi (ilog_up b (x / of_nat b) + 1)"
      by auto
    from True "1.prems" have e: "ilog_up b x = ilog_up b (x / of_nat b) + 1"
      by (simp add: ilog_up.simps [of b x])
    from IH b0 show ?thesis
      unfolding e
      by (simp add: power_int_add pos_le_divide_eq pos_divide_less_eq power2_eq_square mult_ac)
  next
    case False
    with "1.prems" show ?thesis by (simp add: ilog_up.simps [of b x])
  qed
qed

lemma ilog_ceil_bounds:
  assumes "2 \<le> b" "1 \<le> y"
  shows "0 \<le> ilog_ceil b y \<and> y \<le> of_nat b powi ilog_ceil b y \<and> of_nat b powi (ilog_ceil b y - 1) < y"
  using assms
proof (induction b y rule: ilog_ceil.induct)
  case (1 b y)
  have b0: "(0::rat) < of_nat b" "(1::rat) < of_nat b" using "1.prems" by simp_all
  have pm: "of_nat b powi (k - 1) = of_nat b powi k / (of_nat b :: rat)" for k
    using b0 by (simp add: power_int_diff)
  show ?case
  proof (cases "1 < y / of_nat b")
    case True
    with b0 "1.prems" have y: "1 < y" by (simp add: pos_less_divide_eq) 
    with "1" True have IH: "0 \<le> ilog_ceil b (y / of_nat b)"
      "y / of_nat b \<le> of_nat b powi ilog_ceil b (y / of_nat b)"
      "of_nat b powi (ilog_ceil b (y / of_nat b) - 1) < y / of_nat b"
      by auto
    from y "1.prems" have e: "ilog_ceil b y = ilog_ceil b (y / of_nat b) + 1"
      by (simp add: ilog_ceil.simps [of b y])
    from IH b0 show ?thesis
      unfolding e pm by (simp add: power_int_add pos_divide_le_eq pos_less_divide_eq pm)
  next
    case False
    then have z: "ilog_ceil b (y / of_nat b) = 0" by (simp add: ilog_ceil.simps [of b "y / of_nat b"])
    show ?thesis
    proof (cases "1 < y")
      case True
      with "1.prems" z have "ilog_ceil b y = 1" by (simp add: ilog_ceil.simps [of b y])
      with False True b0 show ?thesis by (simp add: pos_less_divide_eq)
    next
      case False
      with "1.prems" have y1: "y = 1" by simp
      then have "ilog_ceil b y = 0" by (subst ilog_ceil.simps) simp
      moreover have "of_nat b powi (0 - 1) < (1::rat)"
        unfolding pm using b0 by simp
      ultimately show ?thesis using y1 by simp
    qed
  qed
qed

lemma ilog_bounds:
  assumes b: "2 \<le> b" and x: "0 < x"
  shows "of_nat b powi ilog b x \<le> x" "x < of_nat b powi (ilog b x + 1)"
proof -
  have b0: "(0::rat) < of_nat b" using b by simp
  have "of_nat b powi ilog b x \<le> x \<and> x < of_nat b powi (ilog b x + 1)"
  proof (cases "1 \<le> x")
    case True
    with ilog_up_bounds [OF b] show ?thesis by (simp add: ilog_def)
  next
    case False
    let ?k = "ilog_ceil b (1 / x)"
    from False x have "1 \<le> 1 / x" by simp
    from ilog_ceil_bounds [OF b this]
    have "1 / x \<le> of_nat b powi ?k" "of_nat b powi (?k - 1) < 1 / x" by auto
    then have "1 / of_nat b powi ?k \<le> x" "x < 1 / of_nat b powi (?k - 1)"
      using x b0 by (simp_all add: field_simps)
    moreover have "1 / of_nat b powi ?k = (of_nat b :: rat) powi (- ?k)"
      "1 / of_nat b powi (?k - 1) = (of_nat b :: rat) powi (- ?k + 1)"
      by (simp_all add: power_int_minus_divide flip: power_int_minus_divide)
    ultimately show ?thesis using False by (simp add: ilog_def)
  qed
  then show "of_nat b powi ilog b x \<le> x" "x < of_nat b powi (ilog b x + 1)" by auto
qed

locale float_format =
  fixes b p :: nat
  assumes base: "2 \<le> b" and prec: "1 \<le> p"
begin

lemma b_pos: "(0::rat) < of_nat b" "(1::rat) < of_nat b"
  using base by simp_all

lemma powi_pos [simp]: "(0::rat) < of_nat b powi k"
  using b_pos by simp

lemma rnd_0 [simp]: "rnd b p 0 = 0"
  by (simp add: rnd_def)

lemma rnd_uminus: "rnd b p (- x) = - rnd b p x"
  using round_half_even_uminus [of "x / of_nat b powi (ilog b \<bar>x\<bar> + 1 - int p)"]
  by (simp add: rnd_def Let_def)

text \<open>The rounding of a positive number stays within the powers of the base around it.\<close>

lemma rnd_bounds:
  assumes x: "0 < x"
  shows "of_nat b powi ilog b x \<le> rnd b p x" "rnd b p x \<le> of_nat b powi (ilog b x + 1)"
proof -
  define e where "e = ilog b x + 1 - int p"
  define q where "q = x / of_nat b powi e"
  have r: "rnd b p x = of_int (round_half_even q) * of_nat b powi e"
    using x by (simp add: rnd_def e_def q_def Let_def)
  have split: "of_nat b powi (k + e) = of_nat b powi k * (of_nat b powi e :: rat)" for k
    using b_pos by (simp add: power_int_add)
  have pn: "of_nat b powi int n = (of_int (int b ^ n) :: rat)" for n
    by simp
  have lo: "of_nat b powi ilog b x = of_int (int b ^ (p - 1)) * (of_nat b powi e :: rat)"
    using split [of "int (p - 1)"] pn [of "p - 1"] prec by (simp add: e_def)
  have hi: "of_nat b powi (ilog b x + 1) = of_int (int b ^ p) * (of_nat b powi e :: rat)"
    using split [of "int p"] pn [of p] by (simp add: e_def)
  have "of_int (int b ^ (p - 1)) \<le> q" "q \<le> of_int (int b ^ p)"
    using ilog_bounds [OF base x] unfolding lo hi q_def
    by (simp_all add: pos_le_divide_eq pos_divide_le_eq)
  then have "int b ^ (p - 1) \<le> round_half_even q" "round_half_even q \<le> int b ^ p"
    by (simp_all only: round_half_even_ge round_half_even_le)
  then show "of_nat b powi ilog b x \<le> rnd b p x" "rnd b p x \<le> of_nat b powi (ilog b x + 1)"
    unfolding lo hi r by (simp_all only: of_int_le_iff mult_le_cancel_right_pos powi_pos)
qed

lemma ilog_mono: "0 < x \<Longrightarrow> x \<le> y \<Longrightarrow> ilog b x \<le> ilog b y"
proof -
  assume x: "0 < x" and xy: "x \<le> y"
  have "of_nat b powi ilog b x < (of_nat b powi (ilog b y + 1) :: rat)"
    using ilog_bounds(1) [OF base x] ilog_bounds(2) [OF base, of y] x xy by linarith
  then have "ilog b x < ilog b y + 1"
    using b_pos by (meson power_int_increasing less_imp_le not_less)
  then show ?thesis by simp
qed

lemma rnd_mono_pos:
  assumes x: "0 < x" and xy: "x \<le> y" shows "rnd b p x \<le> rnd b p y"
proof (cases "ilog b x = ilog b y")
  case True
  then show ?thesis
    using x xy by (simp add: rnd_def Let_def round_half_even_mono divide_right_mono
      mult_right_mono less_imp_le)
next
  case False
  with ilog_mono [OF x xy] have "ilog b x + 1 \<le> ilog b y" by simp
  then have "of_nat b powi (ilog b x + 1) \<le> (of_nat b powi ilog b y :: rat)"
    using b_pos by (simp only: power_int_increasing less_imp_le)
  with rnd_bounds(2) [OF x] rnd_bounds(1) [of y] x xy show ?thesis by linarith
qed

lemma rnd_nonneg: "0 \<le> x \<Longrightarrow> 0 \<le> rnd b p x"
  using rnd_bounds(1) [of x] powi_pos [of "ilog b x"] by (cases "x = 0") (simp, linarith)

lemma rnd_mono: "x \<le> y \<Longrightarrow> rnd b p x \<le> rnd b p y"
proof -
  assume xy: "x \<le> y"
  consider "0 < x" | "x \<le> 0" "0 \<le> y" | "y < 0" by linarith
  then show ?thesis
  proof cases
    case 1
    with xy show ?thesis by (rule rnd_mono_pos [rotated])
  next
    case 2
    then have "rnd b p x \<le> 0" "0 \<le> rnd b p y"
      using rnd_nonneg [of "- x"] rnd_nonneg [of y] by (simp_all add: rnd_uminus)
    then show ?thesis by simp
  next
    case 3
    with xy have "rnd b p (- y) \<le> rnd b p (- x)" by (intro rnd_mono_pos) auto
    then show ?thesis by (simp add: rnd_uminus)
  qed
qed

text \<open>The relative error, and powers of the base as bounds.\<close>

lemma rnd_error:
  assumes x: "0 < x"
  shows "\<bar>rnd b p x - x\<bar> * (2 * of_nat b ^ (p - 1)) \<le> x"
proof -
  define e where "e = ilog b x + 1 - int p"
  define s where "s = (of_nat b powi e :: rat)"
  have s0: "0 < s" by (simp add: s_def)
  have r: "rnd b p x = of_int (round_half_even (x / s)) * s"
    using x by (simp add: rnd_def e_def s_def Let_def)
  have d: "rnd b p x - x = (of_int (round_half_even (x / s)) - x / s) * s"
    using s0 by (simp add: r algebra_simps)
  have "\<bar>rnd b p x - x\<bar> \<le> 1 / 2 * s"
    unfolding d abs_mult using s0 round_half_even_error [of "x / s"]
    by (intro mult_mono) auto
  then have "\<bar>rnd b p x - x\<bar> * (2 * of_nat b ^ (p - 1)) \<le> 1 / 2 * s * (2 * of_nat b ^ (p - 1))"
    by (rule mult_right_mono) simp
  also have "\<dots> = s * of_nat b powi int (p - 1)" by simp
  also have "\<dots> = of_nat b powi (e + int (p - 1))"
    using b_pos by (simp add: s_def power_int_add)
  also have "e + int (p - 1) = ilog b x" using prec by (simp add: e_def)
  also have "of_nat b powi ilog b x \<le> x" by (rule ilog_bounds [OF base x])
  finally show ?thesis .
qed

lemma ilog_less_iff: "0 < x \<Longrightarrow> x < of_nat b ^ k \<Longrightarrow> ilog b x + 1 \<le> int k"
proof -
  assume x: "0 < x" and k: "x < of_nat b ^ k"
  have "of_nat b powi ilog b x < (of_nat b powi int k :: rat)"
    using ilog_bounds(1) [OF base x] k by simp
  then have "ilog b x < int k"
    using b_pos by (meson power_int_increasing less_imp_le not_less)
  then show ?thesis by simp
qed

lemma rnd_less_power: "0 \<le> x \<Longrightarrow> x < of_nat b ^ k \<Longrightarrow> rnd b p x \<le> of_nat b ^ k"
proof (cases "x = 0")
  case False
  assume "0 \<le> x" "x < of_nat b ^ k"
  with False have x: "0 < x" by simp
  have "rnd b p x \<le> of_nat b powi (ilog b x + 1)" by (rule rnd_bounds(2) [OF x])
  also have "\<dots> \<le> of_nat b powi int k"
    using ilog_less_iff [OF x] \<open>x < of_nat b ^ k\<close> b_pos by (intro power_int_increasing) auto
  finally show ?thesis by simp
qed simp

lemma rnd_ge_power:
  assumes "of_nat b ^ k \<le> x" shows "of_nat b ^ k \<le> rnd b p x"
proof -
  have x: "0 < x" using assms b_pos by (meson less_le_trans zero_less_power)
  have "of_nat b powi int k < (of_nat b powi (ilog b x + 1) :: rat)"
    using ilog_bounds(2) [OF base x] assms by simp
  then have "int k < ilog b x + 1"
    using b_pos by (meson power_int_increasing less_imp_le not_less)
  then have "of_nat b powi int k \<le> (of_nat b powi ilog b x :: rat)"
    using b_pos by (intro power_int_increasing) auto
  also have "\<dots> \<le> rnd b p x" by (rule rnd_bounds(1) [OF x])
  finally show ?thesis by simp
qed

text \<open>Numbers with at most \<open>p\<close> digits are exact.\<close>

lemma rnd_exact_nat:
  assumes "n < b ^ p" shows "rnd b p (of_nat n) = of_nat n"
proof (cases "n = 0")
  case True
  then show ?thesis by simp
next
  case False
  define k where "k = ilog b (of_nat n)"
  have n0: "(0::rat) < of_nat n" using False by simp
  have "(of_nat b powi k :: rat) \<le> of_nat n"
    using ilog_bounds(1) [OF base n0] by (simp add: k_def)
  also have "\<dots> < of_nat b powi int p"
    using assms by (simp flip: of_nat_power)
  finally have kp: "k < int p"
    using b_pos by (meson power_int_increasing less_imp_le not_less)
  define e where "e = k + 1 - int p"
  have "e \<le> 0" using kp by (simp add: e_def)
  then have q: "of_nat n / of_nat b powi e = (of_int (int n * int b ^ nat (- e)) :: rat)"
    by (simp add: power_int_def divide_inverse power_inverse)
  then have "rnd b p (of_nat n) = of_nat n / of_nat b powi e * of_nat b powi e"
    using False by (simp add: rnd_def Let_def flip: k_def e_def) (metis of_int_mult of_int_of_nat_eq of_int_power q round_half_even_of_int)
  then show ?thesis using base by simp
qed

lemma rnd_le_nat: "n < b ^ p \<Longrightarrow> x \<le> of_nat n \<Longrightarrow> rnd b p x \<le> of_nat n"
  using rnd_mono [of x "of_nat n"] rnd_exact_nat [of n] by simp

end

text \<open>Decimal arithmetic in the default context, and IEEE double precision.\<close>

definition dec28 :: "rat \<Rightarrow> rat" where
  "dec28 = rnd 10 28"

definition binary64 :: "rat \<Rightarrow> rat" where
  "binary64 = rnd 2 53"

interpretation dec_format: float_format 10 28
  by unfold_locales simp_all

interpretation double_format: float_format 2 53
  by unfold_locales simp_all

lemmas dec28_facts =
  dec_format.rnd_mono [folded dec28_def] dec_format.rnd_nonneg [folded dec28_def]
  dec_format.rnd_le_nat [folded dec28_def] dec_format.rnd_exact_nat [folded dec28_def]

lemmas binary64_facts =
  double_format.rnd_mono [folded binary64_def] double_format.rnd_nonneg [folded binary64_def]
  double_format.rnd_le_nat [folded binary64_def] double_format.rnd_exact_nat [folded binary64_def]

end
