(* ===== verification/PyValue.thy ===== *)
theory PyValue
  imports PyText Rounding
begin

section \<open>Dynamically typed values\<close>

text \<open>
  The values a policy file, a JSON document or a response is made of. A \<open>float\<close> is carried by its
  \<open>repr\<close> text, which determines it: the policy code reads a float only through \<open>str\<close>, \<open>int\<close> and
  truth. \<open>py_str\<close>, \<open>py_int\<close>, \<open>py_truthy\<close> are the built-ins \<open>str\<close>, \<open>int\<close>, \<open>bool\<close>, and
  \<open>decimal_of_str\<close> is the constructor of \<open>decimal.Decimal\<close>.
\<close>

datatype pyval =
    PNone
  | PBool bool
  | PInt int
  | PFloat ustr
  | PStr ustr
  | PList "pyval list"
  | PDict "(ustr \<times> pyval) list"

fun is_dict :: "pyval \<Rightarrow> bool" where
  "is_dict (PDict d) = True"
| "is_dict v = False"

fun is_list :: "pyval \<Rightarrow> bool" where
  "is_list (PList l) = True"
| "is_list v = False"

fun is_str :: "pyval \<Rightarrow> bool" where
  "is_str (PStr s) = True"
| "is_str v = False"

text \<open>\<open>d.get(key, default)\<close> and \<open>d.get(key)\<close>.\<close>

definition dget_or :: "(ustr \<times> pyval) list \<Rightarrow> string \<Rightarrow> pyval \<Rightarrow> pyval" where
  "dget_or d k v = get_default d (u k) v"

definition dget :: "(ustr \<times> pyval) list \<Rightarrow> string \<Rightarrow> pyval" where
  "dget d k = dget_or d k PNone"

subsection \<open>Truth, text and representation\<close>

fun py_truthy :: "pyval \<Rightarrow> bool" where
  "py_truthy PNone = False"
| "py_truthy (PBool b) = b"
| "py_truthy (PInt i) = (i \<noteq> 0)"
| "py_truthy (PFloat r) = list_ex (\<lambda>c. is_digit c \<and> c \<noteq> 48 \<or> c = 105 \<or> c = 97) (takeWhile (\<lambda>c. c \<noteq> 101) r)"
| "py_truthy (PStr s) = (s \<noteq> [])"
| "py_truthy (PList l) = (l \<noteq> [])"
| "py_truthy (PDict d) = (d \<noteq> [])"

definition hex_digit :: "int \<Rightarrow> int" where
  "hex_digit d = (if d < 10 then 48 + d else 87 + d)"

primrec hex_fixed :: "nat \<Rightarrow> int \<Rightarrow> ustr" where
  "hex_fixed 0 n = []"
| "hex_fixed (Suc k) n = hex_fixed k (n div 16) @ [hex_digit (n mod 16)]"

definition repr_char :: "unidb \<Rightarrow> int \<Rightarrow> int \<Rightarrow> ustr" where
  "repr_char U q c =
     (if c = q \<or> c = 92 then [92, c]
      else if c = 9 then u [CHR 0x5C, CHR ''t'']
      else if c = 10 then u [CHR 0x5C, CHR ''n'']
      else if c = 13 then u [CHR 0x5C, CHR ''r'']
      else if u_print U c then [c]
      else if c < 256 then u [CHR 0x5C, CHR ''x''] @ hex_fixed 2 c
      else if c < 65536 then u [CHR 0x5C, CHR ''u''] @ hex_fixed 4 c
      else u [CHR 0x5C, CHR ''U''] @ hex_fixed 8 c)"

definition repr_str :: "unidb \<Rightarrow> ustr \<Rightarrow> ustr" where
  "repr_str U s = (let q = (if 39 \<in> set s \<and> 34 \<notin> set s then 34 else 39)
     in q # concat (map (repr_char U q) s) @ [q])"

fun py_repr :: "unidb \<Rightarrow> pyval \<Rightarrow> ustr" where
  "py_repr U PNone = u ''None''"
| "py_repr U (PBool b) = (if b then u ''True'' else u ''False'')"
| "py_repr U (PInt i) = show_int i"
| "py_repr U (PFloat r) = r"
| "py_repr U (PStr s) = repr_str U s"
| "py_repr U (PList l) = u ''['' @ join (u '', '') (map (py_repr U) l) @ u '']''"
| "py_repr U (PDict d) = u ''{'' @
     join (u '', '') (map (\<lambda>kv. repr_str U (fst kv) @ u '': '' @ py_repr U (snd kv)) d) @ u ''}''"

definition py_str :: "unidb \<Rightarrow> pyval \<Rightarrow> ustr" where
  "py_str U v = (case v of PStr s \<Rightarrow> s | _ \<Rightarrow> py_repr U v)"

lemma py_str_PStr [simp]: "py_str U (PStr s) = s"
  by (simp add: py_str_def)

subsection \<open>Decimals\<close>

text \<open>\<open>DNaN True\<close> is the signaling NaN.\<close>

datatype decimal = DFin rat | DInf bool | DNaN bool

definition parse_mantissa :: "ustr \<Rightarrow> (int \<times> nat) option" where
  "parse_mantissa s = (let ip = takeWhile is_digit s in
     case dropWhile is_digit s of
       [] \<Rightarrow> if ip = [] then None else Some (digits_value ip, 0)
     | c # f \<Rightarrow> if c = 46 \<and> list_all is_digit f \<and> (ip \<noteq> [] \<or> f \<noteq> [])
               then Some (digits_value (ip @ f), length f) else None)"

definition split_sign :: "ustr \<Rightarrow> bool \<times> ustr" where
  "split_sign s = (case s of [] \<Rightarrow> (False, []) | c # t \<Rightarrow>
     if c = 45 then (True, t) else if c = 43 then (False, t) else (False, c # t))"

definition parse_exponent :: "ustr \<Rightarrow> int option" where
  "parse_exponent s = (case split_sign s of (neg, t) \<Rightarrow>
     if t \<noteq> [] \<and> list_all is_digit t
     then Some (if neg then - digits_value t else digits_value t) else None)"

definition decimal_value :: "bool \<Rightarrow> int \<Rightarrow> nat \<Rightarrow> int \<Rightarrow> rat" where
  "decimal_value neg c f e =
     (if neg then - 1 else 1) * (of_int c * 10 powi (e - int f))"

definition decimal_of_str :: "ustr \<Rightarrow> decimal option" where
  "decimal_of_str s = (case split_sign (filter (\<lambda>c. c \<noteq> 95) (py_strip s)) of (neg, r) \<Rightarrow>
     let l = ascii_lower r; m = takeWhile (\<lambda>c. c \<noteq> 101) l in
     if l = u ''inf'' \<or> l = u ''infinity'' then Some (DInf neg)
     else if list_all is_digit (drop 3 l) \<and> take 3 l = u ''nan'' then Some (DNaN False)
     else if list_all is_digit (drop 4 l) \<and> take 4 l = u ''snan'' then Some (DNaN True)
     else case (parse_mantissa m, dropWhile (\<lambda>c. c \<noteq> 101) l) of
       (Some (c, f), []) \<Rightarrow> Some (DFin (decimal_value neg c f 0))
     | (Some (c, f), _ # e) \<Rightarrow> map_option (\<lambda>x. DFin (decimal_value neg c f x)) (parse_exponent e)
     | (None, _) \<Rightarrow> None)"

lemma parse_mantissa_nonneg: "parse_mantissa s = Some (c, f) \<Longrightarrow> 0 \<le> c"
proof -
  assume h: "parse_mantissa s = Some (c, f)"
  have t: "list_all is_digit (takeWhile is_digit s)"
    by (auto simp: list_all_iff dest: set_takeWhileD)
  from h t show ?thesis
    by (auto simp: parse_mantissa_def Let_def digits_value_nonneg split: if_splits list.splits)
qed

definition decimal_text :: "unidb \<Rightarrow> ustr \<Rightarrow> decimal option" where
  "decimal_text U s = decimal_of_str (map (ascii_digit U) s)"

subsection \<open>Conversion to an integer\<close>

fun py_int :: "unidb \<Rightarrow> pyval \<Rightarrow> int res" where
  "py_int U PNone = Inl (TypeErr ''int() argument must be a string or a real number'')"
| "py_int U (PBool b) = Inr (if b then 1 else 0)"
| "py_int U (PInt i) = Inr i"
| "py_int U (PFloat r) = (case decimal_of_str r of
     Some (DFin q) \<Rightarrow> Inr (trunc q)
   | Some (DInf _) \<Rightarrow> Inl (OverflowErr ''cannot convert float infinity to integer'')
   | _ \<Rightarrow> Inl (ValueError ''cannot convert float NaN to integer'' []))"
| "py_int U (PStr s) = (case int_text U s of
     Some i \<Rightarrow> Inr i
   | None \<Rightarrow> Inl (ValueError ''invalid literal for int() with base 10: {!r}'' [s]))"
| "py_int U (PList _) = Inl (TypeErr ''int() argument must be a string or a real number'')"
| "py_int U (PDict _) = Inl (TypeErr ''int() argument must be a string or a real number'')"

lemma py_int_show_int: "py_int U (PStr (show_int i)) = Inr i"
  by simp


text \<open>
  \<open>int((Decimal(text) * scale).quantize(Decimal("1"), rounding=ROUND_HALF_UP))\<close>: the product is
  rounded to the context's 28 digits, and \<open>quantize\<close> signals when the result needs more than 28.
\<close>

definition decimal_fixed :: "int \<Rightarrow> ustr \<Rightarrow> int res" where
  "decimal_fixed scale text = (case decimal_of_str text of
     Some (DFin q) \<Rightarrow> (let r = round_half_up (dec28 (q * of_int scale)) in
       if \<bar>r\<bar> < 10 ^ 28 then Inr r else Inl InvalidOperation)
   | Some (DNaN False) \<Rightarrow> Inl (ValueError ''cannot convert NaN to integer'' [])
   | _ \<Rightarrow> Inl InvalidOperation)"

end
