(* ===== verification/Floats.thy ===== *)
theory Floats
  imports Rounding PyText
begin

section \<open>Double arithmetic\<close>

text \<open>
  The float operations of the code: the exact result, rounded to binary64. The logarithm of the C
  library and the shortest-representation algorithm behind \<open>repr\<close> are fields of a record the
  definitions take: they are code of the interpreter, not of the repository.
\<close>

record floatlib =
  f_log :: "rat \<Rightarrow> rat"
  f_repr :: "rat \<Rightarrow> ustr"

definition fadd :: "rat \<Rightarrow> rat \<Rightarrow> rat" where
  "fadd a b = binary64 (a + b)"

definition fsub :: "rat \<Rightarrow> rat \<Rightarrow> rat" where
  "fsub a b = binary64 (a - b)"

definition fmul :: "rat \<Rightarrow> rat \<Rightarrow> rat" where
  "fmul a b = binary64 (a * b)"

definition fdiv :: "rat \<Rightarrow> rat \<Rightarrow> rat" where
  "fdiv a b = binary64 (a / b)"

lemma fadd_nonneg: "0 \<le> a \<Longrightarrow> 0 \<le> b \<Longrightarrow> 0 \<le> fadd a b"
  by (simp add: fadd_def binary64_facts)

lemma fmul_nonneg: "0 \<le> a \<Longrightarrow> 0 \<le> b \<Longrightarrow> 0 \<le> fmul a b"
  by (simp add: fmul_def binary64_facts)

lemma fdiv_nonneg: "0 \<le> a \<Longrightarrow> 0 \<le> b \<Longrightarrow> 0 \<le> fdiv a b"
  by (simp add: fdiv_def binary64_facts)

lemma fadd_mono: "a \<le> a' \<Longrightarrow> b \<le> b' \<Longrightarrow> fadd a b \<le> fadd a' b'"
  by (simp add: fadd_def binary64_facts)

lemma fmul_mono: "0 \<le> a \<Longrightarrow> 0 \<le> b \<Longrightarrow> a \<le> a' \<Longrightarrow> b \<le> b' \<Longrightarrow> fmul a b \<le> fmul a' b'"
  by (simp add: fmul_def binary64_facts mult_mono)

end
