(* ===== verification/ProfileBase.thy ===== *)
theory ProfileBase
  imports PyValue Floats
begin

section \<open>What the profile scripts share\<close>

text \<open>
  scripts/sk_profile_components.py and scripts/vsr_profile_components.py both read nanosecond counters
  per stage, divide totals by counts and print the result as text, CSV or JSON. This theory holds
  the parts of the interpreter and its library they use: \<open>int()\<close> and \<open>Decimal()\<close> of text, division
  of integers into floats and its overflow, \<open>sum\<close> of floats, fixed-point formatting, \<open>csv.writer\<close>,
  \<open>json.dump\<close>, the nested counter dictionaries and the four statistics of a stage.

  Integers are read and printed without the interpreter's configurable limit on the number of
  digits, and decimal exponents without the limits of the decimal module.
\<close>

subsection \<open>The interpreter\<close>

text \<open>
  The parameters: the Unicode database, the shortest representation of a float, and whether \<open>sum\<close>
  compensates (CPython 3.12 and later) or adds naively. The theorems hold for every interpreter.
\<close>

record interp =
  i_unicode :: unidb
  i_repr :: "rat \<Rightarrow> ustr"
  i_compensated :: bool

definition ascii_interp :: interp where
  "ascii_interp = \<lparr>i_unicode = ascii_db, i_repr = (\<lambda>q. u ''0.0''), i_compensated = True\<rparr>"

subsection \<open>Floats\<close>

text \<open>
  A double with its subnormal range; magnitudes from \<open>2 ^ 1024\<close> on do not fit. Only sums can reach
  infinity here: a division of integers that overflows raises.
\<close>

datatype pyfloat = Fin rat | Inf

definition normal_scale :: rat where "normal_scale = 2 ^ 1022"
definition subnormal_scale :: rat where "subnormal_scale = 2 ^ 1074"
definition float_limit :: rat where "float_limit = 2 ^ 1024"

definition double :: "rat \<Rightarrow> rat" where
  "double x = (if \<bar>x\<bar> * normal_scale < 1
     then of_int (round_half_even (x * subnormal_scale)) / subnormal_scale else binary64 x)"

definition true_div :: "int \<Rightarrow> int \<Rightarrow> rat res" where
  "true_div a b = (if b = 0 then Inl ZeroDivisionErr
     else let q = double (of_int a / of_int b) in
       if float_limit \<le> \<bar>q\<bar> then Inl (OverflowErr ''integer division result too large for a float'') else Inr q)"

text \<open>A finite float divided by the float 1000.0, which cannot overflow.\<close>

definition per_thousand :: "rat \<Rightarrow> rat" where
  "per_thousand q = double (q / 1000)"

fun float_per_thousand :: "pyfloat \<Rightarrow> pyfloat" where
  "float_per_thousand (Fin q) = Fin (per_thousand q)"
| "float_per_thousand Inf = Inf"

text \<open>
  \<open>float()\<close> of text, which can also be an infinity (\<open>Infinite True\<close> is the negative one) or no
  number. An underscore must stand between digits; a magnitude that rounds to \<open>2 ^ 1024\<close> is infinite.
\<close>

datatype float_number = Finite rat | Infinite bool | NotANumber

fun underscores_ok :: "int \<Rightarrow> ustr \<Rightarrow> bool" where
  "underscores_ok p [] = (p \<noteq> 95)"
| "underscores_ok p (c # s) = ((c = 95 \<longrightarrow> is_digit p) \<and> (p = 95 \<longrightarrow> is_digit c) \<and> underscores_ok c s)"

definition float_literal :: "ustr \<Rightarrow> rat option" where
  "float_literal s = (case (parse_mantissa (takeWhile (\<lambda>c. c \<noteq> 101) s), dropWhile (\<lambda>c. c \<noteq> 101) s) of
     (Some (c, f), []) \<Rightarrow> Some (decimal_value False c f 0)
   | (Some (c, f), _ # e) \<Rightarrow> map_option (decimal_value False c f) (parse_exponent e)
   | (None, _) \<Rightarrow> None)"

definition float_text :: "unidb \<Rightarrow> ustr \<Rightarrow> float_number option" where
  "float_text U s = (let t = strip_by is_number_space (map (ascii_digit U) s) in
     if \<not> underscores_ok 0 t then None
     else case split_sign (filter (\<lambda>c. c \<noteq> 95) t) of (neg, r) \<Rightarrow>
       let l = ascii_lower r in
       if l = u ''inf'' \<or> l = u ''infinity'' then Some (Infinite neg)
       else if l = u ''nan'' then Some NotANumber
       else map_option (\<lambda>q. if float_limit \<le> double q then Infinite neg
           else Finite (if neg then - double q else double q)) (float_literal l))"

lemma scale_facts:
  "1 \<le> normal_scale" "0 < subnormal_scale" "subnormal_scale = normal_scale * 2 ^ 52" "float_limit = 4 * normal_scale"
  by (simp_all add: normal_scale_def subnormal_scale_def float_limit_def)

lemma pos_of_scaled: "1 \<le> x * normal_scale \<Longrightarrow> 0 < x"
proof (rule ccontr)
  assume "1 \<le> x * normal_scale" "\<not> 0 < x"
  moreover from this have "x * normal_scale \<le> 0"
    using scale_facts(1) by (intro mult_nonpos_nonneg) auto
  ultimately show False by linarith
qed

lemma double_0 [simp]: "double 0 = 0"
  using round_half_even_of_int [of 0] by (simp add: double_def)

lemma double_nonneg: "0 \<le> x \<Longrightarrow> 0 \<le> double x"
  using round_half_even_ge [of 0 "x * subnormal_scale"] scale_facts(2)
  by (simp add: double_def binary64_facts)

lemma double_normal: "1 \<le> x * normal_scale \<Longrightarrow> double x = binary64 x"
proof -
  assume x: "1 \<le> x * normal_scale"
  then have "0 < x" by (rule pos_of_scaled)
  with x show ?thesis by (simp add: double_def)
qed

lemma double_error:
  assumes "1 \<le> x * normal_scale" shows "\<bar>double x - x\<bar> * 2 ^ 53 \<le> x"
proof -
  have x: "0 < x" using assms by (rule pos_of_scaled)
  show ?thesis
    using double_format.rnd_error [OF x] by (simp add: binary64_def double_normal [OF assms])
qed

lemma double_tiny:
  assumes "0 \<le> x" "x * normal_scale < 1" shows "double x \<le> 1"
proof -
  from assms have a: "\<bar>x\<bar> * normal_scale < 1" by simp
  have "x * subnormal_scale = (x * normal_scale) * 2 ^ 52" by (simp add: scale_facts(3))
  also have "\<dots> \<le> 1 * 2 ^ 52" using assms(2) by (intro mult_right_mono) auto
  finally have "x * subnormal_scale \<le> of_int (2 ^ 52)" by simp
  then have "round_half_even (x * subnormal_scale) \<le> 2 ^ 52" by (rule round_half_even_le)
  then have "(of_int (round_half_even (x * subnormal_scale)) :: rat) \<le> of_int (2 ^ 52)" by (simp only: of_int_le_iff)
  then have "double x * subnormal_scale \<le> 2 ^ 52"
    using scale_facts(2) unfolding double_def if_P [OF a] by simp
  also have "\<dots> \<le> 1 * subnormal_scale"
    using scale_facts(1) by (simp add: scale_facts(3))
  finally show ?thesis using scale_facts(2) by (simp only: mult_le_cancel_right_pos)
qed

lemma double_less: "0 \<le> x \<Longrightarrow> x < 2 ^ 1023 \<Longrightarrow> double x < float_limit"
proof (cases "x * normal_scale < 1")
  case True
  assume "0 \<le> x"
  from double_tiny [OF this True] show ?thesis using scale_facts(1,4) by linarith
next
  case False
  assume x: "x < 2 ^ 1023" "0 \<le> x"
  with False have "double x = binary64 x" by (intro double_normal) simp
  also have "\<dots> \<le> 2 ^ 1023"
    using double_format.rnd_less_power [of x 1023] x by (simp only: binary64_def of_nat_numeral)
  also have "\<dots> < float_limit" by (simp add: float_limit_def)
  finally show ?thesis .
qed

lemma true_div_small:
  assumes "0 \<le> a" "a < 2 ^ 1023" "0 < b"
  shows "true_div a b = Inr (double (of_int a / of_int b))"
proof -
  have "(of_int a / of_int b :: rat) \<le> of_int a / 1"
    using assms by (intro divide_left_mono) auto
  also have "(of_int a :: rat) < of_int (2 ^ 1023)" using assms by (simp only: of_int_less_iff)
  also have "(of_int (2 ^ 1023) :: rat) = 2 ^ 1023" by (simp only: of_int_power of_int_numeral)
  finally have "of_int a / of_int b < (2 ^ 1023 :: rat)" by simp
  then have "double (of_int a / of_int b) < float_limit"
    using assms by (intro double_less) auto
  moreover have "0 \<le> double (of_int a / of_int b)"
    using assms by (intro double_nonneg) auto
  ultimately show ?thesis using assms by (simp add: true_div_def Let_def abs_if)
qed

text \<open>
  \<open>sum\<close> of nonnegative floats: the running sum \<open>f\<close> and, in the compensated version, the accumulated
  rounding error \<open>c\<close> of Neumaier's method.
\<close>

fun sum_floats :: "bool \<Rightarrow> rat \<Rightarrow> rat \<Rightarrow> rat list \<Rightarrow> pyfloat" where
  "sum_floats compensated f c [] =
     (let r = (if compensated \<and> c \<noteq> 0 then double (f + c) else f) in if float_limit \<le> r then Inf else Fin r)"
| "sum_floats compensated f c (x # xs) =
     (let t = double (f + x) in
      if float_limit \<le> t then Inf
      else sum_floats compensated t
        (if compensated
         then double (c + (if \<bar>x\<bar> \<le> \<bar>f\<bar> then double (double (f - t) + x) else double (double (x - t) + f)))
         else 0) xs)"

definition py_sum :: "interp \<Rightarrow> rat list \<Rightarrow> pyfloat" where
  "py_sum I xs = sum_floats (i_compensated I) 0 0 xs"

subsection \<open>Text formats\<close>

text \<open>\<open>f"{x:.nf}"\<close> for a positive \<open>n\<close>, \<open>csv.writer(output).writerow(cells)\<close>, \<open>json.dump(v, output, indent=2, sort_keys=True)\<close>.\<close>

definition pad_digits :: "nat \<Rightarrow> ustr \<Rightarrow> ustr" where
  "pad_digits n s = replicate (n - length s) 48 @ s"

definition fixed_nat :: "nat \<Rightarrow> nat \<Rightarrow> ustr" where
  "fixed_nat n m = show_nat (m div 10 ^ n) @ 46 # pad_digits n (show_nat (m mod 10 ^ n))"

definition format_fixed :: "nat \<Rightarrow> pyfloat \<Rightarrow> ustr" where
  "format_fixed n v = (case v of Inf \<Rightarrow> u ''inf''
     | Fin q \<Rightarrow> (if q < 0 then [45] else []) @ fixed_nat n (nat (round_half_even (\<bar>q\<bar> * 10 ^ n))))"

definition csv_field :: "ustr \<Rightarrow> ustr" where
  "csv_field s = (if list_ex (\<lambda>c. c = 44 \<or> c = 34 \<or> c = 10 \<or> c = 13) s
     then 34 # concat (map (\<lambda>c. if c = 34 then [34, 34] else [c]) s) @ [34] else s)"

definition csv_row :: "ustr list \<Rightarrow> ustr" where
  "csv_row cells = (if cells = [[]] then [34, 34] else join [44] (map csv_field cells)) @ [13, 10]"

definition json_char :: "int \<Rightarrow> ustr" where
  "json_char c =
     (if c = 34 then [92, 34] else if c = 92 then [92, 92]
      else if c = 10 then [92, 110] else if c = 13 then [92, 114] else if c = 9 then [92, 116]
      else if c = 12 then [92, 102] else if c = 8 then [92, 98]
      else if 32 \<le> c \<and> c < 127 then [c]
      else if c < 65536 then [92, 117] @ hex_fixed 4 c
      else let v = c - 65536 in [92, 117] @ hex_fixed 4 (55296 + v div 1024) @ [92, 117] @ hex_fixed 4 (56320 + v mod 1024))"

definition json_string :: "ustr \<Rightarrow> ustr" where
  "json_string s = 34 # concat (map json_char s) @ [34]"

definition json_break :: "nat \<Rightarrow> ustr" where
  "json_break level = 10 # replicate (2 * level) 32"

fun json_dump :: "nat \<Rightarrow> pyval \<Rightarrow> ustr" where
  "json_dump level PNone = u ''null''"
| "json_dump level (PBool b) = (if b then u ''true'' else u ''false'')"
| "json_dump level (PInt i) = show_int i"
| "json_dump level (PFloat r) = r"
| "json_dump level (PStr s) = json_string s"
| "json_dump level (PList l) = (if l = [] then u ''[]'' else
     u ''['' @ json_break (level + 1) @ join (44 # json_break (level + 1)) (map (json_dump (level + 1)) l) @
     json_break level @ u '']'')"
| "json_dump level (PDict d) = (if d = [] then [123, 125] else
     [123] @ json_break (level + 1) @ join (44 # json_break (level + 1))
       (map (\<lambda>kt. json_string (fst kt) @ u '': '' @ snd kt)
         (sort_key fst (map (\<lambda>kv. (fst kv, json_dump (level + 1) (snd kv))) d))) @
     json_break level @ [125])"

definition float_value :: "interp \<Rightarrow> pyfloat \<Rightarrow> pyval" where
  "float_value I v = PFloat (case v of Fin q \<Rightarrow> i_repr I q | Inf \<Rightarrow> u ''Infinity'')"


subsection \<open>Nested counters\<close>

text \<open>
  \<open>totals[stage][metric]\<close>: a dictionary of dictionaries. Reading or storing under an absent stage, and
  reading an absent metric, raises KeyError.
\<close>

type_synonym counters = "(ustr, (ustr, int) dict) dict"

definition counter_read :: "counters \<Rightarrow> ustr \<Rightarrow> ustr \<Rightarrow> int res" where
  "counter_read cs stage metric = bind_res (dict_index cs stage) (\<lambda>d. dict_index d metric)"

definition counter_write :: "ustr \<Rightarrow> ustr \<Rightarrow> int \<Rightarrow> counters \<Rightarrow> counters res" where
  "counter_write stage metric v cs =
     bind_res (dict_index cs stage) (\<lambda>d. Inr (dict_set stage (dict_set metric v d) cs))"

text \<open>\<open>totals[stage][metric] += v\<close>.\<close>

definition counter_add :: "ustr \<Rightarrow> ustr \<Rightarrow> int \<Rightarrow> counters \<Rightarrow> counters res" where
  "counter_add stage metric v cs =
     bind_res (counter_read cs stage metric) (\<lambda>old. counter_write stage metric (old + v) cs)"

text \<open>
  What the summing loop relies on: cells that can be read and overwritten independently. The loop
  that adds a list of increments leaves in every cell its old value plus its increments, and raises
  nothing when all the cells exist.
\<close>

locale tally_cells =
  fixes read :: "'c \<Rightarrow> 'k \<Rightarrow> int res"
    and store :: "'k \<Rightarrow> int \<Rightarrow> 'c \<Rightarrow> 'c res"
  assumes store_defined: "read c k = Inr v \<Longrightarrow> \<exists>c'. store k w c = Inr c'"
    and read_store: "store k w c = Inr c' \<Longrightarrow> read c' k' = (if k' = k then Inr w else read c k')"
begin

definition tally :: "'k \<times> int \<Rightarrow> 'c \<Rightarrow> 'c res" where
  "tally item c = bind_res (read c (fst item)) (\<lambda>old. store (fst item) (old + snd item) c)"

lemma tally_step:
  assumes "read c k = Inr old"
  shows "\<exists>c'. tally (k, w) c = Inr c' \<and> (\<forall>k'. read c' k' = (if k' = k then Inr (old + w) else read c k'))"
proof -
  from store_defined [OF assms, of "old + w"] obtain c' where c': "store k (old + w) c = Inr c'" ..
  with assms have "tally (k, w) c = Inr c'" by (simp add: tally_def)
  then show ?thesis using read_store [OF c'] by blast
qed

lemma tally_read_other:
  assumes "tally (k, w) c = Inr c'"
  shows "\<exists>old. read c k = Inr old \<and> (\<forall>k'. read c' k' = (if k' = k then Inr (old + w) else read c k'))"
  using assms by (auto simp: tally_def res_simps read_store)

lemma tally_all:
  assumes "\<forall>item \<in> set items. \<exists>v. read c (fst item) = Inr v"
  shows "\<exists>c'. fold_res tally items c = Inr c' \<and>
    (\<forall>k v. read c k = Inr v \<longrightarrow> read c' k = Inr (v + (\<Sum>item \<leftarrow> items. if fst item = k then snd item else 0)))"
  using assms
proof (induction items arbitrary: c)
  case Nil
  then show ?case by simp
next
  case (Cons item items)
  obtain k w where item: "item = (k, w)" by (cases item)
  from Cons.prems item obtain old where old: "read c k = Inr old" by auto
  from tally_step [OF this, of w] obtain c1 where c1: "tally (k, w) c = Inr c1"
    and r: "\<And>k'. read c1 k' = (if k' = k then Inr (old + w) else read c k')" by auto
  have "\<forall>item \<in> set items. \<exists>v. read c1 (fst item) = Inr v"
    using Cons.prems by (auto simp: r)
  from Cons.IH [OF this] obtain c' where c': "fold_res tally items c1 = Inr c'"
    "\<forall>k v. read c1 k = Inr v \<longrightarrow> read c' k = Inr (v + (\<Sum>item \<leftarrow> items. if fst item = k then snd item else 0))"
    by blast
  have "read c k' = Inr v \<Longrightarrow>
      read c' k' = Inr (v + (\<Sum>item \<leftarrow> item # items. if fst item = k' then snd item else 0))" for k' v
    using c'(2) [rule_format, of k'] old by (auto simp: r item)
  then show ?case using c1 c'(1) by (auto simp: item)
qed

end

lemma counter_read_write:
  "counter_write stage metric v cs = Inr cs' \<Longrightarrow>
   counter_read cs' stage' metric' =
     (if (stage', metric') = (stage, metric) then Inr v else counter_read cs stage' metric')"
proof -
  assume "counter_write stage metric v cs = Inr cs'"
  then obtain d where d: "dict_get cs stage = Some d" "cs' = dict_set stage (dict_set metric v d) cs"
    by (auto simp: counter_write_def res_simps)
  then show ?thesis
    by (cases "stage' = stage") (simp_all add: counter_read_def dict_index_def)
qed

interpretation nested: tally_cells "\<lambda>cs k. counter_read cs (fst k) (snd k)"
  "\<lambda>k v cs. counter_write (fst k) (snd k) v cs"
proof unfold_locales
  show "\<exists>c'. counter_write (fst k) (snd k) w c = Inr c'" if "counter_read c (fst k) (snd k) = Inr v" for c k v w
    using that by (auto simp: counter_write_def counter_read_def res_simps)
  show "counter_read c' (fst k') (snd k') = (if k' = k then Inr w else counter_read c (fst k') (snd k'))"
    if "counter_write (fst k) (snd k) w c = Inr c'" for c c' k k' w
    using counter_read_write [OF that, of "fst k'" "snd k'"] by (auto simp: prod_eq_iff)
qed

lemma nested_tally: "nested.tally ((stage, metric), v) cs = counter_add stage metric v cs"
  by (simp add: nested.tally_def counter_add_def)


subsection \<open>The statistics of a stage\<close>

record stage_stats =
  ss_count :: int
  ss_total_ns :: int
  ss_mean_ns :: rat
  ss_mean_us :: rat

subsection \<open>How a script ends\<close>

text \<open>
  A return from \<open>main\<close> with a status and what was written to standard output; \<open>parser.error\<close>, which
  prints the usage and the exception and exits with status 2; or an exception nothing handles.
\<close>

datatype outcome = Exit int ustr | UsageError pyerr | Raised pyerr

text \<open>The subclasses of \<open>OSError\<close>, \<open>RuntimeError\<close> and \<open>ValueError\<close> among the exceptions of the model.\<close>

fun reported :: "pyerr \<Rightarrow> bool" where
  "reported (ValueError _ _) = True"
| "reported (RuntimeErr _ _) = True"
| "reported UnicodeEncodeErr = True"
| "reported (FileNotFoundErr _ _) = True"
| "reported (TimeoutErr _) = True"
| "reported (OSErr _ _) = True"
| "reported _ = False"

definition handled :: "pyerr \<Rightarrow> outcome" where
  "handled e = (if reported e then UsageError e else Raised e)"

text \<open>What is written after the \<open>try\<close> block is outside its handlers.\<close>

definition written :: "ustr res \<Rightarrow> outcome" where
  "written r = (case r of Inl e \<Rightarrow> Raised e | Inr out \<Rightarrow> Exit 0 out)"

datatype out_format = Human | Json | Csv

end
