(* ===== verification/Arguments.thy ===== *)
theory Arguments
  imports ProfileBase
begin

section \<open>Command lines\<close>

text \<open>
  \<open>argparse\<close> (of CPython 3.11) as the scripts use it. A parser is data: its options, each of which
  takes one value (their option strings start with two dashes), the option \<open>-h\<close>/\<open>--help\<close> every
  parser has, and at most one positional argument, which is a choice or a subcommand. Parsing
  is what \<open>_parse_known_args\<close> does: every argument is classified first, then options and positionals
  are consumed from left to right, then the required ones are checked. The text of the help and of
  the usage is not modelled, the error that is reported is.
\<close>

subsection \<open>Values\<close>

text \<open>The types of the arguments: none, \<open>Path\<close>, \<open>float\<close> and \<open>int\<close>.\<close>

datatype arg_type = Text | File | Number | Whole

datatype arg_value = Unset | TextV ustr | FileV ustr | FloatV float_number | IntV int

text \<open>\<open>str(Path(s))\<close> on a POSIX system.\<close>

definition path_text :: "ustr \<Rightarrow> ustr" where
  "path_text s = (let slashes = takeWhile (\<lambda>c. c = 47) s;
       root = (if slashes = [] then [] else if length slashes = 2 then [47, 47] else [47]);
       names = filter (\<lambda>p. p \<noteq> [] \<and> p \<noteq> [46]) (split_on (\<lambda>c. c = 47) s);
       path = root @ join [47] names in
     if path = [] then [46] else path)"

definition convert :: "unidb \<Rightarrow> arg_type \<Rightarrow> ustr \<Rightarrow> arg_value option" where
  "convert U t s = (case t of
     Text \<Rightarrow> Some (TextV s)
   | File \<Rightarrow> Some (FileV (path_text s))
   | Number \<Rightarrow> map_option FloatV (float_text U s)
   | Whole \<Rightarrow> map_option IntV (int_text U s))"

definition type_name :: "arg_type \<Rightarrow> ustr" where
  "type_name t = u (case t of Text \<Rightarrow> ''str'' | File \<Rightarrow> ''Path'' | Number \<Rightarrow> ''float'' | Whole \<Rightarrow> ''int'')"

subsection \<open>Parsers\<close>

record option_spec =
  os_flag :: ustr
  os_type :: arg_type
  os_choices :: "ustr list option"
  os_required :: bool
  os_default :: arg_value

datatype positional = Choice ustr "ustr list" | Command ustr "ustr list"

record parser =
  ps_positional :: "positional option"
  ps_options :: "option_spec list"

text \<open>The attribute of the namespace: the option string without its dashes, with underscores.\<close>

definition dest :: "option_spec \<Rightarrow> ustr" where
  "dest opt = map (\<lambda>c. if c = 45 then 95 else c) (dropWhile (\<lambda>c. c = 45) (os_flag opt))"

fun positional_dest :: "positional \<Rightarrow> ustr" where
  "positional_dest (Choice name _) = name"
| "positional_dest (Command name _) = name"

datatype action = Help | Store option_spec

definition option_strings :: "parser \<Rightarrow> (ustr \<times> action) list" where
  "option_strings ps = [(u ''-h'', Help), (u ''--help'', Help)] @ map (\<lambda>opt. (os_flag opt, Store opt)) (ps_options ps)"

text \<open>The error of a command line, and how parsing can end the program: the help (status 0) or an error (2).\<close>

datatype usage_error =
    AmbiguousOption ustr "ustr list"
  | IgnoredArgument ustr ustr
  | ExpectedArgument ustr
  | InvalidValue ustr ustr ustr
  | InvalidChoice ustr ustr "ustr list"
  | UnknownParser ustr
  | MissingArguments "ustr list"
  | Unrecognized "ustr list"

datatype stop = ShowHelp | Misuse usage_error

subsection \<open>Classifying the arguments\<close>

text \<open>
  An argument that looks like an option: the action, if there is one, the option string it stands
  for, whether a value was joined to it by an equals sign, and the text joined to it.
\<close>

record matched =
  m_action :: "action option"
  m_option :: ustr
  m_equals :: bool
  m_text :: "ustr option"

definition matched_as :: "ustr \<times> action \<Rightarrow> bool \<Rightarrow> ustr option \<Rightarrow> matched" where
  "matched_as entry equals text = \<lparr>m_action = Some (snd entry), m_option = fst entry, m_equals = equals, m_text = text\<rparr>"

definition option_tuples :: "parser \<Rightarrow> ustr \<Rightarrow> matched list" where
  "option_tuples ps s =
     (if take 2 s = [45, 45] then (case split_once 61 s of (name, text) \<Rightarrow>
        map (\<lambda>entry. matched_as entry (text \<noteq> None) text) (filter (\<lambda>entry. starts_with (fst entry) name) (option_strings ps)))
      else map (\<lambda>entry. if fst entry = take 2 s then matched_as entry False (Some (drop 2 s)) else matched_as entry False None)
        (filter (\<lambda>entry. fst entry = take 2 s \<or> starts_with (fst entry) s) (option_strings ps)))"

text \<open>The regular expression \<open>^-\d+$|^-\d*\.\d+$\<close>, whose dollar also matches before a final line feed.\<close>

definition decimal_char :: "unidb \<Rightarrow> int \<Rightarrow> bool" where
  "decimal_char U c \<longleftrightarrow> u_decimal U c \<noteq> None"

definition negative_number :: "unidb \<Rightarrow> ustr \<Rightarrow> bool" where
  "negative_number U s = (case s of [] \<Rightarrow> False | c # t \<Rightarrow> c = 45 \<and>
     (let body = (if t \<noteq> [] \<and> last t = 10 then butlast t else t);
          whole = takeWhile (decimal_char U) body; rest = dropWhile (decimal_char U) body in
      (case rest of [] \<Rightarrow> whole \<noteq> []
       | d # fraction \<Rightarrow> d = 46 \<and> fraction \<noteq> [] \<and> list_all (decimal_char U) fraction)))"

definition joined_option :: "parser \<Rightarrow> ustr \<Rightarrow> matched option" where
  "joined_option ps s = (case split_once 61 s of (name, text) \<Rightarrow>
     (case (dict_get (option_strings ps) name, text) of
        (Some act, Some t) \<Rightarrow> Some (matched_as (name, act) True (Some t)) | _ \<Rightarrow> None))"

definition guessed_option :: "unidb \<Rightarrow> parser \<Rightarrow> ustr \<Rightarrow> usage_error + matched option" where
  "guessed_option U ps s = (case option_tuples ps s of
     [m] \<Rightarrow> Inr (Some m)
   | m # m' # ms \<Rightarrow> Inl (AmbiguousOption s (map m_option (m # m' # ms)))
   | [] \<Rightarrow> if negative_number U s \<or> 32 \<in> set s then Inr None
       else Inr (Some \<lparr>m_action = None, m_option = s, m_equals = False, m_text = None\<rparr>))"

definition parse_optional :: "unidb \<Rightarrow> parser \<Rightarrow> ustr \<Rightarrow> usage_error + matched option" where
  "parse_optional U ps s =
     (if s = [] \<or> hd s \<noteq> 45 then Inr None
      else case dict_get (option_strings ps) s of
        Some act \<Rightarrow> Inr (Some (matched_as (s, act) False None))
      | None \<Rightarrow> (if length s = 1 then Inr None
          else case joined_option ps s of
            Some m \<Rightarrow> Inr (Some m) | None \<Rightarrow> guessed_option U ps s))"

text \<open>The pattern of the arguments: \<open>O\<close>, \<open>A\<close> and \<open>-\<close>; after two dashes alone everything is an \<open>A\<close>.\<close>

datatype arg_kind = Opt matched | Arg | Dashes

fun classify :: "unidb \<Rightarrow> parser \<Rightarrow> ustr list \<Rightarrow> usage_error + (arg_kind \<times> ustr) list" where
  "classify U ps [] = Inr []"
| "classify U ps (s # argv) =
     (if s = [45, 45] then Inr ((Dashes, s) # map (Pair Arg) argv)
      else bind_res (parse_optional U ps s) (\<lambda>m. bind_res (classify U ps argv) (\<lambda>rest.
        Inr ((case m of None \<Rightarrow> Arg | Some m \<Rightarrow> Opt m, s) # rest))))"

subsection \<open>Consuming the arguments\<close>

text \<open>
  The namespace, the destinations of the options that were given, the positional that is still
  expected, the arguments of the subcommand, and the arguments nothing expects.
\<close>

record parsing =
  pa_names :: "(ustr, arg_value) dict"
  pa_seen :: "ustr list"
  pa_expects :: "positional option"
  pa_rest :: "ustr list"
  pa_extras :: "ustr list"

definition defaults :: "parser \<Rightarrow> (ustr, arg_value) dict" where
  "defaults ps = (case ps_positional ps of None \<Rightarrow> [] | Some p \<Rightarrow> [(positional_dest p, Unset)]) @
     map (\<lambda>opt. (dest opt, os_default opt)) (ps_options ps)"

definition parsing_init :: "parser \<Rightarrow> parsing" where
  "parsing_init ps = \<lparr>pa_names = defaults ps, pa_seen = [], pa_expects = ps_positional ps, pa_rest = [], pa_extras = []\<rparr>"

definition leave_over :: "ustr list \<Rightarrow> parsing \<Rightarrow> parsing" where
  "leave_over ss st = st\<lparr>pa_extras := pa_extras st @ ss\<rparr>"

text \<open>Taking the action of an option with its value, or of a positional with its arguments.\<close>

definition option_value :: "unidb \<Rightarrow> option_spec \<Rightarrow> ustr \<Rightarrow> stop + arg_value" where
  "option_value U opt s = (case convert U (os_type opt) s of
     None \<Rightarrow> Inl (Misuse (InvalidValue (os_flag opt) (type_name (os_type opt)) s))
   | Some v \<Rightarrow> (case os_choices opt of
       None \<Rightarrow> Inr v
     | Some choices \<Rightarrow> if v \<in> TextV ` set choices then Inr v else Inl (Misuse (InvalidChoice (os_flag opt) s choices))))"

definition store :: "unidb \<Rightarrow> option_spec \<Rightarrow> ustr \<Rightarrow> parsing \<Rightarrow> stop + parsing" where
  "store U opt s st = bind_res (option_value U opt s) (\<lambda>v.
     Inr (st\<lparr>pa_names := dict_set (dest opt) v (pa_names st), pa_seen := dest opt # pa_seen st\<rparr>))"

definition take_positional :: "positional \<Rightarrow> ustr list \<Rightarrow> parsing \<Rightarrow> stop + parsing" where
  "take_positional p ss st = (case p of
     Choice name choices \<Rightarrow> (let s = hd (remove1 [45, 45] ss) in
       if s \<in> set choices then Inr (st\<lparr>pa_names := dict_set name (TextV s) (pa_names st), pa_expects := None\<rparr>)
       else Inl (Misuse (InvalidChoice name s choices)))
   | Command name names \<Rightarrow> (let s = hd ss in
       if s \<in> set names
       then Inr (st\<lparr>pa_names := dict_set name (TextV s) (pa_names st), pa_expects := None, pa_rest := tl ss\<rparr>)
       else Inl (Misuse (InvalidChoice name s names))))"

text \<open>
  The help with text joined to it: after \<open>--help\<close> the text is an error; after \<open>-h\<close> it is a bundle of
  further short options, an error when it starts with a dash or follows an equals sign, and any
  option other than \<open>-h\<close> is left over, which the help forestalls.
\<close>

function bundled_help :: "bool \<Rightarrow> ustr \<Rightarrow> stop" where
  "bundled_help equals text =
     (if text = [] \<or> equals \<or> hd text = 45 then Misuse (IgnoredArgument (u ''-h/--help'') text)
      else if hd text \<noteq> 104 \<or> tl text = [] then ShowHelp
      else if hd (tl text) = 61 then bundled_help True (drop 2 text) else bundled_help False (tl text))"
  by auto
termination by (relation "measure (\<lambda>(_, text). length text)") auto

declare bundled_help.simps [simp del]

definition help_action :: "matched \<Rightarrow> stop" where
  "help_action m = (case m_text m of
     None \<Rightarrow> ShowHelp
   | Some text \<Rightarrow> if take 2 (m_option m) = [45, 45] then Misuse (IgnoredArgument (u ''-h/--help'') text)
       else bundled_help (m_equals m) text)"

definition is_option :: "arg_kind \<times> ustr \<Rightarrow> bool" where
  "is_option item = (case fst item of Opt _ \<Rightarrow> True | _ \<Rightarrow> False)"

definition is_dashes :: "arg_kind \<times> ustr \<Rightarrow> bool" where
  "is_dashes item = (case fst item of Dashes \<Rightarrow> True | _ \<Rightarrow> False)"

text \<open>
  After the last option: the positional that is still expected takes its arguments, with the two
  dashes before and after them, and the others are left over.
\<close>

definition last_positionals :: "(arg_kind \<times> ustr) list \<Rightarrow> parsing \<Rightarrow> stop + parsing" where
  "last_positionals items st = (case (pa_expects st, dropWhile is_dashes items) of
     (Some p, item # others) \<Rightarrow> (case p of
        Choice _ _ \<Rightarrow> bind_res (take_positional p
            (map snd (takeWhile is_dashes items @ item # takeWhile is_dashes others)) st) (\<lambda>st.
          Inr (leave_over (map snd (dropWhile is_dashes others)) st))
      | Command _ _ \<Rightarrow> take_positional p (map snd items) st)
   | _ \<Rightarrow> Inr (leave_over (map snd items) st))"

text \<open>
  Before the last option: a positional takes one argument, a subcommand all of them. An option takes the text
  joined to it, or else the next argument, which must not look like an option.
\<close>

fun consume :: "unidb \<Rightarrow> (arg_kind \<times> ustr) list \<Rightarrow> parsing \<Rightarrow> stop + parsing" where
  "consume U [] st = last_positionals [] st"
| "consume U ((Opt m, s) # items) st = (case m_action m of
     None \<Rightarrow> consume U items (leave_over [s] st)
   | Some Help \<Rightarrow> Inl (help_action m)
   | Some (Store opt) \<Rightarrow> (case m_text m of
       Some text \<Rightarrow> bind_res (store U opt text st) (consume U items)
     | None \<Rightarrow> (case items of
         (Arg, text) # items' \<Rightarrow> bind_res (store U opt text st) (consume U items')
       | _ \<Rightarrow> Inl (Misuse (ExpectedArgument (os_flag opt))))))"
| "consume U ((kind, s) # items) st =
     (if \<not> list_ex is_option items then last_positionals ((kind, s) # items) st
      else case pa_expects st of
        None \<Rightarrow> consume U items (leave_over [s] st)
      | Some (Choice name choices) \<Rightarrow> bind_res (take_positional (Choice name choices) [s] st) (consume U items)
      | Some (Command name names) \<Rightarrow> take_positional (Command name names) (s # map snd items) st)"

definition missing :: "parser \<Rightarrow> parsing \<Rightarrow> ustr list" where
  "missing ps st = (case pa_expects st of None \<Rightarrow> [] | Some p \<Rightarrow> [positional_dest p]) @
     map os_flag (filter (\<lambda>opt. os_required opt \<and> dest opt \<notin> set (pa_seen st)) (ps_options ps))"

definition misuse :: "usage_error + 'a \<Rightarrow> stop + 'a" where
  "misuse r = (case r of Inl e \<Rightarrow> Inl (Misuse e) | Inr x \<Rightarrow> Inr x)"

definition parse_known_args :: "unidb \<Rightarrow> parser \<Rightarrow> ustr list \<Rightarrow> stop + parsing" where
  "parse_known_args U ps argv = bind_res (misuse (classify U ps argv)) (\<lambda>items.
     bind_res (consume U items (parsing_init ps)) (\<lambda>st.
     bind_res (ensure (missing ps st = []) (Misuse (MissingArguments (missing ps st)))) (\<lambda>_. Inr st)))"

definition recognized :: "ustr list \<Rightarrow> 'a \<Rightarrow> stop + 'a" where
  "recognized extras x = (if extras = [] then Inr x else Inl (Misuse (Unrecognized extras)))"

definition parse_args :: "unidb \<Rightarrow> parser \<Rightarrow> ustr list \<Rightarrow> stop + (ustr, arg_value) dict" where
  "parse_args U ps argv = bind_res (parse_known_args U ps argv) (\<lambda>st. recognized (pa_extras st) (pa_names st))"

definition copy_names :: "(ustr, arg_value) dict \<Rightarrow> (ustr, arg_value) dict \<Rightarrow> (ustr, arg_value) dict" where
  "copy_names new ns = fold (\<lambda>k. dict_set k (the (dict_get new k))) (dict_keys new) ns"

text \<open>
  With subcommands: the arguments after the name of the command are parsed by its parser, whose
  namespace is copied into the one of the main parser.
\<close>

definition parse_command :: "unidb \<Rightarrow> parser \<Rightarrow> (ustr \<times> parser) list \<Rightarrow> ustr \<Rightarrow> ustr list \<Rightarrow> stop + (ustr, arg_value) dict" where
  "parse_command U ps commands name argv = bind_res (parse_known_args U ps argv) (\<lambda>st.
     case dict_get (pa_names st) name of
       Some (TextV command) \<Rightarrow> (case dict_get commands command of
         None \<Rightarrow> Inl (Misuse (UnknownParser command))
       | Some sub \<Rightarrow> bind_res (parse_known_args U sub (pa_rest st)) (\<lambda>sub_st.
           recognized (pa_extras st @ pa_extras sub_st) (copy_names (pa_names sub_st) (pa_names st))))
     | _ \<Rightarrow> recognized (pa_extras st) (pa_names st))"

end
