(* ===== verification/ArgumentFacts.thy ===== *)
theory ArgumentFacts
  imports Arguments
begin

section \<open>What the parser of command lines promises\<close>

text \<open>
  A command line that spells out values, in any order and with any spelling of the options, is read
  back as these values, or as the error that names what is missing; and whatever the command line is, a
  namespace that is returned has a value of the right kind for every argument. These are facts about the
  library; CommandLines applies them to the parsers of the scripts.
\<close>

definition wf_parser :: "parser \<Rightarrow> bool" where
  "wf_parser ps \<longleftrightarrow> list_all (\<lambda>opt. 2 < length (os_flag opt) \<and> 61 \<notin> set (os_flag opt)) (ps_options ps) \<and>
     distinct (map dest (ps_options ps)) \<and>
     (case ps_positional ps of None \<Rightarrow> True | Some p \<Rightarrow> positional_dest p \<notin> set (map dest (ps_options ps)))"

subsection \<open>Spelling\<close>

datatype item = Word ustr | Joined ustr ustr | Apart ustr ustr

fun spell :: "item \<Rightarrow> ustr list" where
  "spell (Word s) = [s]"
| "spell (Joined name s) = [name @ 61 # s]"
| "spell (Apart name s) = [name, s]"

fun is_word :: "item \<Rightarrow> bool" where
  "is_word (Word _) = True"
| "is_word _ = False"

text \<open>The option a name stands for: its option string, or a prefix of no other option string.\<close>

definition named_option :: "parser \<Rightarrow> ustr \<Rightarrow> option_spec option" where
  "named_option ps name = (case dict_get (option_strings ps) name of
     Some (Store opt) \<Rightarrow> Some opt
   | Some Help \<Rightarrow> None
   | None \<Rightarrow> (case filter (\<lambda>entry. starts_with (fst entry) name) (option_strings ps) of
       [(_, Store opt)] \<Rightarrow> Some opt | _ \<Rightarrow> None))"

definition plain_argument :: "unidb \<Rightarrow> parser \<Rightarrow> ustr \<Rightarrow> bool" where
  "plain_argument U ps s \<longleftrightarrow> s \<noteq> [45, 45] \<and> parse_optional U ps s = Inr None"

definition option_meaning :: "unidb \<Rightarrow> parser \<Rightarrow> ustr \<Rightarrow> ustr \<Rightarrow> (ustr \<times> arg_value) option" where
  "option_meaning U ps name s =
     (if take 2 name = [45, 45] \<and> 61 \<notin> set name then (case named_option ps name of
        None \<Rightarrow> None
      | Some opt \<Rightarrow> (case option_value U opt s of Inr v \<Rightarrow> Some (dest opt, v) | Inl _ \<Rightarrow> None))
      else None)"

fun meaning :: "unidb \<Rightarrow> parser \<Rightarrow> item \<Rightarrow> (ustr \<times> arg_value) option" where
  "meaning U ps (Word s) = (case ps_positional ps of
     Some (Choice name choices) \<Rightarrow> if s \<in> set choices \<and> plain_argument U ps s then Some (name, TextV s) else None
   | _ \<Rightarrow> None)"
| "meaning U ps (Joined name s) = option_meaning U ps name s"
| "meaning U ps (Apart name s) = (if plain_argument U ps s then option_meaning U ps name s else None)"

lemma option_meaning_iff: "option_meaning U ps name s = Some (k, v) \<longleftrightarrow>
    take 2 name = [45, 45] \<and> 61 \<notin> set name \<and>
    (\<exists>opt. named_option ps name = Some opt \<and> option_value U opt s = Inr v \<and> k = dest opt)"
  by (auto simp: option_meaning_def split: option.splits sum.splits)

lemma option_string_dashes: "wf_parser ps \<Longrightarrow> entry \<in> set (option_strings ps) \<Longrightarrow> 61 \<notin> set (fst entry)"
  by (auto simp: wf_parser_def option_strings_def list_all_iff u_def)

lemma named_option_cases:
  assumes "named_option ps name = Some opt"
  obtains "dict_get (option_strings ps) name = Some (Store opt)"
  | f where "dict_get (option_strings ps) name = None"
    "filter (\<lambda>entry. starts_with (fst entry) name) (option_strings ps) = [(f, Store opt)]"
  using assms by (auto simp: named_option_def split: option.splits action.splits list.splits)

lemma two_dashes: "take 2 name = [45, 45] \<Longrightarrow> \<exists>t. name = 45 # 45 # t"
  by (cases name; cases "tl name") auto

lemma not_only_dashes: "named_option ps name = Some opt \<Longrightarrow> wf_parser ps \<Longrightarrow> name \<noteq> [45, 45]"
proof
  assume n: "named_option ps name = Some opt" and wf: "wf_parser ps" and d: "name = [45, 45]"
  have h: "starts_with (u ''--help'') name" unfolding d by code_simp
  from n show False
  proof (cases rule: named_option_cases)
    case 1
    then have "(name, Store opt) \<in> set (option_strings ps)" by (rule map_of_SomeD)
    then obtain opt' where "opt' \<in> set (ps_options ps)" "name = os_flag opt'"
      using d by (auto simp: option_strings_def u_def)
    with wf d show False by (auto simp: wf_parser_def list_all_iff dest!: bspec)
  next
    case 2
    have "(u ''--help'', Help) \<in> set (filter (\<lambda>entry. starts_with (fst entry) name) (option_strings ps))"
      using h by (simp add: option_strings_def)
    with 2(2) show False by simp
  qed
qed

lemma parse_optional_unknown:
  assumes "dict_get (option_strings ps) s = None" "\<exists>t. s = 45 # 45 # t"
  shows "parse_optional U ps s = (case joined_option ps s of Some m \<Rightarrow> Inr (Some m) | None \<Rightarrow> guessed_option U ps s)"
  using assms by (auto simp: parse_optional_def)

lemma parse_joined:
  assumes "wf_parser ps" "option_meaning U ps name s = Some (k, v)"
  shows "\<exists>f opt. parse_optional U ps (name @ 61 # s) = Inr (Some (matched_as (f, Store opt) True (Some s))) \<and>
    option_value U opt s = Inr v \<and> k = dest opt"
proof -
  from assms(2) obtain opt t where n: "named_option ps name = Some opt" "option_value U opt s = Inr v" "k = dest opt"
    and e: "61 \<notin> set name" and t: "name = 45 # 45 # t" "take 2 name = [45, 45]"
    unfolding option_meaning_iff using two_dashes by blast
  have tk: "take 2 (name @ 61 # s) = [45, 45]" by (simp add: t(1))
  have "dict_get (option_strings ps) (name @ 61 # s) = None"
    using option_string_dashes [OF assms(1)] by (fastforce simp: map_of_eq_None_iff)
  then have p: "parse_optional U ps (name @ 61 # s) = (case joined_option ps (name @ 61 # s) of
      Some m \<Rightarrow> Inr (Some m) | None \<Rightarrow> guessed_option U ps (name @ 61 # s))"
    by (rule parse_optional_unknown) (simp add: t(1))
  from n(1) show ?thesis
  proof (cases rule: named_option_cases)
    case 1
    then show ?thesis using n(2,3) unfolding p by (auto simp: joined_option_def split_once_app [OF e])
  next
    case (2 f)
    have "option_tuples ps (name @ 61 # s) = [matched_as (f, Store opt) True (Some s)]"
      using 2(2) tk by (simp add: option_tuples_def split_once_app [OF e])
    with 2(1) show ?thesis using n(2,3) unfolding p
      by (auto simp: joined_option_def split_once_app [OF e] guessed_option_def)
  qed
qed

lemma parse_apart:
  assumes "wf_parser ps" "option_meaning U ps name s = Some (k, v)"
  shows "\<exists>f opt. parse_optional U ps name = Inr (Some (matched_as (f, Store opt) False None)) \<and>
    option_value U opt s = Inr v \<and> k = dest opt \<and> name \<noteq> [45, 45]"
proof -
  from assms(2) obtain opt t where n: "named_option ps name = Some opt" "option_value U opt s = Inr v" "k = dest opt"
    and e: "61 \<notin> set name" and t: "name = 45 # 45 # t" "take 2 name = [45, 45]"
    unfolding option_meaning_iff using two_dashes by blast
  have o: "split_once 61 name = (name, None)" using split_once_None [of 61 name name] e by simp
  have d: "name \<noteq> [45, 45]" using not_only_dashes [OF n(1) assms(1)] .
  from n(1) show ?thesis
  proof (cases rule: named_option_cases)
    case 1
    then show ?thesis using n(2,3) d t(1) by (auto simp: parse_optional_def)
  next
    case (2 f)
    have "option_tuples ps name = [matched_as (f, Store opt) False None]"
      using 2(2) t(2) o unfolding option_tuples_def by simp
    with 2(1) o show ?thesis using n(2,3) d
      using t(1) by (auto simp: parse_optional_def joined_option_def guessed_option_def)
  qed
qed

subsection \<open>Reading back what was spelled\<close>

lemma classify_append:
  "[45, 45] \<notin> set xs \<Longrightarrow> classify U ps (xs @ ys) =
     bind_res (classify U ps xs) (\<lambda>a. bind_res (classify U ps ys) (\<lambda>b. Inr (a @ b)))"
proof (induction xs)
  case Nil
  show ?case by (cases "classify U ps ys") simp_all
next
  case (Cons s xs)
  then show ?case
    by (cases "parse_optional U ps s"; cases "classify U ps xs"; cases "classify U ps ys") auto
qed

text \<open>The kinds of the arguments an item is spelled with.\<close>

definition tokens :: "unidb \<Rightarrow> parser \<Rightarrow> item \<Rightarrow> (arg_kind \<times> ustr) list" where
  "tokens U ps item = projr (classify U ps (spell item))"

lemma classify_item:
  assumes "wf_parser ps" "meaning U ps item = Some (k, v)"
  shows "classify U ps (spell item) = Inr (tokens U ps item) \<and> [45, 45] \<notin> set (spell item) \<and>
    (case item of Word s \<Rightarrow> tokens U ps item = [(Arg, s)]
     | Joined name s \<Rightarrow> \<exists>f opt. tokens U ps item = [(Opt (matched_as (f, Store opt) True (Some s)), name @ 61 # s)] \<and>
         option_value U opt s = Inr v \<and> k = dest opt
     | Apart name s \<Rightarrow> \<exists>f opt. tokens U ps item = [(Opt (matched_as (f, Store opt) False None), name), (Arg, s)] \<and>
         option_value U opt s = Inr v \<and> k = dest opt)"
proof (cases item)
  case (Word s)
  with assms(2) have "plain_argument U ps s" by (auto split: option.splits positional.splits if_splits)
  with Word show ?thesis by (auto simp: tokens_def plain_argument_def)
next
  case (Joined name s)
  with assms(2) have m: "option_meaning U ps name s = Some (k, v)" by simp
  have "61 \<in> set (name @ 61 # s)" "61 \<notin> set [45, 45 :: int]" by simp_all
  then have "name @ 61 # s \<noteq> [45, 45]" by metis
  moreover obtain f opt where "parse_optional U ps (name @ 61 # s) = Inr (Some (matched_as (f, Store opt) True (Some s)))"
    "option_value U opt s = Inr v" "k = dest opt"
    using parse_joined [OF assms(1) m] by blast
  ultimately show ?thesis using Joined by (auto simp: tokens_def)
next
  case (Apart name s)
  with assms(2) have m: "option_meaning U ps name s = Some (k, v)" and p: "plain_argument U ps s"
    by (auto split: if_splits)
  moreover obtain f opt where "parse_optional U ps name = Inr (Some (matched_as (f, Store opt) False None))"
    "option_value U opt s = Inr v" "k = dest opt" "name \<noteq> [45, 45]"
    using parse_apart [OF assms(1) m] by blast
  ultimately show ?thesis using Apart by (auto simp: tokens_def plain_argument_def)
qed

lemma tokens_option: "wf_parser ps \<Longrightarrow> meaning U ps item = Some kv \<Longrightarrow> \<not> is_word item \<Longrightarrow> list_ex is_option (tokens U ps item)"
  using classify_item [of ps U item "fst kv" "snd kv"] by (cases item) (auto simp: is_option_def)

lemma consume_option:
  assumes "wf_parser ps" "meaning U ps item = Some (k, v)" "\<not> is_word item"
  shows "consume U (tokens U ps item @ rest) st =
    consume U rest (st\<lparr>pa_names := dict_set k v (pa_names st), pa_seen := k # pa_seen st\<rparr>)"
  using classify_item [OF assms(1,2)] assms(3)
  by (cases item) (auto simp: matched_as_def store_def)

lemma consume_word:
  assumes "pa_expects st = Some (Choice name choices)" "s \<in> set choices" "s \<noteq> [45, 45]" "rest = [] \<or> list_ex is_option rest"
  shows "consume U ((Arg, s) # rest) st =
    consume U rest (st\<lparr>pa_names := dict_set name (TextV s) (pa_names st), pa_expects := None\<rparr>)"
  using assms by (auto simp: last_positionals_def take_positional_def is_dashes_def leave_over_def)

text \<open>The destinations of the options among the items.\<close>

definition given :: "unidb \<Rightarrow> parser \<Rightarrow> item list \<Rightarrow> ustr list" where
  "given U ps items = map (\<lambda>item. fst (the (meaning U ps item))) (filter (\<lambda>item. \<not> is_word item) items)"

lemma consume_items:
  assumes "wf_parser ps" "those (map (meaning U ps) items) = Some vals"
    and "length (filter is_word items) \<le> (if pa_expects st = None then 0 else 1)"
    and "pa_expects st = None \<or> pa_expects st = ps_positional ps"
  shows "consume U (concat (map (tokens U ps) items)) st =
      Inr (st\<lparr>pa_names := fold (\<lambda>(k, v). dict_set k v) vals (pa_names st),
        pa_expects := (if list_ex is_word items then None else pa_expects st),
        pa_seen := rev (given U ps items) @ pa_seen st\<rparr>)"
  using assms(2-)
proof (induction items arbitrary: vals st)
  case Nil
  have "last_positionals [] st = Inr st"
    by (cases "pa_expects st") (simp_all add: last_positionals_def leave_over_def)
  with Nil show ?case by (simp add: given_def)
next
  case (Cons item items)
  from Cons.prems(1) obtain k v vals' where kv: "meaning U ps item = Some (k, v)"
    and vals: "vals = (k, v) # vals'" "those (map (meaning U ps) items) = Some vals'"
    by (auto split: option.splits)
  show ?case
  proof (cases "is_word item")
    case False
    let ?st = "st\<lparr>pa_names := dict_set k v (pa_names st), pa_seen := k # pa_seen st\<rparr>"
    have "length (filter is_word items) \<le> (if pa_expects ?st = None then 0 else 1)"
      "pa_expects ?st = None \<or> pa_expects ?st = ps_positional ps"
      using Cons.prems(2,3) False by simp_all
    from Cons.IH [OF vals(2) this] show ?thesis
      using consume_option [OF assms(1) kv False] False kv vals(1) by (simp add: given_def)
  next
    case True
    then obtain s where s: "item = Word s" by (cases item) auto
    with kv obtain choices where p: "ps_positional ps = Some (Choice k choices)" "s \<in> set choices" "v = TextV s" "s \<noteq> [45, 45]"
      by (auto simp: plain_argument_def split: option.splits positional.splits if_splits)
    from Cons.prems(2,3) True p(1) have st: "pa_expects st = Some (Choice k choices)" "filter is_word items = []"
      by (auto split: if_splits)
    let ?rest = "concat (map (tokens U ps) items)"
    have "?rest = [] \<or> list_ex is_option ?rest"
    proof (cases items)
      case (Cons item' items')
      with st(2) vals(2) obtain kv' where "\<not> is_word item'" "meaning U ps item' = Some kv'"
        by (auto split: option.splits if_splits)
      with Cons tokens_option [OF assms(1)] show ?thesis by (simp add: list_ex_append)
    qed simp
    from consume_word [OF st(1) p(2,4) this, of U]
    have step: "consume U ((Arg, s) # ?rest) st = consume U ?rest (st\<lparr>pa_names := dict_set k v (pa_names st), pa_expects := None\<rparr>)"
      unfolding p(3) .
    have "tokens U ps item = [(Arg, s)]" using classify_item [OF assms(1) kv] s by simp
    then show ?thesis
      using Cons.IH [OF vals(2), of "st\<lparr>pa_names := dict_set k v (pa_names st), pa_expects := None\<rparr>"] step st(2) True vals(1)
      by (simp add: given_def)
  qed
qed

lemma classify_items:
  assumes "wf_parser ps" "those (map (meaning U ps) items) = Some vals"
  shows "classify U ps (concat (map spell items)) = Inr (concat (map (tokens U ps) items))"
  using assms(2)
proof (induction items arbitrary: vals)
  case (Cons item items)
  from Cons.prems obtain k v vals' where kv: "meaning U ps item = Some (k, v)" "those (map (meaning U ps) items) = Some vals'"
    by (auto split: option.splits)
  have c: "classify U ps (spell item) = Inr (tokens U ps item)" "[45, 45] \<notin> set (spell item)"
    using classify_item [OF assms(1) kv(1)] by blast+
  show ?case using Cons.IH [OF kv(2)] by (simp add: classify_append [OF c(2)] c(1))
qed simp

text \<open>What is left of the expected arguments after the items: a missing positional and missing required options.\<close>

definition left_out :: "unidb \<Rightarrow> parser \<Rightarrow> item list \<Rightarrow> ustr list" where
  "left_out U ps items = (case ps_positional ps of None \<Rightarrow> [] | Some p \<Rightarrow> if list_ex is_word items then [] else [positional_dest p]) @
     map os_flag (filter (\<lambda>opt. os_required opt \<and> dest opt \<notin> set (given U ps items)) (ps_options ps))"

lemma parse_known_items:
  assumes "wf_parser ps" and "those (map (meaning U ps) items) = Some vals"
    and "length (filter is_word items) \<le> (if ps_positional ps = None then 0 else 1)"
  shows "parse_known_args U ps (concat (map spell items)) =
    (if left_out U ps items \<noteq> [] then Inl (Misuse (MissingArguments (left_out U ps items)))
     else Inr ((parsing_init ps)\<lparr>pa_names := fold (\<lambda>(k, v). dict_set k v) vals (defaults ps),
        pa_expects := (if list_ex is_word items then None else ps_positional ps), pa_seen := rev (given U ps items)\<rparr>))"
proof -
  let ?st = "(parsing_init ps)\<lparr>pa_names := fold (\<lambda>(k, v). dict_set k v) vals (defaults ps),
        pa_expects := (if list_ex is_word items then None else ps_positional ps), pa_seen := rev (given U ps items)\<rparr>"
  have "consume U (concat (map (tokens U ps) items)) (parsing_init ps) = Inr ?st"
    using consume_items [OF assms(1,2), of "parsing_init ps"] assms(3) by (simp add: parsing_init_def)
  moreover have "missing ps ?st = left_out U ps items"
    by (auto simp: missing_def left_out_def split: option.split)
  ultimately show ?thesis
    by (simp add: parse_known_args_def classify_items [OF assms(1,2)] misuse_def ensure_def)
qed

text \<open>A command line that spells out values is read back as these values: whatever the order of
  the arguments, with values joined by an equals sign or apart, and with option names cut to
  any unambiguous prefix; a later value of an option replaces an earlier one, and the options that
  are absent have their defaults.\<close>

lemma command_line_read_back:
  assumes "wf_parser ps" and "those (map (meaning U ps) items) = Some vals"
    and "length (filter is_word items) \<le> (if ps_positional ps = None then 0 else 1)"
  shows "parse_args U ps (concat (map spell items)) =
    (if left_out U ps items \<noteq> [] then Inl (Misuse (MissingArguments (left_out U ps items)))
     else Inr (fold (\<lambda>(k, v). dict_set k v) vals (defaults ps)))"
  using parse_known_items [OF assms] by (simp add: parse_args_def recognized_def parsing_init_def)

subsection \<open>Every namespace is complete\<close>

text \<open>
  What a namespace has for an argument: for an option its default, unless it is required, or a
  converted value; for a positional one of its choices.
\<close>

definition has_option :: "unidb \<Rightarrow> (ustr, arg_value) dict \<Rightarrow> option_spec \<Rightarrow> bool" where
  "has_option U ns opt \<longleftrightarrow> (dict_get ns (dest opt) = Some (os_default opt) \<and> \<not> os_required opt) \<or>
     (\<exists>s v. option_value U opt s = Inr v \<and> dict_get ns (dest opt) = Some v)"

fun has_positional :: "(ustr, arg_value) dict \<Rightarrow> positional \<Rightarrow> bool" where
  "has_positional ns (Choice name choices) = (\<exists>s \<in> set choices. dict_get ns name = Some (TextV s))"
| "has_positional ns (Command name names) = (\<exists>s \<in> set names. dict_get ns name = Some (TextV s))"

definition complete :: "unidb \<Rightarrow> parser \<Rightarrow> (ustr, arg_value) dict \<Rightarrow> bool" where
  "complete U ps ns \<longleftrightarrow> list_all (has_option U ns) (ps_options ps) \<and>
     (case ps_positional ps of None \<Rightarrow> True | Some p \<Rightarrow> has_positional ns p)"

text \<open>The invariant of consuming: what was seen has a converted value, what was not has its default.\<close>

definition consumed :: "unidb \<Rightarrow> parser \<Rightarrow> parsing \<Rightarrow> bool" where
  "consumed U ps st \<longleftrightarrow>
     fst ` set (pa_names st) \<subseteq> fst ` set (defaults ps) \<and>
     (\<forall>opt \<in> set (ps_options ps). if dest opt \<in> set (pa_seen st)
        then \<exists>s v. option_value U opt s = Inr v \<and> dict_get (pa_names st) (dest opt) = Some v
        else dict_get (pa_names st) (dest opt) = Some (os_default opt)) \<and>
     (case pa_expects st of
        Some p \<Rightarrow> ps_positional ps = Some p
      | None \<Rightarrow> (case ps_positional ps of None \<Rightarrow> True | Some p \<Rightarrow> has_positional (pa_names st) p))"

lemma leave_over_consumed [simp]: "consumed U ps (leave_over ss st) = consumed U ps st"
  by (simp add: consumed_def leave_over_def split: option.split)

lemma dest_eqD: "wf_parser ps \<Longrightarrow> opt \<in> set (ps_options ps) \<Longrightarrow> opt' \<in> set (ps_options ps) \<Longrightarrow> dest opt = dest opt' \<Longrightarrow> opt = opt'"
  unfolding wf_parser_def distinct_map by (auto dest: inj_onD)

lemma positional_not_dest: "wf_parser ps \<Longrightarrow> ps_positional ps = Some p \<Longrightarrow> opt \<in> set (ps_options ps) \<Longrightarrow> positional_dest p \<noteq> dest opt"
  by (auto simp: wf_parser_def)

lemma has_positional_set: "positional_dest p \<noteq> k \<Longrightarrow> has_positional (dict_set k v ns) p = has_positional ns p"
  by (cases p) auto

lemma store_consumed:
  assumes "wf_parser ps" "opt \<in> set (ps_options ps)" "consumed U ps st" "store U opt s st = Inr st'"
  shows "consumed U ps st'"
proof -
  from assms(4) obtain v where v: "option_value U opt s = Inr v"
    and st': "st' = st\<lparr>pa_names := dict_set (dest opt) v (pa_names st), pa_seen := dest opt # pa_seen st\<rparr>"
    by (auto simp: store_def bind_res_Inr_iff)
  have opts: "if dest o' \<in> set (pa_seen st') then \<exists>s v. option_value U o' s = Inr v \<and> dict_get (pa_names st') (dest o') = Some v
      else dict_get (pa_names st') (dest o') = Some (os_default o')" if "o' \<in> set (ps_options ps)" for o'
  proof (cases "dest o' = dest opt")
    case True
    with dest_eqD [OF assms(1) that assms(2)] v st' show ?thesis by auto
  next
    case False
    with assms(3) that st' show ?thesis by (auto simp: consumed_def)
  qed
  have "case pa_expects st' of Some p \<Rightarrow> ps_positional ps = Some p
      | None \<Rightarrow> (case ps_positional ps of None \<Rightarrow> True | Some p \<Rightarrow> has_positional (pa_names st') p)"
    using assms(3) positional_not_dest [OF assms(1) _ assms(2)] st'
    by (auto simp: consumed_def has_positional_set split: option.splits)
  moreover have "dest opt \<in> fst ` set (defaults ps)" using assms(2) by (force simp: defaults_def)
  then have "fst ` set (pa_names st') \<subseteq> fst ` set (defaults ps)" using assms(3) st' by (simp add: consumed_def)
  ultimately show ?thesis using opts unfolding consumed_def by blast
qed

lemma take_positional_consumed:
  assumes "wf_parser ps" "pa_expects st = Some p" "consumed U ps st" "take_positional p ss st = Inr st'"
  shows "consumed U ps st'"
proof -
  have p: "ps_positional ps = Some p" using assms(2,3) by (simp add: consumed_def)
  from assms(4) obtain s where
    st': "pa_names st' = dict_set (positional_dest p) (TextV s) (pa_names st)" "pa_expects st' = None" "pa_seen st' = pa_seen st"
    and s: "has_positional (pa_names st') p"
    by (auto simp: take_positional_def Let_def split: positional.splits if_splits)
  have "dict_get (pa_names st') (dest opt) = dict_get (pa_names st) (dest opt)" if "opt \<in> set (ps_options ps)" for opt
    using positional_not_dest [OF assms(1) p that] st'(1) by auto
  moreover have "positional_dest p \<in> fst ` set (defaults ps)" using p by (simp add: defaults_def)
  ultimately show ?thesis using assms(3) st' s p by (simp add: consumed_def)
qed

text \<open>The actions of classified arguments are options of the parser.\<close>

definition known :: "parser \<Rightarrow> matched \<Rightarrow> bool" where
  "known ps m \<longleftrightarrow> (\<forall>opt. m_action m = Some (Store opt) \<longrightarrow> opt \<in> set (ps_options ps))"

lemma matched_known: "entry \<in> set (option_strings ps) \<Longrightarrow> known ps (matched_as entry equals text)"
  by (auto simp: known_def matched_as_def option_strings_def)

lemma option_tuples_known: "m \<in> set (option_tuples ps s) \<Longrightarrow> known ps m"
  by (auto simp: option_tuples_def matched_known split: if_splits)

lemma parse_optional_known: "parse_optional U ps s = Inr (Some m) \<Longrightarrow> known ps m"
proof -
  assume p: "parse_optional U ps s = Inr (Some m)"
  show ?thesis
  proof (cases "dict_get (option_strings ps) s")
    case (Some act)
    with p have "m = matched_as (s, act) False None" by (simp add: parse_optional_def split: if_splits)
    with matched_known [OF map_of_SomeD [OF Some]] show ?thesis by simp
  next
    case None
    note p' = p [unfolded parse_optional_def None option.case]
    show ?thesis
    proof (cases "joined_option ps s")
      case (Some m')
      with p' have "joined_option ps s = Some m" by (simp split: if_splits)
      then obtain name joined act where "dict_get (option_strings ps) name = Some act" "m = matched_as (name, act) True (Some joined)"
        by (auto simp: joined_option_def split: prod.splits option.splits)
      with matched_known [OF map_of_SomeD, of ps name act] show ?thesis by simp
    next
      case None
      with p' have "guessed_option U ps s = Inr (Some m)" by (simp split: if_splits)
      then show ?thesis
        using option_tuples_known [of m ps s]
        by (auto simp: guessed_option_def known_def split: list.splits if_splits)
    qed
  qed
qed

lemma classify_known: "classify U ps argv = Inr items \<Longrightarrow> (Opt m, s) \<in> set items \<Longrightarrow> known ps m"
proof (induction argv arbitrary: items)
  case (Cons a argv)
  then show ?case
    by (auto simp: bind_res_Inr_iff parse_optional_known split: if_splits option.splits)
qed simp

lemma last_positionals_consumed:
  assumes "wf_parser ps" "consumed U ps st" "last_positionals items st = Inr st'"
  shows "consumed U ps st'"
proof (cases "pa_expects st")
  case None
  with assms(2,3) show ?thesis by (auto simp: last_positionals_def)
next
  case (Some p)
  note take = take_positional_consumed [OF assms(1) Some assms(2)]
  show ?thesis
  proof (cases "dropWhile is_dashes items")
    case Nil
    with Some assms(2,3) show ?thesis by (auto simp: last_positionals_def)
  next
    case (Cons item others)
    with Some assms(3) take show ?thesis
      by (cases p) (auto simp: last_positionals_def bind_res_Inr_iff)
  qed
qed

lemma consume_consumed:
  assumes "wf_parser ps" "\<forall>m s. (Opt m, s) \<in> set items \<longrightarrow> known ps m" "consumed U ps st" "consume U items st = Inr st'"
  shows "consumed U ps st'"
  using assms(2-)
proof (induction "length items" arbitrary: items st rule: less_induct)
  case less
  note last = last_positionals_consumed [OF assms(1) less.prems(2)]
  show ?case
  proof (cases items)
    case Nil
    with less.prems(3) last show ?thesis by simp
  next
    case (Cons item rest)
    obtain kind s where item: "item = (kind, s)" by (cases item)
    have rest: "\<forall>m s. (Opt m, s) \<in> set rest \<longrightarrow> known ps m" using less.prems(1) Cons by auto
    have IH: "\<And>st1. consumed U ps st1 \<Longrightarrow> consume U rest st1 = Inr st' \<Longrightarrow> consumed U ps st'"
      using less.hyps [OF _ rest] Cons by simp
    have plain: ?thesis if c: "consume U items st = (if \<not> list_ex is_option rest then last_positionals items st
        else case pa_expects st of
          None \<Rightarrow> consume U rest (leave_over [s] st)
        | Some (Choice name choices) \<Rightarrow> bind_res (take_positional (Choice name choices) [s] st) (consume U rest)
        | Some (Command name names) \<Rightarrow> take_positional (Command name names) (s # map snd rest) st)"
    proof (cases "\<not> list_ex is_option rest")
      case True
      with c less.prems(3) last show ?thesis by simp
    next
      case False
      show ?thesis
      proof (cases "pa_expects st")
        case None
        with c False less.prems(2,3) IH [of "leave_over [s] st"] show ?thesis by simp
      next
        case (Some p)
        note take = take_positional_consumed [OF assms(1) Some less.prems(2)]
        show ?thesis
        proof (cases p)
          case (Choice name choices)
          with c False Some have "consume U items st = bind_res (take_positional p [s] st) (consume U rest)" by simp
          from less.prems(3) [unfolded this] obtain st1 where "take_positional p [s] st = Inr st1" "consume U rest st1 = Inr st'"
            by (auto simp: bind_res_Inr_iff)
          with take IH show ?thesis by blast
        next
          case (Command name names)
          with c False Some less.prems(3) take show ?thesis by simp
        qed
      qed
    qed
    show ?thesis
    proof (cases kind)
      case (Opt m)
      note c = less.prems(3) [unfolded Cons item Opt consume.simps]
      show ?thesis
      proof (cases "m_action m")
        case None
        with c IH [of "leave_over [s] st"] less.prems(2) show ?thesis by simp
      next
        case (Some act)
        with c obtain opt where act: "m_action m = Some (Store opt)" by (cases act) auto
        with less.prems(1) have o: "opt \<in> set (ps_options ps)" unfolding Cons item Opt known_def by auto
        note stored = store_consumed [OF assms(1) o less.prems(2)]
        show ?thesis
        proof (cases "m_text m")
          case (Some word)
          with c act IH stored show ?thesis by (auto simp: bind_res_Inr_iff)
        next
          case None
          with c act obtain word items' st1 where
            st1: "rest = (Arg, word) # items'" "store U opt word st = Inr st1" "consume U items' st1 = Inr st'"
            by (auto simp: bind_res_Inr_iff split: list.splits prod.splits arg_kind.splits)
          with less.hyps [of items' st1] rest stored Cons show ?thesis by simp
        qed
      qed
    qed (use plain Cons item in simp_all)
  qed
qed

lemma parsing_init_consumed: "wf_parser ps \<Longrightarrow> consumed U ps (parsing_init ps)"
proof -
  assume wf: "wf_parser ps"
  have d: "dict_get (map (\<lambda>opt. (dest opt, os_default opt)) opts) (dest opt) = Some (os_default opt)"
    if "distinct (map dest opts)" "opt \<in> set opts" for opt opts
    using that by (intro map_of_is_SomeI) (auto simp: o_def)
  have "dict_get (defaults ps) (dest opt) = Some (os_default opt)" if "opt \<in> set (ps_options ps)" for opt
    using d [OF _ that] wf that positional_not_dest [OF wf _ that]
    by (auto simp: defaults_def wf_parser_def split: option.splits)
  then show ?thesis by (simp add: consumed_def parsing_init_def split: option.split)
qed

lemma parse_known_complete:
  assumes "wf_parser ps" "parse_known_args U ps argv = Inr st"
  shows "complete U ps (pa_names st)" "fst ` set (pa_names st) \<subseteq> fst ` set (defaults ps)"
proof -
  from assms(2) obtain items where i: "classify U ps argv = Inr items" "consume U items (parsing_init ps) = Inr st" "missing ps st = []"
    by (auto simp: parse_known_args_def misuse_def bind_res_Inr_iff ensure_iff split: sum.splits)
  have "consumed U ps st"
    using consume_consumed [OF assms(1) _ parsing_init_consumed [OF assms(1)] i(2)] classify_known [OF i(1)] by blast
  then show "fst ` set (pa_names st) \<subseteq> fst ` set (defaults ps)" by (simp add: consumed_def)
  from \<open>consumed U ps st\<close> i(3) show "complete U ps (pa_names st)"
    by (auto simp: consumed_def complete_def has_option_def missing_def list_all_iff filter_empty_conv split: option.splits if_splits)
qed

lemma parse_args_complete_lemma:
  "wf_parser ps \<Longrightarrow> parse_args U ps argv = Inr ns \<Longrightarrow> complete U ps ns"
  using parse_known_complete(1) [of ps U argv] by (auto simp: parse_args_def recognized_def bind_res_Inr_iff split: if_splits)

text \<open>Every command line that is accepted gives a namespace in which each option has a converted value
  of its type that is one of its choices, or, when it was absent and is not required, its default,
  and in which the positional argument is one of its choices.\<close>

theorem parse_args_complete:
  assumes "wf_parser ps" and "parse_args U ps argv = Inr ns"
  shows "list_all (\<lambda>opt. (dict_get ns (dest opt) = Some (os_default opt) \<and> \<not> os_required opt) \<or>
      (\<exists>s v. option_value U opt s = Inr v \<and> dict_get ns (dest opt) = Some v)) (ps_options ps) \<and>
    (case ps_positional ps of None \<Rightarrow> True | Some p \<Rightarrow> has_positional ns p)"
  using parse_args_complete_lemma [OF assms] by (simp add: complete_def has_option_def [abs_def])

subsection \<open>What the items say about an option\<close>

text \<open>The texts the items give to an option, under any name of at least three characters that its option string starts with.\<close>

definition stands_for :: "ustr \<Rightarrow> ustr \<Rightarrow> bool" where
  "stands_for name flag \<longleftrightarrow> 3 \<le> length name \<and> starts_with flag name"

fun text_for :: "ustr \<Rightarrow> item \<Rightarrow> ustr option" where
  "text_for flag (Word s) = None"
| "text_for flag (Joined name s) = (if stands_for name flag then Some s else None)"
| "text_for flag (Apart name s) = (if stands_for name flag then Some s else None)"

definition last_text :: "ustr \<Rightarrow> item list \<Rightarrow> ustr option" where
  "last_text flag items = fold (\<lambda>item t. case text_for flag item of Some s \<Rightarrow> Some s | None \<Rightarrow> t) items None"

text \<open>A parser whose option strings differ in their third character.\<close>

definition told_apart :: "parser \<Rightarrow> bool" where
  "told_apart ps \<longleftrightarrow> list_all (\<lambda>opt. take 2 (os_flag opt) = [45, 45] \<and>
     list_all (\<lambda>n. named_option ps (take n (os_flag opt)) = Some opt) [3 ..< Suc (length (os_flag opt))]) (ps_options ps)"

text \<open>The items that are spelled sensibly: an option with a text of its type, the positional with one of its choices.\<close>

fun sensible :: "unidb \<Rightarrow> parser \<Rightarrow> item \<Rightarrow> bool" where
  "sensible U ps (Word s) = (case ps_positional ps of
     Some (Choice name choices) \<Rightarrow> s \<in> set choices \<and> plain_argument U ps s | _ \<Rightarrow> False)"
| "sensible U ps (Joined name s) = (\<exists>opt v. opt \<in> set (ps_options ps) \<and> stands_for name (os_flag opt) \<and> option_value U opt s = Inr v)"
| "sensible U ps (Apart name s) = ((\<exists>opt v. opt \<in> set (ps_options ps) \<and> stands_for name (os_flag opt) \<and> option_value U opt s = Inr v) \<and>
     plain_argument U ps s)"

lemma stands_for_named:
  assumes "wf_parser ps" "told_apart ps" "opt \<in> set (ps_options ps)" "stands_for name (os_flag opt)"
  shows "named_option ps name = Some opt" "take 2 name = [45, 45]" "61 \<notin> set name"
proof -
  from assms(4) have n: "name = take (length name) (os_flag opt)" "length name \<in> set [3 ..< Suc (length (os_flag opt))]"
    by (auto simp: stands_for_def starts_with_def prefix_def)
  from assms(2,3) have t: "take 2 (os_flag opt) = [45, 45]"
    "list_all (\<lambda>n. named_option ps (take n (os_flag opt)) = Some opt) [3 ..< Suc (length (os_flag opt))]"
    by (auto simp: told_apart_def list_all_iff)
  from t(2) n(2) have "named_option ps (take (length name) (os_flag opt)) = Some opt" by (simp only: list_all_iff)
  then show "named_option ps name = Some opt" using n(1) by simp
  have "take 2 (take (length name) (os_flag opt)) = take 2 (os_flag opt)" using n(2) by (auto simp: min_def)
  then show "take 2 name = [45, 45]" using t(1) n(1) by simp
  have "61 \<notin> set (os_flag opt)" using assms(1,3) by (simp add: wf_parser_def list_all_iff)
  moreover have "set (take (length name) (os_flag opt)) \<subseteq> set (os_flag opt)" by (rule set_take_subset)
  ultimately show "61 \<notin> set name" using n(1) by auto
qed

lemma sensible_meaning:
  assumes "wf_parser ps" "told_apart ps" "sensible U ps item" "\<not> is_word item"
  shows "\<exists>opt v s. opt \<in> set (ps_options ps) \<and> option_value U opt s = Inr v \<and> meaning U ps item = Some (dest opt, v) \<and>
    (\<forall>o' \<in> set (ps_options ps). text_for (os_flag o') item = (if o' = opt then Some s else None))"
proof -
  have named: "option_meaning U ps name s = Some (dest opt, v) \<and>
      (\<forall>o' \<in> set (ps_options ps). stands_for name (os_flag o') \<longleftrightarrow> o' = opt)"
    if "opt \<in> set (ps_options ps)" "stands_for name (os_flag opt)" "option_value U opt s = Inr v" for name opt s v
  proof -
    note n = stands_for_named [OF assms(1,2) that(1,2)]
    have "o' = opt" if "o' \<in> set (ps_options ps)" "stands_for name (os_flag o')" for o'
      using stands_for_named(1) [OF assms(1,2) that] n(1) by simp
    then have "\<forall>o' \<in> set (ps_options ps). stands_for name (os_flag o') \<longleftrightarrow> o' = opt" using that(2) by blast
    moreover have "option_meaning U ps name s = Some (dest opt, v)" unfolding option_meaning_iff using n that(3) by blast
    ultimately show ?thesis by blast
  qed
  show ?thesis
  proof (cases item)
    case (Joined name s)
    with assms(3) obtain opt v where o: "opt \<in> set (ps_options ps)" "stands_for name (os_flag opt)" "option_value U opt s = Inr v" by auto
    from named [OF this] o Joined show ?thesis by auto
  next
    case (Apart name s)
    with assms(3) obtain opt v where o: "opt \<in> set (ps_options ps)" "stands_for name (os_flag opt)" "option_value U opt s = Inr v"
      and p: "plain_argument U ps s" by auto
    from named [OF o] o p Apart show ?thesis by auto
  qed (use assms(4) in simp)
qed

text \<open>The values the items stand for; the last value of an option is the one that is stored.\<close>

definition meant :: "unidb \<Rightarrow> parser \<Rightarrow> item list \<Rightarrow> (ustr \<times> arg_value) list" where
  "meant U ps items = map (\<lambda>item. the (meaning U ps item)) items"

definition stored :: "unidb \<Rightarrow> parser \<Rightarrow> item list \<Rightarrow> (ustr, arg_value) dict" where
  "stored U ps items = fold (\<lambda>(k, v). dict_set k v) (meant U ps items) (defaults ps)"

lemma sensible_word: "sensible U ps (Word s) \<Longrightarrow> \<exists>name choices. ps_positional ps = Some (Choice name choices) \<and>
    s \<in> set choices \<and> meaning U ps (Word s) = Some (name, TextV s)"
  by (auto split: option.splits positional.splits)

lemma sensible_meant:
  assumes "wf_parser ps" "told_apart ps" "list_all (sensible U ps) items"
  shows "those (map (meaning U ps) items) = Some (meant U ps items)"
  using assms(3)
proof (induction items)
  case (Cons item items)
  from Cons.prems have s: "sensible U ps item" by simp
  have "\<exists>kv. meaning U ps item = Some kv"
  proof (cases "is_word item")
    case True
    then obtain word where w: "item = Word word" by (cases item) auto
    from sensible_word [OF s [unfolded w]] show ?thesis unfolding w by blast
  qed (use sensible_meaning [OF assms(1,2) s] in blast)
  with Cons show ?case by (auto simp: meant_def)
qed (simp add: meant_def)

lemma sensible_given:
  assumes "wf_parser ps" "told_apart ps" "list_all (sensible U ps) items" "opt \<in> set (ps_options ps)"
  shows "dest opt \<in> set (given U ps items) \<longleftrightarrow> last_text (os_flag opt) items \<noteq> None"
  using assms(3)
proof (induction items rule: rev_induct)
  case (snoc item items)
  show ?case
  proof (cases "is_word item")
    case True
    with snoc show ?thesis by (cases item) (auto simp: given_def last_text_def)
  next
    case False
    from snoc.prems have "sensible U ps item" by simp
    from sensible_meaning [OF assms(1,2) this False] obtain o' v s where
      o': "o' \<in> set (ps_options ps)" "meaning U ps item = Some (dest o', v)" "text_for (os_flag opt) item = (if opt = o' then Some s else None)"
      using assms(4) by blast
    with dest_eqD [OF assms(1) _ assms(4)] snoc False show ?thesis by (auto simp: given_def last_text_def)
  qed
qed (simp add: given_def last_text_def)

lemma stored_option:
  assumes "wf_parser ps" "told_apart ps" "list_all (sensible U ps) items" "opt \<in> set (ps_options ps)"
  shows "dict_get (stored U ps items) (dest opt) = (case last_text (os_flag opt) items of
      None \<Rightarrow> Some (os_default opt) | Some s \<Rightarrow> Some (projr (option_value U opt s)))"
  using assms(3)
proof (induction items rule: rev_induct)
  case Nil
  have "dict_get (defaults ps) (dest opt) = Some (os_default opt)"
    using parsing_init_consumed [OF assms(1)] assms(4) by (simp add: consumed_def parsing_init_def)
  then show ?case by (simp add: stored_def meant_def last_text_def)
next
  case (snoc item items)
  from snoc.prems have s: "sensible U ps item" by simp
  have step: "stored U ps (items @ [item]) = (case the (meaning U ps item) of (k, v) \<Rightarrow> dict_set k v (stored U ps items))"
    by (simp add: stored_def meant_def split: prod.split)
  show ?case
  proof (cases "is_word item")
    case True
    then obtain word where w: "item = Word word" by (cases item) auto
    from sensible_word [OF s [unfolded w]] obtain name choices where
      "ps_positional ps = Some (Choice name choices)" "meaning U ps item = Some (name, TextV word)" unfolding w by blast
    with positional_not_dest [OF assms(1) _ assms(4)] snoc w show ?thesis
      unfolding step by (fastforce simp: last_text_def simp del: meaning.simps sensible.simps)
  next
    case False
    from sensible_meaning [OF assms(1,2) s False] obtain o' v s where
      o': "o' \<in> set (ps_options ps)" "option_value U o' s = Inr v" "meaning U ps item = Some (dest o', v)"
        "text_for (os_flag opt) item = (if opt = o' then Some s else None)"
      using assms(4) by blast
    with dest_eqD [OF assms(1) _ assms(4)] snoc show ?thesis
      unfolding step by (auto simp: last_text_def)
  qed
qed

lemma stored_positional:
  assumes "wf_parser ps" "told_apart ps" "list_all (sensible U ps) items" "ps_positional ps = Some (Choice name choices)"
    and "Word s \<in> set items" "length (filter is_word items) \<le> 1"
  shows "dict_get (stored U ps items) name = Some (TextV s)"
  using assms(3,5,6)
proof (induction items rule: rev_induct)
  case (snoc item items)
  have step: "stored U ps (items @ [item]) = (case the (meaning U ps item) of (k, v) \<Rightarrow> dict_set k v (stored U ps items))"
    by (simp add: stored_def meant_def split: prod.split)
  from snoc.prems have it: "sensible U ps item" by simp
  show ?case
  proof (cases "is_word item")
    case True
    then obtain word where w: "item = Word word" by (cases item) auto
    with snoc.prems(3) have "filter is_word items = []" by simp
    then have "Word s \<notin> set items" by (auto simp: filter_empty_conv)
    with snoc.prems(2) w have "word = s" by simp
    with w sensible_word [OF it [unfolded w]] assms(4) show ?thesis unfolding step by auto
  next
    case False
    from sensible_meaning [OF assms(1,2) it False] obtain o' v where
      o': "o' \<in> set (ps_options ps)" "meaning U ps item = Some (dest o', v)" by blast
    with positional_not_dest [OF assms(1,4) o'(1)] snoc False show ?thesis unfolding step by auto
  qed
qed simp

lemma sensible_command_line:
  assumes "wf_parser ps" "told_apart ps" "list_all (sensible U ps) items"
    and "length (filter is_word items) \<le> (if ps_positional ps = None then 0 else 1)"
  shows "parse_known_args U ps (concat (map spell items)) =
    (if left_out U ps items \<noteq> [] then Inl (Misuse (MissingArguments (left_out U ps items)))
     else Inr ((parsing_init ps)\<lparr>pa_names := stored U ps items,
        pa_expects := (if list_ex is_word items then None else ps_positional ps), pa_seen := rev (given U ps items)\<rparr>))"
  unfolding parse_known_items [OF assms(1) sensible_meant [OF assms(1-3)] assms(4)] stored_def ..

subsection \<open>Subcommands\<close>

lemma copy_names_get: "dict_get (copy_names new ns) k = (case dict_get new k of None \<Rightarrow> dict_get ns k | Some v \<Rightarrow> Some v)"
proof -
  have get: "dict_get (fold (\<lambda>k. dict_set k (f k)) ks ns) k = (if k \<in> set ks then Some (f k) else dict_get ns k)" for f :: "ustr \<Rightarrow> arg_value" and ks
    by (induction ks arbitrary: ns) auto
  show ?thesis
  proof (cases "dict_get new k")
    case None
    then have "k \<notin> set (dict_keys new)" by (simp add: map_of_eq_None_iff)
    with get None show ?thesis by (simp add: copy_names_def)
  next
    case (Some v)
    from map_of_SomeD [OF this] have "k \<in> set (dict_keys new)" by force
    with get Some show ?thesis by (simp add: copy_names_def)
  qed
qed

lemma has_option_get:
  "has_option U ns opt \<Longrightarrow> dict_get ns' (dest opt) = dict_get ns (dest opt) \<Longrightarrow> has_option U ns' opt"
  by (simp add: has_option_def)

lemma copy_names_complete: "complete U sub new \<Longrightarrow> ps_positional sub = None \<Longrightarrow> complete U sub (copy_names new ns)"
proof -
  assume c: "complete U sub new" and p: "ps_positional sub = None"
  have "has_option U (copy_names new ns) opt" if "opt \<in> set (ps_options sub)" for opt
  proof (rule has_option_get)
    show h: "has_option U new opt" using c that by (simp add: complete_def list_all_iff)
    then show "dict_get (copy_names new ns) (dest opt) = dict_get new (dest opt)"
      by (auto simp: has_option_def copy_names_get)
  qed
  with p show ?thesis by (simp add: complete_def list_all_iff)
qed

lemma parse_command_complete:
  assumes "wf_parser ps" "ps_positional ps = Some (Command name (map fst commands))"
    and "list_all (\<lambda>(_, sub). wf_parser sub \<and> ps_positional sub = None \<and> name \<notin> set (map dest (ps_options sub))) commands"
    and "parse_command U ps commands name argv = Inr ns"
  shows "\<exists>command sub. (command, sub) \<in> set commands \<and> dict_get ns name = Some (TextV command) \<and> complete U sub ns"
proof -
  from assms(4) obtain st where st: "parse_known_args U ps argv = Inr st"
    by (auto simp: parse_command_def bind_res_Inr_iff)
  from parse_known_complete(1) [OF assms(1) st] assms(2) obtain command where
    c: "command \<in> fst ` set commands" "dict_get (pa_names st) name = Some (TextV command)" by (auto simp: complete_def)
  then obtain sub where sub: "dict_get commands command = Some sub"
    by (cases "dict_get commands command") (auto simp: map_of_eq_None_iff)
  with st c assms(4) obtain sub_st where s: "parse_known_args U sub (pa_rest st) = Inr sub_st"
    "ns = copy_names (pa_names sub_st) (pa_names st)"
    by (auto simp: parse_command_def bind_res_Inr_iff recognized_def split: if_splits)
  from map_of_SomeD [OF sub] assms(3) have wf: "wf_parser sub" "ps_positional sub = None" "name \<notin> set (map dest (ps_options sub))"
    by (auto simp: list_all_iff)
  note sub_st = parse_known_complete [OF wf(1) s(1)]
  have "name \<notin> fst ` set (defaults sub)" using wf(2,3) by (auto simp: defaults_def)
  with sub_st(2) have "dict_get (pa_names sub_st) name = None" by (auto simp: map_of_eq_None_iff)
  then show ?thesis
    using map_of_SomeD [OF sub] copy_names_complete [OF sub_st(1) wf(2)] c(2) s(2) by (intro exI [of _ command] exI [of _ sub]) (auto simp: copy_names_get)
qed

end
