(* ===== verification/SkProfile.thy ===== *)
theory SkProfile
  imports ProfileBase
begin

section \<open>The profile reader of the router\<close>

text \<open>
  scripts/sk_profile_components.py asks the router over its control socket for the counters of the
  three kernel stages, one row per CPU, adds them up and reports the means. \<open>request\<close> talks to a
  \<open>peer\<close>, the other end of the socket: the outcome of each socket call is a field of it, and
  receiving repeats until the peer closes, which need not happen.
\<close>

definition SK_STAGES :: "ustr list" where
  "SK_STAGES = map u [''parse_signal'', ''decision'', ''redirect'']"

definition SK_METRICS :: "ustr list" where
  "SK_METRICS = map u [''count'', ''total_ns'']"

subsection \<open>The socket\<close>

text \<open>
  \<open>settimeout\<close> takes the seconds as nanoseconds in 64 bits, rounded away from zero.
\<close>

definition timeout_ns :: "rat \<Rightarrow> int" where
  "timeout_ns seconds = (let ns = double (seconds * 1000000000) in if 0 \<le> ns then \<lceil>ns\<rceil> else \<lfloor>ns\<rfloor>)"

definition timeout_overflow :: pyerr where
  "timeout_overflow = OverflowErr ''timestamp out of range for platform time_t''"

definition settimeout :: "float_number \<Rightarrow> unit res" where
  "settimeout timeout = (case timeout of
     NotANumber \<Rightarrow> Inl (ValueError ''Invalid value NaN (not a number)'' [])
   | Infinite _ \<Rightarrow> Inl timeout_overflow
   | Finite seconds \<Rightarrow>
       bind_res (ensure (- (2 ^ 63) \<le> timeout_ns seconds \<and> timeout_ns seconds < 2 ^ 63) timeout_overflow) (\<lambda>_.
       ensure (0 \<le> timeout_ns seconds) (ValueError ''Timeout value out of range'' [])))"

lemma double_close:
  assumes "0 \<le> x" shows "double x \<le> x + x / 2 ^ 53 + 1" "x - x / 2 ^ 53 - 1 \<le> double x"
proof -
  have q: "0 \<le> x / 2 ^ 53" using assms by simp
  have "double x \<le> x + x / 2 ^ 53 + 1 \<and> x - x / 2 ^ 53 - 1 \<le> double x"
  proof (cases "x * normal_scale < 1")
    case True
    have "x * 1 \<le> x * normal_scale" using assms scale_facts(1) by (intro mult_left_mono) auto
    with True have "x < 1" by simp
    with double_tiny [OF assms True] double_nonneg [OF assms] assms q show ?thesis by linarith
  next
    case False
    then have "\<bar>double x - x\<bar> * 2 ^ 53 \<le> x" by (intro double_error) simp
    then have "\<bar>double x - x\<bar> \<le> x / 2 ^ 53" by (simp add: pos_le_divide_eq)
    then show ?thesis by linarith
  qed
  then show "double x \<le> x + x / 2 ^ 53 + 1" "x - x / 2 ^ 53 - 1 \<le> double x" by blast+
qed

lemma settimeout_ok: "0 \<le> t \<Longrightarrow> t \<le> 2 ^ 33 \<Longrightarrow> settimeout (Finite t) = Inr ()"
proof -
  assume t: "0 \<le> t" "t \<le> 2 ^ 33"
  then have "double (t * 1000000000) \<le> of_int (2 ^ 63 - 1)"
    using double_close(1) [of "t * 1000000000"] by simp
  then have "\<lceil>double (t * 1000000000)\<rceil> \<le> 2 ^ 63 - 1" by (simp only: ceiling_le_iff)
  moreover have "0 \<le> double (t * 1000000000)" using t by (intro double_nonneg) simp
  moreover from this have "0 \<le> \<lceil>double (t * 1000000000)\<rceil>" by simp
  ultimately show ?thesis by (simp add: settimeout_def timeout_ns_def Let_def)
qed

lemma settimeout_large: "2 ^ 34 \<le> t \<Longrightarrow> settimeout (Finite t) = Inl timeout_overflow"
proof -
  assume t: "2 ^ 34 \<le> t"
  then have "of_int (2 ^ 63) \<le> double (t * 1000000000)"
    using double_close(2) [of "t * 1000000000"] by simp
  moreover from this have "2 ^ 63 \<le> \<lceil>double (t * 1000000000)\<rceil>" by (meson le_ceiling_iff less_le_trans ceiling_correct order_trans of_int_le_iff)
  ultimately show ?thesis by (simp add: settimeout_def timeout_ns_def Let_def)
qed

text \<open>\<open>p_recv sent n\<close> is what the \<open>n\<close>-th receive returns after the bytes \<open>sent\<close>.\<close>

record peer =
  p_connect :: "ustr \<Rightarrow> unit res"
  p_sendall :: "ustr \<Rightarrow> unit res"
  p_shutdown :: "unit res"
  p_recv :: "ustr \<Rightarrow> nat \<Rightarrow> ustr res"

partial_function (option) recv_all :: "(nat \<Rightarrow> ustr res) \<Rightarrow> nat \<Rightarrow> ustr \<Rightarrow> ustr res option" where
  "recv_all recv n acc = (case recv n of
     Inl e \<Rightarrow> Some (Inl e)
   | Inr chunk \<Rightarrow> if chunk = [] then Some (Inr acc) else recv_all recv (Suc n) (acc @ chunk))"

definition ascii_encode :: "ustr \<Rightarrow> ustr res" where
  "ascii_encode s = (if is_ascii s then Inr s else Inl UnicodeEncodeErr)"

definition ascii_decode :: "ustr \<Rightarrow> ustr res" where
  "ascii_decode bytes = (if list_all (\<lambda>b. b < 128) bytes then Inr bytes
     else Inl (ValueError ''ascii codec cannot decode byte'' []))"

definition profile_command :: "ustr \<Rightarrow> ustr" where
  "profile_command command = u ''profile '' @ command @ [10]"

definition request :: "peer \<Rightarrow> ustr \<Rightarrow> ustr \<Rightarrow> float_number \<Rightarrow> ustr res option" where
  "request P socket_path command timeout =
     (case bind_res (settimeout timeout) (\<lambda>_.
           bind_res (p_connect P socket_path) (\<lambda>_.
           bind_res (ascii_encode (profile_command command)) (\<lambda>bytes.
           bind_res (p_sendall P bytes) (\<lambda>_.
           bind_res (p_shutdown P) (\<lambda>_. Inr bytes))))) of
        Inl e \<Rightarrow> Some (Inl e)
      | Inr bytes \<Rightarrow> map_option (\<lambda>raw. bind_res raw (\<lambda>bytes. bind_res (ascii_decode bytes) (\<lambda>text. Inr (py_strip text))))
          (recv_all (p_recv P bytes) 0 []))"

subsection \<open>Fields\<close>

definition parse_field :: "unidb \<Rightarrow> ustr \<Rightarrow> (ustr, pyval) dict \<Rightarrow> (ustr, pyval) dict res" where
  "parse_field U field attrs = (case split_once 61 field of
     (key, None) \<Rightarrow> Inl (ValueError ''invalid profiling field: {!r}'' [field])
   | (key, Some v) \<Rightarrow> Inr (dict_set key (case int_text U v of Some i \<Rightarrow> PInt i | None \<Rightarrow> PStr v) attrs))"

definition parse_fields :: "unidb \<Rightarrow> ustr \<Rightarrow> (ustr, pyval) dict res" where
  "parse_fields U line = fold_res (parse_field U) (split_ws line) []"

subsection \<open>Aggregation\<close>

record sk_result =
  sk_completed :: int
  sk_cpu_count :: int
  sk_stages :: "(ustr, stage_stats) dict"
  sk_parse_signal_mean :: rat
  sk_decision_mean :: rat
  sk_redirect_mean :: rat
  sk_total_mean :: pyfloat

text \<open>The checks of the first line; the result is the CPU count.\<close>

definition sk_header :: "unidb \<Rightarrow> ustr \<Rightarrow> int \<Rightarrow> int res" where
  "sk_header U line line_count = bind_res (parse_fields U line) (\<lambda>header.
     bind_res (ensure (dict_get header (u ''profile_enabled'') = Some (PInt 1))
       (RuntimeErr ''router was built with SK_PROFILE_COMPONENTS=0'' [])) (\<lambda>_.
     case dict_get header (u ''error'') of
       Some err \<Rightarrow> Inl (RuntimeErr ''router profiling read failed: {}'' [py_str U err])
     | None \<Rightarrow>
     bind_res (ensure (dict_get header (u ''stage_count'') = Some (PInt (int (length SK_STAGES))))
       (ValueError ''profiling response has an unexpected stage count'' [])) (\<lambda>_.
     case dict_get header (u ''cpu_count'') of
       Some (PInt cpu_count) \<Rightarrow>
         if cpu_count \<le> 0 then Inl (ValueError ''profiling response has an invalid CPU count'' [])
         else if line_count \<noteq> cpu_count + 1
         then Inl (ValueError ''profiling response contains {} CPU rows; expected {}'' [show_int (line_count - 1), show_int cpu_count])
         else Inr cpu_count
     | _ \<Rightarrow> Inl (ValueError ''profiling response has an invalid CPU count'' []))))"

definition sk_totals :: counters where
  "sk_totals = map (\<lambda>stage. (stage, map (\<lambda>metric. (metric, 0)) SK_METRICS)) SK_STAGES"

definition sk_metric :: "(ustr, pyval) dict \<Rightarrow> int \<Rightarrow> ustr \<times> ustr \<Rightarrow> counters \<Rightarrow> counters res" where
  "sk_metric row cpu cell totals = (case cell of (stage, metric) \<Rightarrow>
     case dict_get row (stage @ u ''_'' @ metric) of
       Some (PInt v) \<Rightarrow>
         if v < 0 then Inl (ValueError ''invalid {}_{} for CPU {}'' [stage, metric, show_int cpu])
         else counter_add stage metric v totals
     | _ \<Rightarrow> Inl (ValueError ''invalid {}_{} for CPU {}'' [stage, metric, show_int cpu]))"

definition sk_row :: "unidb \<Rightarrow> int \<Rightarrow> ustr \<Rightarrow> int list \<times> counters \<Rightarrow> (int list \<times> counters) res" where
  "sk_row U cpu_count line st = bind_res (parse_fields U line) (\<lambda>row.
     case dict_get row (u ''cpu'') of
       Some (PInt cpu) \<Rightarrow>
         if cpu < 0 \<or> cpu_count \<le> cpu \<or> cpu \<in> set (fst st)
         then Inl (ValueError ''invalid or duplicate CPU row: {!r}'' [show_int cpu])
         else bind_res (fold_res (sk_metric row cpu) (List.product SK_STAGES SK_METRICS) (snd st)) (\<lambda>totals.
           Inr (cpu # fst st, totals))
     | other \<Rightarrow> Inl (ValueError ''invalid or duplicate CPU row: {!r}''
         [py_repr U (case other of Some v \<Rightarrow> v | None \<Rightarrow> PNone)]))"

definition sk_stage :: "int \<Rightarrow> int \<Rightarrow> stage_stats res" where
  "sk_stage count total_ns =
     bind_res (if count \<noteq> 0 then true_div total_ns count else Inr 0) (\<lambda>mean_ns.
     Inr \<lparr>ss_count = count, ss_total_ns = total_ns, ss_mean_ns = mean_ns, ss_mean_us = per_thousand mean_ns\<rparr>)"

definition sk_summary :: "interp \<Rightarrow> int \<Rightarrow> counters \<Rightarrow> sk_result res" where
  "sk_summary I cpu_count totals =
     bind_res (map_res (\<lambda>stage. counter_read totals stage (u ''count'')) SK_STAGES) (\<lambda>counts.
     bind_res (ensure (length (remdups counts) = 1)
       (RuntimeErr ''stage counts differ; stop request traffic before reading profiling data'' [])) (\<lambda>_.
     bind_res (counter_read totals (u ''redirect'') (u ''count'')) (\<lambda>completed.
     bind_res (map_res (\<lambda>stage.
         bind_res (counter_read totals stage (u ''count'')) (\<lambda>count.
         bind_res (counter_read totals stage (u ''total_ns'')) (\<lambda>total_ns.
         bind_res (sk_stage count total_ns) (\<lambda>s. Inr (stage, s))))) SK_STAGES) (\<lambda>stages.
     bind_res (map_res (\<lambda>stage. bind_res (dict_index stages stage) (\<lambda>s. Inr (ss_mean_ns s))) SK_STAGES) (\<lambda>means.
     bind_res (dict_index stages (u ''parse_signal'')) (\<lambda>parse_signal.
     bind_res (dict_index stages (u ''decision'')) (\<lambda>decision.
     bind_res (dict_index stages (u ''redirect'')) (\<lambda>redirect.
     Inr \<lparr>sk_completed = completed, sk_cpu_count = cpu_count, sk_stages = stages,
          sk_parse_signal_mean = ss_mean_us parse_signal, sk_decision_mean = ss_mean_us decision,
          sk_redirect_mean = ss_mean_us redirect,
          sk_total_mean = float_per_thousand (py_sum I means)\<rparr>))))))))"

definition aggregate_lines :: "interp \<Rightarrow> ustr list \<Rightarrow> sk_result res" where
  "aggregate_lines I rows = (case rows of
     [] \<Rightarrow> Inl (ValueError ''empty profiling response'' [])
   | first # rest \<Rightarrow>
     bind_res (sk_header (i_unicode I) first (int (length rows))) (\<lambda>cpu_count.
     bind_res (fold_res (sk_row (i_unicode I) cpu_count) rest ([], sk_totals)) (\<lambda>st.
     sk_summary I cpu_count (snd st))))"

definition aggregate_response :: "interp \<Rightarrow> ustr \<Rightarrow> sk_result res" where
  "aggregate_response I raw = aggregate_lines I (splitlines raw)"

definition confirm_reset :: "unidb \<Rightarrow> ustr \<Rightarrow> unit res" where
  "confirm_reset U raw = bind_res (parse_fields U raw) (\<lambda>attrs.
     bind_res (ensure (dict_get attrs (u ''profile_enabled'') = Some (PInt 1))
       (RuntimeErr ''router was built with SK_PROFILE_COMPONENTS=0'' [])) (\<lambda>_.
     ensure (dict_get attrs (u ''reset'') = Some (PStr (u ''ok'')))
       (RuntimeErr ''router profiling reset failed: {}'' [py_str U (get_default attrs (u ''error'') (PStr raw))])))"

subsection \<open>Reports\<close>

definition sk_human_line :: "ustr \<Rightarrow> stage_stats \<Rightarrow> ustr" where
  "sk_human_line stage s = stage @ u '': count='' @ show_int (ss_count s) @ u '' total_ns='' @
     show_int (ss_total_ns s) @ u '' mean_us='' @ format_fixed 6 (Fin (ss_mean_us s))"

definition sk_render_human :: "sk_result \<Rightarrow> ustr res" where
  "sk_render_human r =
     bind_res (map_res (\<lambda>stage. bind_res (dict_index (sk_stages r) stage) (\<lambda>s. Inr (sk_human_line stage s))) SK_STAGES) (\<lambda>rows.
     Inr (join [10] ([u ''instrumentation: on'', u ''completed_requests: '' @ show_int (sk_completed r)] @ rows @
       [u ''total_profiled_kernel_mean_us: '' @ format_fixed 6 (sk_total_mean r)])))"

definition stats_row :: "ustr \<Rightarrow> stage_stats \<Rightarrow> ustr" where
  "stats_row name s = csv_row [name, show_int (ss_count s), show_int (ss_total_ns s),
     format_fixed 3 (Fin (ss_mean_ns s)), format_fixed 6 (Fin (ss_mean_us s))]"

definition sk_render_csv :: "sk_result \<Rightarrow> ustr res" where
  "sk_render_csv r =
     bind_res (map_res (\<lambda>stage. bind_res (dict_index (sk_stages r) stage) (\<lambda>s. Inr (stats_row stage s))) SK_STAGES) (\<lambda>rows.
     Inr (csv_row (map u [''stage'', ''count'', ''total_ns'', ''mean_ns'', ''mean_us'']) @ concat rows))"

definition stats_value :: "interp \<Rightarrow> stage_stats \<Rightarrow> (ustr \<times> pyval) list" where
  "stats_value I s = [(u ''count'', PInt (ss_count s)), (u ''total_ns'', PInt (ss_total_ns s)),
     (u ''mean_ns'', float_value I (Fin (ss_mean_ns s))), (u ''mean_us'', float_value I (Fin (ss_mean_us s)))]"

text \<open>The dictionary \<open>aggregate_response\<close> returns, as the value \<open>json.dump\<close> gets.\<close>

definition sk_value :: "interp \<Rightarrow> sk_result \<Rightarrow> pyval" where
  "sk_value I r = PDict
     [(u ''instrumentation'', PStr (u ''on'')),
      (u ''completed_requests'', PInt (sk_completed r)),
      (u ''cpu_count'', PInt (sk_cpu_count r)),
      (u ''stages'', PDict (map (\<lambda>(stage, s). (stage, PDict (stats_value I s))) (sk_stages r))),
      (u ''parse_signal_mean_us'', float_value I (Fin (sk_parse_signal_mean r))),
      (u ''decision_mean_us'', float_value I (Fin (sk_decision_mean r))),
      (u ''redirect_mean_us'', float_value I (Fin (sk_redirect_mean r))),
      (u ''total_profiled_kernel_mean_us'', float_value I (sk_total_mean r))]"

subsection \<open>The program\<close>

datatype sk_action = Read | Reset

definition action_text :: "sk_action \<Rightarrow> ustr" where
  "action_text a = (case a of Read \<Rightarrow> u ''read'' | Reset \<Rightarrow> u ''reset'')"

text \<open>The parsed command line, as \<open>argparse\<close> delivers it.\<close>

record sk_args =
  sk_action :: sk_action
  sk_socket :: ustr
  sk_format :: out_format
  sk_timeout :: float_number

definition sk_report :: "interp \<Rightarrow> out_format \<Rightarrow> sk_result \<Rightarrow> outcome" where
  "sk_report I fmt r = written (case fmt of
     Json \<Rightarrow> Inr (json_dump 0 (sk_value I r) @ [10])
   | Csv \<Rightarrow> sk_render_csv r
   | Human \<Rightarrow> bind_res (sk_render_human r) (\<lambda>text. Inr (text @ [10])))"

definition sk_reply :: "interp \<Rightarrow> sk_args \<Rightarrow> ustr res \<Rightarrow> outcome" where
  "sk_reply I args reply = (case reply of
     Inl e \<Rightarrow> handled e
   | Inr raw \<Rightarrow> (case sk_action args of
       Reset \<Rightarrow> (case confirm_reset (i_unicode I) raw of
         Inl e \<Rightarrow> handled e | Inr _ \<Rightarrow> Exit 0 (u ''profiling counters reset'' @ [10]))
     | Read \<Rightarrow> (case aggregate_response I raw of
         Inl e \<Rightarrow> handled e | Inr r \<Rightarrow> sk_report I (sk_format args) r)))"

definition sk_main :: "interp \<Rightarrow> peer \<Rightarrow> sk_args \<Rightarrow> outcome option" where
  "sk_main I P args = map_option (sk_reply I args)
     (request P (sk_socket args) (action_text (sk_action args)) (sk_timeout args))"

end
