(* ===== verification/SkAggregate.thy ===== *)
theory SkAggregate
  imports SkProfile "HOL-Library.Multiset"
begin

section \<open>What an aggregated response says\<close>

text \<open>
  The loop over the CPU rows of \<open>aggregate_response\<close> adds cells of a nested dictionary. Here it is
  related to what it computes: the sums over the parsed rows, which do not depend on the order of
  the rows. The adding itself is the tally of the cells of ProfileBase.
\<close>

subsection \<open>The rows\<close>

definition row_cell :: "(ustr, pyval) dict \<Rightarrow> ustr \<times> ustr \<Rightarrow> int option" where
  "row_cell row cell = (case dict_get row (fst cell @ u ''_'' @ snd cell) of Some (PInt v) \<Rightarrow> Some v | _ \<Rightarrow> None)"

definition row_cpu :: "(ustr, pyval) dict \<Rightarrow> int option" where
  "row_cpu row = (case dict_get row (u ''cpu'') of Some (PInt cpu) \<Rightarrow> Some cpu | _ \<Rightarrow> None)"

definition cell_value :: "(ustr, pyval) dict \<Rightarrow> ustr \<times> ustr \<Rightarrow> int" where
  "cell_value row cell = (case row_cell row cell of Some v \<Rightarrow> v | None \<Rightarrow> 0)"

definition sk_cells :: "(ustr \<times> ustr) list" where
  "sk_cells = List.product SK_STAGES SK_METRICS"

definition cell_ok :: "(ustr, pyval) dict \<Rightarrow> ustr \<times> ustr \<Rightarrow> bool" where
  "cell_ok row cell \<longleftrightarrow> (\<exists>v. row_cell row cell = Some v \<and> 0 \<le> v)"

definition row_ok :: "int \<Rightarrow> (ustr, pyval) dict \<Rightarrow> bool" where
  "row_ok cpu_count row \<longleftrightarrow> (\<exists>cpu. row_cpu row = Some cpu \<and> 0 \<le> cpu \<and> cpu < cpu_count) \<and>
     list_all (cell_ok row) sk_cells"

definition cells_hold :: "counters \<Rightarrow> (ustr \<times> ustr \<Rightarrow> int) \<Rightarrow> bool" where
  "cells_hold totals f \<longleftrightarrow> (\<forall>cell \<in> set sk_cells. counter_read totals (fst cell) (snd cell) = Inr (f cell))"

lemma cells_hold_init: "cells_hold sk_totals (\<lambda>_. 0)"
  unfolding cells_hold_def by code_simp

lemma distinct_sk_cells: "distinct sk_cells"
  by code_simp

lemma sk_metric_iff:
  "sk_metric row cpu cell totals = Inr totals' \<longleftrightarrow>
     cell_ok row cell \<and> nested.tally (cell, cell_value row cell) totals = Inr totals'"
  by (cases cell)
    (auto simp: sk_metric_def cell_ok_def cell_value_def row_cell_def nested_tally
      split: option.splits pyval.splits)

lemma sk_metrics_iff:
  "fold_res (sk_metric row cpu) cells totals = Inr totals' \<longleftrightarrow>
     list_all (cell_ok row) cells \<and>
     fold_res nested.tally (map (\<lambda>cell. (cell, cell_value row cell)) cells) totals = Inr totals'"
  by (induction cells arbitrary: totals) (auto simp: sk_metric_iff bind_res_Inr_iff)

lemma sum_list_single:
  "distinct cells \<Longrightarrow> (\<Sum>item \<leftarrow> map (\<lambda>cell. (cell, g cell)) cells. if fst item = k then snd item else 0) =
     (if k \<in> set cells then g k else (0 :: int))"
  by (induction cells) auto

lemma tally_cells_hold:
  assumes "cells_hold totals f"
  shows "\<exists>totals'. fold_res nested.tally (map (\<lambda>cell. (cell, g cell)) sk_cells) totals = Inr totals' \<and>
    cells_hold totals' (\<lambda>cell. f cell + g cell)"
proof -
  let ?items = "map (\<lambda>cell. (cell, g cell)) sk_cells"
  have "\<forall>item \<in> set ?items. \<exists>v. counter_read totals (fst (fst item)) (snd (fst item)) = Inr v"
    using assms by (auto simp: cells_hold_def)
  from nested.tally_all [OF this] obtain totals' where t: "fold_res nested.tally ?items totals = Inr totals'"
    and r: "\<And>k v. counter_read totals (fst k) (snd k) = Inr v \<Longrightarrow>
      counter_read totals' (fst k) (snd k) = Inr (v + (\<Sum>item \<leftarrow> ?items. if fst item = k then snd item else 0))"
    by blast
  have "cells_hold totals' (\<lambda>cell. f cell + g cell)"
    unfolding cells_hold_def
  proof
    fix cell assume c: "cell \<in> set sk_cells"
    with assms have "counter_read totals (fst cell) (snd cell) = Inr (f cell)" by (simp add: cells_hold_def)
    from r [OF this] c show "counter_read totals' (fst cell) (snd cell) = Inr (f cell + g cell)"
      by (simp only: sum_list_single [OF distinct_sk_cells] if_True)
  qed
  with t show ?thesis by blast
qed

lemma row_cpu_iff: "row_cpu row = Some cpu \<longleftrightarrow> dict_get row (u ''cpu'') = Some (PInt cpu)"
  by (auto simp: row_cpu_def split: option.splits pyval.splits)

lemma sk_row_iff:
  "sk_row U cpu_count line (seen, totals) = Inr st' \<longleftrightarrow>
     (\<exists>row cpu totals'. parse_fields U line = Inr row \<and> row_ok cpu_count row \<and> row_cpu row = Some cpu \<and>
        cpu \<notin> set seen \<and> st' = (cpu # seen, totals') \<and>
        fold_res nested.tally (map (\<lambda>cell. (cell, cell_value row cell)) sk_cells) totals = Inr totals')"
proof (cases "parse_fields U line")
  case (Inr row)
  show ?thesis
  proof (cases "row_cpu row")
    case None
    then have "\<exists>e. sk_row U cpu_count line (seen, totals) = Inl e"
      using Inr by (auto simp: sk_row_def row_cpu_def split: option.splits pyval.splits)
    with Inr None show ?thesis by auto
  next
    case (Some cpu)
    then have "sk_row U cpu_count line (seen, totals) =
        (if cpu < 0 \<or> cpu_count \<le> cpu \<or> cpu \<in> set seen
         then Inl (ValueError ''invalid or duplicate CPU row: {!r}'' [show_int cpu])
         else bind_res (fold_res (sk_metric row cpu) sk_cells totals) (\<lambda>totals. Inr (cpu # seen, totals)))"
      using Inr by (simp add: sk_row_def row_cpu_iff sk_cells_def)
    then show ?thesis
      using Inr Some by (auto simp: bind_res_Inr_iff sk_metrics_iff row_ok_def)
  qed
qed (simp add: sk_row_def)

text \<open>The loop: the rows parse, their CPUs are new, in range and distinct, and the cells grow by the sums.\<close>

definition row_sum :: "(ustr, pyval) dict list \<Rightarrow> ustr \<times> ustr \<Rightarrow> int" where
  "row_sum rows cell = (\<Sum>row \<leftarrow> rows. cell_value row cell)"

definition cpus_of :: "(ustr, pyval) dict list \<Rightarrow> int list" where
  "cpus_of rows = map (\<lambda>row. the (row_cpu row)) rows"

lemma sk_rows_iff:
  assumes "cells_hold totals f"
  shows "(\<exists>totals'. fold_res (sk_row U n) rest (seen, totals) = Inr (seen', totals')) \<longleftrightarrow>
     (\<exists>rows. map_res (parse_fields U) rest = Inr rows \<and> list_all (row_ok n) rows \<and>
        distinct (cpus_of rows) \<and> set (cpus_of rows) \<inter> set seen = {} \<and> seen' = rev (cpus_of rows) @ seen)"
    and "fold_res (sk_row U n) rest (seen, totals) = Inr (seen', totals') \<Longrightarrow> map_res (parse_fields U) rest = Inr rows \<Longrightarrow>
      cells_hold totals' (\<lambda>cell. f cell + row_sum rows cell)"
  using assms
proof (induction rest arbitrary: seen totals f rows)
  case Nil
  {
    case 1
    then show ?case by (auto simp: cpus_of_def)
  next
    case 2
    then show ?case by (simp add: row_sum_def)
  }
next
  case (Cons line rest)
  {
    case 1
    show ?case
    proof
      assume "\<exists>totals'. fold_res (sk_row U n) (line # rest) (seen, totals) = Inr (seen', totals')"
      then obtain totals' st where st: "sk_row U n line (seen, totals) = Inr st" "fold_res (sk_row U n) rest st = Inr (seen', totals')"
        by (auto simp: bind_res_Inr_iff)
      from st(1) obtain row cpu t1 where row: "parse_fields U line = Inr row" "row_ok n row" "row_cpu row = Some cpu"
        "cpu \<notin> set seen" and st1: "st = (cpu # seen, t1)"
        and t1: "fold_res nested.tally (map (\<lambda>cell. (cell, cell_value row cell)) sk_cells) totals = Inr t1"
        unfolding sk_row_iff by blast
      from tally_cells_hold [OF 1, of "cell_value row"] t1 have h: "cells_hold t1 (\<lambda>cell. f cell + cell_value row cell)" by auto
      from st(2) st1 obtain rows where "map_res (parse_fields U) rest = Inr rows" "list_all (row_ok n) rows"
        "distinct (cpus_of rows)" "set (cpus_of rows) \<inter> set (cpu # seen) = {}" "seen' = rev (cpus_of rows) @ cpu # seen"
        using Cons.IH(1) [OF h, of "cpu # seen"] by blast
      with row show "\<exists>rows. map_res (parse_fields U) (line # rest) = Inr rows \<and> list_all (row_ok n) rows \<and>
        distinct (cpus_of rows) \<and> set (cpus_of rows) \<inter> set seen = {} \<and> seen' = rev (cpus_of rows) @ seen"
        by (intro exI [of _ "row # rows"]) (auto simp: cpus_of_def)
    next
      assume "\<exists>rows. map_res (parse_fields U) (line # rest) = Inr rows \<and> list_all (row_ok n) rows \<and>
        distinct (cpus_of rows) \<and> set (cpus_of rows) \<inter> set seen = {} \<and> seen' = rev (cpus_of rows) @ seen"
      then obtain row rows where row: "parse_fields U line = Inr row" "row_ok n row" and rows: "map_res (parse_fields U) rest = Inr rows"
        "list_all (row_ok n) rows" "distinct (cpus_of (row # rows))" "set (cpus_of (row # rows)) \<inter> set seen = {}"
        "seen' = rev (cpus_of (row # rows)) @ seen"
        by (auto simp: bind_res_Inr_iff)
      from row(2) obtain cpu where cpu: "row_cpu row = Some cpu" by (auto simp: row_ok_def)
      from tally_cells_hold [OF 1, of "cell_value row"] obtain t1 where
        t1: "fold_res nested.tally (map (\<lambda>cell. (cell, cell_value row cell)) sk_cells) totals = Inr t1"
        and h: "cells_hold t1 (\<lambda>cell. f cell + cell_value row cell)" by blast
      from rows(4) cpu have new: "cpu \<notin> set seen" by (auto simp: cpus_of_def)
      have st: "sk_row U n line (seen, totals) = Inr (cpu # seen, t1)"
        unfolding sk_row_iff using row cpu new t1 by blast
      have "\<exists>totals'. fold_res (sk_row U n) rest (cpu # seen, t1) = Inr (seen', totals')"
        unfolding Cons.IH(1) [OF h] using rows cpu by (intro exI [of _ rows]) (auto simp: cpus_of_def)
      with st show "\<exists>totals'. fold_res (sk_row U n) (line # rest) (seen, totals) = Inr (seen', totals')" by simp
    qed
  next
    case 2
    from 2(1) obtain st where st: "sk_row U n line (seen, totals) = Inr st" "fold_res (sk_row U n) rest st = Inr (seen', totals')"
      by (auto simp: bind_res_Inr_iff)
    from st(1) obtain row cpu t1 where row: "parse_fields U line = Inr row" and st1: "st = (cpu # seen, t1)"
      and t1: "fold_res nested.tally (map (\<lambda>cell. (cell, cell_value row cell)) sk_cells) totals = Inr t1"
      unfolding sk_row_iff by blast
    from tally_cells_hold [OF 2(3), of "cell_value row"] t1 have h: "cells_hold t1 (\<lambda>cell. f cell + cell_value row cell)" by auto
    from 2(2) row obtain rs where rs: "rows = row # rs" "map_res (parse_fields U) rest = Inr rs"
      by (auto simp: bind_res_Inr_iff)
    from Cons.IH(2) [OF st(2) [unfolded st1] rs(2) h] show ?case
      by (simp add: rs(1) row_sum_def add.assoc)
  }
qed


subsection \<open>The summary\<close>

lemma set_sk_cells: "set sk_cells = {(stage, metric). stage \<in> set SK_STAGES \<and> metric \<in> set SK_METRICS}"
  by (auto simp: sk_cells_def)

lemma cells_hold_reads:
  assumes "cells_hold totals f"
  shows
    "counter_read totals (u ''parse_signal'') (u ''count'') = Inr (f (u ''parse_signal'', u ''count''))"
    "counter_read totals (u ''parse_signal'') (u ''total_ns'') = Inr (f (u ''parse_signal'', u ''total_ns''))"
    "counter_read totals (u ''decision'') (u ''count'') = Inr (f (u ''decision'', u ''count''))"
    "counter_read totals (u ''decision'') (u ''total_ns'') = Inr (f (u ''decision'', u ''total_ns''))"
    "counter_read totals (u ''redirect'') (u ''count'') = Inr (f (u ''redirect'', u ''count''))"
    "counter_read totals (u ''redirect'') (u ''total_ns'') = Inr (f (u ''redirect'', u ''total_ns''))"
  using assms by (auto simp: cells_hold_def set_sk_cells SK_STAGES_def SK_METRICS_def)

definition stage_of :: "(ustr \<times> ustr \<Rightarrow> int) \<Rightarrow> string \<Rightarrow> stage_stats res" where
  "stage_of f stage = sk_stage (f (u stage, u ''count'')) (f (u stage, u ''total_ns''))"

definition sk_summary_of :: "interp \<Rightarrow> int \<Rightarrow> (ustr \<times> ustr \<Rightarrow> int) \<Rightarrow> sk_result res" where
  "sk_summary_of I n f =
     (if f (u ''parse_signal'', u ''count'') = f (u ''redirect'', u ''count'') \<and>
         f (u ''decision'', u ''count'') = f (u ''redirect'', u ''count'')
      then bind_res (stage_of f ''parse_signal'') (\<lambda>a.
           bind_res (stage_of f ''decision'') (\<lambda>b.
           bind_res (stage_of f ''redirect'') (\<lambda>c.
           Inr \<lparr>sk_completed = f (u ''redirect'', u ''count''), sk_cpu_count = n,
             sk_stages = [(u ''parse_signal'', a), (u ''decision'', b), (u ''redirect'', c)],
             sk_parse_signal_mean = ss_mean_us a, sk_decision_mean = ss_mean_us b, sk_redirect_mean = ss_mean_us c,
             sk_total_mean = float_per_thousand (py_sum I [ss_mean_ns a, ss_mean_ns b, ss_mean_ns c])\<rparr>)))
      else Inl (RuntimeErr ''stage counts differ; stop request traffic before reading profiling data'' []))"

lemma bind_res_assoc: "bind_res (bind_res m f) g = bind_res m (\<lambda>x. bind_res (f x) g)"
  by (cases m) simp_all

lemma remdups_three: "length (remdups [a, b, c]) = Suc 0 \<longleftrightarrow> a = c \<and> b = c"
  by auto

lemma bind_ensure: "bind_res (ensure b e) f = (if b then f () else Inl e)"
  by simp

lemma sk_summary_cells: "cells_hold totals f \<Longrightarrow> sk_summary I n totals = sk_summary_of I n f"
  by (simp add: sk_summary_def sk_summary_of_def SK_STAGES_def cells_hold_reads remdups_three stage_of_def
      bind_res_assoc bind_ensure del: remdups.simps)

text \<open>An accepted response, in terms of its parsed rows.\<close>

definition rows_ok :: "int \<Rightarrow> (ustr, pyval) dict list \<Rightarrow> bool" where
  "rows_ok n rows \<longleftrightarrow> list_all (row_ok n) rows \<and> distinct (cpus_of rows)"

theorem aggregate_lines_iff:
  "aggregate_lines I (first # rest) = Inr r \<longleftrightarrow>
     (\<exists>n rows. sk_header (i_unicode I) first (1 + int (length rest)) = Inr n \<and>
        map_res (parse_fields (i_unicode I)) rest = Inr rows \<and> rows_ok n rows \<and>
        sk_summary_of I n (row_sum rows) = Inr r)"
proof -
  let ?U = "i_unicode I"
  have loop: "(\<exists>st. fold_res (sk_row ?U n) rest ([], sk_totals) = Inr st \<and> sk_summary I n (snd st) = Inr r) \<longleftrightarrow>
      (\<exists>rows. map_res (parse_fields ?U) rest = Inr rows \<and> rows_ok n rows \<and> sk_summary_of I n (row_sum rows) = Inr r)" for n
  proof
    assume "\<exists>st. fold_res (sk_row ?U n) rest ([], sk_totals) = Inr st \<and> sk_summary I n (snd st) = Inr r"
    then obtain seen totals where l: "fold_res (sk_row ?U n) rest ([], sk_totals) = Inr (seen, totals)"
      and s: "sk_summary I n totals = Inr r" by auto
    from l obtain rows where rows: "map_res (parse_fields ?U) rest = Inr rows" "list_all (row_ok n) rows" "distinct (cpus_of rows)"
      using sk_rows_iff(1) [OF cells_hold_init, of ?U n rest "[]" seen] by blast
    from sk_rows_iff(2) [OF cells_hold_init l rows(1)] have "cells_hold totals (row_sum rows)" by simp
    with s rows show "\<exists>rows. map_res (parse_fields ?U) rest = Inr rows \<and> rows_ok n rows \<and> sk_summary_of I n (row_sum rows) = Inr r"
      by (auto simp: sk_summary_cells rows_ok_def)
  next
    assume "\<exists>rows. map_res (parse_fields ?U) rest = Inr rows \<and> rows_ok n rows \<and> sk_summary_of I n (row_sum rows) = Inr r"
    then obtain rows where rows: "map_res (parse_fields ?U) rest = Inr rows" "list_all (row_ok n) rows" "distinct (cpus_of rows)"
      and s: "sk_summary_of I n (row_sum rows) = Inr r" by (auto simp: rows_ok_def)
    then obtain totals where l: "fold_res (sk_row ?U n) rest ([], sk_totals) = Inr (rev (cpus_of rows), totals)"
      using sk_rows_iff(1) [OF cells_hold_init, of ?U n rest "[]" "rev (cpus_of rows)"] by auto
    from sk_rows_iff(2) [OF cells_hold_init l rows(1)] have "cells_hold totals (row_sum rows)" by simp
    with s have "sk_summary I n totals = Inr r" by (simp add: sk_summary_cells)
    with l show "\<exists>st. fold_res (sk_row ?U n) rest ([], sk_totals) = Inr st \<and> sk_summary I n (snd st) = Inr r" by auto
  qed
  have "aggregate_lines I (first # rest) = Inr r \<longleftrightarrow> (\<exists>n. sk_header ?U first (1 + int (length rest)) = Inr n \<and>
      (\<exists>st. fold_res (sk_row ?U n) rest ([], sk_totals) = Inr st \<and> sk_summary I n (snd st) = Inr r))"
    by (simp add: aggregate_lines_def bind_res_Inr_iff)
  then show ?thesis unfolding loop by blast
qed

end
