(* ===== verification/LineText.thy ===== *)
theory LineText
  imports PyText
begin

section \<open>Lines and words of printed text\<close>

text \<open>
  What \<open>splitlines\<close>, \<open>strip\<close> and \<open>split\<close> return on text that was put together with \<open>join\<close>: the parts,
  when they contain no separator. Also the newline translation of a text file, which changes the
  terminators of lines and nothing else.
\<close>

subsection \<open>Joining\<close>

lemma join_Cons: "xs \<noteq> [] \<Longrightarrow> join sep (x # xs) = x @ sep @ join sep xs"
  by (cases xs) auto

lemma set_join: "set (join sep xs) \<subseteq> \<Union> (set ` set xs) \<union> set sep"
  by (induction sep xs rule: join.induct) auto

lemma join_Nil_iff: "join sep xs = [] \<longleftrightarrow> xs = [] \<or> xs = [[]] \<or> (sep = [] \<and> list_all (\<lambda>x. x = []) xs)"
  by (induction sep xs rule: join.induct) auto

lemma concat_map_terminated: "xs \<noteq> [] \<Longrightarrow> concat (map (\<lambda>x. x @ sep) xs) = join sep xs @ sep"
  by (induction sep xs rule: join.induct) auto

subsection \<open>Splitting at a separator\<close>

lemma split_on_app: "list_all (\<lambda>c. \<not> P c) s \<Longrightarrow> P d \<Longrightarrow> split_on P (s @ d # t) = s # split_on P t"
  by (induction s) auto

lemma split_on_none: "list_all (\<lambda>c. \<not> P c) s \<Longrightarrow> split_on P s = [s]"
  by (induction s) auto

lemma split_on_join:
  assumes "P d" and "xs \<noteq> []" and "list_all (list_all (\<lambda>c. \<not> P c)) xs"
  shows "split_on P (join [d] xs) = xs"
  using assms(2,3)
proof (induction xs)
  case (Cons x xs)
  then show ?case
    using split_on_app [of P x d, OF _ assms(1)] by (cases xs) (auto simp: split_on_none)
qed simp

lemma split_ws_join:
  assumes "list_all (\<lambda>w. w \<noteq> [] \<and> list_all (\<lambda>c. \<not> is_space c) w) ws"
  shows "split_ws (join [32] ws) = ws"
proof (cases "ws = []")
  case False
  have "is_space 32" by (simp add: is_space_def)
  from split_on_join [of is_space, OF this False] assms have "split_on is_space (join [32] ws) = ws"
    by (auto simp: list_all_iff)
  with assms show ?thesis by (auto simp: split_ws_def list_all_iff intro: filter_True)
qed (simp add: split_ws_def)

subsection \<open>Lines\<close>

lemma break_lines_app:
  assumes "list_all (\<lambda>c. \<not> P c) s" "P 10"
  shows "break_lines P (s @ 10 # t) = s # break_lines P t"
  using assms(1)
proof (induction s rule: induct_list012)
  case 1
  then show ?case using assms(2) by (cases t) auto
next
  case (2 c)
  then show ?case using assms(2) by (cases t) auto
next
  case (3 c d s)
  then show ?case by simp
qed

lemma break_lines_none: "list_all (\<lambda>c. \<not> P c) s \<Longrightarrow> break_lines P s = (if s = [] then [] else [s])"
  by (induction s rule: induct_list012) auto

lemma splitlines_app: "list_all (\<lambda>c. \<not> is_line_break c) s \<Longrightarrow> splitlines (s @ 10 # t) = s # splitlines t"
  unfolding splitlines_def by (rule break_lines_app) (simp_all add: is_line_break_def)

lemma splitlines_none: "list_all (\<lambda>c. \<not> is_line_break c) s \<Longrightarrow> splitlines s = (if s = [] then [] else [s])"
  unfolding splitlines_def by (rule break_lines_none)

definition plain_line :: "ustr \<Rightarrow> bool" where
  "plain_line s \<longleftrightarrow> list_all (\<lambda>c. \<not> is_line_break c) s"

lemma splitlines_join:
  assumes "list_all plain_line xs" and "xs = [] \<or> last xs \<noteq> []"
  shows "splitlines (join [10] xs) = xs"
  using assms
proof (induction xs)
  case (Cons x xs)
  then show ?case
    by (cases xs) (auto simp: plain_line_def splitlines_none splitlines_app)
qed (simp add: splitlines_def)

lemma splitlines_terminated: "list_all plain_line xs \<Longrightarrow> splitlines (concat (map (\<lambda>x. x @ [10]) xs)) = xs"
  by (induction xs) (auto simp: plain_line_def splitlines_app, simp add: splitlines_def)

lemma break_lines_crlf:
  assumes "list_all (\<lambda>c. \<not> P c) s" "P 13"
  shows "break_lines P (s @ 13 # 10 # t) = s # break_lines P t"
  using assms(1)
proof (induction s rule: induct_list012)
  case (2 c)
  then show ?case using assms(2) by (cases t) auto
qed (use assms(2) in auto)

lemma splitlines_rows: "list_all plain_line xs \<Longrightarrow> splitlines (concat (map (\<lambda>x. x @ [13, 10]) xs)) = xs"
proof (induction xs)
  case (Cons x xs)
  have "is_line_break 13" by (simp add: is_line_break_def)
  with Cons show ?case
    by (simp add: splitlines_def plain_line_def break_lines_crlf)
qed (simp add: splitlines_def)

lemma hd_join: "x \<noteq> [] \<Longrightarrow> hd (join sep (x # xs)) = hd x"
  by (cases xs) auto

lemma last_join: "xs \<noteq> [] \<Longrightarrow> last xs \<noteq> [] \<Longrightarrow> last (join sep xs) = last (last xs)"
proof (induction sep xs rule: join.induct)
  case (3 sep x y xs)
  then have "join sep (y # xs) \<noteq> []"
    by (auto simp: join_Nil_iff list_all_iff split: if_splits)
  with 3 show ?case by simp
qed auto

text \<open>Stripping the response of a line protocol removes the last terminator only.\<close>

lemma py_strip_terminated:
  assumes "s \<noteq> []" "\<not> is_space (hd s)" "\<not> is_space (last s)"
  shows "py_strip (s @ [10]) = s"
proof -
  have "dropWhile is_space (s @ [10]) = s @ [10]"
    using assms by (cases s) auto
  moreover have "is_space 10" by (simp add: is_space_def)
  ultimately show ?thesis
    using assms by (simp add: py_strip_def strip_by_def rstrip_by_snoc rstrip_by_id)
qed

subsection \<open>Newline translation\<close>

text \<open>Reading a text file turns \<open>CR LF\<close> and a lone \<open>CR\<close> into \<open>LF\<close>.\<close>

fun universal_newlines :: "ustr \<Rightarrow> ustr" where
  "universal_newlines [] = []"
| "universal_newlines [c] = [if c = 13 then 10 else c]"
| "universal_newlines (c # d # s) = (if c = 13
     then 10 # (if d = 10 then universal_newlines s else universal_newlines (d # s))
     else c # universal_newlines (d # s))"

lemma universal_newlines_eq_Nil [simp]: "universal_newlines s = [] \<longleftrightarrow> s = []"
  by (cases s rule: universal_newlines.cases) auto

lemma universal_newlines_Cons:
  "universal_newlines (c # s) = (if c = 13
     then 10 # (case s of [] \<Rightarrow> [] | d # t \<Rightarrow> if d = 10 then universal_newlines t else universal_newlines s)
     else c # universal_newlines s)"
  by (cases s) auto

lemma break_lines_Cons:
  assumes "P 10" "P 13"
  shows "break_lines P (c # s) = (if P c
     then [] # (case s of [] \<Rightarrow> [] | d # t \<Rightarrow> if c = 13 \<and> d = 10 then break_lines P t else break_lines P s)
     else (case break_lines P s of [] \<Rightarrow> [[c]] | w # ws \<Rightarrow> (c # w) # ws))"
  by (cases s) auto

lemma splitlines_universal_newlines: "splitlines (universal_newlines s) = splitlines s"
proof -
  have P: "is_line_break 10" "is_line_break 13" by (simp_all add: is_line_break_def)
  note step = break_lines_Cons [of is_line_break, OF P]
  have lf: "break_lines is_line_break (10 # t) = [] # break_lines is_line_break t" for t
    using P by (cases t) auto
  have "break_lines is_line_break (universal_newlines s) = break_lines is_line_break s"
  proof (induction s rule: universal_newlines.induct)
    case (2 c)
    then show ?case using P by auto
  next
    case (3 c d s)
    show ?case
    proof (cases "c = 13")
      case True
      then show ?thesis using 3 P by (auto simp: lf)
    next
      case False
      then have "break_lines is_line_break (universal_newlines (c # d # s)) =
          break_lines is_line_break (c # universal_newlines (d # s))" by simp
      also have "\<dots> = break_lines is_line_break (c # d # s)"
        unfolding step [of c "universal_newlines (d # s)"] step [of c "d # s"]
        using 3(3) [OF False] False by (auto split: list.splits)
      finally show ?thesis .
    qed
  qed simp
  then show ?thesis by (simp only: splitlines_def)
qed

end
