(* ===== verification/SkTheorems.thy ===== *)
theory SkTheorems
  imports SkAggregate LineText
begin

section \<open>Correctness of the profile reader\<close>

text \<open>
  The properties of \<open>aggregate_response\<close>: what an accepted response says, that the order of the CPU
  rows does not matter, which exceptions it raises, and how close the means are to the quotients.
\<close>

subsection \<open>Printed fields\<close>

definition key_ok :: "ustr \<Rightarrow> bool" where
  "key_ok k \<longleftrightarrow> 61 \<notin> set k \<and> list_all (\<lambda>c. \<not> is_space c) k"

definition print_field :: "ustr \<times> int \<Rightarrow> ustr" where
  "print_field kv = fst kv @ 61 # show_int (snd kv)"

lemma show_int_spaceless: "list_all (\<lambda>c. \<not> is_space c) (show_int i)"
  by (auto simp: list_all_iff is_space_def is_digit_def dest!: show_int_ascii)

lemma parse_field_print:
  "key_ok (fst kv) \<Longrightarrow> parse_field U (print_field kv) d = Inr (dict_set (fst kv) (PInt (snd kv)) d)"
  by (simp add: parse_field_def print_field_def key_ok_def split_once_app)

lemma fold_parse_field:
  assumes "list_all (\<lambda>kv. key_ok (fst kv)) kvs" "distinct (map fst kvs)" "fst ` set d \<inter> fst ` set kvs = {}"
  shows "fold_res (parse_field U) (map print_field kvs) d = Inr (d @ map (\<lambda>(k, i). (k, PInt i)) kvs)"
  using assms
proof (induction kvs arbitrary: d)
  case (Cons kv kvs)
  have new: "dict_set (fst kv) (PInt (snd kv)) d = d @ [(fst kv, PInt (snd kv))]"
    using Cons.prems(3) by (intro dict_set_new) auto
  then show ?case
    using Cons.prems by (auto simp: parse_field_print Cons.IH split: prod.splits)
qed simp

lemma parse_fields_print:
  assumes "list_all (\<lambda>kv. key_ok (fst kv)) kvs" "distinct (map fst kvs)"
  shows "parse_fields U (join [32] (map print_field kvs)) = Inr (map (\<lambda>(k, i). (k, PInt i)) kvs)"
proof -
  have "list_all (\<lambda>w. w \<noteq> [] \<and> list_all (\<lambda>c. \<not> is_space c) w) (map print_field kvs)"
    using assms(1) show_int_spaceless by (auto simp: list_all_iff print_field_def key_ok_def is_space_def)
  from split_ws_join [OF this] show ?thesis
    using fold_parse_field [OF assms, of "[]" U] by (simp add: parse_fields_def)
qed

subsection \<open>Permuting the rows\<close>

lemma map_res_eq_map: "map_res f xs = Inr ys \<longleftrightarrow> (\<forall>x \<in> set xs. \<exists>y. f x = Inr y) \<and> ys = map (\<lambda>x. projr (f x)) xs"
  by (induction xs arbitrary: ys) (auto simp: bind_res_Inr_iff)

lemma row_sum_perm: "mset rows = mset rows' \<Longrightarrow> row_sum rows = row_sum rows'"
  unfolding row_sum_def by (rule ext) (metis mset_map sum_mset_sum_list)

lemma rows_ok_perm: "mset rows = mset rows' \<Longrightarrow> rows_ok n rows \<longleftrightarrow> rows_ok n rows'"
  unfolding rows_ok_def cpus_of_def list_all_iff
  by (metis mset_eq_setD mset_eq_imp_distinct_iff mset_map)

text \<open>C14. The order of the CPU rows does not matter: a response that is accepted is accepted with the same
  result when its rows are permuted.\<close>

theorem aggregate_order_independent:
  assumes "aggregate_lines I (first # rest) = Inr r" and "mset rest' = mset rest"
  shows "aggregate_lines I (first # rest') = Inr r"
proof -
  let ?parse = "parse_fields (i_unicode I)"
  from assms(1) obtain n rows where h: "sk_header (i_unicode I) first (1 + int (length rest)) = Inr n"
    and rows: "map_res ?parse rest = Inr rows" and ok: "rows_ok n rows" and s: "sk_summary_of I n (row_sum rows) = Inr r"
    unfolding aggregate_lines_iff by blast
  define rows' where "rows' = map (\<lambda>x. projr (?parse x)) rest'"
  have "rows = map (\<lambda>x. projr (?parse x)) rest" "\<forall>x \<in> set rest. \<exists>y. ?parse x = Inr y"
    using rows unfolding map_res_eq_map by blast+
  then have "map_res ?parse rest' = Inr rows'" "mset rows' = mset rows"
    unfolding map_res_eq_map rows'_def using assms(2) by (auto dest: mset_eq_setD)
  moreover have "length rest' = length rest"
    using assms(2) by (rule mset_eq_length)
  ultimately show ?thesis
    unfolding aggregate_lines_iff using h ok s rows_ok_perm [of rows' rows n] row_sum_perm [of rows' rows] by metis
qed

subsection \<open>What an accepted response says\<close>

lemma sk_header_Inr:
  assumes "sk_header U line lines = Inr n"
  shows "0 < n \<and> lines = n + 1"
  using assms by (auto simp: sk_header_def bind_res_Inr_iff split: option.splits pyval.splits if_splits)

lemma sk_stage_Inr:
  "sk_stage n t = Inr s \<Longrightarrow> ss_count s = n \<and> ss_total_ns s = t \<and>
     ss_mean_ns s = (if n = 0 then 0 else double (of_int t / of_int n)) \<and>
     ss_mean_us s = per_thousand (ss_mean_ns s)"
  by (auto simp: sk_stage_def bind_res_Inr_iff true_div_def Let_def split: if_splits)

lemma row_cpu_range: "row_ok n row \<Longrightarrow> \<exists>cpu. row_cpu row = Some cpu \<and> 0 \<le> cpu \<and> cpu < n"
  by (simp add: row_ok_def)

lemma cpus_complete:
  assumes "rows_ok n rows" "int (length rows) = n"
  shows "mset (map row_cpu rows) = mset (map (\<lambda>i. Some (int i)) [0 ..< nat n])"
proof -
  have range: "row_cpu row = Some (the (row_cpu row)) \<and> 0 \<le> the (row_cpu row) \<and> the (row_cpu row) < n" if "row \<in> set rows" for row
    using assms(1) that row_cpu_range [of n row] by (auto simp: rows_ok_def list_all_iff)
  have d: "distinct (cpus_of rows)" using assms(1) by (simp add: rows_ok_def)
  have sub: "set (cpus_of rows) \<subseteq> int ` {0 ..< nat n}"
  proof
    fix c assume "c \<in> set (cpus_of rows)"
    then have "0 \<le> c \<and> c < n" using range by (auto simp: cpus_of_def)
    then have "c = int (nat c)" "nat c \<in> {0 ..< nat n}" by auto
    then show "c \<in> int ` {0 ..< nat n}" by (metis imageI)
  qed
  have "card (set (cpus_of rows)) = nat n"
    using distinct_card [OF d] assms(2) by (simp add: cpus_of_def)
  then have "set (cpus_of rows) = int ` {0 ..< nat n}"
    using sub by (intro card_subset_eq) (auto simp: card_image)
  then have "mset (cpus_of rows) = mset (map int [0 ..< nat n])"
    using d by (subst set_eq_iff_mset_eq_distinct [symmetric]) (simp_all add: distinct_map)
  then have m: "image_mset Some (mset (cpus_of rows)) = image_mset Some (mset (map int [0 ..< nat n]))"
    by (rule arg_cong)
  have "map row_cpu rows = map Some (cpus_of rows)"
    using range by (simp add: cpus_of_def)
  then have "mset (map row_cpu rows) = image_mset Some (mset (cpus_of rows))"
    by (simp only: mset_map)
  also have "\<dots> = mset (map (\<lambda>i. Some (int i)) [0 ..< nat n])"
    unfolding m by (simp only: mset_map [symmetric] map_map o_def)
  finally show ?thesis .
qed

lemma aggregate_response_sound_lemma:
  assumes "aggregate_response I raw = Inr r"
  shows "\<exists>rows. map_res (parse_fields (i_unicode I)) (tl (splitlines raw)) = Inr rows \<and>
    mset (map row_cpu rows) = mset (map (\<lambda>i. Some (int i)) [0 ..< nat (sk_cpu_count r)]) \<and>
    dict_keys (sk_stages r) = SK_STAGES \<and>
    list_all (\<lambda>(stage, s). ss_count s = sk_completed r \<and> ss_count s = row_sum rows (stage, u ''count'') \<and>
      ss_total_ns s = row_sum rows (stage, u ''total_ns'') \<and>
      ss_mean_ns s = (if ss_count s = 0 then 0 else double (of_int (ss_total_ns s) / of_int (ss_count s)))) (sk_stages r)"
proof -
  from assms obtain first rest where l: "splitlines raw = first # rest"
    by (cases "splitlines raw") (auto simp: aggregate_response_def aggregate_lines_def)
  from assms l have "aggregate_lines I (first # rest) = Inr r" by (simp add: aggregate_response_def)
  then obtain n rows where h: "sk_header (i_unicode I) first (1 + int (length rest)) = Inr n"
    and rows: "map_res (parse_fields (i_unicode I)) rest = Inr rows" and ok: "rows_ok n rows"
    and s: "sk_summary_of I n (row_sum rows) = Inr r"
    unfolding aggregate_lines_iff by blast
  from sk_header_Inr [OF h] map_res_length [OF rows] have "int (length rows) = n" by simp
  from cpus_complete [OF ok this] have cpus: "mset (map row_cpu rows) = mset (map (\<lambda>i. Some (int i)) [0 ..< nat n])" .
  from s obtain a b c where st: "stage_of (row_sum rows) ''parse_signal'' = Inr a" "stage_of (row_sum rows) ''decision'' = Inr b"
    "stage_of (row_sum rows) ''redirect'' = Inr c"
    and eq: "row_sum rows (u ''parse_signal'', u ''count'') = row_sum rows (u ''redirect'', u ''count'')"
      "row_sum rows (u ''decision'', u ''count'') = row_sum rows (u ''redirect'', u ''count'')"
    and r: "sk_completed r = row_sum rows (u ''redirect'', u ''count'')" "sk_cpu_count r = n"
      "sk_stages r = [(u ''parse_signal'', a), (u ''decision'', b), (u ''redirect'', c)]"
    by (auto simp: sk_summary_of_def bind_res_Inr_iff split: if_splits)
  from rows cpus st [unfolded stage_of_def, THEN sk_stage_Inr] eq show ?thesis
    unfolding r l by (auto simp: SK_STAGES_def)
qed

text \<open>C3. An accepted response covers every CPU once: its rows name the CPUs from 0 below the announced
  count, each exactly once, every stage counts the same number of requests, and the count and the
  total of every stage are the sums over the rows, with the mean of a stage their quotient.\<close>

theorem aggregate_response_sound:
  assumes "aggregate_response I raw = Inr r"
  shows "\<exists>rows. map_res (parse_fields (i_unicode I)) (tl (splitlines raw)) = Inr rows \<and>
    mset (map row_cpu rows) = mset (map (\<lambda>i. Some (int i)) [0 ..< nat (sk_cpu_count r)]) \<and>
    dict_keys (sk_stages r) = SK_STAGES \<and>
    list_all (\<lambda>(stage, s). ss_count s = sk_completed r \<and> ss_count s = row_sum rows (stage, u ''count'') \<and>
      ss_total_ns s = row_sum rows (stage, u ''total_ns'') \<and>
      ss_mean_ns s = (if ss_count s = 0 then 0 else double (of_int (ss_total_ns s) / of_int (ss_count s)))) (sk_stages r)"
  using assms by (rule aggregate_response_sound_lemma)


subsection \<open>Exceptions\<close>

text \<open>
  The script handles OSError, RuntimeError and ValueError. A KeyError of the nested dictionaries, or
  a ZeroDivisionError, would escape; neither can happen. An OverflowError can, when a total is too
  large for the division.
\<close>

definition overflow :: pyerr where
  "overflow = OverflowErr ''integer division result too large for a float''"

definition expected :: "pyerr \<Rightarrow> bool" where
  "expected e \<longleftrightarrow> reported e \<or> e = overflow"

lemma parse_fields_error: "parse_fields U line = Inl e \<Longrightarrow> reported e"
  unfolding parse_fields_def
  by (erule fold_res_error [where P = "\<lambda>_. True"]) (auto simp: parse_field_def split: option.splits prod.splits)

lemma sk_header_error: "sk_header U line lines = Inl e \<Longrightarrow> reported e"
  by (auto simp: sk_header_def bind_res_Inl_iff ensure_iff dest: parse_fields_error
      split: option.splits pyval.splits if_splits)

lemma sk_metric_error:
  assumes "sk_metric row cpu cell totals = Inl e" "cells_hold totals f" "cell \<in> set sk_cells"
  shows "reported e"
proof (cases "cell_ok row cell")
  case True
  obtain stage metric where cell: "cell = (stage, metric)" by (cases cell)
  from assms(2,3) have "counter_read totals stage metric = Inr (f cell)"
    by (auto simp: cells_hold_def cell)
  then have "\<exists>t. nested.tally (cell, cell_value row cell) totals = Inr t"
    using nested.tally_step [of totals cell "f cell" "cell_value row cell"] by (auto simp: cell)
  with True assms(1) show ?thesis using sk_metric_iff [of row cpu cell totals] by auto
next
  case False
  with assms(1) show ?thesis
    unfolding cell_ok_def row_cell_def
    by (cases cell) (auto simp: sk_metric_def split: option.splits pyval.splits if_splits)
qed

lemma sk_metric_holds:
  assumes "sk_metric row cpu cell totals = Inr totals'" "cells_hold totals f"
  shows "\<exists>g. cells_hold totals' g"
proof -
  from assms(1) have "nested.tally (cell, cell_value row cell) totals = Inr totals'" by (simp add: sk_metric_iff)
  then obtain old where "\<And>k'. counter_read totals' (fst k') (snd k') =
      (if k' = cell then Inr (old + cell_value row cell) else counter_read totals (fst k') (snd k'))"
    using nested.tally_read_other [of cell "cell_value row cell" totals totals'] by blast
  then have "cells_hold totals' (\<lambda>k. if k = cell then old + cell_value row cell else f k)"
    using assms(2) by (simp add: cells_hold_def)
  then show ?thesis by blast
qed

lemma sk_row_error:
  assumes "sk_row U n line st = Inl e" "cells_hold (snd st) f"
  shows "reported e"
proof (cases "parse_fields U line")
  case (Inl e')
  with assms(1) show ?thesis by (auto simp: sk_row_def dest: parse_fields_error)
next
  case (Inr row)
  show ?thesis
  proof (cases "row_cpu row")
    case None
    with assms(1) Inr show ?thesis
      by (auto simp: sk_row_def row_cpu_def split: option.splits pyval.splits)
  next
    case (Some cpu)
    have loop: "reported e'" if "fold_res (sk_metric row cpu) sk_cells (snd st) = Inl e'" for e'
      using that
      by (rule fold_res_error [where P = "\<lambda>t. \<exists>f. cells_hold t f"])
        (use assms(2) sk_metric_holds sk_metric_error in blast)+
    from Some Inr assms(1) show ?thesis
      by (auto simp: sk_row_def row_cpu_iff bind_res_Inl_iff sk_cells_def [symmetric] loop split: if_splits)
  qed
qed

lemma sk_row_holds:
  assumes "sk_row U n line st = Inr st'" "cells_hold (snd st) f"
  shows "\<exists>g. cells_hold (snd st') g"
proof -
  obtain seen totals where st: "st = (seen, totals)" by (cases st)
  from assms(1) obtain row totals' where t: "snd st' = totals'"
    "fold_res nested.tally (map (\<lambda>cell. (cell, cell_value row cell)) sk_cells) totals = Inr totals'"
    unfolding st sk_row_iff by auto
  from tally_cells_hold [of totals f "cell_value row"] assms(2) t st show ?thesis by auto
qed

lemma stage_of_error: "stage_of f stage = Inl e \<Longrightarrow> e = overflow"
  by (auto simp: stage_of_def sk_stage_def bind_res_Inl_iff true_div_def Let_def overflow_def split: if_splits)

lemma sk_summary_of_error: "sk_summary_of I n f = Inl e \<Longrightarrow> expected e"
  by (auto simp: sk_summary_of_def bind_res_Inl_iff expected_def dest: stage_of_error split: if_splits)

lemma aggregate_lines_error:
  assumes "aggregate_lines I rows = Inl e" shows "expected e"
proof (cases rows)
  case (Cons first rest)
  let ?U = "i_unicode I"
  from assms Cons consider "sk_header ?U first (int (length rows)) = Inl e"
    | n where "fold_res (sk_row ?U n) rest ([], sk_totals) = Inl e"
    | n st where "fold_res (sk_row ?U n) rest ([], sk_totals) = Inr st" "sk_summary I n (snd st) = Inl e"
    by (auto simp: aggregate_lines_def bind_res_Inl_iff)
  then show ?thesis
  proof cases
    case 1
    then show ?thesis by (auto simp: expected_def dest: sk_header_error)
  next
    case (2 n)
    then have "reported e"
      by (rule fold_res_error [where P = "\<lambda>st. \<exists>f. cells_hold (snd st) f"])
        (use cells_hold_init sk_row_error sk_row_holds in \<open>fastforce+\<close>)
    then show ?thesis by (simp add: expected_def)
  next
    case (3 n st)
    have "\<exists>f. cells_hold (snd st) f"
      using 3(1) by (rule fold_res_invariant [where P = "\<lambda>st. \<exists>f. cells_hold (snd st) f"])
        (use cells_hold_init sk_row_holds in \<open>fastforce+\<close>)
    with 3(2) show ?thesis by (auto simp: sk_summary_cells dest: sk_summary_of_error)
  qed
qed (use assms in \<open>auto simp: aggregate_lines_def expected_def\<close>)

end
