(* ===== verification/FixedPoint.thy ===== *)
theory FixedPoint
  imports ProfileBase LineText
begin

section \<open>Printed decimals and CSV rows\<close>

text \<open>
  The number \<open>format_fixed n\<close> prints is read back by \<open>Decimal\<close> and differs from the float by at most half
  a unit of the last decimal. A CSV row of cells without special characters is its cells.
\<close>

subsection \<open>Decimals\<close>

lemma digits_value_append: "digits_value (s @ t) = digits_value s * 10 ^ length t + digits_value t"
proof (induction t rule: rev_induct)
  case (snoc c t)
  then show ?case
    using digits_value_snoc [of "s @ t" c] by (simp add: digits_value_snoc algebra_simps)
qed (simp add: digits_value_def)

lemma digits_value_zeros: "digits_value (replicate k 48) = 0"
  by (induction k) (simp_all add: digits_value_def)

lemma length_show_nat: "m < 10 ^ n \<Longrightarrow> 0 < n \<Longrightarrow> length (show_nat m) \<le> n"
proof (induction m arbitrary: n rule: show_nat.induct)
  case (1 m)
  show ?case
  proof (cases "m < 10")
    case False
    obtain k where k: "n = Suc k" using 1(3) by (cases n) auto
    with False 1(2) have k0: "0 < k" by (cases k) auto
    have "m div 10 < 10 ^ k" using 1(2) k by (simp add: less_mult_imp_div_less)
    from 1(1) [OF False this k0] False k show ?thesis by (simp add: show_nat.simps [of m])
  qed (use 1 in \<open>simp add: show_nat.simps [of m]\<close>)
qed

lemma pad_digits_facts:
  assumes "m < 10 ^ n" "0 < n"
  shows "length (pad_digits n (show_nat m)) = n" "digits_value (pad_digits n (show_nat m)) = int m"
    "list_all is_digit (pad_digits n (show_nat m))"
  using length_show_nat [OF assms]
proof -
  have "is_digit 48" by (simp add: is_digit_def)
  then show "list_all is_digit (pad_digits n (show_nat m))"
    by (auto simp: pad_digits_def list_all_iff show_nat_digits)
qed (simp_all add: pad_digits_def digits_value_append digits_value_zeros digits_value_show_nat)

lemma fixed_nat_chars: "0 < n \<Longrightarrow> list_all (\<lambda>c. is_digit c \<or> c = 46) (fixed_nat n m)"
  using pad_digits_facts(3) [of "m mod 10 ^ n" n]
  by (auto simp: fixed_nat_def list_all_iff show_nat_digits)

lemma parse_mantissa_fixed:
  assumes "0 < n" shows "parse_mantissa (fixed_nat n m) = Some (int m, n)"
proof -
  let ?a = "show_nat (m div 10 ^ n)" and ?b = "pad_digits n (show_nat (m mod 10 ^ n))"
  have b: "length ?b = n" "digits_value ?b = int (m mod 10 ^ n)" "list_all is_digit ?b"
    using pad_digits_facts [of "m mod 10 ^ n" n] assms by simp_all
  have a: "\<And>c. c \<in> set ?a \<Longrightarrow> is_digit c" by (rule show_nat_digits)
  have dot: "\<not> is_digit 46" by (simp add: is_digit_def)
  have t: "takeWhile is_digit (?a @ 46 # ?b) = ?a" and d: "dropWhile is_digit (?a @ 46 # ?b) = 46 # ?b"
    using a dot by (simp_all add: takeWhile_append2 dropWhile_append2)
  have "digits_value (?a @ ?b) = int (m div 10 ^ n) * 10 ^ n + int (m mod 10 ^ n)"
    by (simp add: digits_value_append b digits_value_show_nat)
  also have "\<dots> = int (m div 10 ^ n * 10 ^ n + m mod 10 ^ n)" by simp
  also have "\<dots> = int m" by (simp only: div_mult_mod_eq)
  finally show ?thesis
    using b by (simp add: parse_mantissa_def fixed_nat_def t d)
qed

lemma lower_fixed: "list_all (\<lambda>c. is_digit c \<or> c = 46) s \<Longrightarrow> ascii_lower s = s"
  by (induction s) (auto simp: ascii_lower_def char_defs)

lemma number_char:
  "is_digit c \<or> c = 46 \<Longrightarrow> \<not> is_space c \<and> c \<noteq> 95 \<and> c \<noteq> 101 \<and> c \<noteq> 45 \<and> c \<noteq> 43 \<and> c \<noteq> 105 \<and> c \<noteq> 110 \<and> c \<noteq> 115"
  by (auto simp: is_digit_def is_space_def)

lemma decimal_of_fixed:
  assumes "0 < n" shows "decimal_of_str (fixed_nat n m) = Some (DFin (of_nat m / 10 ^ n))"
proof -
  let ?s = "fixed_nat n m"
  have ch: "list_all (\<lambda>c. is_digit c \<or> c = 46) ?s" using assms by (rule fixed_nat_chars)
  then have plain: "\<forall>c \<in> set ?s. \<not> is_space c \<and> c \<noteq> 95 \<and> c \<noteq> 101 \<and> c \<noteq> 45 \<and> c \<noteq> 43 \<and> c \<noteq> 105 \<and> c \<noteq> 110 \<and> c \<noteq> 115"
    using number_char by (simp only: list_all_iff) blast
  have ne: "?s \<noteq> []" by (simp add: fixed_nat_def)
  have "\<not> is_space (hd ?s) \<and> \<not> is_space (last ?s)"
    using plain ne hd_in_set [of ?s] last_in_set [of ?s] by blast
  then have strip: "py_strip ?s = ?s"
    unfolding py_strip_def by (intro strip_by_id disjI2)
  have under: "filter (\<lambda>c. c \<noteq> 95) ?s = ?s"
    unfolding filter_id_conv using plain by blast
  obtain c t where ct: "?s = c # t" using ne by (cases ?s) auto
  then have "c \<in> set ?s" by simp
  with plain have c: "c \<noteq> 45" "c \<noteq> 43" "c \<noteq> 105" "c \<noteq> 110" "c \<noteq> 115" by blast+
  then have sign: "split_sign ?s = (False, ?s)" by (simp add: split_sign_def ct)
  have tw: "takeWhile (\<lambda>c. c \<noteq> 101) ?s = ?s" and dw: "dropWhile (\<lambda>c. c \<noteq> 101) ?s = []"
    unfolding takeWhile_eq_all_conv dropWhile_eq_Nil_conv using plain by blast+
  have word: "?s \<noteq> u ''inf'' \<and> ?s \<noteq> u ''infinity'' \<and> take 3 ?s \<noteq> u ''nan'' \<and> take 4 ?s \<noteq> u ''snan''"
    using c unfolding ct by (auto simp: u_def)
  show ?thesis
    using word by (simp add: decimal_of_str_def strip under sign lower_fixed [OF ch] tw dw parse_mantissa_fixed [OF assms]
        decimal_value_def power_int_minus divide_inverse)
qed

lemma decimal_text_fixed: "0 < n \<Longrightarrow> decimal_text U (fixed_nat n m) = Some (DFin (of_nat m / 10 ^ n))"
proof -
  assume n: "0 < n"
  have "map (ascii_digit U) (fixed_nat n m) = fixed_nat n m"
    using fixed_nat_chars [OF n, of m] by (intro ascii_digit_id) (auto simp: list_all_iff is_digit_def)
  with n show ?thesis by (simp add: decimal_text_def decimal_of_fixed)
qed

lemma format_fixed_close:
  assumes "0 < n" "0 \<le> q"
  shows "\<exists>m. decimal_text U (format_fixed n (Fin q)) = Some (DFin m) \<and> \<bar>m - q\<bar> * 10 ^ n \<le> 1 / 2"
proof -
  let ?r = "round_half_even (q * 10 ^ n)"
  have r0: "0 \<le> ?r" using assms(2) by (intro round_half_even_ge) simp
  have d: "decimal_text U (format_fixed n (Fin q)) = Some (DFin (of_int ?r / 10 ^ n))"
    using assms decimal_text_fixed [OF assms(1), of U "nat ?r"] r0 by (simp add: format_fixed_def)
  have "\<bar>of_int ?r / 10 ^ n - q\<bar> * 10 ^ n = \<bar>(of_int ?r / 10 ^ n - q) * 10 ^ n\<bar>"
    by (simp add: abs_mult)
  also have "(of_int ?r / 10 ^ n - q) * 10 ^ n = of_int ?r - q * 10 ^ n"
    by (simp add: left_diff_distrib)
  finally show ?thesis using d round_half_even_error [of "q * 10 ^ n"] by auto
qed

subsection \<open>CSV rows\<close>

definition plain_cell :: "ustr \<Rightarrow> bool" where
  "plain_cell s \<longleftrightarrow> s \<noteq> [] \<and> list_all (\<lambda>c. c \<noteq> 44 \<and> c \<noteq> 34 \<and> \<not> is_line_break c) s"

lemma csv_field_plain: "plain_cell s \<Longrightarrow> csv_field s = s"
proof -
  assume "plain_cell s"
  moreover have "is_line_break 10" "is_line_break 13" by (simp_all add: is_line_break_def)
  ultimately have "\<not> list_ex (\<lambda>c. c = 44 \<or> c = 34 \<or> c = 10 \<or> c = 13) s"
    unfolding plain_cell_def list_all_iff list_ex_iff by blast
  then show ?thesis by (simp only: csv_field_def if_False)
qed

lemma csv_row_plain:
  assumes "list_all plain_cell cells"
  shows "csv_row cells = join [44] cells @ [13, 10]"
proof -
  have "map csv_field cells = cells" using assms by (induction cells) (auto simp: csv_field_plain)
  moreover have "cells \<noteq> [[]]" using assms by (auto simp: plain_cell_def)
  ultimately show ?thesis by (simp add: csv_row_def)
qed

lemma plain_line_join:
  assumes "list_all plain_cell cells" shows "plain_line (join [44] cells)"
proof -
  have "\<not> is_line_break c" if c: "c \<in> set (join [44] cells)" for c
  proof -
    from c set_join [of "[44]" cells] consider "c = 44" | cell where "cell \<in> set cells" "c \<in> set cell" by auto
    then show ?thesis
      using assms by cases (auto simp: is_line_break_def [of 44] list_all_iff plain_cell_def)
  qed
  then show ?thesis by (simp add: plain_line_def list_all_iff)
qed

lemma csv_read_back:
  assumes "list_all (\<lambda>cells. cells \<noteq> [] \<and> list_all plain_cell cells) rows"
  shows "map (split_on (\<lambda>c. c = 44)) (splitlines (concat (map csv_row rows))) = rows"
proof -
  have "map csv_row rows = map (\<lambda>x. x @ [13, 10]) (map (join [44]) rows)"
    using assms by (induction rows) (auto simp: csv_row_plain)
  then have "splitlines (concat (map csv_row rows)) = map (join [44]) rows"
    using assms by (simp only:) (rule splitlines_rows, auto simp: list_all_iff intro: plain_line_join)
  moreover have "split_on (\<lambda>c. c = 44) (join [44] cells) = cells" if "cells \<in> set rows" for cells
    using assms that by (intro split_on_join) (auto simp: list_all_iff plain_cell_def)
  ultimately show ?thesis by (simp add: map_idI)
qed

lemma plain_cell_number: "s \<noteq> [] \<Longrightarrow> list_all (\<lambda>c. is_digit c \<or> c = 45 \<or> c = 46) s \<Longrightarrow> plain_cell s"
proof -
  assume "s \<noteq> []" "list_all (\<lambda>c. is_digit c \<or> c = 45 \<or> c = 46) s"
  moreover have "c \<noteq> 44 \<and> c \<noteq> 34 \<and> \<not> is_line_break c" if "is_digit c \<or> c = 45 \<or> c = 46" for c
    using that by (auto simp: is_digit_def is_line_break_def)
  ultimately show ?thesis unfolding plain_cell_def list_all_iff by blast
qed

lemma plain_cell_show_int [simp]: "plain_cell (show_int i)"
proof (rule plain_cell_number)
  show "show_int i \<noteq> []" by (simp add: show_int_def)
qed (auto simp: list_all_iff dest: show_int_ascii)

lemma plain_cell_fixed [simp]: "0 < n \<Longrightarrow> plain_cell (format_fixed n (Fin q))"
  using fixed_nat_chars [of n]
  by (intro plain_cell_number) (auto simp: format_fixed_def fixed_nat_def list_all_iff)

end
