(* ===== verification/SkProgram.thy ===== *)
theory SkProgram
  imports SkTheorems FixedPoint
begin

section \<open>The profile reader as a program\<close>

text \<open>
  The socket exchange returns exactly when the peer closes or a call fails, and then with the bytes in
  order however they were split; \<open>main\<close> reports every exception but one; the CSV report can be read
  back, and its decimals are the means to half a unit in the last place.
\<close>

subsection \<open>Receiving\<close>

definition ends_at :: "(nat \<Rightarrow> ustr res) \<Rightarrow> nat \<Rightarrow> bool" where
  "ends_at recv n \<longleftrightarrow> recv n = Inr [] \<or> (\<exists>e. recv n = Inl e)"

definition run_end :: "(nat \<Rightarrow> ustr res) \<Rightarrow> ustr res \<Rightarrow> bool" where
  "run_end recv r \<longleftrightarrow> (\<exists>m. ends_at recv m) \<and> (\<forall>e. r = Inl e \<longrightarrow> (\<exists>m. recv m = Inl e))"

lemma recv_all_Some:
  assumes "recv_all recv n acc = Some r" shows "run_end recv r"
proof (rule recv_all.raw_induct [OF _ assms])
  fix f :: "(nat \<Rightarrow> ustr res) \<Rightarrow> nat \<Rightarrow> ustr \<Rightarrow> ustr res option" and recv n acc r
  assume IH: "\<And>recv n acc r. f recv n acc = Some r \<Longrightarrow> run_end recv r"
    and step: "(case recv n of Inl e \<Rightarrow> Some (Inl e)
       | Inr chunk \<Rightarrow> if chunk = [] then Some (Inr acc) else f recv (Suc n) (acc @ chunk)) = Some r"
  show "run_end recv r"
  proof (cases "recv n")
    case (Inl e)
    then have "ends_at recv n" by (simp add: ends_at_def)
    with Inl step show ?thesis by (auto simp: run_end_def)
  next
    case (Inr chunk)
    show ?thesis
    proof (cases "chunk = []")
      case True
      then have "ends_at recv n" using Inr by (simp add: ends_at_def)
      with Inr True step show ?thesis by (auto simp: run_end_def)
    next
      case False
      with Inr step IH show ?thesis by simp
    qed
  qed
qed

lemma recv_all_chunks:
  assumes "\<And>i. i < k \<Longrightarrow> recv (n + i) = Inr (chunk i) \<and> chunk i \<noteq> []"
  shows "recv_all recv n acc = recv_all recv (n + k) (acc @ concat (map chunk [0 ..< k]))"
  using assms
proof (induction k)
  case (Suc k)
  then have "recv_all recv n acc = recv_all recv (n + k) (acc @ concat (map chunk [0 ..< k]))" by simp
  also have "\<dots> = recv_all recv (n + Suc k) (acc @ concat (map chunk [0 ..< k]) @ chunk k)"
    using Suc.prems [of k] by (subst recv_all.simps) simp
  finally show ?case by simp
qed simp

lemma recv_all_ends_Some:
  assumes "ends_at recv m" shows "\<exists>r. recv_all recv 0 acc = Some r"
proof -
  define k where "k = (LEAST m. ends_at recv m)"
  have k: "ends_at recv k" unfolding k_def by (rule LeastI [of "ends_at recv", OF assms])
  have "recv (0 + i) = Inr (projr (recv i)) \<and> projr (recv i) \<noteq> []" if "i < k" for i
    using not_less_Least [of i "ends_at recv"] that unfolding k_def [symmetric]
    by (cases "recv i") (auto simp: ends_at_def)
  from recv_all_chunks [of k recv 0 "\<lambda>i. projr (recv i)", OF this] k show ?thesis
    by (auto simp: ends_at_def recv_all.simps [of recv k])
qed

definition request_setup :: "peer \<Rightarrow> ustr \<Rightarrow> ustr \<Rightarrow> float_number \<Rightarrow> ustr res" where
  "request_setup P path command timeout =
     bind_res (settimeout timeout) (\<lambda>_. bind_res (p_connect P path) (\<lambda>_.
     bind_res (ascii_encode (profile_command command)) (\<lambda>bytes.
     bind_res (p_sendall P bytes) (\<lambda>_. bind_res (p_shutdown P) (\<lambda>_. Inr bytes)))))"

lemma action_command_ascii: "ascii_encode (profile_command (action_text a)) = Inr (profile_command (action_text a))"
  by (induction a) code_simp+

lemma request_setup_Inr:
  "request_setup P path (action_text a) timeout = Inr bytes \<Longrightarrow> bytes = profile_command (action_text a)"
  by (auto simp: request_setup_def bind_res_Inr_iff action_command_ascii)

lemma request_unfold: "request P path command timeout =
    (case request_setup P path command timeout of Inl e \<Rightarrow> Some (Inl e)
     | Inr bytes \<Rightarrow> map_option (\<lambda>raw. bind_res raw (\<lambda>bytes. bind_res (ascii_decode bytes) (\<lambda>text. Inr (py_strip text))))
         (recv_all (p_recv P bytes) 0 []))"
  unfolding request_def request_setup_def ..

text \<open>C11. The program ends exactly when setting up the exchange fails, or the peer closes the connection
  after the command, or a receive fails: a peer that keeps sending keeps it from returning, since
  the timeout bounds each receive and not the exchange.\<close>

theorem sk_main_returns_iff:
  "(\<exists>out. sk_main I P args = Some out) \<longleftrightarrow>
     (\<exists>e. request_setup P (sk_socket args) (action_text (sk_action args)) (sk_timeout args) = Inl e) \<or>
     (\<exists>n. ends_at (p_recv P (profile_command (action_text (sk_action args)))) n)"
proof (cases "request_setup P (sk_socket args) (action_text (sk_action args)) (sk_timeout args)")
  case (Inl e)
  then show ?thesis by (simp add: sk_main_def request_unfold)
next
  case (Inr bytes)
  from request_setup_Inr [OF Inr] have b: "bytes = profile_command (action_text (sk_action args))" .
  show ?thesis
    unfolding sk_main_def request_unfold Inr b
    using recv_all_Some [of "p_recv P (profile_command (action_text (sk_action args)))" 0 "[]"]
      recv_all_ends_Some [of "p_recv P (profile_command (action_text (sk_action args)))" _ "[]"]
    by (auto simp: run_end_def)
qed

lemma request_joins_lemma:
  assumes start: "request_setup P path (action_text a) timeout = Inr bytes"
    and chunks: "\<And>i. i < k \<Longrightarrow> p_recv P bytes i = Inr (chunk i) \<and> chunk i \<noteq> []"
    and close: "p_recv P bytes k = Inr []"
    and ascii: "list_all (\<lambda>b. b < 128) (concat (map chunk [0 ..< k]))"
  shows "request P path (action_text a) timeout = Some (Inr (py_strip (concat (map chunk [0 ..< k]))))"
proof -
  have "recv_all (p_recv P bytes) 0 [] = recv_all (p_recv P bytes) k (concat (map chunk [0 ..< k]))"
    using recv_all_chunks [of k "p_recv P bytes" 0 chunk "[]"] chunks by simp
  also have "\<dots> = Some (Inr (concat (map chunk [0 ..< k])))"
    using close by (simp add: recv_all.simps [of _ k])
  finally show ?thesis
    using start ascii by (simp add: request_unfold ascii_decode_def del: map_map)
qed

text \<open>The reply is the bytes the peer sent before it closed, joined in order and stripped, however they
  were split into chunks.\<close>

theorem request_joins_chunks:
  assumes start: "request_setup P path (action_text a) timeout = Inr bytes"
    and chunks: "\<And>i. i < k \<Longrightarrow> p_recv P bytes i = Inr (chunk i) \<and> chunk i \<noteq> []"
    and close: "p_recv P bytes k = Inr []"
    and ascii: "list_all (\<lambda>b. b < 128) (concat (map chunk [0 ..< k]))"
  shows "request P path (action_text a) timeout = Some (Inr (py_strip (concat (map chunk [0 ..< k]))))"
  by (rule request_joins_lemma [OF assms])

subsection \<open>Every report is written\<close>

lemma aggregate_stages:
  assumes "aggregate_response I raw = Inr r"
  shows "\<exists>a b c. sk_stages r = [(u ''parse_signal'', a), (u ''decision'', b), (u ''redirect'', c)]"
proof -
  from assms obtain first rest where l: "splitlines raw = first # rest"
    by (cases "splitlines raw") (auto simp: aggregate_response_def aggregate_lines_def)
  from assms l obtain n f where "sk_summary_of I n f = Inr r"
    unfolding aggregate_response_def l aggregate_lines_iff by blast
  then show ?thesis by (auto simp: sk_summary_of_def bind_res_Inr_iff split: if_splits)
qed

lemma sk_report_written:
  assumes "aggregate_response I raw = Inr r"
  shows "\<exists>out. sk_report I fmt r = Exit 0 out"
proof -
  obtain a b c where s: "sk_stages r = [(u ''parse_signal'', a), (u ''decision'', b), (u ''redirect'', c)]"
    using aggregate_stages [OF assms] by blast
  then show ?thesis
    by (cases fmt) (auto simp: sk_report_def written_def sk_render_csv_def sk_render_human_def SK_STAGES_def)
qed

lemma confirm_reset_error: "confirm_reset U raw = Inl e \<Longrightarrow> reported e"
  by (auto simp: confirm_reset_def bind_res_Inl_iff ensure_iff dest: parse_fields_error)

text \<open>What the socket calls may raise: OSError and its subclasses, or a ValueError.\<close>

definition peer_reports :: "peer \<Rightarrow> bool" where
  "peer_reports P \<longleftrightarrow>
     (\<forall>p e. p_connect P p = Inl e \<longrightarrow> reported e) \<and>
     (\<forall>b e. p_sendall P b = Inl e \<longrightarrow> reported e) \<and> (\<forall>e. p_shutdown P = Inl e \<longrightarrow> reported e) \<and>
     (\<forall>b n e. p_recv P b n = Inl e \<longrightarrow> reported e)"

lemma settimeout_error: "settimeout timeout = Inl e \<Longrightarrow> reported e \<or> e = timeout_overflow"
  by (auto simp: settimeout_def bind_res_Inl_iff ensure_iff split: float_number.splits)

lemma request_error:
  assumes "request P path command timeout = Some (Inl e)" "peer_reports P"
  shows "reported e \<or> e = timeout_overflow \<and> settimeout timeout = Inl e"
proof (cases "request_setup P path command timeout")
  case (Inl e')
  with assms show ?thesis
    by (auto simp: request_unfold request_setup_def bind_res_Inl_iff ascii_encode_def peer_reports_def
        dest: settimeout_error split: if_splits)
next
  case (Inr bytes)
  with assms(1) consider e' where "recv_all (p_recv P bytes) 0 [] = Some (Inl e')" "e' = e"
    | raw where "ascii_decode raw = Inl e"
    by (auto simp: request_unfold bind_res_Inl_iff)
  then show ?thesis
    using assms(2) recv_all_Some [of "p_recv P bytes" 0 "[]" "Inl e"]
    by cases (auto simp: run_end_def peer_reports_def ascii_decode_def split: if_splits)
qed

subsection \<open>Peers that answer\<close>

text \<open>
  What the program relies on when it talks to a router: the socket calls succeed, and the peer answers
  a command once and closes. Then the outcome is that of the stripped answer.
\<close>

locale answering_peer =
  fixes P :: peer
    and answer :: "ustr \<Rightarrow> ustr"
  assumes accepts: "p_connect P path = Inr ()" "p_sendall P bytes = Inr ()" "p_shutdown P = Inr ()"
    and answers: "p_recv P bytes 0 = Inr (answer bytes)"
    and closes: "p_recv P bytes (Suc n) = Inr []"
begin

lemma setup_done:
  "settimeout timeout = Inr () \<Longrightarrow> request_setup P path (action_text a) timeout = Inr (profile_command (action_text a))"
  by (simp add: request_setup_def accepts action_command_ascii)

lemma exchange:
  assumes "settimeout timeout = Inr ()" "answer (profile_command (action_text a)) \<noteq> []" "list_all (\<lambda>b. b < 128) (answer (profile_command (action_text a)))"
  shows "request P path (action_text a) timeout = Some (Inr (py_strip (answer (profile_command (action_text a)))))"
  using request_joins_lemma [where k = 1 and chunk = "\<lambda>_. answer (profile_command (action_text a))", OF setup_done [OF assms(1)]]
    closes [of _ 0] assms(2,3) by (simp add: answers)

lemma main_reply:
  assumes "settimeout (sk_timeout args) = Inr ()" "answer (profile_command (action_text (sk_action args))) \<noteq> []"
    and "list_all (\<lambda>b. b < 128) (answer (profile_command (action_text (sk_action args))))"
  shows "sk_main I P args = Some (sk_reply I args (Inr (py_strip (answer (profile_command (action_text (sk_action args)))))))"
  by (simp add: sk_main_def exchange [OF assms])

lemma no_failure: "peer_reports P"
proof -
  have "p_recv P bytes n \<noteq> Inl e" for bytes n e
    by (cases n) (simp_all add: answers closes)
  then show ?thesis by (simp add: peer_reports_def accepts)
qed

end

lemma sk_main_raised:
  assumes "sk_main I P args = Some (Raised e)" and "peer_reports P"
  shows "e = overflow \<and> sk_action args = Read \<or> e = timeout_overflow \<and> settimeout (sk_timeout args) = Inl e"
proof -
  from assms(1) obtain reply where r: "request P (sk_socket args) (action_text (sk_action args)) (sk_timeout args) = Some reply"
    and reply: "sk_reply I args reply = Raised e"
    by (auto simp: sk_main_def)
  show ?thesis
  proof (cases reply)
    case (Inl e')
    with r request_error assms(2)
    have "reported e' \<or> e' = timeout_overflow \<and> settimeout (sk_timeout args) = Inl e'" by blast
    with Inl reply show ?thesis by (auto simp: sk_reply_def handled_def split: if_splits)
  next
    case (Inr raw)
    show ?thesis
    proof (cases "sk_action args")
      case Reset
      with Inr reply confirm_reset_error [of "i_unicode I" raw] show ?thesis
        by (auto simp: sk_reply_def handled_def split: sum.splits if_splits)
    next
      case Read
      show ?thesis
      proof (cases "aggregate_response I raw")
        case (Inl e')
        with aggregate_lines_error have "expected e'" by (auto simp: aggregate_response_def)
        with Read Inr Inl reply show ?thesis
          by (auto simp: sk_reply_def handled_def expected_def split: if_splits)
      next
        case (Inr r)
        with sk_report_written [OF Inr, of "sk_format args"] Read \<open>reply = Inr raw\<close> reply show ?thesis
          by (auto simp: sk_reply_def)
      qed
    qed
  qed
qed

text \<open>
  The only exceptions that escape \<open>main\<close> are the OverflowError of the division, when reading, and the
  OverflowError of a timeout that is too large: every other failure of the socket, the response or
  its checks ends with a usage error, and a result that was computed is always written.
\<close>

theorem sk_main_only_overflow_escapes:
  assumes "sk_main I P args = Some out" and "peer_reports P"
  shows "case out of
      Raised e \<Rightarrow> e = overflow \<and> sk_action args = Read \<or> e = timeout_overflow \<and> settimeout (sk_timeout args) = Inl e
    | _ \<Rightarrow> True"
  using sk_main_raised [OF _ assms(2), of I args] assms(1) by (auto split: outcome.split)


subsection \<open>The CSV report\<close>

definition stats_cells :: "ustr \<times> stage_stats \<Rightarrow> ustr list" where
  "stats_cells item = (case item of (name, s) \<Rightarrow> [name, show_int (ss_count s), show_int (ss_total_ns s),
     format_fixed 3 (Fin (ss_mean_ns s)), format_fixed 6 (Fin (ss_mean_us s))])"

lemma stats_row_cells: "stats_row name s = csv_row (stats_cells (name, s))"
  by (simp add: stats_row_def stats_cells_def)

lemma plain_names:
  "list_all plain_cell (map u [''stage'', ''count'', ''total_ns'', ''mean_ns'', ''mean_us''])" "list_all plain_cell SK_STAGES"
  by code_simp+

text \<open>The CSV report is a round trip: split into lines and at commas it is the header and one row per
  stage, whose second and third cells are the decimal texts of the count and the total.\<close>

theorem sk_csv_roundtrip:
  assumes "aggregate_response I raw = Inr r"
  shows "\<exists>out. sk_report I Csv r = Exit 0 out \<and>
    map (split_on (\<lambda>c. c = 44)) (splitlines out) =
      map u [''stage'', ''count'', ''total_ns'', ''mean_ns'', ''mean_us''] # map stats_cells (sk_stages r)"
proof -
  obtain a b c where s: "sk_stages r = [(u ''parse_signal'', a), (u ''decision'', b), (u ''redirect'', c)]"
    using aggregate_stages [OF assms] by blast
  let ?rows = "map u [''stage'', ''count'', ''total_ns'', ''mean_ns'', ''mean_us''] # map stats_cells (sk_stages r)"
  have "sk_report I Csv r = Exit 0 (concat (map csv_row ?rows))"
    unfolding sk_report_def written_def sk_render_csv_def s
    by (simp add: SK_STAGES_def stats_row_cells)
  moreover have "list_all (\<lambda>cells. cells \<noteq> [] \<and> list_all plain_cell cells) ?rows"
    using plain_names(1) plain_names(2) [unfolded SK_STAGES_def]
    unfolding s by (simp add: stats_cells_def del: u_eq_Nil)
  ultimately show ?thesis using csv_read_back by blast
qed

text \<open>C22. How exact the printed mean is: for a stage with requests and time, the mean_ns cell is a decimal
  that differs from total/count by at most half a thousandth and the relative error of one double
  rounding.\<close>

theorem sk_mean_accuracy:
  assumes "aggregate_response I raw = Inr r" and "(stage, s) \<in> set (sk_stages r)"
    and "0 < ss_count s" "ss_count s \<le> 2 ^ 1000" "0 < ss_total_ns s"
  shows "\<exists>m. decimal_text U (format_fixed 3 (Fin (ss_mean_ns s))) = Some (DFin m) \<and>
    \<bar>m - of_int (ss_total_ns s) / of_int (ss_count s)\<bar> \<le>
      1 / 2000 + of_int (ss_total_ns s) / of_int (ss_count s) / 2 ^ 53"
proof -
  define q where "q = (of_int (ss_total_ns s) / of_int (ss_count s) :: rat)"
  from aggregate_response_sound_lemma [OF assms(1)] assms(2,3) have mean: "ss_mean_ns s = double q"
    by (auto simp: list_all_iff q_def)
  have "(of_int (ss_count s) :: rat) \<le> of_int (2 ^ 1000)" using assms(4) by (simp only: of_int_le_iff)
  then have n: "(of_int (ss_count s) :: rat) \<le> normal_scale" by (simp add: normal_scale_def)
  have t: "(1 :: rat) \<le> of_int (ss_total_ns s)" using assms(5) by simp
  have n0: "(0 :: rat) < of_int (ss_count s)" using assms(3) by simp
  have "1 * of_int (ss_count s) \<le> of_int (ss_total_ns s) * normal_scale"
    using t n n0 by (intro mult_mono) auto
  then have big: "1 \<le> q * normal_scale"
    using n0 by (simp add: q_def pos_le_divide_eq)
  have "\<bar>double q - q\<bar> * 2 ^ 53 \<le> q" by (rule double_error [OF big])
  then have e1: "\<bar>double q - q\<bar> \<le> q / 2 ^ 53" by (simp add: pos_le_divide_eq)
  have "0 \<le> double q" using t n0 by (intro double_nonneg) (simp add: q_def)
  from format_fixed_close [OF _ this, of 3 U] obtain m where
    m: "decimal_text U (format_fixed 3 (Fin (double q))) = Some (DFin m)" and "\<bar>m - double q\<bar> * 10 ^ 3 \<le> 1 / 2" by auto
  then have e2: "\<bar>m - double q\<bar> \<le> 1 / 2000" by simp
  have "\<bar>m - q\<bar> \<le> 1 / 2000 + q / 2 ^ 53"
    using e1 e2 by linarith
  with m mean show ?thesis by (auto simp: q_def)
qed

end
