(* ===== verification/Utf8.thy ===== *)
theory Utf8
  imports PyText
begin

section \<open>UTF-8\<close>

text \<open>
  \<open>bytes.decode("utf-8")\<close>, strict as CPython's: no overlong forms, no surrogates, nothing above the last
  code point; and \<open>str.encode("utf-8")\<close>. Decoding an encoded text gives the text back.
\<close>

definition trail :: "int \<Rightarrow> bool" where
  "trail b \<longleftrightarrow> 128 \<le> b \<and> b < 192"

definition scalar :: "int \<Rightarrow> bool" where
  "scalar c \<longleftrightarrow> 0 \<le> c \<and> c \<le> 1114111 \<and> \<not> (55296 \<le> c \<and> c \<le> 57343)"

fun utf8_decode :: "ustr \<Rightarrow> ustr option" where
  "utf8_decode [] = Some []"
| "utf8_decode (a # s) =
    (if a < 128 then map_option ((#) a) (utf8_decode s)
     else case s of
       [] \<Rightarrow> None
     | b # s1 \<Rightarrow>
         if 194 \<le> a \<and> a < 224 \<and> trail b
         then map_option ((#) ((a - 192) * 64 + (b - 128))) (utf8_decode s1)
         else case s1 of
           [] \<Rightarrow> None
         | c # s2 \<Rightarrow>
             if 224 \<le> a \<and> a < 240 \<and> trail b \<and> trail c \<and>
               2048 \<le> (a - 224) * 4096 + (b - 128) * 64 + (c - 128) \<and>
               scalar ((a - 224) * 4096 + (b - 128) * 64 + (c - 128))
             then map_option ((#) ((a - 224) * 4096 + (b - 128) * 64 + (c - 128))) (utf8_decode s2)
             else case s2 of
               [] \<Rightarrow> None
             | d # s3 \<Rightarrow>
                 if 240 \<le> a \<and> a < 245 \<and> trail b \<and> trail c \<and> trail d \<and>
                   65536 \<le> (a - 240) * 262144 + (b - 128) * 4096 + (c - 128) * 64 + (d - 128) \<and>
                   scalar ((a - 240) * 262144 + (b - 128) * 4096 + (c - 128) * 64 + (d - 128))
                 then map_option ((#) ((a - 240) * 262144 + (b - 128) * 4096 + (c - 128) * 64 + (d - 128)))
                   (utf8_decode s3)
                 else None)"

definition utf8_char :: "int \<Rightarrow> ustr" where
  "utf8_char c =
     (if c < 128 then [c]
      else if c < 2048 then [192 + c div 64, 128 + c mod 64]
      else if c < 65536 then [224 + c div 4096, 128 + c div 64 mod 64, 128 + c mod 64]
      else [240 + c div 262144, 128 + c div 4096 mod 64, 128 + c div 64 mod 64, 128 + c mod 64])"

definition utf8_encode :: "ustr \<Rightarrow> ustr" where
  "utf8_encode s = concat (map utf8_char s)"

lemma trail_mod: "trail (128 + n mod 64)"
  by (simp add: trail_def)

lemma two_bytes: "c div 64 * 64 + c mod 64 = (c :: int)"
  by simp

lemma three_bytes: "c div 4096 * 4096 + c div 64 mod 64 * 64 + c mod 64 = (c :: int)"
proof -
  have "c div 4096 * 64 + c div 64 mod 64 = c div 64"
    using div_mult_mod_eq [of "c div 64" 64] by (simp add: zdiv_zmult2_eq [symmetric])
  then have "(c div 4096 * 64 + c div 64 mod 64) * 64 + c mod 64 = c" by simp
  then show ?thesis by (simp add: distrib_right mult.assoc)
qed

lemma four_bytes: "c div 262144 * 262144 + c div 4096 mod 64 * 4096 + c div 64 mod 64 * 64 + c mod 64 = (c :: int)"
proof -
  have "c div 262144 * 64 + c div 4096 mod 64 = c div 4096"
    using div_mult_mod_eq [of "c div 4096" 64] by (simp add: zdiv_zmult2_eq [symmetric])
  then have "(c div 262144 * 64 + c div 4096 mod 64) * 4096 + c div 64 mod 64 * 64 + c mod 64 = c"
    using three_bytes [of c] by simp
  then show ?thesis by (simp add: distrib_right mult.assoc)
qed

lemma utf8_decode_char:
  assumes "scalar c"
  shows "utf8_decode (utf8_char c @ s) = map_option ((#) c) (utf8_decode s)"
proof -
  from assms have c: "0 \<le> c" "c \<le> 1114111" by (simp_all add: scalar_def)
  consider "c < 128" | "128 \<le> c" "c < 2048" | "2048 \<le> c" "c < 65536" | "65536 \<le> c" by linarith
  then show ?thesis
  proof cases
    case 1
    then show ?thesis by (simp add: utf8_char_def)
  next
    case 2
    then have "2 \<le> c div 64" "c div 64 < 32" by auto
    with 2 show ?thesis by (simp add: utf8_char_def trail_mod two_bytes)
  next
    case 3
    then have "0 \<le> c div 4096" "c div 4096 < 16" by auto
    with 3 assms show ?thesis by (simp add: utf8_char_def trail_mod three_bytes)
  next
    case 4
    then have "0 \<le> c div 262144" "c div 262144 < 5" using c by auto
    with 4 assms show ?thesis by (simp add: utf8_char_def trail_mod four_bytes)
  qed
qed

lemma utf8_roundtrip: "list_all scalar s \<Longrightarrow> utf8_decode (utf8_encode s) = Some s"
  by (induction s) (simp_all add: utf8_encode_def utf8_decode_char)

lemma utf8_decode_scalar: "utf8_decode bytes = Some s \<Longrightarrow> list_all (\<lambda>b. 0 \<le> b) bytes \<Longrightarrow> list_all scalar s"
proof (induction bytes arbitrary: s rule: utf8_decode.induct)
  case (2 a t)
  show ?case
  proof (cases "a < 128")
    case True
    with 2 show ?thesis by (auto simp: scalar_def)
  next
    case False
    then obtain b s1 where s1: "t = b # s1" using "2.prems"(1) by (auto split: list.splits)
    show ?thesis
    proof (cases "194 \<le> a \<and> a < 224 \<and> trail b")
      case True
      with False s1 "2.prems"(1) obtain r where r: "utf8_decode s1 = Some r" "s = ((a - 192) * 64 + (b - 128)) # r" by auto
      have "scalar ((a - 192) * 64 + (b - 128))" using True by (simp add: scalar_def trail_def)
      moreover have "list_all scalar r" using "2.IH"(2) [OF False s1 True r(1)] "2.prems"(2) s1 by simp
      ultimately show ?thesis using r by simp
    next
      case two: False
      with False s1 "2.prems"(1) obtain c s2 where s2: "s1 = c # s2" by (auto split: list.splits)
      define v where "v = (a - 224) * 4096 + (b - 128) * 64 + (c - 128)"
      show ?thesis
      proof (cases "224 \<le> a \<and> a < 240 \<and> trail b \<and> trail c \<and> 2048 \<le> v \<and> scalar v")
        case True
        with False s1 two s2 "2.prems"(1) obtain r where r: "utf8_decode s2 = Some r" "s = v # r"
          by (auto simp: v_def)
        have "list_all scalar r"
          using "2.IH"(3) [OF False s1 two s2 True [unfolded v_def] r(1)] "2.prems"(2) s1 s2 by simp
        then show ?thesis using r True by simp
      next
        case three: False
        with False s1 two s2 "2.prems"(1) obtain d s3 where s3: "s2 = d # s3"
          by (auto simp: v_def split: list.splits if_splits)
        define w where "w = (a - 240) * 262144 + (b - 128) * 4096 + (c - 128) * 64 + (d - 128)"
        from False s1 two s2 three s3 "2.prems"(1)
        have four: "240 \<le> a \<and> a < 245 \<and> trail b \<and> trail c \<and> trail d \<and> 65536 \<le> w \<and> scalar w"
          and "\<exists>r. utf8_decode s3 = Some r \<and> s = w # r"
          by (auto simp: v_def w_def split: if_splits)
        then obtain r where r: "utf8_decode s3 = Some r" "s = w # r" by blast
        have "list_all scalar r"
          using "2.IH"(4) [OF False s1 two s2 three [unfolded v_def] s3 four [unfolded w_def] r(1)] "2.prems"(2) s1 s2 s3 by simp
        then show ?thesis using r four by simp
      qed
    qed
  qed
qed simp

text \<open>Decoding is strict, so only one byte string decodes to a text: its encoding.\<close>

lemma sextet:
  assumes "0 \<le> r" "r < 64" shows "(q * 64 + r) div 64 = q" "(q * 64 + r) mod 64 = (r :: int)"
  using assms by simp_all

lemma utf8_char_two:
  assumes "194 \<le> a" "a < 224" "trail b"
  shows "utf8_char ((a - 192) * 64 + (b - 128)) = [a, b]"
proof -
  define v where "v = (a - 192) * 64 + (b - 128)"
  from assms(3) have b: "0 \<le> b - 128" "b - 128 < 64" by (simp_all add: trail_def)
  have v: "v div 64 = a - 192" "v mod 64 = b - 128" unfolding v_def using sextet [OF b] by blast+
  have "128 \<le> v" "v < 2048" unfolding v_def using assms(1,2) b by (simp_all add: left_diff_distrib)
  with v have "utf8_char v = [a, b]" by (simp add: utf8_char_def)
  then show ?thesis by (simp only: v_def)
qed

lemma utf8_char_three:
  assumes "224 \<le> a" "a < 240" "trail b" "trail c" "2048 \<le> (a - 224) * 4096 + (b - 128) * 64 + (c - 128)"
  shows "utf8_char ((a - 224) * 4096 + (b - 128) * 64 + (c - 128)) = [a, b, c]"
proof -
  define v where "v = (a - 224) * 4096 + (b - 128) * 64 + (c - 128)"
  from assms(3,4) have b: "0 \<le> b - 128" "b - 128 < 64" and c: "0 \<le> c - 128" "c - 128 < 64" by (simp_all add: trail_def)
  have v': "v = ((a - 224) * 64 + (b - 128)) * 64 + (c - 128)" by (simp add: v_def)
  have v: "v div 64 = (a - 224) * 64 + (b - 128)" "v mod 64 = c - 128" unfolding v' using sextet [OF c] by blast+
  then have "v div 64 div 64 = a - 224" "v div 64 mod 64 = b - 128" using sextet [OF b, of "a - 224"] by simp_all
  moreover have "v div 64 div 64 = v div 4096" by (simp add: zdiv_zmult2_eq [symmetric])
  moreover have "v < 65536" unfolding v_def using assms(2) b c by (simp add: left_diff_distrib)
  ultimately have "utf8_char v = [a, b, c]" using v(2) assms(5) [folded v_def] by (simp add: utf8_char_def)
  then show ?thesis by (simp only: v_def)
qed

lemma utf8_char_four:
  assumes "240 \<le> a" "trail b" "trail c" "trail d"
    and "65536 \<le> (a - 240) * 262144 + (b - 128) * 4096 + (c - 128) * 64 + (d - 128)"
  shows "utf8_char ((a - 240) * 262144 + (b - 128) * 4096 + (c - 128) * 64 + (d - 128)) = [a, b, c, d]"
proof -
  define v where "v = (a - 240) * 262144 + (b - 128) * 4096 + (c - 128) * 64 + (d - 128)"
  from assms(2-4) have b: "0 \<le> b - 128" "b - 128 < 64" and c: "0 \<le> c - 128" "c - 128 < 64" and d: "0 \<le> d - 128" "d - 128 < 64"
    by (simp_all add: trail_def)
  have v': "v = (((a - 240) * 64 + (b - 128)) * 64 + (c - 128)) * 64 + (d - 128)" by (simp add: v_def)
  have v: "v div 64 = ((a - 240) * 64 + (b - 128)) * 64 + (c - 128)" "v mod 64 = d - 128" unfolding v' using sextet [OF d] by blast+
  then have w: "v div 64 div 64 = (a - 240) * 64 + (b - 128)" "v div 64 mod 64 = c - 128"
    using sextet [OF c, of "(a - 240) * 64 + (b - 128)"] by simp_all
  then have "v div 64 div 64 div 64 = a - 240" "v div 64 div 64 mod 64 = b - 128" using sextet [OF b, of "a - 240"] by simp_all
  moreover have "v div 64 div 64 = v div 4096" "v div 64 div 64 div 64 = v div 262144"
    by (simp_all add: zdiv_zmult2_eq [symmetric])
  ultimately have e: "v div 262144 = a - 240" "v div 4096 mod 64 = b - 128" by (simp_all only:)
  have "\<not> v < 128" "\<not> v < 2048" "\<not> v < 65536" using assms(5) [folded v_def] by linarith+
  then have "utf8_char v = [a, b, c, d]" unfolding utf8_char_def e v(2) w(2) by simp
  then show ?thesis by (simp only: v_def)
qed

lemma utf8_encode_Cons [simp]: "utf8_encode (c # s) = utf8_char c @ utf8_encode s"
  by (simp add: utf8_encode_def)

lemma utf8_encode_decode: "utf8_decode bytes = Some s \<Longrightarrow> utf8_encode s = bytes"
proof (induction bytes arbitrary: s rule: utf8_decode.induct)
  case 1
  then show ?case by (simp add: utf8_encode_def)
next
  case (2 a t)
  show ?case
  proof (cases "a < 128")
    case True
    with 2 show ?thesis by (auto simp: utf8_char_def)
  next
    case False
    then obtain b s1 where s1: "t = b # s1" using "2.prems"(1) by (auto split: list.splits)
    show ?thesis
    proof (cases "194 \<le> a \<and> a < 224 \<and> trail b")
      case True
      with False s1 "2.prems"(1) obtain r where r: "utf8_decode s1 = Some r" "s = ((a - 192) * 64 + (b - 128)) # r" by auto
      then show ?thesis using "2.IH"(2) [OF False s1 True r(1)] s1 utf8_char_two [of a b] True by simp
    next
      case two: False
      with False s1 "2.prems"(1) obtain c s2 where s2: "s1 = c # s2" by (auto split: list.splits)
      define v where "v = (a - 224) * 4096 + (b - 128) * 64 + (c - 128)"
      show ?thesis
      proof (cases "224 \<le> a \<and> a < 240 \<and> trail b \<and> trail c \<and> 2048 \<le> v \<and> scalar v")
        case True
        with False s1 two s2 "2.prems"(1) obtain r where r: "utf8_decode s2 = Some r" "s = v # r"
          by (auto simp: v_def)
        have "utf8_encode r = s2" using "2.IH"(3) [OF False s1 two s2 True [unfolded v_def] r(1)] .
        moreover have "utf8_char v = [a, b, c]" using True unfolding v_def by (intro utf8_char_three) auto
        ultimately show ?thesis using r s1 s2 by simp
      next
        case three: False
        with False s1 two s2 "2.prems"(1) obtain d s3 where s3: "s2 = d # s3"
          by (auto simp: v_def split: list.splits if_splits)
        define w where "w = (a - 240) * 262144 + (b - 128) * 4096 + (c - 128) * 64 + (d - 128)"
        from False s1 two s2 three s3 "2.prems"(1)
        have four: "240 \<le> a \<and> a < 245 \<and> trail b \<and> trail c \<and> trail d \<and> 65536 \<le> w \<and> scalar w"
          and "\<exists>r. utf8_decode s3 = Some r \<and> s = w # r"
          by (auto simp: v_def w_def split: if_splits)
        then obtain r where r: "utf8_decode s3 = Some r" "s = w # r" by blast
        have "utf8_encode r = s3" using "2.IH"(4) [OF False s1 two s2 three [unfolded v_def] s3 four [unfolded w_def] r(1)] .
        moreover have "utf8_char w = [a, b, c, d]" using four unfolding w_def by (intro utf8_char_four) auto
        ultimately show ?thesis using r s1 s2 s3 by simp
      qed
    qed
  qed
qed

end
