(* ===== verification/VsrProfile.thy ===== *)
theory VsrProfile
  imports SkProfile LineText Utf8
begin

section \<open>The component counters of the semantic router\<close>

text \<open>
  scripts/vsr_profile_components.py captures the Prometheus exposition of the semantic router into a
  file, and later subtracts two captured snapshots and reports the time of each component per
  request. The network and the file system are a \<open>world\<close>: what a URL returns, the bytes of the
  files and which accesses fail. Files are named by their path; two paths are two files.
\<close>

definition VSR_STAGES :: "ustr list" where
  "VSR_STAGES = map u [''request_fast_extract'', ''request_full_parse'', ''bm25_native'', ''decision_policy'',
     ''route_reply_build'', ''extproc_send'', ''request_body_total'']"

definition STACKED_COMPONENTS :: "ustr list" where
  "STACKED_COMPONENTS = map u [''request_parsing'', ''bm25_native'', ''decision_policy'', ''route_reply_build'', ''extproc_send'']"

definition METRICS :: "(ustr, ustr) dict" where
  "METRICS = [(u ''vsr_component_profile_events_total'', u ''count''),
     (u ''vsr_component_profile_duration_nanoseconds_total'', u ''total_ns'')]"

subsection \<open>Samples\<close>

text \<open>
  \<open>SAMPLE_RE.match(line)\<close> as a function: no alternative of the expression is left open by the
  characters before it, so nothing is ever tried twice. The line is one of \<open>splitlines\<close> and has no
  line feed before its end, so \<open>$\<close> is the end.
\<close>

definition sample_names :: "ustr list" where
  "sample_names = map u [''vsr_component_profile_events_total'', ''vsr_component_profile_duration_nanoseconds_total'']"

definition stage_open :: ustr where \<open>stage_open = u ''{stage="''\<close>
definition stage_close :: ustr where \<open>stage_close = u ''"}''\<close>

definition cut_prefix :: "ustr \<Rightarrow> ustr \<Rightarrow> ustr option" where
  "cut_prefix p s = (if prefix p s then Some (drop (length p) s) else None)"

definition is_decimal :: "unidb \<Rightarrow> int \<Rightarrow> bool" where
  "is_decimal U c = (if c < 128 then is_digit c else u_decimal U c \<noteq> None)"

text \<open>\<open>\s+(?P<value>\S+)(?:\s+\d+)?$\<close>.\<close>

definition match_value :: "unidb \<Rightarrow> ustr \<Rightarrow> ustr option" where
  "match_value U s = (let t = dropWhile is_space s;
       raw = takeWhile (\<lambda>c. \<not> is_space c) t; rest = dropWhile (\<lambda>c. \<not> is_space c) t;
       stamp = dropWhile is_space rest in
     if s \<noteq> [] \<and> is_space (hd s) \<and> raw \<noteq> [] \<and>
        (rest = [] \<or> stamp \<noteq> [] \<and> list_all (is_decimal U) stamp)
     then Some raw else None)"

definition match_stage :: "unidb \<Rightarrow> ustr \<Rightarrow> (ustr \<times> ustr) option" where
  "match_stage U s = (let stage = takeWhile (\<lambda>c. c \<noteq> 34) s in
     if stage = [] then None
     else case cut_prefix stage_close (dropWhile (\<lambda>c. c \<noteq> 34) s) of
       None \<Rightarrow> None
     | Some t \<Rightarrow> map_option (\<lambda>raw. (stage, raw)) (match_value U t))"

fun match_names :: "unidb \<Rightarrow> ustr list \<Rightarrow> ustr \<Rightarrow> (ustr \<times> ustr \<times> ustr) option" where
  "match_names U [] line = None"
| "match_names U (metric # names) line = (case cut_prefix (metric @ stage_open) line of
     None \<Rightarrow> match_names U names line
   | Some s \<Rightarrow> map_option (Pair metric) (match_stage U s))"

definition match_sample :: "unidb \<Rightarrow> ustr \<Rightarrow> (ustr \<times> ustr \<times> ustr) option" where
  "match_sample U line = match_names U sample_names line"

definition parse_nonnegative :: "unidb \<Rightarrow> ustr \<Rightarrow> int res" where
  "parse_nonnegative U raw = (case decimal_text U raw of
     None \<Rightarrow> Inl (ValueError ''invalid Prometheus value: {!r}'' [raw])
   | Some (DFin q) \<Rightarrow>
       if q < 0 \<or> q \<noteq> of_int \<lfloor>q\<rfloor>
       then Inl (ValueError ''profiling counter is not a nonnegative integer: {!r}'' [raw])
       else Inr \<lfloor>q\<rfloor>
   | Some _ \<Rightarrow> Inl (ValueError ''profiling counter is not a nonnegative integer: {!r}'' [raw]))"

subsection \<open>Snapshots\<close>

definition vsr_sample :: "unidb \<Rightarrow> ustr \<times> ustr \<times> ustr \<Rightarrow> counters \<Rightarrow> counters res" where
  "vsr_sample U sample values = (case sample of (metric, stage, raw) \<Rightarrow>
     bind_res (ensure (dict_get values stage \<noteq> None)
       (ValueError ''unexpected component-profile stage: {!r}'' [stage])) (\<lambda>_.
     bind_res (dict_index METRICS metric) (\<lambda>field.
     bind_res (dict_index values stage) (\<lambda>d.
     bind_res (ensure (dict_get d field = None)
       (ValueError ''duplicate {} sample for stage {!r}'' [field, stage])) (\<lambda>_.
     bind_res (parse_nonnegative U raw) (\<lambda>v. counter_write stage field v values))))))"

definition vsr_line :: "unidb \<Rightarrow> ustr \<Rightarrow> counters \<Rightarrow> counters res" where
  "vsr_line U line values =
     (if line = [] \<or> starts_with line (u ''#'') then Inr values
      else case match_sample U line of
        None \<Rightarrow> if starts_with line (u ''vsr_component_profile_'')
          then Inl (ValueError ''malformed component-profile sample: {!r}'' [line]) else Inr values
      | Some sample \<Rightarrow> vsr_sample U sample values)"

definition vsr_complete :: "counters \<Rightarrow> ustr \<Rightarrow> unit \<Rightarrow> unit res" where
  "vsr_complete values stage w = bind_res (dict_index values stage) (\<lambda>d.
     let missing = filter (\<lambda>field. dict_get d field = None) (map u [''count'', ''total_ns'']) in
     ensure (missing = []) (ValueError ''stage {!r} is missing: {}'' [stage, join (u '', '') (sort missing)]))"

definition vsr_init :: counters where
  "vsr_init = map (\<lambda>stage. (stage, [])) VSR_STAGES"

definition parse_snapshot :: "unidb \<Rightarrow> ustr \<Rightarrow> counters res" where
  "parse_snapshot U raw = bind_res (fold_res (vsr_line U) (splitlines raw) vsr_init) (\<lambda>values.
     bind_res (fold_res (vsr_complete values) VSR_STAGES ()) (\<lambda>_. Inr values))"

subsection \<open>Summaries\<close>

record component =
  cp_stats :: stage_stats
  cp_definition :: "ustr option"

record vsr_result =
  vr_completed :: int
  vr_stages :: "(ustr, stage_stats) dict"
  vr_components :: "(ustr, component) dict"
  vr_stacked_mean_us :: pyfloat
  vr_body_mean_us :: rat

text \<open>\<open>total_ns / count\<close> and \<open>total_ns / count / 1000.0\<close>, both zero when nothing was counted.\<close>

definition vsr_stats :: "int \<Rightarrow> int \<Rightarrow> stage_stats res" where
  "vsr_stats count total_ns =
     bind_res (if count \<noteq> 0 then true_div total_ns count else Inr 0) (\<lambda>mean_ns.
     bind_res (if count \<noteq> 0 then bind_res (true_div total_ns count) (\<lambda>q. Inr (per_thousand q)) else Inr 0) (\<lambda>mean_us.
     Inr \<lparr>ss_count = count, ss_total_ns = total_ns, ss_mean_ns = mean_ns, ss_mean_us = mean_us\<rparr>))"

definition vsr_delta :: "counters \<Rightarrow> counters \<Rightarrow> ustr \<Rightarrow> (ustr \<times> stage_stats) res" where
  "vsr_delta before0 after0 stage =
     bind_res (counter_read after0 stage (u ''count'')) (\<lambda>count1.
     bind_res (counter_read before0 stage (u ''count'')) (\<lambda>count0.
     bind_res (counter_read after0 stage (u ''total_ns'')) (\<lambda>total1.
     bind_res (counter_read before0 stage (u ''total_ns'')) (\<lambda>total0.
     bind_res (ensure (\<not> (count1 - count0 < 0 \<or> total1 - total0 < 0))
       (RuntimeErr ''component counters decreased for stage {!r}'' [stage])) (\<lambda>_.
     bind_res (vsr_stats (count1 - count0) (total1 - total0)) (\<lambda>s. Inr (stage, s)))))))"

definition vsr_agree :: "(ustr, stage_stats) dict \<Rightarrow> unit res" where
  "vsr_agree stages =
     bind_res (map_res (\<lambda>stage. bind_res (dict_index stages stage) (\<lambda>s. Inr (ss_count s))) VSR_STAGES) (\<lambda>counts.
     ensure (length (remdups counts) = 1) (RuntimeErr ''BM25 component event counts differ: {}''
       [join (u '', '') (map (\<lambda>(stage, count). stage @ u ''='' @ show_int count) (zip VSR_STAGES counts))]))"

definition request_parsing :: "int \<Rightarrow> (ustr, stage_stats) dict \<Rightarrow> component res" where
  "request_parsing completed stages =
     bind_res (dict_index stages (u ''request_fast_extract'')) (\<lambda>fast.
     bind_res (dict_index stages (u ''request_full_parse'')) (\<lambda>full.
     let parsing_total_ns = ss_total_ns fast + ss_total_ns full in
     bind_res (true_div parsing_total_ns completed) (\<lambda>mean_ns.
     bind_res (bind_res (true_div parsing_total_ns completed) (\<lambda>q. Inr (per_thousand q))) (\<lambda>mean_us.
     Inr \<lparr>cp_stats = \<lparr>ss_count = completed, ss_total_ns = parsing_total_ns, ss_mean_ns = mean_ns, ss_mean_us = mean_us\<rparr>,
          cp_definition = Some (u ''direct sum of fast extraction and full parsing timers'')\<rparr>))))"

definition vsr_components :: "int \<Rightarrow> (ustr, stage_stats) dict \<Rightarrow> (ustr, component) dict res" where
  "vsr_components completed stages =
     bind_res (request_parsing completed stages) (\<lambda>parsing.
     bind_res (map_res (\<lambda>stage. bind_res (dict_index stages stage) (\<lambda>s.
         Inr (stage, \<lparr>cp_stats = s, cp_definition = None\<rparr>))) (tl STACKED_COMPONENTS)) (\<lambda>others.
     Inr ((u ''request_parsing'', parsing) # others)))"

definition vsr_result_of :: "interp \<Rightarrow> int option \<Rightarrow> (ustr, stage_stats) dict \<Rightarrow> vsr_result res" where
  "vsr_result_of I wanted stages =
     bind_res (vsr_agree stages) (\<lambda>_.
     bind_res (dict_index stages (u ''request_body_total'')) (\<lambda>body.
     let completed = ss_count body in
     if completed \<le> 0 then Inl (RuntimeErr ''no completed profiled BM25 requests'' [])
     else
     bind_res (ensure (wanted = None \<or> wanted = Some completed)
       (RuntimeErr ''profiled request count {} does not match expected valid request count {}''
         [show_int completed, show_int (the wanted)])) (\<lambda>_.
     bind_res (vsr_components completed stages) (\<lambda>components.
     bind_res (map_res (\<lambda>name. bind_res (dict_index components name) (\<lambda>c. Inr (ss_mean_ns (cp_stats c))))
       STACKED_COMPONENTS) (\<lambda>means.
     Inr \<lparr>vr_completed = completed, vr_stages = stages, vr_components = components,
          vr_stacked_mean_us = float_per_thousand (py_sum I means), vr_body_mean_us = ss_mean_us body\<rparr>)))))"

definition summarize_snapshots :: "interp \<Rightarrow> ustr \<Rightarrow> ustr \<Rightarrow> int option \<Rightarrow> vsr_result res" where
  "summarize_snapshots I before_raw after_raw wanted =
     bind_res (parse_snapshot (i_unicode I) before_raw) (\<lambda>before0.
     bind_res (parse_snapshot (i_unicode I) after_raw) (\<lambda>after0.
     bind_res (map_res (vsr_delta before0 after0) VSR_STAGES) (\<lambda>stages.
     vsr_result_of I wanted stages)))"

subsection \<open>Files and the network\<close>

text \<open>
  \<open>w_fetch url timeout\<close> is the body of the response, \<open>w_files path\<close> the bytes of a file that can be
  read, and \<open>w_absent path\<close> the exception when there is none: no such file, a directory, no permission.
  Opening a file for writing can fail, and so can writing it: \<open>w_full path = Some (n, e)\<close> means that only \<open>n\<close> bytes fit.
\<close>

record world =
  w_fetch :: "ustr \<Rightarrow> float_number \<Rightarrow> ustr res"
  w_files :: "ustr \<Rightarrow> ustr option"
  w_absent :: "ustr \<Rightarrow> pyerr"
  w_open :: "ustr \<Rightarrow> pyerr option"
  w_full :: "ustr \<Rightarrow> (nat \<times> pyerr) option"

definition utf8_text :: "ustr \<Rightarrow> ustr res" where
  "utf8_text bytes = (case utf8_decode bytes of
     None \<Rightarrow> Inl (ValueError ''utf-8 codec cannot decode bytes'' []) | Some s \<Rightarrow> Inr s)"

definition read_text :: "world \<Rightarrow> ustr \<Rightarrow> ustr res" where
  "read_text w path = (case w_files w path of
     None \<Rightarrow> Inl (w_absent w path)
   | Some bytes \<Rightarrow> bind_res (utf8_text bytes) (\<lambda>s. Inr (universal_newlines s)))"

definition write_text :: "world \<Rightarrow> ustr \<Rightarrow> ustr \<Rightarrow> unit res \<times> world" where
  "write_text w path text = (case w_open w path of
     Some e \<Rightarrow> (Inl e, w)
   | None \<Rightarrow> (case w_full w path of
       None \<Rightarrow> (Inr (), w\<lparr>w_files := (w_files w)(path \<mapsto> utf8_encode text)\<rparr>)
     | Some (n, e) \<Rightarrow> (Inl e, w\<lparr>w_files := (w_files w)(path \<mapsto> take n (utf8_encode text))\<rparr>)))"

definition capture :: "unidb \<Rightarrow> world \<Rightarrow> ustr \<Rightarrow> ustr \<Rightarrow> float_number \<Rightarrow> unit res \<times> world" where
  "capture U w url path timeout =
     (case bind_res (w_fetch w url timeout) (\<lambda>bytes. bind_res (utf8_text bytes) (\<lambda>raw.
        bind_res (parse_snapshot U raw) (\<lambda>_. Inr raw))) of
        Inl e \<Rightarrow> (Inl e, w)
      | Inr raw \<Rightarrow> write_text w path raw)"

subsection \<open>Reports\<close>

definition vsr_human_line :: "ustr \<Rightarrow> stage_stats \<Rightarrow> ustr" where
  "vsr_human_line name s = name @ u '': count='' @ show_int (ss_count s) @ u '' total_ns='' @
     show_int (ss_total_ns s) @ u '' mean_us='' @ format_fixed 6 (Fin (ss_mean_us s))"

definition vsr_render_human :: "vsr_result \<Rightarrow> ustr res" where
  "vsr_render_human r =
     bind_res (map_res (\<lambda>name. bind_res (dict_index (vr_components r) name) (\<lambda>c.
       Inr (vsr_human_line name (cp_stats c)))) STACKED_COMPONENTS) (\<lambda>rows.
     Inr (join [10] ([u ''instrumentation: vsr_profile_components'', u ''completed_requests: '' @ show_int (vr_completed r)] @
       rows @
       [u ''stacked_direct_mean_us: '' @ format_fixed 6 (vr_stacked_mean_us r),
        u ''request_body_total_mean_us: '' @ format_fixed 6 (Fin (vr_body_mean_us r)) @ u '' (inclusive, not stacked)''])))"

definition vsr_csv_row :: "ustr \<Rightarrow> stage_stats \<Rightarrow> ustr" where
  "vsr_csv_row name s = csv_row [name, show_int (ss_count s), show_int (ss_total_ns s),
     format_fixed 3 (Fin (ss_mean_ns s)), format_fixed 6 (Fin (ss_mean_us s))]"

definition vsr_render_csv :: "vsr_result \<Rightarrow> ustr res" where
  "vsr_render_csv r =
     bind_res (map_res (\<lambda>name. bind_res (dict_index (vr_components r) name) (\<lambda>c.
       Inr (vsr_csv_row name (cp_stats c)))) STACKED_COMPONENTS) (\<lambda>rows.
     Inr (csv_row (map u [''component'', ''count'', ''total_ns'', ''mean_ns'', ''mean_us'']) @ concat rows))"

definition component_value :: "interp \<Rightarrow> component \<Rightarrow> pyval" where
  "component_value I c = PDict (stats_value I (cp_stats c) @
     (case cp_definition c of None \<Rightarrow> [] | Some text \<Rightarrow> [(u ''definition'', PStr text)]))"

definition vsr_value :: "interp \<Rightarrow> vsr_result \<Rightarrow> pyval" where
  "vsr_value I r = PDict
     [(u ''schema_version'', PInt 1),
      (u ''instrumentation'', PStr (u ''vsr_profile_components'')),
      (u ''completed_requests'', PInt (vr_completed r)),
      (u ''stages'', PDict (map (\<lambda>(stage, s). (stage, PDict (stats_value I s))) (vr_stages r))),
      (u ''figure_components'', PDict (map (\<lambda>(name, c). (name, component_value I c)) (vr_components r))),
      (u ''stacked_direct_mean_us'', float_value I (vr_stacked_mean_us r)),
      (u ''request_body_total_mean_us'', float_value I (Fin (vr_body_mean_us r))),
      (u ''request_body_total_is_inclusive'', PBool True)]"

subsection \<open>The program\<close>

text \<open>The parsed command line, as \<open>argparse\<close> delivers it.\<close>

datatype vsr_args =
    Capture ustr ustr float_number
  | Summarize ustr ustr "int option" out_format

definition vsr_report :: "interp \<Rightarrow> out_format \<Rightarrow> vsr_result \<Rightarrow> outcome" where
  "vsr_report I fmt r = written (case fmt of
     Json \<Rightarrow> Inr (json_dump 0 (vsr_value I r) @ [10])
   | Csv \<Rightarrow> vsr_render_csv r
   | Human \<Rightarrow> bind_res (vsr_render_human r) (\<lambda>text. Inr (text @ [10])))"

definition vsr_main :: "interp \<Rightarrow> vsr_args \<Rightarrow> world \<Rightarrow> outcome \<times> world" where
  "vsr_main I args w = (case args of
     Capture url path timeout \<Rightarrow> (case capture (i_unicode I) w url path timeout of
         (Inl e, w') \<Rightarrow> (handled e, w') | (Inr _, w') \<Rightarrow> (Exit 0 [], w'))
   | Summarize before_path after_path wanted fmt \<Rightarrow>
       ((case bind_res (read_text w before_path) (\<lambda>before0. bind_res (read_text w after_path) (\<lambda>after0.
            summarize_snapshots I before0 after0 wanted)) of
          Inl e \<Rightarrow> handled e | Inr r \<Rightarrow> vsr_report I fmt r), w))"

end
