(* ===== verification/VsrSnapshot.thy ===== *)
theory VsrSnapshot
  imports VsrProfile "HOL-Library.Multiset"
begin

section \<open>What a snapshot says\<close>

text \<open>
  \<open>parse_snapshot\<close> fills a nested dictionary line by line. Here it is related to what each line says
  on its own: a snapshot is accepted exactly when every line can be read and the samples name every
  counter of every stage once, in any order and between any other lines.
\<close>

subsection \<open>Lines on their own\<close>

definition vsr_fields :: "ustr list" where
  "vsr_fields = map u [''count'', ''total_ns'']"

definition vsr_cells :: "(ustr \<times> ustr) list" where
  "vsr_cells = List.product VSR_STAGES vsr_fields"

definition line_item :: "unidb \<Rightarrow> ustr \<Rightarrow> ((ustr \<times> ustr) \<times> int) option res" where
  "line_item U line =
     (if line = [] \<or> starts_with line (u ''#'') then Inr None
      else case match_sample U line of
        None \<Rightarrow> if starts_with line (u ''vsr_component_profile_'')
          then Inl (ValueError ''malformed component-profile sample: {!r}'' [line]) else Inr None
      | Some (metric, stage, raw) \<Rightarrow>
          bind_res (ensure (stage \<in> set VSR_STAGES) (ValueError ''unexpected component-profile stage: {!r}'' [stage])) (\<lambda>_.
          bind_res (dict_index METRICS metric) (\<lambda>field.
          bind_res (parse_nonnegative U raw) (\<lambda>v. Inr (Some ((stage, field), v))))))"

abbreviation reads :: "counters \<Rightarrow> ustr \<times> ustr \<Rightarrow> int res" where
  "reads cs cell \<equiv> counter_read cs (fst cell) (snd cell)"

abbreviation samples :: "((ustr \<times> ustr) \<times> int) option list \<Rightarrow> ((ustr \<times> ustr) \<times> int) list" where
  "samples items \<equiv> List.map_filter (\<lambda>x. x) items"

lemma distinct_vsr_cells: "distinct vsr_cells"
  by code_simp

lemma set_vsr_cells: "cell \<in> set vsr_cells \<longleftrightarrow> fst cell \<in> set VSR_STAGES \<and> snd cell \<in> set vsr_fields"
  by (cases cell) (simp add: vsr_cells_def)

lemma METRICS_field: "dict_get METRICS metric = Some field \<Longrightarrow> field \<in> set vsr_fields"
  by (auto simp: METRICS_def vsr_fields_def split: if_splits)

lemma keys_defined: "dict_keys d = ks \<Longrightarrow> k \<in> set ks \<Longrightarrow> \<exists>v. dict_get d k = Some v"
  using map_of_eq_None_iff [of d k] by (cases "dict_get d k") auto

lemma get_key: "dict_get d k = Some v \<Longrightarrow> k \<in> set (dict_keys d)"
  using map_of_eq_None_iff [of d k] by auto

lemma parse_nonnegative_Inr: "parse_nonnegative U raw = Inr v \<Longrightarrow> 0 \<le> v"
  by (auto simp: parse_nonnegative_def split: option.splits decimal.splits if_splits)

lemma line_item_cell:
  assumes "line_item U line = Inr (Some (cell, v))"
  shows "cell \<in> set vsr_cells \<and> 0 \<le> v"
  using assms unfolding line_item_def set_vsr_cells
  by (auto simp: bind_res_Inr_iff ensure_iff dict_index_iff parse_nonnegative_Inr dest: METRICS_field
      split: if_splits option.splits prod.splits)

lemma vsr_sample_iff:
  assumes "dict_keys cs = VSR_STAGES"
  shows "vsr_sample U (metric, stage, raw) cs = Inr cs' \<longleftrightarrow>
    (\<exists>field v. stage \<in> set VSR_STAGES \<and> dict_get METRICS metric = Some field \<and> parse_nonnegative U raw = Inr v \<and>
       (\<exists>e. reads cs (stage, field) = Inl e) \<and> counter_write stage field v cs = Inr cs')"
proof (cases "dict_get cs stage")
  case None
  then have "stage \<notin> set VSR_STAGES" using assms by (metis keys_defined option.distinct(1))
  with None show ?thesis by (auto simp: vsr_sample_def)
next
  case (Some d)
  then have "stage \<in> set VSR_STAGES" using assms get_key by metis
  with Some show ?thesis
    by (auto simp: vsr_sample_def bind_res_Inr_iff dict_index_iff ensure_iff counter_read_def dict_index_def split: option.splits)
qed

lemma vsr_line_iff:
  assumes "dict_keys cs = VSR_STAGES"
  shows "vsr_line U line cs = Inr cs' \<longleftrightarrow>
    line_item U line = Inr None \<and> cs' = cs \<or>
    (\<exists>cell v. line_item U line = Inr (Some (cell, v)) \<and> (\<exists>e. reads cs cell = Inl e) \<and>
       counter_write (fst cell) (snd cell) v cs = Inr cs')"
proof (cases "match_sample U line")
  case (Some sample)
  obtain metric stage raw where "sample = (metric, stage, raw)" by (cases sample) auto
  with Some show ?thesis
    by (auto simp: vsr_line_def line_item_def vsr_sample_iff [OF assms] bind_res_Inr_iff dict_index_iff ensure_iff)
qed (auto simp: vsr_line_def line_item_def)

lemma counter_write_keys:
  "counter_write stage field v cs = Inr cs' \<Longrightarrow> dict_keys cs' = dict_keys cs"
  by (auto simp: counter_write_def bind_res_Inr_iff dict_index_iff dict_keys_set dest: get_key)

lemma vsr_line_keys:
  "dict_keys cs = VSR_STAGES \<Longrightarrow> vsr_line U line cs = Inr cs' \<Longrightarrow> dict_keys cs' = VSR_STAGES"
  by (auto simp: vsr_line_iff dest: counter_write_keys)

subsection \<open>All lines\<close>

lemma vsr_lines_Inr:
  assumes "dict_keys cs = VSR_STAGES" and "fold_res (vsr_line U) rows cs = Inr cs'"
  shows "\<exists>items. map_res (line_item U) rows = Inr items \<and> distinct (map fst (samples items)) \<and>
    list_all (\<lambda>item. \<exists>e. reads cs (fst item) = Inl e) (samples items) \<and> dict_keys cs' = VSR_STAGES \<and>
    (\<forall>cell. reads cs' cell = (case map_of (samples items) cell of Some v \<Rightarrow> Inr v | None \<Rightarrow> reads cs cell))"
  using assms
proof (induction rows arbitrary: cs)
  case Nil
  then show ?case by (simp add: map_filter_simps)
next
  case (Cons line rows)
  from Cons.prems(2) obtain w where w: "vsr_line U line cs = Inr w" "fold_res (vsr_line U) rows w = Inr cs'"
    by (auto simp: bind_res_Inr_iff)
  from Cons.IH [OF vsr_line_keys [OF Cons.prems(1) w(1)] w(2)] obtain items where
    items: "map_res (line_item U) rows = Inr items" "distinct (map fst (samples items))"
    and un: "list_all (\<lambda>item. \<exists>e. reads w (fst item) = Inl e) (samples items)" and keys: "dict_keys cs' = VSR_STAGES"
    and r: "\<And>cell. reads cs' cell = (case map_of (samples items) cell of Some v \<Rightarrow> Inr v | None \<Rightarrow> reads w cell)"
    by blast
  from w(1) [unfolded vsr_line_iff [OF Cons.prems(1)]] consider
      "line_item U line = Inr None" "w = cs"
    | cell v e where "line_item U line = Inr (Some (cell, v))" "reads cs cell = Inl e"
        "counter_write (fst cell) (snd cell) v cs = Inr w" by blast
  then show ?case
  proof cases
    case 1
    with items un keys r [unfolded 1(2)] show ?thesis
      by (intro exI [of _ "None # items"]) (simp add: map_filter_simps)
  next
    case (2 cell v e)
    have rw: "reads w c = (if c = cell then Inr v else reads cs c)" for c
      using counter_read_write [OF 2(3), of "fst c" "snd c"] by (simp add: prod_eq_iff)
    have fresh: "cell \<notin> fst ` set (samples items)"
      using un rw by (auto simp: list_all_iff)
    have "list_all (\<lambda>item. \<exists>e. reads cs (fst item) = Inl e) (samples items)"
      using un rw by (auto simp: list_all_iff split: if_splits)
    then show ?thesis
      using 2 items fresh keys r rw map_of_eq_None_iff [of "samples items" cell]
      by (intro exI [of _ "Some (cell, v) # items"]) (auto simp: map_filter_simps split: option.splits)
  qed
qed

lemma vsr_lines_exist:
  assumes "dict_keys cs = VSR_STAGES" and "map_res (line_item U) rows = Inr items"
    and "distinct (map fst (samples items))" "list_all (\<lambda>item. \<exists>e. reads cs (fst item) = Inl e) (samples items)"
  shows "\<exists>cs'. fold_res (vsr_line U) rows cs = Inr cs'"
  using assms
proof (induction rows arbitrary: cs items)
  case (Cons line rows)
  from Cons.prems(2) obtain item rest where item: "line_item U line = Inr item" and rest: "map_res (line_item U) rows = Inr rest"
    and items: "items = item # rest" by (auto simp: bind_res_Inr_iff)
  show ?case
  proof (cases item)
    case None
    then have "vsr_line U line cs = Inr cs" using item vsr_line_iff [OF Cons.prems(1)] by blast
    moreover have "\<exists>cs'. fold_res (vsr_line U) rows cs = Inr cs'"
      using Cons.IH [OF Cons.prems(1) rest] Cons.prems(3,4) None items by (simp add: map_filter_simps)
    ultimately show ?thesis by simp
  next
    case (Some s)
    obtain cell v where s: "s = (cell, v)" by (cases s)
    from item Some s line_item_cell have "fst cell \<in> set VSR_STAGES" by (auto simp: set_vsr_cells)
    with keys_defined [OF Cons.prems(1)] obtain d where "dict_get cs (fst cell) = Some d" by blast
    then obtain w where w: "counter_write (fst cell) (snd cell) v cs = Inr w" by (auto simp: counter_write_def)
    obtain e where "reads cs cell = Inl e" using Cons.prems(4) Some s items by (auto simp: map_filter_simps)
    then have step: "vsr_line U line cs = Inr w"
      using vsr_line_iff [OF Cons.prems(1)] item Some s w by blast
    have rw: "reads w c = (if c = cell then Inr v else reads cs c)" for c
      using counter_read_write [OF w, of "fst c" "snd c"] by (simp add: prod_eq_iff)
    have "list_all (\<lambda>item. \<exists>e. reads w (fst item) = Inl e) (samples rest)"
      using Cons.prems(3,4) Some s items rw by (auto simp: map_filter_simps list_all_iff)
    from Cons.IH [OF vsr_line_keys [OF Cons.prems(1) step] rest _ this] Cons.prems(3) Some items
    show ?thesis using step by (auto simp: map_filter_simps)
  qed
qed simp

subsection \<open>Accepted snapshots\<close>

lemma vsr_init_keys: "dict_keys vsr_init = VSR_STAGES"
  by code_simp

lemma vsr_init_unread: "\<exists>e. reads vsr_init cell = Inl e"
  by (auto simp: counter_read_def dict_index_def vsr_init_def split: option.splits dest!: map_of_SomeD)

lemma vsr_complete_iff:
  "vsr_complete cs stage w = Inr w' \<longleftrightarrow> list_all (\<lambda>field. \<exists>v. reads cs (stage, field) = Inr v) vsr_fields"
  by (auto simp: vsr_complete_def vsr_fields_def counter_read_def bind_res_Inr_iff dict_index_iff ensure_iff
      filter_empty_conv Let_def)

lemma vsr_all_complete_iff:
  "fold_res (vsr_complete cs) stages w = Inr w' \<longleftrightarrow>
     list_all (\<lambda>stage. list_all (\<lambda>field. \<exists>v. reads cs (stage, field) = Inr v) vsr_fields) stages"
proof (induction stages arbitrary: w)
  case (Cons stage stages)
  then show ?case
    by (simp only: fold_res.simps bind_res_Inr_iff vsr_complete_iff list.pred_inject) auto
qed simp

lemma vsr_complete_cells:
  "fold_res (vsr_complete cs) VSR_STAGES () = Inr w \<longleftrightarrow> list_all (\<lambda>cell. \<exists>v. reads cs cell = Inr v) vsr_cells"
  unfolding vsr_all_complete_iff list_all_iff by (auto simp: vsr_cells_def)

definition snapshot_items :: "unidb \<Rightarrow> ustr \<Rightarrow> ((ustr \<times> ustr) \<times> int) option list \<Rightarrow> bool" where
  "snapshot_items U raw items \<longleftrightarrow> map_res (line_item U) (splitlines raw) = Inr items \<and>
     mset (map fst (samples items)) = mset vsr_cells"

lemma samples_cells:
  assumes "map_res (line_item U) rows = Inr items" "item \<in> set (samples items)"
  shows "fst item \<in> set vsr_cells \<and> 0 \<le> snd item"
proof -
  have "Some item \<in> set items" using assms(2) by (auto simp: List.map_filter_def)
  from map_res_mem [OF assms(1) this] obtain line where "line_item U line = Inr (Some item)" by blast
  then show ?thesis using line_item_cell [of U line "fst item" "snd item"] by simp
qed

lemma parse_snapshot_Inr:
  assumes "parse_snapshot U raw = Inr cs"
  shows "\<exists>items. snapshot_items U raw items \<and> dict_keys cs = VSR_STAGES \<and>
    list_all (\<lambda>item. reads cs (fst item) = Inr (snd item)) (samples items)"
proof -
  from assms have l: "fold_res (vsr_line U) (splitlines raw) vsr_init = Inr cs"
    and full: "list_all (\<lambda>cell. \<exists>v. reads cs cell = Inr v) vsr_cells"
    by (auto simp: parse_snapshot_def bind_res_Inr_iff vsr_complete_cells)
  from vsr_lines_Inr [OF vsr_init_keys l] obtain items where
    items: "map_res (line_item U) (splitlines raw) = Inr items" "distinct (map fst (samples items))"
    and keys: "dict_keys cs = VSR_STAGES"
    and r: "\<And>cell. reads cs cell = (case map_of (samples items) cell of Some v \<Rightarrow> Inr v | None \<Rightarrow> reads vsr_init cell)"
    by blast
  have "set vsr_cells \<subseteq> set (map fst (samples items))"
  proof
    fix cell assume "cell \<in> set vsr_cells"
    with full obtain v where "reads cs cell = Inr v" by (auto simp: list_all_iff)
    with r [of cell] vsr_init_unread [of cell] obtain v where "map_of (samples items) cell = Some v"
      by (auto split: option.splits)
    then show "cell \<in> set (map fst (samples items))" by (rule get_key)
  qed
  moreover have "set (map fst (samples items)) \<subseteq> set vsr_cells"
    using samples_cells [OF items(1)] by auto
  ultimately have "mset (map fst (samples items)) = mset vsr_cells"
    using set_eq_iff_mset_eq_distinct [OF items(2) distinct_vsr_cells] by blast
  moreover have "list_all (\<lambda>item. reads cs (fst item) = Inr (snd item)) (samples items)"
    unfolding list_all_iff using r items(2) by (auto simp: map_of_is_SomeI)
  ultimately show ?thesis using items(1) keys by (auto simp: snapshot_items_def)
qed

lemma parse_snapshot_exists:
  assumes "snapshot_items U raw items" shows "\<exists>cs. parse_snapshot U raw = Inr cs"
proof -
  from assms have items: "map_res (line_item U) (splitlines raw) = Inr items"
    and m: "mset (map fst (samples items)) = mset vsr_cells"
    by (simp_all add: snapshot_items_def)
  from m distinct_vsr_cells have d: "distinct (map fst (samples items))" by (metis mset_eq_imp_distinct_iff)
  have "list_all (\<lambda>item. \<exists>e. reads vsr_init (fst item) = Inl e) (samples items)"
    by (simp add: list_all_iff vsr_init_unread)
  from vsr_lines_exist [OF vsr_init_keys items d this] obtain cs where
    l: "fold_res (vsr_line U) (splitlines raw) vsr_init = Inr cs" by blast
  from vsr_lines_Inr [OF vsr_init_keys l] items have
    r: "reads cs cell = (case map_of (samples items) cell of Some v \<Rightarrow> Inr v | None \<Rightarrow> reads vsr_init cell)" for cell
    by (cases cell) auto
  have "list_all (\<lambda>cell. \<exists>v. reads cs cell = Inr v) vsr_cells"
    unfolding list_all_iff
  proof
    fix cell assume "cell \<in> set vsr_cells"
    then have "cell \<in> set (map fst (samples items))" using m by (metis set_mset_mset)
    from keys_defined [OF refl this] show "\<exists>v. reads cs cell = Inr v" using r [of cell] by auto
  qed
  then have "fold_res (vsr_complete cs) VSR_STAGES () = Inr ()" by (simp add: vsr_complete_cells)
  with l show ?thesis by (simp add: parse_snapshot_def)
qed

text \<open>What an accepted snapshot holds, as a function from counters to values.\<close>

definition snapshot_holds :: "counters \<Rightarrow> (ustr \<times> ustr \<Rightarrow> int) \<Rightarrow> bool" where
  "snapshot_holds cs f \<longleftrightarrow> list_all (\<lambda>cell. reads cs cell = Inr (f cell)) vsr_cells"

lemma snapshot_of_items:
  assumes "snapshot_items U raw items" and "list_all (\<lambda>item. f (fst item) = snd item) (samples items)"
  shows "\<exists>cs. parse_snapshot U raw = Inr cs \<and> snapshot_holds cs f"
proof -
  from parse_snapshot_exists [OF assms(1)] obtain cs where cs: "parse_snapshot U raw = Inr cs" by blast
  from parse_snapshot_Inr [OF this] obtain items' where
    "snapshot_items U raw items'" and r: "list_all (\<lambda>item. reads cs (fst item) = Inr (snd item)) (samples items')"
    by blast
  with assms(1) have eq: "items' = items" by (simp add: snapshot_items_def)
  have "reads cs cell = Inr (f cell)" if "cell \<in> set vsr_cells" for cell
  proof -
    have "cell \<in> set (map fst (samples items))"
      using assms(1) that by (metis set_mset_mset snapshot_items_def)
    then obtain item where "item \<in> set (samples items)" "fst item = cell" by auto
    then show ?thesis using r assms(2) eq by (auto simp: list_all_iff)
  qed
  with cs show ?thesis by (auto simp: snapshot_holds_def list_all_iff)
qed

lemma snapshot_holds_exists:
  assumes "parse_snapshot U raw = Inr cs"
  shows "\<exists>f. snapshot_holds cs f \<and> list_all (\<lambda>cell. 0 \<le> f cell) vsr_cells"
proof -
  from parse_snapshot_Inr [OF assms] obtain items where
    items: "snapshot_items U raw items" and r: "list_all (\<lambda>item. reads cs (fst item) = Inr (snd item)) (samples items)"
    by blast
  have "\<exists>v. reads cs cell = Inr v \<and> 0 \<le> v" if "cell \<in> set vsr_cells" for cell
  proof -
    have "cell \<in> set (map fst (samples items))"
      using items that by (metis set_mset_mset snapshot_items_def)
    then obtain item where "item \<in> set (samples items)" "fst item = cell" by auto
    then show ?thesis using r items samples_cells by (fastforce simp: list_all_iff snapshot_items_def)
  qed
  then have "list_all (\<lambda>cell. reads cs cell = Inr (projr (reads cs cell)) \<and> 0 \<le> projr (reads cs cell)) vsr_cells"
    by (fastforce simp: list_all_iff)
  then show ?thesis unfolding snapshot_holds_def
    by (intro exI [of _ "\<lambda>cell. projr (reads cs cell)"]) (simp add: list_all_iff)
qed

end
