(* ===== verification/VsrTheorems.thy ===== *)
theory VsrTheorems
  imports VsrSnapshot SkTheorems
begin

section \<open>Correctness of snapshots\<close>

text \<open>
  The type of an accepted snapshot, that the order of its lines does not matter, and that the text a
  Prometheus client writes for the counters is read back as these counters.
\<close>

subsection \<open>The type\<close>

definition stage_ok :: "(ustr, int) dict \<Rightarrow> bool" where
  "stage_ok d \<longleftrightarrow> distinct (dict_keys d) \<and> set (dict_keys d) \<subseteq> set vsr_fields \<and> list_all (\<lambda>(field, v). 0 \<le> v) d"

definition fields_ok :: "counters \<Rightarrow> bool" where
  "fields_ok cs \<longleftrightarrow> list_all (\<lambda>item. stage_ok (snd item)) cs"

lemma update_memE: "(k', v') \<in> set (dict_set k v d) \<Longrightarrow> (k' = k \<and> v' = v) \<or> (k', v') \<in> set d"
  by (induction d) (auto split: if_splits)

lemma fields_ok_write:
  assumes "fields_ok cs" "field \<in> set vsr_fields" "0 \<le> v" "counter_write stage field v cs = Inr cs'"
  shows "fields_ok cs'"
proof -
  from assms(4) obtain d where d: "dict_get cs stage = Some d" and cs': "cs' = dict_set stage (dict_set field v d) cs"
    by (auto simp: counter_write_def bind_res_Inr_iff dict_index_iff)
  have "stage_ok d" using assms(1) map_of_SomeD [OF d] by (auto simp: fields_ok_def list_all_iff)
  then have "stage_ok (dict_set field v d)"
    using assms(2,3) by (auto simp: stage_ok_def list_all_iff distinct_update dest!: update_memE)
  then show ?thesis
    using assms(1) unfolding cs' fields_ok_def list_all_iff by (auto dest!: update_memE)
qed

lemma vsr_line_fields_ok:
  assumes "dict_keys cs = VSR_STAGES \<and> fields_ok cs" "vsr_line U line cs = Inr cs'"
  shows "dict_keys cs' = VSR_STAGES \<and> fields_ok cs'"
proof -
  from assms have "dict_keys cs' = VSR_STAGES" using vsr_line_keys by blast
  moreover have "fields_ok cs'"
  proof -
    from assms vsr_line_iff [of cs U line cs'] consider "cs' = cs"
      | cell v where "line_item U line = Inr (Some (cell, v))" "counter_write (fst cell) (snd cell) v cs = Inr cs'" by blast
    then show ?thesis
    proof cases
      case (2 cell v)
      from line_item_cell [OF 2(1)] have "snd cell \<in> set vsr_fields" "0 \<le> v" by (simp_all add: set_vsr_cells)
      with assms(1) 2(2) show ?thesis using fields_ok_write by blast
    qed (use assms in simp)
  qed
  ultimately show ?thesis ..
qed

text \<open>C21. The type of a snapshot: exactly the stages of the script in its order, each with exactly the two
  fields count and total_ns and nonnegative values. What follows never misses a key.\<close>

theorem parse_snapshot_type:
  assumes "parse_snapshot U raw = Inr cs"
  shows "dict_keys cs = VSR_STAGES \<and>
    list_all (\<lambda>(stage, d). mset (dict_keys d) = mset (map u [''count'', ''total_ns'']) \<and>
      list_all (\<lambda>(field, v). 0 \<le> v) d) cs"
proof -
  from assms have l: "fold_res (vsr_line U) (splitlines raw) vsr_init = Inr cs"
    and full: "list_all (\<lambda>cell. \<exists>v. reads cs cell = Inr v) vsr_cells"
    by (auto simp: parse_snapshot_def bind_res_Inr_iff vsr_complete_cells)
  have init: "dict_keys vsr_init = VSR_STAGES \<and> fields_ok vsr_init"
    by (simp add: vsr_init_keys) (simp add: vsr_init_def fields_ok_def stage_ok_def list_all_iff)
  from l have ok: "dict_keys cs = VSR_STAGES \<and> fields_ok cs"
    by (rule fold_res_invariant [where P = "\<lambda>cs. dict_keys cs = VSR_STAGES \<and> fields_ok cs"])
      (use init vsr_line_fields_ok in blast)+
  have dk: "distinct (dict_keys cs)" unfolding ok [THEN conjunct1] by code_simp
  have "mset (dict_keys d) = mset vsr_fields \<and> list_all (\<lambda>(field, v). 0 \<le> v) d" if "(stage, d) \<in> set cs" for stage d
  proof -
    from ok that have d: "distinct (dict_keys d)" "set (dict_keys d) \<subseteq> set vsr_fields" "list_all (\<lambda>(field, v). 0 \<le> v) d"
      by (force simp: fields_ok_def stage_ok_def list_all_iff)+
    have g: "dict_get cs stage = Some d" using dk that by simp
    have st: "stage \<in> set VSR_STAGES" using that ok by (metis fst_conv image_eqI set_map)
    have "field \<in> set (dict_keys d)" if f: "field \<in> set vsr_fields" for field
    proof -
      from st f have "(stage, field) \<in> set vsr_cells" by (simp add: set_vsr_cells)
      with full obtain v where "counter_read cs stage field = Inr v" by (force simp: list_all_iff)
      with g have "dict_get d field = Some v" by (simp add: counter_read_def dict_index_iff)
      then show ?thesis by (rule get_key)
    qed
    with d(2) have "set (dict_keys d) = set vsr_fields" by blast
    moreover have "distinct vsr_fields" by code_simp
    ultimately show ?thesis
      using set_eq_iff_mset_eq_distinct [OF d(1)] d(3) by blast
  qed
  then have "list_all (\<lambda>(stage, d). mset (dict_keys d) = mset vsr_fields \<and> list_all (\<lambda>(field, v). 0 \<le> v) d) cs"
    unfolding list_all_iff by blast
  with ok show ?thesis unfolding vsr_fields_def by blast
qed

subsection \<open>The order of the lines\<close>

lemma samples_perm: "mset items = mset items' \<Longrightarrow> mset (samples items) = mset (samples items')"
  by (simp add: List.map_filter_def)

lemma snapshot_items_perm:
  assumes "snapshot_items U raw items" and "mset (splitlines raw') = mset (splitlines raw)"
  shows "\<exists>items'. snapshot_items U raw' items' \<and> mset items' = mset items"
proof -
  let ?items' = "map (\<lambda>line. projr (line_item U line)) (splitlines raw')"
  from assms(1) have ok: "\<And>line. line \<in> set (splitlines raw) \<Longrightarrow> \<exists>y. line_item U line = Inr y"
    and items: "items = map (\<lambda>line. projr (line_item U line)) (splitlines raw)"
    by (auto simp: snapshot_items_def map_res_eq_map)
  have "set (splitlines raw') = set (splitlines raw)" using assms(2) by (metis mset_eq_setD)
  then have "map_res (line_item U) (splitlines raw') = Inr ?items'" using ok by (simp add: map_res_eq_map)
  moreover have m: "mset ?items' = mset items" unfolding items by (simp only: mset_map assms(2))
  moreover have "mset (map fst (samples ?items')) = mset vsr_cells"
    using assms(1) samples_perm [OF m] by (simp only: snapshot_items_def mset_map)
  ultimately show ?thesis by (auto simp: snapshot_items_def)
qed

lemma parse_snapshot_perm:
  assumes "parse_snapshot U raw = Inr cs" "snapshot_holds cs f" and "mset (splitlines raw') = mset (splitlines raw)"
  shows "\<exists>cs'. parse_snapshot U raw' = Inr cs' \<and> snapshot_holds cs' f"
proof -
  from parse_snapshot_Inr [OF assms(1)] obtain items where items: "snapshot_items U raw items"
    and r: "list_all (\<lambda>item. reads cs (fst item) = Inr (snd item)) (samples items)" by blast
  from snapshot_items_perm [OF items assms(3)] obtain items' where
    items': "snapshot_items U raw' items'" and m: "mset items' = mset items" by blast
  have "f (fst item) = snd item" if "item \<in> set (samples items')" for item
  proof -
    have i: "item \<in> set (samples items)" using that samples_perm [OF m] by (metis mset_eq_setD)
    then have "fst item \<in> set vsr_cells" using items samples_cells unfolding snapshot_items_def by blast
    with assms(2) r i show ?thesis by (auto simp: snapshot_holds_def list_all_iff)
  qed
  then show ?thesis using snapshot_of_items [OF items'] by (simp add: list_all_iff)
qed

subsection \<open>Printed samples\<close>

text \<open>A sample line of the text format: the metric, its label, the value and an optional time stamp.\<close>

definition sample_text :: "ustr \<Rightarrow> ustr \<Rightarrow> ustr \<Rightarrow> nat option \<Rightarrow> ustr" where
  "sample_text metric stage raw stamp = metric @ stage_open @ stage @ stage_close @ 32 # raw @
     (case stamp of None \<Rightarrow> [] | Some n \<Rightarrow> 32 # show_nat n)"

definition field_metric :: "ustr \<Rightarrow> ustr" where
  "field_metric field = (if field = u ''count'' then u ''vsr_component_profile_events_total''
     else u ''vsr_component_profile_duration_nanoseconds_total'')"

lemma cut_prefix_app [simp]: "cut_prefix p (p @ s) = Some s"
  by (simp add: cut_prefix_def)

lemma match_value_text:
  assumes "raw \<noteq> []" "list_all (\<lambda>c. \<not> is_space c) raw"
  shows "match_value U (32 # raw @ (case stamp of None \<Rightarrow> [] | Some n \<Rightarrow> 32 # show_nat n)) = Some raw"
proof -
  have sp: "is_space 32" by (simp add: is_space_def)
  have d0: "dropWhile is_space (32 # raw @ t) = raw @ t" for t
    using assms sp by (cases raw) auto
  have r0: "takeWhile (\<lambda>c. \<not> is_space c) (raw @ 32 # t) = raw" "dropWhile (\<lambda>c. \<not> is_space c) (raw @ 32 # t) = 32 # t" for t
    using assms(2) sp by (simp_all add: list_all_iff takeWhile_append2 dropWhile_append2)
  show ?thesis
  proof (cases stamp)
    case None
    have "takeWhile (\<lambda>c. \<not> is_space c) raw = raw" "dropWhile (\<lambda>c. \<not> is_space c) raw = []"
      using assms(2) by (simp_all add: list_all_iff)
    with None d0 [of "[]"] assms(1) sp show ?thesis
      by (simp add: match_value_def Let_def del: takeWhile_eq_all_conv dropWhile_eq_Nil_conv)
  next
    case (Some n)
    have "list_all is_digit (show_nat n)" by (simp add: list_all_iff show_nat_digits)
    then have dig: "list_all (is_decimal U) (show_nat n)" "dropWhile is_space (32 # show_nat n) = show_nat n"
      using digit_not_space sp by (auto simp: list_all_iff is_decimal_def is_digit_def dropWhile_eq_self_iff)
    with Some d0 r0 assms(1) sp show ?thesis by (simp add: match_value_def Let_def del: dropWhile.simps dropWhile_eq_Nil_conv)
  qed
qed

lemma match_stage_text:
  assumes "stage \<noteq> []" "34 \<notin> set stage" "match_value U t = Some raw"
  shows "match_stage U (stage @ stage_close @ t) = Some (stage, raw)"
proof -
  have c: "stage_close = 34 # tl stage_close" by code_simp
  have n: "\<And>x. x \<in> set stage \<Longrightarrow> x \<noteq> 34" using assms(2) by auto
  obtain r where r: "stage_close @ t = 34 # r" using c by (metis append_Cons)
  have "takeWhile (\<lambda>c. c \<noteq> 34) (stage @ stage_close @ t) = stage"
    "dropWhile (\<lambda>c. c \<noteq> 34) (stage @ stage_close @ t) = stage_close @ t"
    unfolding r using n by simp_all
  with assms show ?thesis by (simp add: match_stage_def)
qed

lemma names_differ:
  "\<not> prefix (u ''vsr_component_profile_events_total'' @ s) (u ''vsr_component_profile_duration_nanoseconds_total'' @ t)"
proof
  assume "prefix (u ''vsr_component_profile_events_total'' @ s) (u ''vsr_component_profile_duration_nanoseconds_total'' @ t)"
  then obtain r where "u ''vsr_component_profile_duration_nanoseconds_total'' @ t = u ''vsr_component_profile_events_total'' @ s @ r"
    by (auto simp: prefix_def)
  then have "take 23 (u ''vsr_component_profile_duration_nanoseconds_total'' @ t) = take 23 (u ''vsr_component_profile_events_total'' @ s @ r)"
    by (rule arg_cong)
  then have "take 23 (u ''vsr_component_profile_duration_nanoseconds_total'') = take 23 (u ''vsr_component_profile_events_total'')"
    by simp
  moreover have "take 23 (u ''vsr_component_profile_duration_nanoseconds_total'') \<noteq> take 23 (u ''vsr_component_profile_events_total'')"
    by code_simp
  ultimately show False by blast
qed

lemma match_sample_text:
  assumes "stage \<noteq> []" "34 \<notin> set stage" "raw \<noteq> []" "list_all (\<lambda>c. \<not> is_space c) raw"
  shows "match_sample U (sample_text (field_metric field) stage raw stamp) = Some (field_metric field, stage, raw)"
proof -
  let ?tail = "32 # raw @ (case stamp of None \<Rightarrow> [] | Some n \<Rightarrow> 32 # show_nat n)"
  have st: "match_stage U (stage @ stage_close @ ?tail) = Some (stage, raw)"
    by (rule match_stage_text [OF assms(1,2) match_value_text [OF assms(3,4)]])
  have shape: "sample_text (field_metric field) stage raw stamp = (field_metric field @ stage_open) @ stage @ stage_close @ ?tail"
    by (simp add: sample_text_def)
  show ?thesis
  proof (cases "field = u ''count''")
    case True
    then have m: "field_metric field = u ''vsr_component_profile_events_total''" by (simp add: field_metric_def)
    show ?thesis
      unfolding match_sample_def sample_names_def shape by (simp only: m list.map match_names.simps cut_prefix_app option.case st option.map)
  next
    case False
    then have m: "field_metric field = u ''vsr_component_profile_duration_nanoseconds_total''" by (simp add: field_metric_def)
    have "cut_prefix (u ''vsr_component_profile_events_total'' @ stage_open)
        ((u ''vsr_component_profile_duration_nanoseconds_total'' @ stage_open) @ stage @ stage_close @ ?tail) = None"
      using names_differ [of stage_open "stage_open @ stage @ stage_close @ ?tail"] by (simp add: cut_prefix_def)
    then show ?thesis
      unfolding match_sample_def sample_names_def shape by (simp only: m list.map match_names.simps cut_prefix_app option.case st option.map)
  qed
qed

subsection \<open>The exposition\<close>

text \<open>What is no sample: blank lines, comments, and the samples of other metrics.\<close>

definition ignored :: "ustr \<Rightarrow> bool" where
  "ignored line \<longleftrightarrow> line = [] \<or> starts_with line (u ''#'') \<or> \<not> starts_with line (u ''vsr_component_profile_'')"

lemma match_sample_prefix:
  assumes "match_sample U line = Some sample" shows "starts_with line (u ''vsr_component_profile_'')"
proof -
  have "starts_with line (u ''vsr_component_profile_'')" if "prefix ((u ''vsr_component_profile_'' @ s) @ t) line" for s t
    using that unfolding starts_with_def append.assoc by (rule append_prefixD)
  from this [of "u ''events_total''"] this [of "u ''duration_nanoseconds_total''"] assms show ?thesis
    unfolding u_append [symmetric]
    by (auto simp: match_sample_def sample_names_def cut_prefix_def split: if_splits)
qed

lemma line_item_ignored: "ignored line \<Longrightarrow> line_item U line = Inr None"
  using match_sample_prefix [of U line] by (auto simp: ignored_def line_item_def split: option.splits)

definition counter_text :: "unidb \<Rightarrow> ustr \<Rightarrow> int \<Rightarrow> bool" where
  "counter_text U raw v \<longleftrightarrow> raw \<noteq> [] \<and> list_all (\<lambda>c. \<not> is_space c) raw \<and> 0 \<le> v \<and>
     decimal_text U raw = Some (DFin (of_int v))"

definition cell_text :: "(ustr \<times> ustr \<Rightarrow> ustr) \<Rightarrow> (ustr \<times> ustr \<Rightarrow> nat option) \<Rightarrow> ustr \<times> ustr \<Rightarrow> ustr" where
  "cell_text raw stamp cell = sample_text (field_metric (snd cell)) (fst cell) (raw cell) (stamp cell)"

lemma cell_facts: "list_all (\<lambda>cell. fst cell \<noteq> [] \<and> 34 \<notin> set (fst cell) \<and>
    dict_get METRICS (field_metric (snd cell)) = Some (snd cell)) vsr_cells"
  by code_simp

lemma line_item_text:
  assumes "cell \<in> set vsr_cells" "counter_text U (raw cell) v"
  shows "line_item U (cell_text raw stamp cell) = Inr (Some (cell, v)) \<and> \<not> ignored (cell_text raw stamp cell)"
proof -
  from assms(1) cell_facts have c: "fst cell \<noteq> []" "34 \<notin> set (fst cell)"
    "dict_get METRICS (field_metric (snd cell)) = Some (snd cell)" by (auto simp: list_all_iff)
  from assms(2) c have m: "match_sample U (cell_text raw stamp cell) = Some (field_metric (snd cell), fst cell, raw cell)"
    unfolding cell_text_def by (intro match_sample_text) (simp_all add: counter_text_def)
  have "prefix (u ''vsr_component_profile_'') (cell_text raw stamp cell)"
    using match_sample_prefix [OF m] by (simp add: starts_with_def)
  then obtain t where t: "cell_text raw stamp cell = u ''vsr_component_profile_'' @ t" by (auto simp: prefix_def)
  have "u ''vsr_component_profile_'' = 118 # u ''sr_component_profile_''" "u ''#'' = [35]" by code_simp+
  then have p: "cell_text raw stamp cell \<noteq> []" "\<not> starts_with (cell_text raw stamp cell) (u ''#'')"
    unfolding t starts_with_def by simp_all
  have "parse_nonnegative U (raw cell) = Inr v" using assms(2) by (simp add: parse_nonnegative_def counter_text_def)
  then show ?thesis
    using p m c match_sample_prefix [OF m] assms(1) by (simp add: line_item_def ignored_def set_vsr_cells)
qed

lemma samples_map: "samples (map g rows) = map (\<lambda>line. the (g line)) (filter (\<lambda>line. g line \<noteq> None) rows)"
  by (induction rows) (simp_all add: map_filter_simps split: option.split)

lemma exposition_items:
  assumes lines: "mset (filter (\<lambda>line. \<not> ignored line) (splitlines text)) = mset (map (cell_text raw stamp) vsr_cells)"
    and raws: "list_all (\<lambda>cell. counter_text U (raw cell) (f cell)) vsr_cells"
  shows "\<exists>items. snapshot_items U text items \<and> mset (samples items) = mset (map (\<lambda>cell. (cell, f cell)) vsr_cells)"
proof -
  let ?g = "\<lambda>line. projr (line_item U line)"
  have cell: "line_item U (cell_text raw stamp cell) = Inr (Some (cell, f cell))" if "cell \<in> set vsr_cells" for cell
    using that raws line_item_text [of cell U raw "f cell" stamp] by (simp add: list_all_iff)
  have row: "\<exists>cell \<in> set vsr_cells. line = cell_text raw stamp cell" if "line \<in> set (splitlines text)" "\<not> ignored line" for line
  proof -
    from that have "line \<in> set (filter (\<lambda>line. \<not> ignored line) (splitlines text))" by simp
    then have "line \<in> set (map (cell_text raw stamp) vsr_cells)" using lines by (metis mset_eq_setD)
    then show ?thesis by auto
  qed
  have g: "line_item U line = Inr (?g line) \<and> (?g line \<noteq> None \<longleftrightarrow> \<not> ignored line)" if "line \<in> set (splitlines text)" for line
    using that row [OF that] cell by (cases "ignored line") (auto simp: line_item_ignored)
  then have items: "map_res (line_item U) (splitlines text) = Inr (map ?g (splitlines text))"
    by (intro map_res_total) blast
  have "filter (\<lambda>line. ?g line \<noteq> None) (splitlines text) = filter (\<lambda>line. \<not> ignored line) (splitlines text)"
    using g by (intro filter_cong) auto
  then have "mset (samples (map ?g (splitlines text))) =
      image_mset (\<lambda>line. the (?g line)) (mset (filter (\<lambda>line. \<not> ignored line) (splitlines text)))"
    by (simp only: samples_map mset_map)
  also have "\<dots> = mset (map (\<lambda>cell. the (?g (cell_text raw stamp cell))) vsr_cells)"
    unfolding lines mset_map by (simp add: image_mset.compositionality comp_def)
  also have "map (\<lambda>cell. the (?g (cell_text raw stamp cell))) vsr_cells = map (\<lambda>cell. (cell, f cell)) vsr_cells"
    using cell by simp
  finally have m: "mset (samples (map ?g (splitlines text))) = mset (map (\<lambda>cell. (cell, f cell)) vsr_cells)" .
  then have "mset (map fst (samples (map ?g (splitlines text)))) = mset vsr_cells"
    unfolding mset_map by (simp add: image_mset.compositionality comp_def)
  with items m show ?thesis unfolding snapshot_items_def by blast
qed

lemma exposition_parses:
  assumes "mset (filter (\<lambda>line. \<not> ignored line) (splitlines text)) = mset (map (cell_text raw stamp) vsr_cells)"
    and "list_all (\<lambda>cell. counter_text U (raw cell) (f cell)) vsr_cells"
  shows "\<exists>cs. parse_snapshot U text = Inr cs \<and> snapshot_holds cs f"
proof -
  from exposition_items [OF assms] obtain items where items: "snapshot_items U text items"
    and m: "mset (samples items) = mset (map (\<lambda>cell. (cell, f cell)) vsr_cells)" by blast
  have "f (fst item) = snd item" if "item \<in> set (samples items)" for item
  proof -
    from that m have "item \<in> set (map (\<lambda>cell. (cell, f cell)) vsr_cells)" by (metis mset_eq_setD)
    then show ?thesis by auto
  qed
  with items show ?thesis by (intro snapshot_of_items) (auto simp: list_all_iff)
qed

text \<open>C5. An exposition is read back: when the lines that are not blank, comments or other metrics are one
  sample per counter of every stage, in any order and with any decimal text of the value and any
  time stamp, the snapshot holds exactly these values.\<close>

theorem exposition_roundtrip:
  assumes "mset (filter (\<lambda>line. \<not> ignored line) rows) = mset (map (cell_text raw stamp) vsr_cells)"
    and "list_all plain_line rows"
    and "list_all (\<lambda>cell. counter_text U (raw cell) (f cell)) vsr_cells"
  shows "\<exists>cs. parse_snapshot U (concat (map (\<lambda>line. line @ [10]) rows)) = Inr cs \<and>
    list_all (\<lambda>(stage, field). counter_read cs stage field = Inr (f (stage, field))) vsr_cells"
proof -
  have "splitlines (concat (map (\<lambda>line. line @ [10]) rows)) = rows" using assms(2) by (rule splitlines_terminated)
  with exposition_parses [of "concat (map (\<lambda>line. line @ [10]) rows)" raw stamp U f] assms(1,3) show ?thesis
    by (fastforce simp: snapshot_holds_def list_all_iff)
qed

end
