(* ===== verification/VsrSummary.thy ===== *)
theory VsrSummary
  imports VsrTheorems
begin

section \<open>What a summary says\<close>

text \<open>
  \<open>summarize_snapshots\<close> in terms of what the two snapshots hold: the differences per stage, their
  agreement, the components of the figure, and how summaries of consecutive intervals add up.
\<close>

subsection \<open>Differences\<close>

definition delta_of :: "(ustr \<times> ustr \<Rightarrow> int) \<Rightarrow> (ustr \<times> ustr \<Rightarrow> int) \<Rightarrow> ustr \<Rightarrow> (ustr \<times> stage_stats) res" where
  "delta_of f g stage =
     (if g (stage, u ''count'') < f (stage, u ''count'') \<or> g (stage, u ''total_ns'') < f (stage, u ''total_ns'')
      then Inl (RuntimeErr ''component counters decreased for stage {!r}'' [stage])
      else bind_res (vsr_stats (g (stage, u ''count'') - f (stage, u ''count'')) (g (stage, u ''total_ns'') - f (stage, u ''total_ns'')))
        (\<lambda>s. Inr (stage, s)))"

definition summary_of :: "interp \<Rightarrow> int option \<Rightarrow> (ustr \<times> ustr \<Rightarrow> int) \<Rightarrow> (ustr \<times> ustr \<Rightarrow> int) \<Rightarrow> vsr_result res" where
  "summary_of I wanted f g = bind_res (map_res (delta_of f g) VSR_STAGES) (vsr_result_of I wanted)"

lemma vsr_delta_holds:
  assumes "snapshot_holds cs0 f" "snapshot_holds cs1 g" "stage \<in> set VSR_STAGES"
  shows "vsr_delta cs0 cs1 stage = delta_of f g stage"
proof -
  have "reads cs0 (stage, field) = Inr (f (stage, field)) \<and> reads cs1 (stage, field) = Inr (g (stage, field))"
    if "field \<in> set vsr_fields" for field
    using assms that by (simp add: snapshot_holds_def list_all_iff vsr_cells_def)
  then show ?thesis by (simp add: vsr_delta_def delta_of_def vsr_fields_def not_less ensure_def)
qed

lemma map_res_cong: "(\<And>x. x \<in> set xs \<Longrightarrow> f x = g x) \<Longrightarrow> map_res f xs = map_res g xs"
  by (induction xs) auto

lemma summarize_holds:
  assumes "parse_snapshot (i_unicode I) b = Inr cs0" "parse_snapshot (i_unicode I) a = Inr cs1"
    and "snapshot_holds cs0 f" "snapshot_holds cs1 g"
  shows "summarize_snapshots I b a wanted = summary_of I wanted f g"
proof -
  have "map_res (vsr_delta cs0 cs1) VSR_STAGES = map_res (delta_of f g) VSR_STAGES"
    by (rule map_res_cong) (rule vsr_delta_holds [OF assms(3,4)])
  with assms(1,2) show ?thesis by (simp add: summarize_snapshots_def summary_of_def)
qed

lemma summarize_Inr:
  assumes "summarize_snapshots I b a wanted = Inr r"
  shows "\<exists>cs0 cs1 f g. parse_snapshot (i_unicode I) b = Inr cs0 \<and> parse_snapshot (i_unicode I) a = Inr cs1 \<and>
    snapshot_holds cs0 f \<and> snapshot_holds cs1 g \<and> summary_of I wanted f g = Inr r"
proof -
  from assms obtain cs0 cs1 where p: "parse_snapshot (i_unicode I) b = Inr cs0" "parse_snapshot (i_unicode I) a = Inr cs1"
    by (auto simp: summarize_snapshots_def bind_res_Inr_iff)
  from snapshot_holds_exists [OF p(1)] snapshot_holds_exists [OF p(2)] obtain f g where
    h: "snapshot_holds cs0 f" "snapshot_holds cs1 g" by blast
  from summarize_holds [OF p h] assms have "summary_of I wanted f g = Inr r" by simp
  with p h show ?thesis by blast
qed

subsection \<open>Statistics\<close>

lemma per_thousand_0 [simp]: "per_thousand 0 = 0"
  by (simp add: per_thousand_def)

lemma vsr_stats_Inr:
  "vsr_stats n t = Inr s \<Longrightarrow> ss_count s = n \<and> ss_total_ns s = t \<and>
     ss_mean_ns s = (if n = 0 then 0 else double (of_int t / of_int n)) \<and> ss_mean_us s = per_thousand (ss_mean_ns s)"
  by (auto simp: vsr_stats_def bind_res_Inr_iff true_div_def Let_def split: if_splits)

lemma true_div_error: "true_div a b = Inl e \<Longrightarrow> b \<noteq> 0 \<Longrightarrow> e = overflow"
  by (auto simp: true_div_def Let_def overflow_def split: if_splits)

lemma vsr_stats_error: "vsr_stats n t = Inl e \<Longrightarrow> e = overflow"
  by (auto simp: vsr_stats_def bind_res_Inl_iff dest: true_div_error split: if_splits)

lemma vsr_stats_small:
  "0 \<le> n \<Longrightarrow> 0 \<le> t \<Longrightarrow> t < 2 ^ 1023 \<Longrightarrow> \<exists>s. vsr_stats n t = Inr s"
  by (simp add: vsr_stats_def true_div_small)

text \<open>The statistics of one stage as the snapshots determine them.\<close>

definition is_delta :: "(ustr \<times> ustr \<Rightarrow> int) \<Rightarrow> (ustr \<times> ustr \<Rightarrow> int) \<Rightarrow> ustr \<times> stage_stats \<Rightarrow> bool" where
  "is_delta f g item \<longleftrightarrow> (case item of (stage, s) \<Rightarrow>
     0 \<le> ss_count s \<and> ss_count s = g (stage, u ''count'') - f (stage, u ''count'') \<and>
     0 \<le> ss_total_ns s \<and> ss_total_ns s = g (stage, u ''total_ns'') - f (stage, u ''total_ns'') \<and>
     ss_mean_ns s = (if ss_count s = 0 then 0 else double (of_int (ss_total_ns s) / of_int (ss_count s))) \<and>
     ss_mean_us s = per_thousand (ss_mean_ns s))"

lemma delta_of_Inr:
  "delta_of f g stage = Inr item \<longleftrightarrow> (\<exists>s. item = (stage, s) \<and>
     f (stage, u ''count'') \<le> g (stage, u ''count'') \<and> f (stage, u ''total_ns'') \<le> g (stage, u ''total_ns'') \<and>
     vsr_stats (g (stage, u ''count'') - f (stage, u ''count'')) (g (stage, u ''total_ns'') - f (stage, u ''total_ns'')) = Inr s)"
  by (auto simp: delta_of_def bind_res_Inr_iff)

lemma deltas_Inr:
  assumes "map_res (delta_of f g) stages = Inr items"
  shows "dict_keys items = stages \<and> list_all (is_delta f g) items"
  using assms
proof (induction stages arbitrary: items)
  case (Cons stage stages)
  from Cons.prems obtain s rest where s: "vsr_stats (g (stage, u ''count'') - f (stage, u ''count''))
      (g (stage, u ''total_ns'') - f (stage, u ''total_ns'')) = Inr s"
    and le: "f (stage, u ''count'') \<le> g (stage, u ''count'')" "f (stage, u ''total_ns'') \<le> g (stage, u ''total_ns'')"
    and rest: "map_res (delta_of f g) stages = Inr rest" and items: "items = (stage, s) # rest"
    unfolding map_res.simps bind_res_Inr_iff delta_of_Inr by blast
  from vsr_stats_Inr [OF s] le have "is_delta f g (stage, s)" by (auto simp: is_delta_def)
  with Cons.IH [OF rest] items show ?case by simp
qed simp

subsection \<open>The seven stages\<close>

lemma seven_stages:
  "dict_keys items = VSR_STAGES \<longleftrightarrow> (\<exists>a b c d e f g. items =
     [(u ''request_fast_extract'', a), (u ''request_full_parse'', b), (u ''bm25_native'', c), (u ''decision_policy'', d),
      (u ''route_reply_build'', e), (u ''extproc_send'', f), (u ''request_body_total'', g)])"
  unfolding VSR_STAGES_def by (auto simp: map_eq_Cons_conv)

lemma remdups_one: "length (remdups xs) = 1 \<longleftrightarrow> xs \<noteq> [] \<and> list_all (\<lambda>x. x = last xs) xs"
proof -
  have "length (remdups xs) = 1 \<longleftrightarrow> (\<exists>x. set xs = {x})"
    by (simp add: length_remdups_card_conv card_1_singleton_iff)
  also have "\<dots> \<longleftrightarrow> xs \<noteq> [] \<and> list_all (\<lambda>x. x = last xs) xs"
    by (cases "xs = []") (use last_in_set in \<open>fastforce simp: list_all_iff\<close>)+
  finally show ?thesis .
qed

definition parsing_stats :: "int \<Rightarrow> int \<Rightarrow> component res" where
  "parsing_stats total_ns completed = bind_res (true_div total_ns completed) (\<lambda>q. Inr
     \<lparr>cp_stats = \<lparr>ss_count = completed, ss_total_ns = total_ns, ss_mean_ns = q, ss_mean_us = per_thousand q\<rparr>,
      cp_definition = Some (u ''direct sum of fast extraction and full parsing timers'')\<rparr>)"

lemma vsr_agree_seven:
  assumes "dict_keys items = VSR_STAGES"
  shows "vsr_agree items = Inr w \<longleftrightarrow> list_all (\<lambda>(_, s). ss_count s = ss_count (snd (last items))) items"
    and "vsr_agree items = Inl err \<Longrightarrow> reported err"
proof -
  obtain a b c d e f g :: stage_stats where items: "items =
     [(u ''request_fast_extract'', a), (u ''request_full_parse'', b), (u ''bm25_native'', c), (u ''decision_policy'', d),
      (u ''route_reply_build'', e), (u ''extproc_send'', f), (u ''request_body_total'', g)]"
    using assms unfolding seven_stages by blast
  have "map_res (\<lambda>stage. bind_res (dict_index items stage) (\<lambda>s. Inr (ss_count s))) VSR_STAGES =
      Inr (map ss_count [a, b, c, d, e, f, g])"
    unfolding items VSR_STAGES_def by (simp add: dict_index_def)
  note agree = this
  show "vsr_agree items = Inr w \<longleftrightarrow> list_all (\<lambda>(_, s). ss_count s = ss_count (snd (last items))) items"
    unfolding vsr_agree_def agree bind_res_simps ensure_iff remdups_one by (simp add: items)
  show "vsr_agree items = Inl err \<Longrightarrow> reported err"
    unfolding vsr_agree_def agree bind_res_simps ensure_iff by simp
qed

definition plain_component :: "ustr \<times> stage_stats \<Rightarrow> ustr \<times> component" where
  "plain_component item = (fst item, \<lparr>cp_stats = snd item, cp_definition = None\<rparr>)"

definition component_mean :: "ustr \<times> component \<Rightarrow> rat" where
  "component_mean c = ss_mean_ns (cp_stats (snd c))"

definition wanted_ok :: "int option \<Rightarrow> int \<Rightarrow> bool" where
  "wanted_ok wanted n \<longleftrightarrow> wanted = None \<or> wanted = Some n"

text \<open>The result, given the statistics of the stages and of the joint parsing component.\<close>

definition result_with :: "interp \<Rightarrow> (ustr, stage_stats) dict \<Rightarrow> component \<Rightarrow> vsr_result" where
  "result_with I items p = (let cs = (u ''request_parsing'', p) # map plain_component (butlast (tl (tl items))) in
     \<lparr>vr_completed = ss_count (snd (last items)), vr_stages = items, vr_components = cs,
      vr_stacked_mean_us = float_per_thousand (py_sum I (map component_mean cs)),
      vr_body_mean_us = ss_mean_us (snd (last items))\<rparr>)"

definition parsing_total :: "(ustr, stage_stats) dict \<Rightarrow> int" where
  "parsing_total items = (\<Sum>item \<leftarrow> take 2 items. ss_total_ns (snd item))"

lemma request_parsing_seven:
  assumes "dict_keys items = VSR_STAGES"
  shows "request_parsing n items = parsing_stats (parsing_total items) n"
  using assms unfolding seven_stages
  by (elim exE) (simp add: request_parsing_def parsing_stats_def parsing_total_def bind_res_assoc,
    simp add: bind_res_def split: sum.split)

lemma vsr_components_seven:
  assumes "dict_keys items = VSR_STAGES"
  shows "vsr_components n items = bind_res (parsing_stats (parsing_total items) n) (\<lambda>p.
    Inr ((u ''request_parsing'', p) # map plain_component (butlast (tl (tl items)))))"
  unfolding vsr_components_def request_parsing_seven [OF assms]
  using assms unfolding seven_stages
  by (elim exE) (simp add: STACKED_COMPONENTS_def plain_component_def dict_index_def)

lemma vsr_means_seven:
  assumes "dict_keys items = VSR_STAGES"
  defines "cs \<equiv> \<lambda>p. (u ''request_parsing'', p) # map plain_component (butlast (tl (tl items)))"
  shows "map_res (\<lambda>name. bind_res (dict_index (cs p) name) (\<lambda>c. Inr (ss_mean_ns (cp_stats c)))) STACKED_COMPONENTS =
    Inr (map component_mean (cs p))"
  using assms(1) unfolding seven_stages cs_def
  by (elim exE) (simp add: STACKED_COMPONENTS_def plain_component_def dict_index_def component_mean_def)

lemma vsr_result_seven:
  assumes "dict_keys items = VSR_STAGES"
  shows "vsr_result_of I wanted items =
    bind_res (vsr_agree items) (\<lambda>_.
      if ss_count (snd (last items)) \<le> 0 then Inl (RuntimeErr ''no completed profiled BM25 requests'' [])
      else if \<not> wanted_ok wanted (ss_count (snd (last items)))
      then Inl (RuntimeErr ''profiled request count {} does not match expected valid request count {}''
         [show_int (ss_count (snd (last items))), show_int (the wanted)])
      else bind_res (parsing_stats (parsing_total items) (ss_count (snd (last items)))) (\<lambda>p. Inr (result_with I items p)))"
proof -
  have body: "dict_index items (u ''request_body_total'') = Inr (snd (last items))"
    using assms unfolding seven_stages by (elim exE) (simp add: dict_index_def)
  show ?thesis
    unfolding vsr_result_of_def body vsr_components_seven [OF assms] wanted_ok_def [symmetric]
    by (simp add: Let_def bind_ensure bind_res_assoc vsr_means_seven [OF assms] result_with_def cong: if_cong)
qed

lemma vsr_result_Inr:
  assumes "dict_keys items = VSR_STAGES" "vsr_result_of I wanted items = Inr r"
  shows "list_all (\<lambda>item. ss_count (snd item) = vr_completed r) items \<and> 0 < vr_completed r \<and>
    wanted_ok wanted (vr_completed r) \<and>
    (\<exists>p. parsing_stats (parsing_total items) (vr_completed r) = Inr p \<and> r = result_with I items p)"
proof -
  from assms(2) obtain w p where agree: "vsr_agree items = Inr w" and n: "0 < ss_count (snd (last items))"
    and ok: "wanted_ok wanted (ss_count (snd (last items)))"
    and p: "parsing_stats (parsing_total items) (ss_count (snd (last items))) = Inr p" and r: "r = result_with I items p"
    unfolding vsr_result_seven [OF assms(1)] by (auto simp: bind_res_Inr_iff split: if_splits)
  have "vr_completed r = ss_count (snd (last items))" by (simp add: r result_with_def Let_def)
  with agree n ok p r show ?thesis
    unfolding vsr_agree_seven(1) [OF assms(1)] by (auto simp: list_all_iff)
qed

lemma result_with_stages [simp]: "vr_stages (result_with I items p) = items"
  by (simp add: result_with_def Let_def)

lemma summary_Inr:
  assumes "summary_of I wanted f g = Inr r"
  shows "dict_keys (vr_stages r) = VSR_STAGES \<and> list_all (is_delta f g) (vr_stages r) \<and>
    list_all (\<lambda>item. ss_count (snd item) = vr_completed r) (vr_stages r) \<and> 0 < vr_completed r \<and>
    wanted_ok wanted (vr_completed r) \<and>
    (\<exists>p. parsing_stats (parsing_total (vr_stages r)) (vr_completed r) = Inr p \<and> r = result_with I (vr_stages r) p)"
proof -
  from assms obtain items where items: "map_res (delta_of f g) VSR_STAGES = Inr items" "vsr_result_of I wanted items = Inr r"
    by (auto simp: summary_of_def bind_res_Inr_iff)
  from deltas_Inr [OF items(1)] have d: "dict_keys items = VSR_STAGES" "list_all (is_delta f g) items" by auto
  from vsr_result_Inr [OF d(1) items(2)] have st: "vr_stages r = items" by auto
  show ?thesis unfolding st using d vsr_result_Inr [OF d(1) items(2)] by blast
qed

subsection \<open>The promises of a summary\<close>

text \<open>The difference a summary reports for a stage, in terms of the two parsed snapshots.\<close>

definition reports_delta :: "counters \<Rightarrow> counters \<Rightarrow> ustr \<times> stage_stats \<Rightarrow> bool" where
  "reports_delta cs0 cs1 item \<longleftrightarrow> (case item of (stage, s) \<Rightarrow> \<exists>count total_ns.
     counter_read cs0 stage (u ''count'') = Inr count \<and> counter_read cs1 stage (u ''count'') = Inr (count + ss_count s) \<and>
     counter_read cs0 stage (u ''total_ns'') = Inr total_ns \<and>
     counter_read cs1 stage (u ''total_ns'') = Inr (total_ns + ss_total_ns s) \<and>
     0 \<le> ss_total_ns s \<and> ss_mean_ns s = double (of_int (ss_total_ns s) / of_int (ss_count s)) \<and>
     ss_mean_us s = per_thousand (ss_mean_ns s))"

lemma reports_deltaI:
  assumes "is_delta f g (stage, s)" "0 < ss_count s" "snapshot_holds cs0 f" "snapshot_holds cs1 g" "stage \<in> set VSR_STAGES"
  shows "reports_delta cs0 cs1 (stage, s)"
proof -
  have "counter_read cs0 stage field = Inr (f (stage, field)) \<and> counter_read cs1 stage field = Inr (g (stage, field))"
    if "field \<in> set vsr_fields" for field
    using assms(3-5) that by (fastforce simp: snapshot_holds_def list_all_iff vsr_cells_def)
  then show ?thesis
    using assms(1,2) by (simp add: reports_delta_def is_delta_def vsr_fields_def)
qed

text \<open>C4. A summary is the difference of the two snapshots: it lists every stage once, in the order of the
  script, each counting the same positive number of requests, which is the expected one if one was
  given; count and total of a stage are exactly the increments of its two counters, and the mean is
  their quotient.\<close>

theorem summarize_sound:
  assumes "summarize_snapshots I before_raw after_raw wanted = Inr r"
  shows "\<exists>cs0 cs1. parse_snapshot (i_unicode I) before_raw = Inr cs0 \<and> parse_snapshot (i_unicode I) after_raw = Inr cs1 \<and>
    0 < vr_completed r \<and> (wanted = None \<or> wanted = Some (vr_completed r)) \<and> dict_keys (vr_stages r) = VSR_STAGES \<and>
    list_all (\<lambda>(stage, s). ss_count s = vr_completed r \<and> reports_delta cs0 cs1 (stage, s)) (vr_stages r)"
proof -
  from summarize_Inr [OF assms] obtain cs0 cs1 f g where
    p: "parse_snapshot (i_unicode I) before_raw = Inr cs0" "parse_snapshot (i_unicode I) after_raw = Inr cs1"
    and h: "snapshot_holds cs0 f" "snapshot_holds cs1 g" and s: "summary_of I wanted f g = Inr r" by blast
  from summary_Inr [OF s] have r: "dict_keys (vr_stages r) = VSR_STAGES" "list_all (is_delta f g) (vr_stages r)"
    "list_all (\<lambda>item. ss_count (snd item) = vr_completed r) (vr_stages r)" "0 < vr_completed r" "wanted_ok wanted (vr_completed r)"
    by blast+
  have "ss_count s = vr_completed r \<and> reports_delta cs0 cs1 (stage, s)" if i: "(stage, s) \<in> set (vr_stages r)" for stage s
  proof -
    have st: "stage \<in> set VSR_STAGES" using r(1) i by (metis fst_conv image_eqI set_map)
    have d: "is_delta f g (stage, s)" "ss_count s = vr_completed r" using r(2,3) i by (auto simp: list_all_iff)
    then show ?thesis using reports_deltaI [OF d(1) _ h st] r(4) by simp
  qed
  with p r show ?thesis unfolding wanted_ok_def list_all_iff by blast
qed

text \<open>C12. The stacked figure accounts for the time of every directly timed stage exactly once and for the
  inclusive total not at all: its components count the completed requests, their totals add up to
  the totals of all stages but \<open>request_body_total\<close>, and their means are the quotients.\<close>

theorem figure_accounts_once:
  assumes "summarize_snapshots I before_raw after_raw wanted = Inr r"
  shows "dict_keys (vr_components r) = STACKED_COMPONENTS \<and>
    (\<Sum>(name, c) \<leftarrow> vr_components r. ss_total_ns (cp_stats c)) = (\<Sum>(stage, s) \<leftarrow> butlast (vr_stages r). ss_total_ns s) \<and>
    list_all (\<lambda>(name, c). ss_count (cp_stats c) = vr_completed r \<and>
      ss_mean_ns (cp_stats c) = double (of_int (ss_total_ns (cp_stats c)) / of_int (vr_completed r))) (vr_components r)"
proof -
  from summarize_Inr [OF assms] obtain f g where s: "summary_of I wanted f g = Inr r" by blast
  from summary_Inr [OF s] obtain p where keys: "dict_keys (vr_stages r) = VSR_STAGES"
    and d: "list_all (is_delta f g) (vr_stages r)" "list_all (\<lambda>item. ss_count (snd item) = vr_completed r) (vr_stages r)"
    and n: "0 < vr_completed r" and p: "parsing_stats (parsing_total (vr_stages r)) (vr_completed r) = Inr p"
    and r: "r = result_with I (vr_stages r) p" by blast
  have cs: "vr_components r = (u ''request_parsing'', p) # map plain_component (butlast (tl (tl (vr_stages r))))"
    by (subst r) (simp add: result_with_def Let_def)
  from p n have pf: "ss_count (cp_stats p) = vr_completed r" "ss_total_ns (cp_stats p) = parsing_total (vr_stages r)"
    "ss_mean_ns (cp_stats p) = double (of_int (parsing_total (vr_stages r)) / of_int (vr_completed r))"
    by (auto simp: parsing_stats_def bind_res_Inr_iff true_div_def Let_def split: if_splits)
  from keys obtain s1 s2 s3 s4 s5 s6 s7 :: stage_stats where items: "vr_stages r =
     [(u ''request_fast_extract'', s1), (u ''request_full_parse'', s2), (u ''bm25_native'', s3), (u ''decision_policy'', s4),
      (u ''route_reply_build'', s5), (u ''extproc_send'', s6), (u ''request_body_total'', s7)]"
    unfolding seven_stages by blast
  show ?thesis
    using d n pf unfolding cs items
    by (simp add: plain_component_def STACKED_COMPONENTS_def parsing_total_def is_delta_def)
qed

subsection \<open>Consecutive intervals\<close>

lemma true_div_bounded: "0 \<le> a \<Longrightarrow> a < 2 ^ 1023 \<Longrightarrow> 0 < b \<Longrightarrow> \<exists>q. true_div a b = Inr q"
  using true_div_small by blast

lemma deltas_exist:
  assumes "list_all (\<lambda>stage. f (stage, u ''count'') \<le> g (stage, u ''count'') \<and>
    f (stage, u ''total_ns'') \<le> g (stage, u ''total_ns'') \<and> g (stage, u ''total_ns'') - f (stage, u ''total_ns'') < 2 ^ 1023) stages"
  shows "\<exists>items. map_res (delta_of f g) stages = Inr items"
proof -
  have "\<exists>item. delta_of f g stage = Inr item" if "stage \<in> set stages" for stage
  proof -
    from assms that have b: "f (stage, u ''count'') \<le> g (stage, u ''count'')" "f (stage, u ''total_ns'') \<le> g (stage, u ''total_ns'')"
      "g (stage, u ''total_ns'') - f (stage, u ''total_ns'') < 2 ^ 1023" unfolding list_all_iff by blast+
    from b obtain s where "vsr_stats (g (stage, u ''count'') - f (stage, u ''count'')) (g (stage, u ''total_ns'') - f (stage, u ''total_ns'')) = Inr s"
      using vsr_stats_small [of "g (stage, u ''count'') - f (stage, u ''count'')" "g (stage, u ''total_ns'') - f (stage, u ''total_ns'')"]
      by (meson diff_ge_0_iff_ge)
    with b show ?thesis unfolding delta_of_Inr by blast
  qed
  then have "map_res (delta_of f g) stages = Inr (map (\<lambda>stage. projr (delta_of f g stage)) stages)"
    by (intro map_res_total) force
  then show ?thesis by blast
qed

lemma summary_exists:
  assumes "0 < n"
    and "list_all (\<lambda>stage. g (stage, u ''count'') - f (stage, u ''count'') = n \<and>
      f (stage, u ''total_ns'') \<le> g (stage, u ''total_ns'') \<and> g (stage, u ''total_ns'') - f (stage, u ''total_ns'') < 2 ^ 1022) VSR_STAGES"
  shows "\<exists>r. summary_of I None f g = Inr r \<and> vr_completed r = n"
proof -
  have "(2 :: int) ^ 1022 \<le> 2 ^ 1023" by (rule power_increasing) simp_all
  then have "list_all (\<lambda>stage. f (stage, u ''count'') \<le> g (stage, u ''count'') \<and>
    f (stage, u ''total_ns'') \<le> g (stage, u ''total_ns'') \<and> g (stage, u ''total_ns'') - f (stage, u ''total_ns'') < 2 ^ 1023) VSR_STAGES"
    using assms unfolding list_all_iff by force
  from deltas_exist [OF this] obtain items where items: "map_res (delta_of f g) VSR_STAGES = Inr items" by blast
  from deltas_Inr [OF items] have keys: "dict_keys items = VSR_STAGES" and d: "list_all (is_delta f g) items" by auto
  have per: "ss_count s = n \<and> 0 \<le> ss_total_ns s \<and> ss_total_ns s < 2 ^ 1022" if "(stage, s) \<in> set items" for stage s
  proof -
    have st: "stage \<in> set VSR_STAGES" using keys that by (metis fst_conv image_eqI set_map)
    show ?thesis using d assms(2) that st unfolding list_all_iff is_delta_def by fastforce
  qed
  from keys obtain s1 s2 s3 s4 s5 s6 s7 :: stage_stats where list: "items =
     [(u ''request_fast_extract'', s1), (u ''request_full_parse'', s2), (u ''bm25_native'', s3), (u ''decision_policy'', s4),
      (u ''route_reply_build'', s5), (u ''extproc_send'', s6), (u ''request_body_total'', s7)]"
    unfolding seven_stages by blast
  have m: "(u ''request_fast_extract'', s1) \<in> set items" "(u ''request_full_parse'', s2) \<in> set items"
    "(u ''request_body_total'', s7) \<in> set items" by (simp_all add: list)
  have counts: "ss_count (snd (last items)) = n" using per [OF m(3)] by (simp only: list last.simps) simp
  have "list_all (\<lambda>(_, s). ss_count s = ss_count (snd (last items))) items"
    unfolding counts list_all_iff using per by blast
  then have agree: "vsr_agree items = Inr ()" using vsr_agree_seven(1) [OF keys] by blast
  have t: "parsing_total items = ss_total_ns s1 + ss_total_ns s2" by (simp add: parsing_total_def list)
  have s12: "0 \<le> ss_total_ns s1" "0 \<le> ss_total_ns s2" "ss_total_ns s1 < 2 ^ 1022" "ss_total_ns s2 < 2 ^ 1022"
    using per [OF m(1)] per [OF m(2)] by blast+
  have "(2 :: int) ^ Suc 1022 = 2 * 2 ^ 1022" by (rule power_Suc)
  moreover have "Suc 1022 = 1023" by simp
  ultimately have "(2 :: int) ^ 1022 + 2 ^ 1022 = 2 ^ 1023" by (simp only: mult_2)
  with s12 have "0 \<le> parsing_total items" "parsing_total items < 2 ^ 1023" unfolding t by linarith+
  from true_div_bounded [OF this assms(1)] obtain p where p: "parsing_stats (parsing_total items) n = Inr p"
    by (auto simp: parsing_stats_def)
  have "vsr_result_of I None items = Inr (result_with I items p)"
    unfolding vsr_result_seven [OF keys] counts agree using p assms(1) by (simp add: wanted_ok_def)
  with items show ?thesis
    by (intro exI [of _ "result_with I items p"]) (simp add: summary_of_def result_with_def Let_def counts)
qed

definition stage_numbers :: "ustr \<times> stage_stats \<Rightarrow> ustr \<times> int \<times> int" where
  "stage_numbers item = (fst item, ss_count (snd item), ss_total_ns (snd item))"

lemma delta_numbers:
  "list_all (is_delta f g) items \<Longrightarrow> map stage_numbers items = map (\<lambda>stage. (stage, g (stage, u ''count'') - f (stage, u ''count''),
     g (stage, u ''total_ns'') - f (stage, u ''total_ns''))) (dict_keys items)"
  by (induction items) (auto simp: is_delta_def stage_numbers_def)

lemma summary_numbers:
  assumes "summary_of I wanted f g = Inr r"
  shows "map stage_numbers (vr_stages r) = map (\<lambda>stage. (stage, g (stage, u ''count'') - f (stage, u ''count''),
     g (stage, u ''total_ns'') - f (stage, u ''total_ns''))) VSR_STAGES"
  using summary_Inr [OF assms] delta_numbers [of f g "vr_stages r"] by metis

lemma summary_stage:
  assumes "summary_of I wanted f g = Inr r" "stage \<in> set VSR_STAGES"
  shows "\<exists>s. (stage, s) \<in> set (vr_stages r) \<and> ss_count s = vr_completed r \<and>
    g (stage, u ''count'') - f (stage, u ''count'') = vr_completed r \<and> 0 \<le> ss_total_ns s \<and>
    g (stage, u ''total_ns'') - f (stage, u ''total_ns'') = ss_total_ns s"
proof -
  from summary_Inr [OF assms(1)] have r: "dict_keys (vr_stages r) = VSR_STAGES" "list_all (is_delta f g) (vr_stages r)"
    "list_all (\<lambda>item. ss_count (snd item) = vr_completed r) (vr_stages r)" by blast+
  from keys_defined [OF r(1) assms(2)] obtain s where "dict_get (vr_stages r) stage = Some s" by blast
  then have s: "(stage, s) \<in> set (vr_stages r)" by (rule map_of_SomeD)
  with r(2,3) have "is_delta f g (stage, s)" "ss_count s = vr_completed r" by (auto simp: list_all_iff)
  with s show ?thesis unfolding is_delta_def by (intro exI [of _ s]) auto
qed

lemma deltas_add:
  assumes s1: "summary_of I wanted1 f g = Inr r1" and s2: "summary_of I wanted2 g h = Inr r2"
    and small1: "list_all (\<lambda>(stage, s). ss_total_ns s < 2 ^ 1021) (vr_stages r1)"
    and small2: "list_all (\<lambda>(stage, s). ss_total_ns s < 2 ^ 1021) (vr_stages r2)"
    and stage: "stage \<in> set VSR_STAGES"
  shows "h (stage, u ''count'') - f (stage, u ''count'') = vr_completed r1 + vr_completed r2 \<and>
    f (stage, u ''total_ns'') \<le> h (stage, u ''total_ns'') \<and> h (stage, u ''total_ns'') - f (stage, u ''total_ns'') < 2 ^ 1022"
proof -
  have "(2 :: int) ^ Suc 1021 = 2 * 2 ^ 1021" by (rule power_Suc)
  moreover have "Suc 1021 = 1022" by simp
  ultimately have two: "(2 :: int) ^ 1022 = 2 ^ 1021 + 2 ^ 1021" by (simp only: mult_2)
  from summary_stage [OF s1 stage] obtain x where x: "(stage, x) \<in> set (vr_stages r1)"
    "g (stage, u ''count'') - f (stage, u ''count'') = vr_completed r1" "0 \<le> ss_total_ns x"
    "g (stage, u ''total_ns'') - f (stage, u ''total_ns'') = ss_total_ns x" by blast
  from summary_stage [OF s2 stage] obtain y where y: "(stage, y) \<in> set (vr_stages r2)"
    "h (stage, u ''count'') - g (stage, u ''count'') = vr_completed r2" "0 \<le> ss_total_ns y"
    "h (stage, u ''total_ns'') - g (stage, u ''total_ns'') = ss_total_ns y" by blast
  have "ss_total_ns x < 2 ^ 1021" "ss_total_ns y < 2 ^ 1021"
    using small1 small2 x(1) y(1) unfolding list_all_iff by blast+
  then have small: "ss_total_ns x + ss_total_ns y < 2 ^ 1022" unfolding two by (rule add_strict_mono)
  have "h (stage, u ''total_ns'') - f (stage, u ''total_ns'') = ss_total_ns x + ss_total_ns y"
    "h (stage, u ''count'') - f (stage, u ''count'') = vr_completed r1 + vr_completed r2"
    "f (stage, u ''total_ns'') \<le> h (stage, u ''total_ns'')"
    using x y by linarith+
  with small show ?thesis by simp
qed

text \<open>C15. Consecutive intervals add up: when a run is summarized between a first and a second snapshot and
  between the second and a third, the summary between the first and the third exists and its
  requests, and the count and total of every stage, are the sums. The totals are assumed small
  enough for a float.\<close>

theorem summarize_telescopes:
  assumes "summarize_snapshots I first_raw second_raw wanted1 = Inr r1"
    and "summarize_snapshots I second_raw third_raw wanted2 = Inr r2"
    and "list_all (\<lambda>(stage, s). ss_total_ns s < 2 ^ 1021) (vr_stages r1)"
    and "list_all (\<lambda>(stage, s). ss_total_ns s < 2 ^ 1021) (vr_stages r2)"
  shows "\<exists>r. summarize_snapshots I first_raw third_raw None = Inr r \<and>
    vr_completed r = vr_completed r1 + vr_completed r2 \<and>
    map stage_numbers (vr_stages r) =
      map2 (\<lambda>(stage, count1, total1) (_, count2, total2). (stage, count1 + count2, total1 + total2))
        (map stage_numbers (vr_stages r1)) (map stage_numbers (vr_stages r2))"
proof -
  from summarize_Inr [OF assms(1)] obtain cs0 cs1 f g where
    p: "parse_snapshot (i_unicode I) first_raw = Inr cs0" "parse_snapshot (i_unicode I) second_raw = Inr cs1"
    and fg: "snapshot_holds cs0 f" "snapshot_holds cs1 g" and s1: "summary_of I wanted1 f g = Inr r1" by blast
  from summarize_Inr [OF assms(2)] obtain cs2 h where
    p2: "parse_snapshot (i_unicode I) third_raw = Inr cs2" and h: "snapshot_holds cs2 h" by blast
  from summarize_holds [OF p(2) p2 fg(2) h] assms(2) have s2: "summary_of I wanted2 g h = Inr r2" by simp
  note per = deltas_add [OF s1 s2 assms(3,4)]
  have "0 < vr_completed r1" "0 < vr_completed r2" using summary_Inr [OF s1] summary_Inr [OF s2] by blast+
  then have "0 < vr_completed r1 + vr_completed r2" by (rule add_pos_pos)
  from summary_exists [OF this, of h f I] per obtain r where r: "summary_of I None f h = Inr r"
    "vr_completed r = vr_completed r1 + vr_completed r2" unfolding list_all_iff by blast
  have "summarize_snapshots I first_raw third_raw None = Inr r"
    using summarize_holds [OF p(1) p2 fg(1) h] r(1) by simp
  moreover have "map stage_numbers (vr_stages r) =
      map2 (\<lambda>(stage, count1, total1) (_, count2, total2). (stage, count1 + count2, total1 + total2))
        (map stage_numbers (vr_stages r1)) (map stage_numbers (vr_stages r2))"
    unfolding summary_numbers [OF r(1)] summary_numbers [OF s1] summary_numbers [OF s2]
    by (simp add: VSR_STAGES_def)
  ultimately show ?thesis using r(2) by blast
qed

text \<open>Only what the lines of the snapshots say matters, not their order: permuting the lines of both
  snapshots leaves the summary unchanged.\<close>

theorem summarize_order_independent:
  assumes "summarize_snapshots I before_raw after_raw wanted = Inr r"
    and "mset (splitlines before_raw') = mset (splitlines before_raw)"
    and "mset (splitlines after_raw') = mset (splitlines after_raw)"
  shows "summarize_snapshots I before_raw' after_raw' wanted = Inr r"
proof -
  from summarize_Inr [OF assms(1)] obtain cs0 cs1 f g where
    p: "parse_snapshot (i_unicode I) before_raw = Inr cs0" "parse_snapshot (i_unicode I) after_raw = Inr cs1"
    and h: "snapshot_holds cs0 f" "snapshot_holds cs1 g" and s: "summary_of I wanted f g = Inr r" by blast
  from parse_snapshot_perm [OF p(1) h(1) assms(2)] obtain cs0' where
    b: "parse_snapshot (i_unicode I) before_raw' = Inr cs0'" "snapshot_holds cs0' f" by blast
  from parse_snapshot_perm [OF p(2) h(2) assms(3)] obtain cs1' where
    a: "parse_snapshot (i_unicode I) after_raw' = Inr cs1'" "snapshot_holds cs1' g" by blast
  from summarize_holds [OF b(1) a(1) b(2) a(2)] s show ?thesis by simp
qed

end
