(* ===== verification/VsrProgram.thy ===== *)
theory VsrProgram
  imports VsrSummary SkProgram
begin

section \<open>Capturing and reporting\<close>

text \<open>
  The program as a whole: which exceptions leave it, that every computed summary is written, what
  capturing does to the files, and the whole workflow of two captures and a summary.
\<close>

subsection \<open>Exceptions\<close>

lemma match_sample_metric:
  assumes "match_sample U line = Some (metric, stage, raw)" shows "\<exists>field. dict_get METRICS metric = Some field"
proof -
  have "metric \<in> set names" if "match_names U names line = Some (metric, stage, raw)" for names
    using that by (induction names) (auto split: option.splits)
  with assms have "metric \<in> set sample_names" by (simp add: match_sample_def)
  moreover have "list_all (\<lambda>m. dict_get METRICS m \<noteq> None) sample_names" by code_simp
  ultimately show ?thesis by (auto simp: list_all_iff)
qed

definition value_error :: "pyerr \<Rightarrow> bool" where
  "value_error e \<longleftrightarrow> (case e of ValueError _ _ \<Rightarrow> True | _ \<Rightarrow> False)"

lemma value_error_reported: "value_error e \<Longrightarrow> reported e"
  by (cases e) (auto simp: value_error_def)

lemma value_error_ValueError [simp]: "value_error (ValueError t args)"
  by (simp add: value_error_def)

lemma parse_nonnegative_error: "parse_nonnegative U raw = Inl e \<Longrightarrow> value_error e"
  by (auto simp: parse_nonnegative_def split: option.splits decimal.splits if_splits)

lemma vsr_line_error:
  assumes "vsr_line U line cs = Inl e" shows "value_error e"
proof (cases "match_sample U line")
  case None
  with assms show ?thesis by (auto simp: vsr_line_def split: if_splits)
next
  case (Some sample)
  obtain metric stage raw where s: "sample = (metric, stage, raw)" by (cases sample) auto
  from match_sample_metric Some s obtain field where "dict_get METRICS metric = Some field" by blast
  with assms Some s show ?thesis
    by (auto simp: vsr_line_def vsr_sample_def bind_res_Inl_iff ensure_iff counter_write_def dict_index_def
        dest: parse_nonnegative_error split: if_splits option.splits)
qed

lemma vsr_complete_error:
  "dict_keys cs = VSR_STAGES \<Longrightarrow> stage \<in> set VSR_STAGES \<Longrightarrow> vsr_complete cs stage w = Inl e \<Longrightarrow> value_error e"
  using keys_defined [of cs VSR_STAGES stage]
  by (auto simp: vsr_complete_def bind_res_Inl_iff dict_index_iff ensure_iff Let_def)

lemma parse_snapshot_error:
  assumes "parse_snapshot U raw = Inl e" shows "value_error e"
proof -
  from assms consider "fold_res (vsr_line U) (splitlines raw) vsr_init = Inl e"
    | cs where "fold_res (vsr_line U) (splitlines raw) vsr_init = Inr cs" "fold_res (vsr_complete cs) VSR_STAGES () = Inl e"
    by (auto simp: parse_snapshot_def bind_res_Inl_iff)
  then show ?thesis
  proof cases
    case 1
    then show ?thesis by (rule fold_res_error [where P = "\<lambda>_. True"]) (auto dest: vsr_line_error)
  next
    case (2 cs)
    have "dict_keys cs = VSR_STAGES"
      using 2(1) by (rule fold_res_invariant [where P = "\<lambda>cs. dict_keys cs = VSR_STAGES"])
        (use vsr_init_keys vsr_line_keys in blast)+
    then show ?thesis
      using 2(2) by (elim fold_res_error [where P = "\<lambda>_. True"]) (auto dest: vsr_complete_error)
  qed
qed

lemma delta_of_error: "delta_of f g stage = Inl e \<Longrightarrow> expected e"
  by (auto simp: delta_of_def bind_res_Inl_iff expected_def dest: vsr_stats_error split: if_splits)

lemma summary_of_error:
  assumes "summary_of I wanted f g = Inl e" shows "expected e"
proof -
  from assms consider "map_res (delta_of f g) VSR_STAGES = Inl e"
    | items where "map_res (delta_of f g) VSR_STAGES = Inr items" "vsr_result_of I wanted items = Inl e"
    by (auto simp: summary_of_def bind_res_Inl_iff)
  then show ?thesis
  proof cases
    case 1
    then show ?thesis by (auto dest!: map_res_error delta_of_error)
  next
    case (2 items)
    from deltas_Inr [OF 2(1)] have keys: "dict_keys items = VSR_STAGES" by simp
    from 2(2) show ?thesis
      unfolding vsr_result_seven [OF keys]
      by (auto simp: bind_res_Inl_iff expected_def parsing_stats_def dest: vsr_agree_seven(2) [OF keys] true_div_error
          split: if_splits)
  qed
qed

lemma summarize_error:
  assumes "summarize_snapshots I b a wanted = Inl e" shows "expected e"
proof (cases "parse_snapshot (i_unicode I) b")
  case (Inl e')
  with assms show ?thesis
    by (auto simp: summarize_snapshots_def expected_def dest: parse_snapshot_error value_error_reported)
next
  case b: (Inr cs0)
  show ?thesis
  proof (cases "parse_snapshot (i_unicode I) a")
    case (Inl e')
    with b assms show ?thesis
      by (auto simp: summarize_snapshots_def expected_def dest: parse_snapshot_error value_error_reported)
  next
    case (Inr cs1)
    from snapshot_holds_exists [OF b] snapshot_holds_exists [OF Inr] obtain f g where
      "snapshot_holds cs0 f" "snapshot_holds cs1 g" by blast
    from summarize_holds [OF b Inr this] assms show ?thesis by (auto dest: summary_of_error)
  qed
qed

subsection \<open>Reports\<close>

lemma figure_components:
  assumes "summarize_snapshots I b a wanted = Inr r"
  shows "\<exists>c1 c2 c3 c4 c5. vr_components r = [(u ''request_parsing'', c1), (u ''bm25_native'', c2), (u ''decision_policy'', c3),
    (u ''route_reply_build'', c4), (u ''extproc_send'', c5)]"
proof -
  from summarize_Inr [OF assms] obtain f g where s: "summary_of I wanted f g = Inr r" by blast
  from summary_Inr [OF s] obtain p where keys: "dict_keys (vr_stages r) = VSR_STAGES" and r: "r = result_with I (vr_stages r) p" by blast
  have cs: "vr_components r = (u ''request_parsing'', p) # map plain_component (butlast (tl (tl (vr_stages r))))"
    by (subst r) (simp add: result_with_def Let_def)
  show ?thesis
    using keys unfolding seven_stages cs by (elim exE) (simp add: plain_component_def)
qed

lemma vsr_report_written:
  assumes "summarize_snapshots I b a wanted = Inr r"
  shows "\<exists>out. vsr_report I fmt r = Exit 0 out"
proof -
  obtain c1 c2 c3 c4 c5 where cs: "vr_components r = [(u ''request_parsing'', c1), (u ''bm25_native'', c2), (u ''decision_policy'', c3),
    (u ''route_reply_build'', c4), (u ''extproc_send'', c5)]"
    using figure_components [OF assms] by blast
  then show ?thesis
    by (cases fmt) (simp_all add: vsr_report_def written_def vsr_render_csv_def vsr_render_human_def STACKED_COMPONENTS_def dict_index_def)
qed

lemma vsr_csv_row_cells: "vsr_csv_row name s = csv_row (stats_cells (name, s))"
  by (simp add: vsr_csv_row_def stats_cells_def)

lemma component_names:
  "list_all plain_cell (map u [''component'', ''count'', ''total_ns'', ''mean_ns'', ''mean_us''])" "list_all plain_cell STACKED_COMPONENTS"
  by code_simp+

text \<open>The CSV report of a summary is a round trip: split into lines and at commas it is the header and,
  in the order of the figure, one row per component with its name, count, total and means.\<close>

theorem vsr_csv_roundtrip:
  assumes "summarize_snapshots I before_raw after_raw wanted = Inr r"
  shows "\<exists>out. vsr_report I Csv r = Exit 0 out \<and>
    map (split_on (\<lambda>c. c = 44)) (splitlines out) =
      map u [''component'', ''count'', ''total_ns'', ''mean_ns'', ''mean_us''] #
      map (\<lambda>(name, c). stats_cells (name, cp_stats c)) (vr_components r)"
proof -
  obtain c1 c2 c3 c4 c5 where cs: "vr_components r = [(u ''request_parsing'', c1), (u ''bm25_native'', c2), (u ''decision_policy'', c3),
    (u ''route_reply_build'', c4), (u ''extproc_send'', c5)]"
    using figure_components [OF assms] by blast
  let ?rows = "map u [''component'', ''count'', ''total_ns'', ''mean_ns'', ''mean_us''] #
    map (\<lambda>(name, c). stats_cells (name, cp_stats c)) (vr_components r)"
  have "vsr_report I Csv r = Exit 0 (concat (map csv_row ?rows))"
    unfolding vsr_report_def written_def vsr_render_csv_def cs
    by (simp add: STACKED_COMPONENTS_def vsr_csv_row_cells dict_index_def)
  moreover have "list_all (\<lambda>cells. cells \<noteq> [] \<and> list_all plain_cell cells) ?rows"
    using component_names(1) component_names(2) [unfolded STACKED_COMPONENTS_def]
    unfolding cs by (simp add: stats_cells_def del: u_eq_Nil)
  ultimately show ?thesis using csv_read_back by blast
qed

subsection \<open>The program\<close>

text \<open>What opening, reading and writing a file may raise: \<open>OSError\<close> and its subclasses.\<close>

definition files_report :: "world \<Rightarrow> bool" where
  "files_report w \<longleftrightarrow> (\<forall>path. reported (w_absent w path)) \<and> (\<forall>path e. w_open w path = Some e \<longrightarrow> reported e) \<and> (\<forall>path n e. w_full w path = Some (n, e) \<longrightarrow> reported e)"

lemma utf8_text_error: "utf8_text bytes = Inl e \<Longrightarrow> reported e"
  by (auto simp: utf8_text_def split: option.splits)

lemma read_text_error: "read_text w path = Inl e \<Longrightarrow> files_report w \<Longrightarrow> reported e"
  by (auto simp: read_text_def files_report_def bind_res_Inl_iff utf8_text_error split: option.splits)

lemma capture_error:
  assumes "capture U w url path timeout = (Inl e, w')" "files_report w"
  shows "reported e \<or> w_fetch w url timeout = Inl e"
  using assms
  by (auto simp: capture_def write_text_def files_report_def bind_res_Inl_iff
      dest: utf8_text_error parse_snapshot_error value_error_reported split: sum.splits option.splits)

lemma vsr_main_raised:
  assumes "vsr_main I args w = (Raised e, w')" and "files_report w"
  shows "case args of Capture url path timeout \<Rightarrow> w_fetch w url timeout = Inl e \<and> \<not> reported e
    | Summarize _ _ _ _ \<Rightarrow> e = overflow"
proof (cases args)
  case (Capture url path timeout)
  with assms(1) obtain e' where c: "capture (i_unicode I) w url path timeout = (Inl e', w')" and "handled e' = Raised e"
    by (auto simp: vsr_main_def split: prod.splits sum.splits)
  then have "e' = e" "\<not> reported e" by (auto simp: handled_def split: if_splits)
  with capture_error [OF c assms(2)] Capture show ?thesis by simp
next
  case (Summarize b a wanted fmt)
  show ?thesis
  proof (cases "bind_res (read_text w b) (\<lambda>braw. bind_res (read_text w a) (\<lambda>araw. summarize_snapshots I braw araw wanted))")
    case (Inl e')
    then have "expected e'"
      using read_text_error [OF _ assms(2)]
      by (auto simp: bind_res_Inl_iff expected_def [of e']) (auto dest: summarize_error simp: expected_def)
    with Inl assms(1) Summarize show ?thesis
      by (auto simp: vsr_main_def handled_def expected_def split: if_splits)
  next
    case (Inr r)
    then obtain braw araw where "summarize_snapshots I braw araw wanted = Inr r" by (auto simp: bind_res_Inr_iff)
    from vsr_report_written [OF this, of fmt] Inr assms(1) Summarize show ?thesis by (auto simp: vsr_main_def)
  qed
qed

text \<open>
  The only exceptions that leave \<open>main\<close>: when summarizing, the OverflowError of the division;
  when capturing, an exception of the HTTP exchange that is neither an OSError nor a ValueError, such
  as one of \<open>http.client\<close>. Every other failure of the network, the files, the snapshots or their
  comparison is a usage error, and a summary that was computed is always written.
\<close>

lemma vsr_main_escapes:
  assumes "vsr_main I args w = (out, w')" and "files_report w"
  shows "case out of Raised e \<Rightarrow>
      (case args of Capture url path timeout \<Rightarrow> w_fetch w url timeout = Inl e \<and> \<not> reported e
       | Summarize _ _ _ _ \<Rightarrow> e = overflow)
    | UsageError e \<Rightarrow> reported e
    | Exit code _ \<Rightarrow> code = 0"
proof (cases out)
  case (Raised e)
  with vsr_main_raised [of I args w e w'] assms show ?thesis by (cases args) simp_all
next
  case (UsageError e)
  with assms(1) show ?thesis
    by (auto simp: vsr_main_def handled_def vsr_report_def written_def
        split: vsr_args.splits prod.splits sum.splits if_splits)
next
  case (Exit code printed)
  with assms(1) show ?thesis
    by (auto simp: vsr_main_def handled_def vsr_report_def written_def
        split: vsr_args.splits prod.splits sum.splits if_splits)
qed

subsection \<open>Captures\<close>

text \<open>The response a capture accepts: bytes of UTF-8 that decode to a well-formed snapshot.\<close>

definition fetched_snapshot :: "unidb \<Rightarrow> world \<Rightarrow> ustr \<Rightarrow> float_number \<Rightarrow> ustr \<Rightarrow> ustr \<Rightarrow> bool" where
  "fetched_snapshot U w url timeout bytes raw \<longleftrightarrow>
     w_fetch w url timeout = Inr bytes \<and> utf8_decode bytes = Some raw \<and> (\<exists>cs. parse_snapshot U raw = Inr cs)"

lemma capture_fetch:
  "bind_res (w_fetch w url timeout) (\<lambda>bytes. bind_res (utf8_text bytes) (\<lambda>raw. bind_res (parse_snapshot U raw) (\<lambda>_. Inr raw))) =
     Inr raw \<longleftrightarrow> (\<exists>bytes. fetched_snapshot U w url timeout bytes raw)"
  by (auto simp: fetched_snapshot_def utf8_text_def bind_res_Inr_iff split: option.splits)

lemma capture_changes:
  assumes "capture U w url path timeout = (r, w')"
  shows "case r of
      Inr _ \<Rightarrow> \<exists>bytes raw. fetched_snapshot U w url timeout bytes raw \<and> w' = w\<lparr>w_files := (w_files w)(path \<mapsto> bytes)\<rparr>
    | Inl e \<Rightarrow> w' = w \<or> (\<exists>bytes raw n. fetched_snapshot U w url timeout bytes raw \<and> w_full w path = Some (n, e) \<and>
        w' = w\<lparr>w_files := (w_files w)(path \<mapsto> take n bytes)\<rparr>)"
proof (cases "bind_res (w_fetch w url timeout) (\<lambda>bytes. bind_res (utf8_text bytes) (\<lambda>raw. bind_res (parse_snapshot U raw) (\<lambda>_. Inr raw)))")
  case (Inl e)
  with assms show ?thesis by (auto simp: capture_def)
next
  case (Inr raw)
  then obtain bytes where f: "fetched_snapshot U w url timeout bytes raw" unfolding capture_fetch by blast
  then have b: "utf8_encode raw = bytes" by (auto simp: fetched_snapshot_def dest: utf8_encode_decode)
  from Inr assms have wt: "write_text w path raw = (r, w')" by (simp add: capture_def)
  show ?thesis
  proof (cases "w_open w path")
    case (Some e)
    with wt show ?thesis by (auto simp: write_text_def)
  next
    case o: None
    show ?thesis
    proof (cases "w_full w path")
      case None
      with wt o have r: "r = Inr ()" "w' = w\<lparr>w_files := (w_files w)(path \<mapsto> bytes)\<rparr>" by (simp_all add: write_text_def b)
      show ?thesis unfolding r sum.case by (intro exI [of _ bytes] exI [of _ raw] conjI f refl)
    next
      case (Some full)
      obtain n e where full: "w_full w path = Some (n, e)" using Some by (cases full) auto
      with wt o have r: "r = Inl e" "w' = w\<lparr>w_files := (w_files w)(path \<mapsto> take n bytes)\<rparr>" by (simp_all add: write_text_def b)
      show ?thesis unfolding r sum.case
        by (intro disjI2 exI [of _ bytes] exI [of _ raw] exI [of _ n] conjI f full refl)
    qed
  qed
qed

text \<open>
  Capturing is safe: no file but the given one changes, nothing is written unless the response was
  fetched, decoded and validated as a snapshot, and after a capture that succeeds the file holds
  the bytes of the response. After a failure the file is as before, or, when the write itself
  failed, a beginning of those bytes.
\<close>

lemma capture_safe:
  assumes "vsr_main I (Capture url path timeout) w = (out, w')"
  shows "case out of
      Exit _ _ \<Rightarrow> \<exists>bytes raw. fetched_snapshot (i_unicode I) w url timeout bytes raw \<and>
        w' = w\<lparr>w_files := (w_files w)(path \<mapsto> bytes)\<rparr>
    | _ \<Rightarrow> w' = w \<or> (\<exists>bytes raw n e. fetched_snapshot (i_unicode I) w url timeout bytes raw \<and> w_full w path = Some (n, e) \<and>
        w' = w\<lparr>w_files := (w_files w)(path \<mapsto> take n bytes)\<rparr>)"
proof -
  obtain r w1 where c: "capture (i_unicode I) w url path timeout = (r, w1)" by (cases "capture (i_unicode I) w url path timeout")
  with assms have w1: "w1 = w'" and out: "out = (case r of Inl e \<Rightarrow> handled e | Inr _ \<Rightarrow> Exit 0 [])"
    by (auto simp: vsr_main_def split: sum.splits)
  show ?thesis
    using capture_changes [OF c] unfolding out w1 handled_def by (cases r) auto
qed

lemma parse_universal_newlines: "parse_snapshot U (universal_newlines raw) = parse_snapshot U raw"
  by (simp add: parse_snapshot_def splitlines_universal_newlines)

lemma summarize_universal_newlines:
  "summarize_snapshots I (universal_newlines b) (universal_newlines a) wanted = summarize_snapshots I b a wanted"
  by (simp add: summarize_snapshots_def parse_universal_newlines)

lemma read_text_file: "w_files w path = Some bytes \<Longrightarrow> utf8_decode bytes = Some raw \<Longrightarrow> read_text w path = Inr (universal_newlines raw)"
  by (simp add: read_text_def utf8_text_def)

subsection \<open>The workflow\<close>

text \<open>An exposition of the counters \<open>f\<close>, in UTF-8, with anything else a Prometheus endpoint reports.\<close>

definition exposes :: "unidb \<Rightarrow> ustr \<Rightarrow> (ustr \<times> ustr \<Rightarrow> int) \<Rightarrow> bool" where
  "exposes U bytes f \<longleftrightarrow> (\<exists>text raw stamp. utf8_decode bytes = Some text \<and>
     mset (filter (\<lambda>line. \<not> ignored line) (splitlines text)) = mset (map (cell_text raw stamp) vsr_cells) \<and>
     list_all (\<lambda>cell. counter_text U (raw cell) (f cell)) vsr_cells)"

lemma exposes_parse: "exposes U bytes f \<Longrightarrow> \<exists>raw cs. utf8_decode bytes = Some raw \<and> parse_snapshot U raw = Inr cs \<and> snapshot_holds cs f"
  unfolding exposes_def using exposition_parses by metis

lemma capture_writes:
  assumes "w_fetch w url timeout = Inr bytes" "exposes (i_unicode I) bytes f" "w_open w path = None" "w_full w path = None"
  shows "vsr_main I (Capture url path timeout) w = (Exit 0 [], w\<lparr>w_files := (w_files w)(path \<mapsto> bytes)\<rparr>)"
proof -
  from exposes_parse [OF assms(2)] obtain raw cs where r: "utf8_decode bytes = Some raw" "parse_snapshot (i_unicode I) raw = Inr cs" by blast
  with utf8_encode_decode [OF r(1)] assms show ?thesis
    by (simp add: vsr_main_def capture_def utf8_text_def write_text_def)
qed

text \<open>The work of a run: counters that grew by \<open>n\<close> requests in every stage.\<close>

definition run_between :: "int \<Rightarrow> (ustr \<times> ustr \<Rightarrow> int) \<Rightarrow> (ustr \<times> ustr \<Rightarrow> int) \<Rightarrow> bool" where
  "run_between n f g \<longleftrightarrow> 0 < n \<and> list_all (\<lambda>stage. g (stage, u ''count'') - f (stage, u ''count'') = n \<and>
     f (stage, u ''total_ns'') \<le> g (stage, u ''total_ns'') \<and> g (stage, u ''total_ns'') - f (stage, u ''total_ns'') < 2 ^ 1022) VSR_STAGES"

text \<open>C2. The workflow is correct end to end: capture the endpoint to one file, run \<open>n\<close> requests, capture it
  to another file, summarize the two files. Both captures succeed, and the summary that is printed
  reports \<open>n\<close> requests and, for every stage, the increments of its counters, whatever the order and
  the format in which the endpoint listed them.\<close>

theorem vsr_end_to_end:
  assumes "exposes (i_unicode I) bytes0 f" "exposes (i_unicode I) bytes1 g" "run_between n f g"
    and "w_fetch w url timeout = Inr bytes0" "fetch url timeout = Inr bytes1"
    and "path0 \<noteq> path1" "w_open w = (\<lambda>_. None)" "w_full w = (\<lambda>_. None)"
  shows "\<exists>w1 w2 r out. vsr_main I (Capture url path0 timeout) w = (Exit 0 [], w1) \<and>
    vsr_main I (Capture url path1 timeout) (w1\<lparr>w_fetch := fetch\<rparr>) = (Exit 0 [], w2) \<and>
    vsr_main I (Summarize path0 path1 None fmt) w2 = (vsr_report I fmt r, w2) \<and> vsr_report I fmt r = Exit 0 out \<and>
    vr_completed r = n \<and>
    map stage_numbers (vr_stages r) = map (\<lambda>stage. (stage, n, g (stage, u ''total_ns'') - f (stage, u ''total_ns''))) VSR_STAGES"
proof -
  define w1 where "w1 = w\<lparr>w_files := (w_files w)(path0 \<mapsto> bytes0)\<rparr>"
  define w2 where "w2 = w1\<lparr>w_fetch := fetch, w_files := (w_files w1)(path1 \<mapsto> bytes1)\<rparr>"
  have c1: "vsr_main I (Capture url path0 timeout) w = (Exit 0 [], w1)"
    unfolding w1_def using assms by (intro capture_writes) auto
  have "vsr_main I (Capture url path1 timeout) (w1\<lparr>w_fetch := fetch\<rparr>) =
      (Exit 0 [], w1\<lparr>w_fetch := fetch\<rparr>\<lparr>w_files := (w_files (w1\<lparr>w_fetch := fetch\<rparr>))(path1 \<mapsto> bytes1)\<rparr>)"
    using assms by (intro capture_writes) (auto simp: w1_def)
  then have c2: "vsr_main I (Capture url path1 timeout) (w1\<lparr>w_fetch := fetch\<rparr>) = (Exit 0 [], w2)"
    by (simp add: w2_def)
  from exposes_parse [OF assms(1)] obtain raw0 cs0 where p0: "utf8_decode bytes0 = Some raw0"
    "parse_snapshot (i_unicode I) raw0 = Inr cs0" "snapshot_holds cs0 f" by blast
  from exposes_parse [OF assms(2)] obtain raw1 cs1 where p1: "utf8_decode bytes1 = Some raw1"
    "parse_snapshot (i_unicode I) raw1 = Inr cs1" "snapshot_holds cs1 g" by blast
  have "w_files w2 path0 = Some bytes0" "w_files w2 path1 = Some bytes1" using assms(6) by (simp_all add: w1_def w2_def)
  then have t: "read_text w2 path0 = Inr (universal_newlines raw0)" "read_text w2 path1 = Inr (universal_newlines raw1)"
    using p0(1) p1(1) by (simp_all add: read_text_file)
  from assms(3) obtain r where r: "summary_of I None f g = Inr r" "vr_completed r = n"
    unfolding run_between_def using summary_exists [of n g f I] by blast
  then have s: "summarize_snapshots I raw0 raw1 None = Inr r"
    using summarize_holds [OF p0(2) p1(2) p0(3) p1(3)] by simp
  with t have c3: "vsr_main I (Summarize path0 path1 None fmt) w2 = (vsr_report I fmt r, w2)"
    by (simp add: vsr_main_def summarize_universal_newlines)
  have "map stage_numbers (vr_stages r) = map (\<lambda>stage. (stage, n, g (stage, u ''total_ns'') - f (stage, u ''total_ns''))) VSR_STAGES"
    unfolding summary_numbers [OF r(1)] using assms(3) by (intro map_cong refl) (simp add: run_between_def list_all_iff)
  with c1 c2 c3 r(2) vsr_report_written [OF s, of fmt] show ?thesis by blast
qed

end
