(* ===== verification/CommandLines.thy ===== *)
theory CommandLines
  imports ArgumentFacts SkProgram VsrProgram
begin

section \<open>The programs with their command lines\<close>

text \<open>
  The parsers of the two profile scripts as their \<open>main\<close> functions build them, and the programs from the
  command line to the outcome: the help, a usage error of the command line, or a run of \<open>main\<close> on
  the parsed arguments. Whatever the command line is, the parsed arguments are of the types \<open>main\<close>
  relies on, so that the theorems about \<open>sk_main\<close> and \<open>vsr_main\<close> carry over to the programs; and a command
  line that follows the usage runs \<open>main\<close> on the arguments it spells out.
\<close>

subsection \<open>The parsers\<close>

definition formats :: "ustr list" where
  "formats = map u [''human'', ''json'', ''csv'']"

definition format_option :: option_spec where
  "format_option = \<lparr>os_flag = u ''--format'', os_type = Text, os_choices = Some formats, os_required = False,
     os_default = TextV (u ''human'')\<rparr>"

definition required_option :: "string \<Rightarrow> arg_type \<Rightarrow> option_spec" where
  "required_option flag t = \<lparr>os_flag = u flag, os_type = t, os_choices = None, os_required = True, os_default = Unset\<rparr>"

definition optional_option :: "string \<Rightarrow> arg_type \<Rightarrow> arg_value \<Rightarrow> option_spec" where
  "optional_option flag t v = \<lparr>os_flag = u flag, os_type = t, os_choices = None, os_required = False, os_default = v\<rparr>"

definition sk_parser :: parser where
  "sk_parser = \<lparr>ps_positional = Some (Choice (u ''action'') (map u [''read'', ''reset''])),
     ps_options = [required_option ''--socket'' File, format_option,
       optional_option ''--timeout'' Number (FloatV (Finite 2))]\<rparr>"

definition capture_parser :: parser where
  "capture_parser = \<lparr>ps_positional = None,
     ps_options = [required_option ''--url'' Text, required_option ''--output'' File,
       optional_option ''--timeout'' Number (FloatV (Finite 5))]\<rparr>"

definition summary_parser :: parser where
  "summary_parser = \<lparr>ps_positional = None,
     ps_options = [required_option ''--before'' File, required_option ''--after'' File,
       optional_option ''--expected-completed'' Whole Unset, format_option]\<rparr>"

definition vsr_commands :: "(ustr \<times> parser) list" where
  "vsr_commands = [(u ''capture'', capture_parser), (u ''summarize'', summary_parser)]"

definition vsr_parser :: parser where
  "vsr_parser = \<lparr>ps_positional = Some (Command (u ''action'') (map fst vsr_commands)), ps_options = []\<rparr>"

subsection \<open>The programs\<close>

text \<open>The attributes of the namespace, as \<open>main\<close> reads them.\<close>

definition format_of :: "ustr \<Rightarrow> out_format" where
  "format_of s = (if s = u ''json'' then Json else if s = u ''csv'' then Csv else Human)"

definition sk_action_of :: "ustr \<Rightarrow> sk_action option" where
  "sk_action_of s = (if s = action_text Read then Some Read else if s = action_text Reset then Some Reset else None)"

definition sk_args_of :: "(ustr, arg_value) dict \<Rightarrow> sk_args option" where
  "sk_args_of ns = (case (dict_get ns (u ''action''), dict_get ns (u ''socket''), dict_get ns (u ''format''), dict_get ns (u ''timeout'')) of
     (Some (TextV action), Some (FileV path), Some (TextV fmt), Some (FloatV timeout)) \<Rightarrow>
       map_option (\<lambda>a. \<lparr>sk_action = a, sk_socket = path, sk_format = format_of fmt, sk_timeout = timeout\<rparr>) (sk_action_of action)
   | _ \<Rightarrow> None)"

definition vsr_args_of :: "(ustr, arg_value) dict \<Rightarrow> vsr_args option" where
  "vsr_args_of ns =
     (if dict_get ns (u ''action'') = Some (TextV (u ''capture'')) then
        (case (dict_get ns (u ''url''), dict_get ns (u ''output''), dict_get ns (u ''timeout'')) of
           (Some (TextV url), Some (FileV path), Some (FloatV timeout)) \<Rightarrow> Some (Capture url path timeout) | _ \<Rightarrow> None)
      else (case (dict_get ns (u ''before''), dict_get ns (u ''after''), dict_get ns (u ''expected_completed''), dict_get ns (u ''format'')) of
           (Some (FileV before_path), Some (FileV after_path), Some (IntV n), Some (TextV fmt)) \<Rightarrow>
             Some (Summarize before_path after_path (Some n) (format_of fmt))
         | (Some (FileV before_path), Some (FileV after_path), Some Unset, Some (TextV fmt)) \<Rightarrow>
             Some (Summarize before_path after_path None (format_of fmt))
         | _ \<Rightarrow> None))"

datatype run = Stopped stop | Ran outcome

definition bad_attribute :: pyerr where
  "bad_attribute = AttributeErr ''Namespace''"

definition sk_program :: "interp \<Rightarrow> peer \<Rightarrow> ustr list \<Rightarrow> run option" where
  "sk_program I P argv = (case parse_args (i_unicode I) sk_parser argv of
     Inl s \<Rightarrow> Some (Stopped s)
   | Inr ns \<Rightarrow> (case sk_args_of ns of
       None \<Rightarrow> Some (Ran (Raised bad_attribute)) | Some args \<Rightarrow> map_option Ran (sk_main I P args)))"

definition vsr_program :: "interp \<Rightarrow> ustr list \<Rightarrow> world \<Rightarrow> run \<times> world" where
  "vsr_program I argv w = (case parse_command (i_unicode I) vsr_parser vsr_commands (u ''action'') argv of
     Inl s \<Rightarrow> (Stopped s, w)
   | Inr ns \<Rightarrow> (case vsr_args_of ns of
       None \<Rightarrow> (Ran (Raised bad_attribute), w)
     | Some args \<Rightarrow> (case vsr_main I args w of (out, w') \<Rightarrow> (Ran out, w'))))"

subsection \<open>The namespace has what \<open>main\<close> reads\<close>

lemma option_value_text: "option_value U opt s = Inr v \<Longrightarrow> os_type opt = Text \<Longrightarrow> \<exists>t. v = TextV t"
  and option_value_file: "option_value U opt s = Inr v \<Longrightarrow> os_type opt = File \<Longrightarrow> \<exists>t. v = FileV t"
  and option_value_number: "option_value U opt s = Inr v \<Longrightarrow> os_type opt = Number \<Longrightarrow> \<exists>t. v = FloatV t"
  and option_value_whole: "option_value U opt s = Inr v \<Longrightarrow> os_type opt = Whole \<Longrightarrow> \<exists>t. v = IntV t"
  by (auto simp: option_value_def convert_def split: option.splits if_splits)

lemma dests [simp]:
  "dest (required_option ''--socket'' t) = u ''socket''" "dest (required_option ''--url'' t) = u ''url''"
  "dest (required_option ''--output'' t) = u ''output''" "dest (required_option ''--before'' t) = u ''before''"
  "dest (required_option ''--after'' t) = u ''after''" "dest (optional_option ''--timeout'' t v) = u ''timeout''"
  "dest (optional_option ''--expected-completed'' t v) = u ''expected_completed''" "dest format_option = u ''format''"
  by code_simp+

lemma has_required: "has_option U ns (required_option flag t) \<Longrightarrow>
    \<exists>v. dict_get ns (dest (required_option flag t)) = Some v \<and> (\<exists>s. option_value U (required_option flag t) s = Inr v)"
  by (auto simp: has_option_def required_option_def)

lemma has_path: "has_option U ns (required_option flag File) \<Longrightarrow> \<exists>p. dict_get ns (dest (required_option flag File)) = Some (FileV p)"
  using option_value_file by (fastforce dest!: has_required simp: required_option_def)

lemma has_text: "has_option U ns (required_option flag Text) \<Longrightarrow> \<exists>s. dict_get ns (dest (required_option flag Text)) = Some (TextV s)"
  using option_value_text by (fastforce dest!: has_required simp: required_option_def)

lemma has_int: "has_option U ns (required_option flag Whole) \<Longrightarrow> \<exists>n. dict_get ns (dest (required_option flag Whole)) = Some (IntV n)"
  using option_value_whole by (fastforce dest!: has_required simp: required_option_def)

lemma has_int_default: "has_option U ns (optional_option flag Whole (IntV k)) \<Longrightarrow>
    \<exists>n. dict_get ns (dest (optional_option flag Whole (IntV k))) = Some (IntV n)"
  using option_value_whole by (fastforce simp: has_option_def optional_option_def)

lemma has_number: "has_option U ns (optional_option flag Number (FloatV x)) \<Longrightarrow>
    \<exists>y. dict_get ns (dest (optional_option flag Number (FloatV x))) = Some (FloatV y)"
  using option_value_number by (fastforce simp: has_option_def optional_option_def)

lemma has_whole: "has_option U ns (optional_option flag Whole Unset) \<Longrightarrow>
    dict_get ns (dest (optional_option flag Whole Unset)) = Some Unset \<or>
    (\<exists>n. dict_get ns (dest (optional_option flag Whole Unset)) = Some (IntV n))"
  using option_value_whole by (fastforce simp: has_option_def optional_option_def)

lemma has_format: "has_option U ns format_option \<Longrightarrow> \<exists>s. dict_get ns (u ''format'') = Some (TextV s)"
proof -
  assume h: "has_option U ns format_option"
  have "os_type format_option = Text" "os_default format_option = TextV (u ''human'')"
    by (simp_all add: format_option_def)
  with h show ?thesis using option_value_text by (fastforce simp: has_option_def)
qed

lemma parsers_wf: "wf_parser sk_parser" "wf_parser capture_parser" "wf_parser summary_parser" "wf_parser vsr_parser"
  by code_simp+

lemma sk_args_exist: "complete U sk_parser ns \<Longrightarrow> sk_args_of ns \<noteq> None"
proof -
  assume "complete U sk_parser ns"
  then have h: "has_option U ns (required_option ''--socket'' File)" "has_option U ns format_option"
    "has_option U ns (optional_option ''--timeout'' Number (FloatV (Finite 2)))"
    and a: "\<exists>s \<in> {u ''read'', u ''reset''}. dict_get ns (u ''action'') = Some (TextV s)"
    by (auto simp: complete_def sk_parser_def)
  from has_path [OF h(1)] has_format [OF h(2)] has_number [OF h(3)] a show ?thesis
    by (auto simp: sk_args_of_def sk_action_of_def action_text_def)
qed

lemma vsr_args_exist:
  assumes "(command, sub) \<in> set vsr_commands" "dict_get ns (u ''action'') = Some (TextV command)" "complete U sub ns"
  shows "vsr_args_of ns \<noteq> None"
proof (cases "command = u ''capture''")
  case True
  with assms have "complete U capture_parser ns" by (auto simp: vsr_commands_def)
  then have h: "has_option U ns (required_option ''--url'' Text)" "has_option U ns (required_option ''--output'' File)"
    "has_option U ns (optional_option ''--timeout'' Number (FloatV (Finite 5)))"
    by (auto simp: complete_def capture_parser_def)
  from has_text [OF h(1)] has_path [OF h(2)] has_number [OF h(3)] True assms(2) show ?thesis
    by (auto simp: vsr_args_of_def)
next
  case False
  with assms have "complete U summary_parser ns" by (auto simp: vsr_commands_def)
  then have h: "has_option U ns (required_option ''--before'' File)" "has_option U ns (required_option ''--after'' File)"
    "has_option U ns (optional_option ''--expected-completed'' Whole Unset)" "has_option U ns format_option"
    by (auto simp: complete_def summary_parser_def)
  from has_path [OF h(1)] has_path [OF h(2)] has_whole [OF h(3)] has_format [OF h(4)] False assms(2) show ?thesis
    by (auto simp: vsr_args_of_def)
qed

lemma sk_program_runs:
  "sk_program I P argv = Some run \<Longrightarrow> (\<exists>s. parse_args (i_unicode I) sk_parser argv = Inl s \<and> run = Stopped s) \<or>
     (\<exists>ns args out. parse_args (i_unicode I) sk_parser argv = Inr ns \<and> sk_args_of ns = Some args \<and>
       sk_main I P args = Some out \<and> run = Ran out)"
proof -
  assume r: "sk_program I P argv = Some run"
  show ?thesis
  proof (cases "parse_args (i_unicode I) sk_parser argv")
    case (Inr ns)
    with parse_args_complete_lemma [OF parsers_wf(1)] sk_args_exist obtain args where "sk_args_of ns = Some args" by blast
    with r Inr show ?thesis by (auto simp: sk_program_def)
  qed (use r in \<open>simp add: sk_program_def\<close>)
qed

lemma vsr_program_runs:
  "vsr_program I argv w = (run, w') \<Longrightarrow>
    (\<exists>s. parse_command (i_unicode I) vsr_parser vsr_commands (u ''action'') argv = Inl s \<and> run = Stopped s \<and> w' = w) \<or>
    (\<exists>ns args out. parse_command (i_unicode I) vsr_parser vsr_commands (u ''action'') argv = Inr ns \<and>
       vsr_args_of ns = Some args \<and> vsr_main I args w = (out, w') \<and> run = Ran out)"
proof -
  assume r: "vsr_program I argv w = (run, w')"
  show ?thesis
  proof (cases "parse_command (i_unicode I) vsr_parser vsr_commands (u ''action'') argv")
    case (Inr ns)
    have p: "ps_positional vsr_parser = Some (Command (u ''action'') (map fst vsr_commands))" by (simp add: vsr_parser_def)
    have subs: "list_all (\<lambda>(_, sub). wf_parser sub \<and> ps_positional sub = None \<and> u ''action'' \<notin> set (map dest (ps_options sub))) vsr_commands"
      by code_simp
    from parse_command_complete [OF parsers_wf(4) p subs Inr] vsr_args_exist obtain args where "vsr_args_of ns = Some args" by blast
    with r Inr show ?thesis by (auto simp: vsr_program_def split: prod.splits)
  qed (use r in \<open>simp add: vsr_program_def\<close>)
qed

subsection \<open>What a command line means\<close>

text \<open>
  The options of the scripts with the texts they take, told from the usage alone. A command line is
  a list of items in any order: the action, and options with their text joined or apart; an option may be
  cut to three characters or more, since its third character tells it from the others.
\<close>

type_synonym usage = "(ustr \<times> (ustr \<Rightarrow> bool)) list"

definition plain_text :: "ustr \<Rightarrow> bool" where
  "plain_text s \<longleftrightarrow> s = [] \<or> hd s \<noteq> 45"

fun well_spelled :: "ustr list \<Rightarrow> usage \<Rightarrow> item \<Rightarrow> bool" where
  "well_spelled actions us (Word s) = (s \<in> set actions)"
| "well_spelled actions us (Joined name s) = list_ex (\<lambda>(flag, fits). stands_for name flag \<and> fits s) us"
| "well_spelled actions us (Apart name s) = (list_ex (\<lambda>(flag, fits). stands_for name flag \<and> fits s) us \<and> plain_text s)"

definition sk_usage :: "unidb \<Rightarrow> usage" where
  "sk_usage U = [(u ''--socket'', \<lambda>s. True), (u ''--format'', \<lambda>s. s \<in> set (map u [''human'', ''json'', ''csv''])),
     (u ''--timeout'', \<lambda>s. float_text U s \<noteq> None)]"

definition capture_usage :: "unidb \<Rightarrow> usage" where
  "capture_usage U = [(u ''--url'', \<lambda>s. True), (u ''--output'', \<lambda>s. True), (u ''--timeout'', \<lambda>s. float_text U s \<noteq> None)]"

definition summary_usage :: "unidb \<Rightarrow> usage" where
  "summary_usage U = [(u ''--before'', \<lambda>s. True), (u ''--after'', \<lambda>s. True),
     (u ''--expected-completed'', \<lambda>s. int_text U s \<noteq> None), (u ''--format'', \<lambda>s. s \<in> set (map u [''human'', ''json'', ''csv'']))]"

text \<open>The arguments such a command line means: an error that names what is missing, or the last text of every option.\<close>

definition unless_missing :: "ustr list \<Rightarrow> 'a \<Rightarrow> stop + 'a" where
  "unless_missing names x = (if names \<noteq> [] then Inl (Misuse (MissingArguments names)) else Inr x)"

definition absent :: "item list \<Rightarrow> ustr list \<Rightarrow> ustr list" where
  "absent items flags = filter (\<lambda>flag. last_text flag items = None) flags"

definition format_meant :: "item list \<Rightarrow> out_format" where
  "format_meant items = (if last_text (u ''--format'') items = Some (u ''json'') then Json
     else if last_text (u ''--format'') items = Some (u ''csv'') then Csv else Human)"

definition timeout_meant :: "unidb \<Rightarrow> rat \<Rightarrow> item list \<Rightarrow> float_number" where
  "timeout_meant U seconds items = (case last_text (u ''--timeout'') items of None \<Rightarrow> Finite seconds | Some s \<Rightarrow> the (float_text U s))"

definition sk_meant :: "unidb \<Rightarrow> item list \<Rightarrow> stop + sk_args" where
  "sk_meant U items = unless_missing
     ((if list_ex is_word items then [] else [u ''action'']) @ absent items [u ''--socket''])
     \<lparr>sk_action = (if Word (u ''reset'') \<in> set items then Reset else Read), sk_socket = path_text (the (last_text (u ''--socket'') items)),
      sk_format = format_meant items, sk_timeout = timeout_meant U 2 items\<rparr>"

definition capture_meant :: "unidb \<Rightarrow> item list \<Rightarrow> stop + vsr_args" where
  "capture_meant U items = unless_missing (absent items (map u [''--url'', ''--output'']))
     (Capture (the (last_text (u ''--url'') items)) (path_text (the (last_text (u ''--output'') items))) (timeout_meant U 5 items))"

definition summary_meant :: "unidb \<Rightarrow> item list \<Rightarrow> stop + vsr_args" where
  "summary_meant U items = unless_missing (absent items (map u [''--before'', ''--after'']))
     (Summarize (path_text (the (last_text (u ''--before'') items))) (path_text (the (last_text (u ''--after'') items)))
       (map_option (\<lambda>s. the (int_text U s)) (last_text (u ''--expected-completed'') items)) (format_meant items))"

lemma option_values:
  "option_value U (required_option flag File) s = Inr (FileV (path_text s))"
  "option_value U (required_option flag Text) s = Inr (TextV s)"
  "float_text U s = Some x \<Longrightarrow> option_value U (optional_option flag Number d) s = Inr (FloatV x)"
  "int_text U s = Some i \<Longrightarrow> option_value U (optional_option flag Whole d) s = Inr (IntV i)"
  "s \<in> set formats \<Longrightarrow> option_value U format_option s = Inr (TextV s)"
  by (auto simp: option_value_def convert_def required_option_def optional_option_def format_option_def)

lemma told_apart_parsers: "told_apart sk_parser" "told_apart capture_parser" "told_apart summary_parser"
  by code_simp+

lemma plain_text_argument: "plain_text s \<Longrightarrow> plain_argument U ps s"
  by (auto simp: plain_text_def plain_argument_def parse_optional_def)

text \<open>The options of a parser are those of a usage, and take the texts the usage allows.\<close>

definition serves :: "unidb \<Rightarrow> parser \<Rightarrow> usage \<Rightarrow> bool" where
  "serves U ps us \<longleftrightarrow> list_all (\<lambda>(flag, fits). \<exists>opt \<in> set (ps_options ps). os_flag opt = flag \<and>
     (\<forall>s. fits s \<longrightarrow> (\<exists>v. option_value U opt s = Inr v))) us"

lemma well_spelled_sensible:
  assumes "serves U ps us" "well_spelled actions us item"
    and "\<And>s. s \<in> set actions \<Longrightarrow> sensible U ps (Word s)"
  shows "sensible U ps item"
proof -
  have opt: "\<exists>opt v. opt \<in> set (ps_options ps) \<and> stands_for name (os_flag opt) \<and> option_value U opt s = Inr v"
    if "list_ex (\<lambda>(flag, fits). stands_for name flag \<and> fits s) us" for name s
  proof -
    from that obtain flag fits where f: "(flag, fits) \<in> set us" "stands_for name flag" "fits s" by (auto simp: list_ex_iff)
    with assms(1) obtain opt where "opt \<in> set (ps_options ps)" "os_flag opt = flag" "\<exists>v. option_value U opt s = Inr v"
      unfolding serves_def list_all_iff by fastforce
    with f(2) show ?thesis by blast
  qed
  show ?thesis
  proof (cases item)
    case (Word s)
    with assms(2,3) show ?thesis by simp
  qed (use assms(2) opt plain_text_argument in auto)
qed

lemma parsers_serve: "serves U sk_parser (sk_usage U)" "serves U capture_parser (capture_usage U)" "serves U summary_parser (summary_usage U)"
proof -
  have flags: "os_flag (required_option flag t) = u flag" "os_flag (optional_option flag t d) = u flag" "os_flag format_option = u ''--format''" for flag t d
    by (simp_all add: required_option_def optional_option_def format_option_def)
  have number: "float_text U s \<noteq> None \<Longrightarrow> \<exists>v. option_value U (optional_option flag Number d) s = Inr v" for flag d s
    using option_values(3) by blast
  have whole: "int_text U s \<noteq> None \<Longrightarrow> \<exists>v. option_value U (optional_option flag Whole d) s = Inr v" for flag d s
    using option_values(4) by blast
  have fmt: "s \<in> set (map u [''human'', ''json'', ''csv'']) \<Longrightarrow> \<exists>v. option_value U format_option s = Inr v" for s
    using option_values(5) [of s U] unfolding formats_def by blast
  show "serves U sk_parser (sk_usage U)" "serves U capture_parser (capture_usage U)" "serves U summary_parser (summary_usage U)"
    using number whole fmt option_values(1,2) unfolding serves_def sk_usage_def capture_usage_def summary_usage_def
      sk_parser_def capture_parser_def summary_parser_def
    by (simp_all add: flags)
qed

lemma left_out_options:
  assumes "wf_parser ps" "told_apart ps" "list_all (sensible U ps) items"
  shows "left_out U ps items = (case ps_positional ps of None \<Rightarrow> [] | Some p \<Rightarrow> if list_ex is_word items then [] else [positional_dest p]) @
     absent items (map os_flag (filter os_required (ps_options ps)))"
proof -
  have "filter (\<lambda>opt. os_required opt \<and> dest opt \<notin> set (given U ps items)) (ps_options ps) =
      filter (\<lambda>opt. os_required opt \<and> last_text (os_flag opt) items = None) (ps_options ps)"
    by (rule filter_cong) (use sensible_given [OF assms] in auto)
  then show ?thesis by (simp add: left_out_def absent_def filter_map comp_def conj_commute)
qed

lemma stored_values:
  assumes "wf_parser ps" "told_apart ps" "list_all (sensible U ps) items" "serves U ps us" "list_all (well_spelled actions us) items"
  shows "required_option flag t \<in> set (ps_options ps) \<Longrightarrow> last_text (u flag) items = Some s \<Longrightarrow>
      dict_get (stored U ps items) (dest (required_option flag t)) = Some (projr (option_value U (required_option flag t) s))"
    and "optional_option flag t d \<in> set (ps_options ps) \<Longrightarrow>
      dict_get (stored U ps items) (dest (optional_option flag t d)) = (case last_text (u flag) items of
        None \<Rightarrow> Some d | Some s \<Rightarrow> Some (projr (option_value U (optional_option flag t d) s)))"
    and "format_option \<in> set (ps_options ps) \<Longrightarrow> dict_get (stored U ps items) (u ''format'') = (case last_text (u ''--format'') items of
        None \<Rightarrow> Some (TextV (u ''human'')) | Some s \<Rightarrow> Some (projr (option_value U format_option s)))"
proof -
  have f: "os_flag (required_option flag t) = u flag" "os_flag (optional_option flag t d) = u flag" "os_flag format_option = u ''--format''"
    "os_default (optional_option flag t d) = d" "os_default format_option = TextV (u ''human'')" for flag t d
    by (simp_all add: required_option_def optional_option_def format_option_def)
  note s = stored_option [OF assms(1-3)]
  show "required_option flag t \<in> set (ps_options ps) \<Longrightarrow> last_text (u flag) items = Some s \<Longrightarrow>
      dict_get (stored U ps items) (dest (required_option flag t)) = Some (projr (option_value U (required_option flag t) s))"
    using s [of "required_option flag t"] unfolding f by simp
  show "optional_option flag t d \<in> set (ps_options ps) \<Longrightarrow>
      dict_get (stored U ps items) (dest (optional_option flag t d)) = (case last_text (u flag) items of
        None \<Rightarrow> Some d | Some s \<Rightarrow> Some (projr (option_value U (optional_option flag t d) s)))"
    using s [of "optional_option flag t d"] unfolding f by simp
  show "format_option \<in> set (ps_options ps) \<Longrightarrow> dict_get (stored U ps items) (u ''format'') = (case last_text (u ''--format'') items of
        None \<Rightarrow> Some (TextV (u ''human'')) | Some s \<Rightarrow> Some (projr (option_value U format_option s)))"
    using s [of format_option] unfolding f by simp
qed

text \<open>The text that is stored fits its option.\<close>

lemma last_text_fits:
  assumes "list_all (well_spelled actions us) items" "last_text flag items = Some s" "(flag, fits) \<in> set us"
    and "list_all (\<lambda>(f, _). f = flag \<or> take 3 f \<noteq> take 3 flag) us" "distinct (map fst us)"
  shows "fits s"
  using assms(1,2)
proof (induction items rule: rev_induct)
  case (snoc item items)
  have fits: "fits s" if "list_ex (\<lambda>(f, ok). stands_for name f \<and> ok s) us" "stands_for name flag" for name
  proof -
    from that(1) obtain f ok where f: "(f, ok) \<in> set us" "stands_for name f" "ok s" by (auto simp: list_ex_iff)
    have "take 3 f = take 3 name" "take 3 flag = take 3 name"
      using f(2) that(2) by (auto simp: stands_for_def starts_with_def prefix_def)
    with assms(4) f(1) have "f = flag" by (auto simp: list_all_iff)
    with f(1) assms(3,5) have "ok = fits" by (metis map_of_is_SomeI option.inject)
    with f(3) show ?thesis by simp
  qed
  show ?case
  proof (cases "text_for flag item")
    case None
    with snoc show ?thesis by (simp add: last_text_def)
  next
    case (Some s')
    with snoc.prems have "text_for flag item = Some s" "well_spelled actions us item" by (simp_all add: last_text_def)
    with fits show ?thesis by (cases item) (auto split: if_splits)
  qed
qed (simp add: last_text_def)

lemma only_word:
  assumes "Word s \<in> set items" "Word t \<in> set items" "length (filter is_word items) \<le> 1" shows "s = t"
proof (rule ccontr)
  assume "s \<noteq> t"
  then have "card {Word s, Word t} = 2" by simp
  moreover have "{Word s, Word t} \<subseteq> set (filter is_word items)" using assms(1,2) by simp
  then have "card {Word s, Word t} \<le> card (set (filter is_word items))" by (intro card_mono) simp_all
  moreover have "card (set (filter is_word items)) \<le> length (filter is_word items)" by (rule card_length)
  ultimately show False using assms(3) by simp
qed

text \<open>Two usages that tell their options apart, as \<open>last_text_fits\<close> needs it.\<close>

definition clear_usage :: "usage \<Rightarrow> bool" where
  "clear_usage us \<longleftrightarrow> distinct (map fst us) \<and> list_all (\<lambda>(f, _). list_all (\<lambda>(g, _). f = g \<or> take 3 f \<noteq> take 3 g) us) us"

lemma clear_usages: "clear_usage (sk_usage U)" "clear_usage (capture_usage U)" "clear_usage (summary_usage U)"
  by (simp_all add: clear_usage_def sk_usage_def capture_usage_def summary_usage_def) (simp_all add: u_def)

lemma last_fits:
  "clear_usage us \<Longrightarrow> list_all (well_spelled actions us) items \<Longrightarrow> last_text flag items = Some s \<Longrightarrow> (flag, fits) \<in> set us \<Longrightarrow> fits s"
  by (rule last_text_fits) (force simp: clear_usage_def list_all_iff)+

lemma stored_format:
  assumes "wf_parser ps" "told_apart ps" "list_all (sensible U ps) items" "serves U ps us" "list_all (well_spelled actions us) items"
    and "clear_usage us" "format_option \<in> set (ps_options ps)" "(u ''--format'', \<lambda>s. s \<in> set (map u [''human'', ''json'', ''csv''])) \<in> set us"
  shows "\<exists>s. dict_get (stored U ps items) (u ''format'') = Some (TextV s) \<and> format_of s = format_meant items"
proof (cases "last_text (u ''--format'') items")
  case (Some s)
  from last_fits [OF assms(6,5) Some assms(8)] have "s \<in> set formats" by (simp add: formats_def)
  with Some stored_values(3) [OF assms(1-5,7)] show ?thesis
    by (auto simp: option_values(5) format_meant_def format_of_def)
qed (use stored_values(3) [OF assms(1-5,7)] in \<open>simp add: format_meant_def format_of_def\<close>)

lemma stored_timeout:
  assumes "wf_parser ps" "told_apart ps" "list_all (sensible U ps) items" "serves U ps us" "list_all (well_spelled actions us) items"
    and "clear_usage us" "optional_option ''--timeout'' Number (FloatV (Finite q)) \<in> set (ps_options ps)"
      "(u ''--timeout'', \<lambda>s. float_text U s \<noteq> None) \<in> set us"
  shows "dict_get (stored U ps items) (u ''timeout'') = Some (FloatV (timeout_meant U q items))"
proof (cases "last_text (u ''--timeout'') items")
  case (Some s)
  from last_fits [OF assms(6,5) Some assms(8)] obtain x where "float_text U s = Some x" by blast
  with Some stored_values(2) [OF assms(1-5,7)] show ?thesis
    by (simp add: option_values(3) timeout_meant_def)
qed (use stored_values(2) [OF assms(1-5,7)] in \<open>simp add: timeout_meant_def\<close>)

text \<open>The three command lines.\<close>

lemma sk_items:
  assumes "list_all (well_spelled (map u [''read'', ''reset'']) (sk_usage U)) items" "length (filter is_word items) \<le> 1"
  shows "case sk_meant U items of
      Inl s \<Rightarrow> parse_args U sk_parser (concat (map spell items)) = Inl s
    | Inr args \<Rightarrow> \<exists>ns. parse_args U sk_parser (concat (map spell items)) = Inr ns \<and> sk_args_of ns = Some args"
proof -
  let ?ps = sk_parser
  note base = parsers_wf(1) told_apart_parsers(1)
  have p: "ps_positional ?ps = Some (Choice (u ''action'') (map u [''read'', ''reset'']))" by (simp add: sk_parser_def)
  have words: "list_all (\<lambda>s. sensible U ?ps (Word s)) (map u [''read'', ''reset''])"
    using plain_text_argument [of _ U ?ps] unfolding sensible.simps p by (simp add: plain_text_def u_def)
  have sens: "list_all (sensible U ?ps) items"
    using assms(1) well_spelled_sensible [OF parsers_serve(1)] words unfolding list_all_iff by blast
  have left: "left_out U ?ps items = (if list_ex is_word items then [] else [u ''action'']) @ absent items [u ''--socket'']"
    unfolding left_out_options [OF base sens] p
    by (simp add: sk_parser_def required_option_def optional_option_def format_option_def)
  have "length (filter is_word items) \<le> (if ps_positional ?ps = None then 0 else 1)" using assms(2) p by simp
  note parse = command_line_read_back [OF base(1) sensible_meant [OF base sens] this, folded stored_def]
  show ?thesis
  proof (cases "left_out U ?ps items = []")
    case False
    then show ?thesis unfolding parse sk_meant_def unless_missing_def left [symmetric] by simp
  next
    case True
    let ?ns = "stored U ?ps items"
    note known = base sens parsers_serve(1) assms(1)
    from True left obtain path where path: "last_text (u ''--socket'') items = Some path" and w: "list_ex is_word items"
      by (auto simp: absent_def split: if_splits)
    from w obtain word where word: "Word word \<in> set items" unfolding list_ex_iff by (metis is_word.elims(2))
    with assms(1) have "word = u ''read'' \<or> word = u ''reset''" unfolding list_all_iff by fastforce
    then have act: "sk_action_of word = Some (if Word (u ''reset'') \<in> set items then Reset else Read)"
      using word only_word [OF _ word assms(2), of "u ''reset''"] by (auto simp: sk_action_of_def action_text_def)
    have action: "dict_get ?ns (u ''action'') = Some (TextV word)"
      by (rule stored_positional [OF base sens p word assms(2)])
    have socket: "dict_get ?ns (u ''socket'') = Some (FileV (path_text path))"
      using stored_values(1) [OF known _ path, of File] by (simp add: sk_parser_def option_values)
    obtain fmt where format: "dict_get ?ns (u ''format'') = Some (TextV fmt)" "format_of fmt = format_meant items"
      using stored_format [OF known clear_usages(1)] by (auto simp: sk_parser_def sk_usage_def)
    have timeout: "dict_get ?ns (u ''timeout'') = Some (FloatV (timeout_meant U 2 items))"
      by (rule stored_timeout [OF known clear_usages(1)]) (simp_all add: sk_parser_def sk_usage_def)
    have "sk_meant U items = Inr \<lparr>sk_action = (if Word (u ''reset'') \<in> set items then Reset else Read),
        sk_socket = path_text path, sk_format = format_meant items, sk_timeout = timeout_meant U 2 items\<rparr>"
      using path w by (simp add: sk_meant_def unless_missing_def absent_def)
    then show ?thesis
      using parse True action socket format timeout act by (simp add: sk_args_of_def)
  qed
qed

text \<open>
  A parser without a positional: the items are its options, and no action may be among them. What the
  main parser does with a subcommand: it has no options, so it only takes the name of the command.
\<close>

lemma only_options:
  assumes "serves U ps us" "list_all (well_spelled [] us) items"
  shows "list_all (sensible U ps) items" "filter is_word items = []"
proof -
  show "list_all (sensible U ps) items"
    using assms well_spelled_sensible [OF assms(1), of "[]"] unfolding list_all_iff by simp
  have "\<not> is_word item" if "item \<in> set items" for item
    using assms(2) that by (cases item) (auto simp: list_all_iff)
  then show "filter is_word items = []" by simp
qed

lemma no_options_parse: "\<exists>m. parse_optional U vsr_parser s = Inr m"
proof -
  have o: "option_strings vsr_parser = [(u ''-h'', Help), (u ''--help'', Help)]" by (simp add: option_strings_def vsr_parser_def)
  have "length (option_tuples vsr_parser s) \<le> 1" if s: "1 < length s"
  proof (cases "take 2 s = [45, 45]")
    case True
    then obtain t where t: "s = 45 # 45 # t" using two_dashes by blast
    then obtain name joined where n: "split_once 61 s = (45 # 45 # name, joined)" by (simp add: split_once_def)
    then show ?thesis using True by (simp add: option_tuples_def o starts_with_def u_def)
  next
    case False
    obtain c d t where "s = c # d # t" using s by (cases s; cases "tl s") auto
    with False show ?thesis
      unfolding option_tuples_def if_not_P [OF False] by (auto simp: o starts_with_def u_def)
  qed
  then show ?thesis
    by (cases s; cases "tl s") (auto simp: parse_optional_def guessed_option_def split: option.split list.split)
qed

lemma classify_commands: "\<exists>ks. classify U vsr_parser argv = Inr ks \<and> map snd ks = argv"
proof (induction argv)
  case (Cons s argv)
  then obtain ks where "classify U vsr_parser argv = Inr ks" "map snd ks = argv" by blast
  moreover obtain m where "parse_optional U vsr_parser s = Inr m" using no_options_parse by blast
  ultimately show ?case by (auto simp: comp_def)
qed simp

lemma parse_subcommand:
  assumes "dict_get vsr_commands s = Some sub"
  shows "parse_command U vsr_parser vsr_commands (u ''action'') (s # argv) =
    bind_res (parse_known_args U sub argv) (\<lambda>st. recognized (pa_extras st) (copy_names (pa_names st) [(u ''action'', TextV s)]))"
proof -
  have s: "s = u ''capture'' \<or> s = u ''summarize''" using assms by (auto simp: vsr_commands_def split: if_splits)
  then have a: "s \<noteq> [45, 45]" "parse_optional U vsr_parser s = Inr None" by (auto simp: parse_optional_def u_def)
  obtain ks where ks: "classify U vsr_parser argv = Inr ks" "map snd ks = argv" using classify_commands by blast
  have "s \<in> set (map fst vsr_commands)" using s by (auto simp: vsr_commands_def)
  then have "parse_known_args U vsr_parser (s # argv) =
      Inr \<lparr>pa_names = [(u ''action'', TextV s)], pa_seen = [], pa_expects = None, pa_rest = argv, pa_extras = []\<rparr>"
    using a ks by (auto simp: parse_known_args_def misuse_def vsr_parser_def last_positionals_def take_positional_def
        parsing_init_def defaults_def missing_def is_dashes_def Let_def)
  then show ?thesis using assms by (simp add: parse_command_def)
qed

lemma subcommand_items:
  assumes "dict_get vsr_commands s = Some sub" "ps_positional sub = None" "wf_parser sub" "told_apart sub"
    and "serves U sub us" "list_all (well_spelled [] us) items"
    and "u ''action'' \<notin> set (map dest (ps_options sub))"
  shows "parse_command U vsr_parser vsr_commands (u ''action'') (s # concat (map spell items)) =
    (if absent items (map os_flag (filter os_required (ps_options sub))) \<noteq> []
     then Inl (Misuse (MissingArguments (absent items (map os_flag (filter os_required (ps_options sub))))))
     else Inr (copy_names (stored U sub items) [(u ''action'', TextV s)]))"
proof -
  note o = only_options [OF assms(5,6)]
  have l: "left_out U sub items = absent items (map os_flag (filter os_required (ps_options sub)))"
    unfolding left_out_options [OF assms(3,4) o(1)] assms(2) by simp
  have "length (filter is_word items) \<le> (if ps_positional sub = None then 0 else 1)" using o(2) assms(2) by simp
  from parse_known_items [OF assms(3) sensible_meant [OF assms(3,4) o(1)] this, folded stored_def] show ?thesis
    unfolding parse_subcommand [OF assms(1)] l by (simp add: recognized_def parsing_init_def)
qed

lemma stored_action:
  assumes "wf_parser sub" "told_apart sub" "list_all (sensible U sub) items" "filter is_word items = []"
    and "u ''action'' \<notin> set (map dest (ps_options sub))" "ps_positional sub = None"
  shows "dict_get (stored U sub items) (u ''action'') = None"
  using assms(3,4)
proof (induction items rule: rev_induct)
  case Nil
  show ?case using assms(5,6) by (auto simp: stored_def meant_def defaults_def map_of_eq_None_iff)
next
  case (snoc item items)
  from snoc.prems have it: "sensible U sub item" "\<not> is_word item" by (auto split: if_splits)
  from sensible_meaning [OF assms(1,2) it] obtain o' v where
    o': "o' \<in> set (ps_options sub)" "meaning U sub item = Some (dest o', v)" by blast
  moreover have "stored U sub (items @ [item]) = (case the (meaning U sub item) of (k, v) \<Rightarrow> dict_set k v (stored U sub items))"
    by (simp add: stored_def meant_def split: prod.split)
  moreover have "dest o' \<noteq> u ''action''" using o'(1) assms(5) unfolding set_map by (metis imageI)
  ultimately show ?case using snoc by auto
qed

lemma capture_items:
  assumes "list_all (well_spelled [] (capture_usage U)) items"
  shows "case capture_meant U items of
      Inl s \<Rightarrow> parse_command U vsr_parser vsr_commands (u ''action'') (u ''capture'' # concat (map spell items)) = Inl s
    | Inr args \<Rightarrow> \<exists>ns. parse_command U vsr_parser vsr_commands (u ''action'') (u ''capture'' # concat (map spell items)) = Inr ns \<and>
        vsr_args_of ns = Some args"
proof -
  let ?ps = capture_parser
  note base = parsers_wf(2) told_apart_parsers(2)
  have p: "ps_positional ?ps = None" "dict_get vsr_commands (u ''capture'') = Some ?ps" by (simp_all add: capture_parser_def vsr_commands_def)
  have a: "u ''action'' \<notin> set (map dest (ps_options ?ps))" by (simp add: capture_parser_def)
  have r: "map os_flag (filter os_required (ps_options ?ps)) = map u [''--url'', ''--output'']"
    by (simp add: capture_parser_def required_option_def optional_option_def)
  note parse = subcommand_items [OF p(2,1) base parsers_serve(2) assms a, unfolded r]
  note sens = only_options [OF parsers_serve(2) assms]
  note known = base sens(1) parsers_serve(2) assms
  show ?thesis
  proof (cases "absent items (map u [''--url'', ''--output'']) = []")
    case False
    then show ?thesis unfolding parse capture_meant_def unless_missing_def by simp
  next
    case True
    then obtain url path where given: "last_text (u ''--url'') items = Some url" "last_text (u ''--output'') items = Some path"
      by (auto simp: absent_def split: if_splits)
    let ?ns = "stored U ?ps items"
    have "dict_get ?ns (u ''url'') = Some (TextV url)" "dict_get ?ns (u ''output'') = Some (FileV (path_text path))"
      using stored_values(1) [OF known _ given(1), of Text] stored_values(1) [OF known _ given(2), of File]
      by (simp_all add: capture_parser_def option_values)
    moreover have "dict_get ?ns (u ''timeout'') = Some (FloatV (timeout_meant U 5 items))"
      by (rule stored_timeout [OF known clear_usages(2)]) (simp_all add: capture_parser_def capture_usage_def)
    moreover have "dict_get ?ns (u ''action'') = None" by (rule stored_action [OF base sens a p(1)])
    ultimately show ?thesis
      unfolding parse using True given
      by (simp add: capture_meant_def unless_missing_def vsr_args_of_def copy_names_get)
  qed
qed

lemma summary_items:
  assumes "list_all (well_spelled [] (summary_usage U)) items"
  shows "case summary_meant U items of
      Inl s \<Rightarrow> parse_command U vsr_parser vsr_commands (u ''action'') (u ''summarize'' # concat (map spell items)) = Inl s
    | Inr args \<Rightarrow> \<exists>ns. parse_command U vsr_parser vsr_commands (u ''action'') (u ''summarize'' # concat (map spell items)) = Inr ns \<and>
        vsr_args_of ns = Some args"
proof -
  let ?ps = summary_parser
  note base = parsers_wf(3) told_apart_parsers(3)
  have p: "ps_positional ?ps = None" "dict_get vsr_commands (u ''summarize'') = Some ?ps" by (simp_all add: summary_parser_def vsr_commands_def)
  have a: "u ''action'' \<notin> set (map dest (ps_options ?ps))" by (simp add: summary_parser_def)
  have r: "map os_flag (filter os_required (ps_options ?ps)) = map u [''--before'', ''--after'']"
    by (simp add: summary_parser_def required_option_def optional_option_def format_option_def)
  note parse = subcommand_items [OF p(2,1) base parsers_serve(3) assms a, unfolded r]
  note sens = only_options [OF parsers_serve(3) assms]
  note known = base sens(1) parsers_serve(3) assms
  show ?thesis
  proof (cases "absent items (map u [''--before'', ''--after'']) = []")
    case False
    then show ?thesis unfolding parse summary_meant_def unless_missing_def by simp
  next
    case True
    then obtain path0 path1 where given: "last_text (u ''--before'') items = Some path0" "last_text (u ''--after'') items = Some path1"
      by (auto simp: absent_def split: if_splits)
    let ?ns = "stored U ?ps items"
    have paths: "dict_get ?ns (u ''before'') = Some (FileV (path_text path0))" "dict_get ?ns (u ''after'') = Some (FileV (path_text path1))"
      using stored_values(1) [OF known _ given(1), of File] stored_values(1) [OF known _ given(2), of File]
      by (simp_all add: summary_parser_def option_values)
    obtain fmt where format: "dict_get ?ns (u ''format'') = Some (TextV fmt)" "format_of fmt = format_meant items"
      using stored_format [OF known clear_usages(3)] by (auto simp: summary_parser_def summary_usage_def)
    have action: "dict_get ?ns (u ''action'') = None" by (rule stored_action [OF base sens a p(1)])
    have n: "dict_get ?ns (u ''expected_completed'') = (case last_text (u ''--expected-completed'') items of
        None \<Rightarrow> Some Unset | Some s \<Rightarrow> Some (IntV (the (int_text U s))))"
    proof (cases "last_text (u ''--expected-completed'') items")
      case (Some s)
      then have "int_text U s \<noteq> None"
        by (rule last_fits [OF clear_usages(3) assms]) (simp add: summary_usage_def)
      then obtain i where "int_text U s = Some i" by blast
      with Some stored_values(2) [OF known, of "''--expected-completed''" Whole Unset] show ?thesis
        by (simp add: summary_parser_def option_values(4))
    qed (use stored_values(2) [OF known, of "''--expected-completed''" Whole Unset] in \<open>simp add: summary_parser_def\<close>)
    show ?thesis
      unfolding parse using True given paths format action n
      by (simp add: summary_meant_def unless_missing_def vsr_args_of_def copy_names_get split: option.split)
  qed
qed

subsection \<open>The programs on every command line\<close>

text \<open>C6. Whatever the command line, the only exceptions that escape the profile reader are the OverflowError of
  the division, when reading, and the OverflowError of a timeout that is too large: a command line is
  answered with the help, a usage error, or a run on arguments of the right types, and every other
  failure of the socket, the response or its checks ends with a usage error.\<close>

theorem sk_program_escapes:
  assumes "sk_program I P argv = Some (Ran (Raised e))" and "peer_reports P"
  shows "\<exists>ns args. parse_args (i_unicode I) sk_parser argv = Inr ns \<and> sk_args_of ns = Some args \<and>
    (e = overflow \<and> sk_action args = Read \<or> e = timeout_overflow \<and> settimeout (sk_timeout args) = Inl e)"
proof -
  from sk_program_runs [OF assms(1)] obtain ns args where
    "parse_args (i_unicode I) sk_parser argv = Inr ns" "sk_args_of ns = Some args" "sk_main I P args = Some (Raised e)" by auto
  with sk_main_raised [OF _ assms(2)] show ?thesis by blast
qed

text \<open>C7. The snapshot program is safe on every command line: the help, a usage error of the command line and
  a summary change no file; a capture changes no file but its output, writes nothing unless the response was
  fetched, decoded and validated as a snapshot, and leaves the bytes of the response when it succeeds, or
  the file as before, or, when the write itself failed, a beginning of those bytes.\<close>

theorem vsr_program_safe:
  assumes "vsr_program I argv w = (run, w')"
  shows "case run of
      Stopped _ \<Rightarrow> w' = w
    | Ran out \<Rightarrow> \<exists>ns args. parse_command (i_unicode I) vsr_parser vsr_commands (u ''action'') argv = Inr ns \<and>
        vsr_args_of ns = Some args \<and> (case args of
          Summarize _ _ _ _ \<Rightarrow> w' = w
        | Capture url path timeout \<Rightarrow> (case out of
            Exit _ _ \<Rightarrow> \<exists>bytes raw. fetched_snapshot (i_unicode I) w url timeout bytes raw \<and>
              w' = w\<lparr>w_files := (w_files w)(path \<mapsto> bytes)\<rparr>
          | _ \<Rightarrow> w' = w \<or> (\<exists>bytes raw n e. fetched_snapshot (i_unicode I) w url timeout bytes raw \<and>
              w_full w path = Some (n, e) \<and> w' = w\<lparr>w_files := (w_files w)(path \<mapsto> take n bytes)\<rparr>)))"
proof (cases run)
  case (Stopped s)
  with vsr_program_runs [OF assms] show ?thesis by auto
next
  case (Ran out)
  with vsr_program_runs [OF assms] obtain ns args where
    p: "parse_command (i_unicode I) vsr_parser vsr_commands (u ''action'') argv = Inr ns" "vsr_args_of ns = Some args"
    and m: "vsr_main I args w = (out, w')" by auto
  have "case args of Summarize _ _ _ _ \<Rightarrow> w' = w
      | Capture url path timeout \<Rightarrow> (case out of
          Exit _ _ \<Rightarrow> \<exists>bytes raw. fetched_snapshot (i_unicode I) w url timeout bytes raw \<and>
            w' = w\<lparr>w_files := (w_files w)(path \<mapsto> bytes)\<rparr>
        | _ \<Rightarrow> w' = w \<or> (\<exists>bytes raw n e. fetched_snapshot (i_unicode I) w url timeout bytes raw \<and>
            w_full w path = Some (n, e) \<and> w' = w\<lparr>w_files := (w_files w)(path \<mapsto> take n bytes)\<rparr>))"
  proof (cases args)
    case (Capture url path timeout)
    show ?thesis unfolding Capture vsr_args.case by (rule capture_safe [OF m [unfolded Capture]])
  next
    case (Summarize b a wanted fmt)
    with m show ?thesis by (simp add: vsr_main_def)
  qed
  with p show ?thesis unfolding Ran run.case by blast
qed

text \<open>C8. Whatever the command line, only these exceptions leave the snapshot program: when summarizing, the
  OverflowError of the division; when capturing, an exception of the HTTP exchange that is neither an OSError
  nor a ValueError, such as one of \<open>http.client\<close>. Every other failure is a usage error, and a run that
  returns has status 0.\<close>

theorem vsr_program_escapes:
  assumes "vsr_program I argv w = (Ran out, w')" and "files_report w"
  shows "\<exists>ns args. parse_command (i_unicode I) vsr_parser vsr_commands (u ''action'') argv = Inr ns \<and> vsr_args_of ns = Some args \<and>
    (case out of
      Raised e \<Rightarrow> (case args of Capture url path timeout \<Rightarrow> w_fetch w url timeout = Inl e \<and> \<not> reported e
        | Summarize _ _ _ _ \<Rightarrow> e = overflow)
    | UsageError e \<Rightarrow> reported e
    | Exit code _ \<Rightarrow> code = 0)"
proof -
  from vsr_program_runs [OF assms(1)] obtain ns args where
    "parse_command (i_unicode I) vsr_parser vsr_commands (u ''action'') argv = Inr ns" "vsr_args_of ns = Some args"
    "vsr_main I args w = (out, w')" by auto
  with vsr_main_escapes [OF _ assms(2)] show ?thesis by blast
qed

text \<open>C9. The command lines of the two scripts mean what their usage says: with the action and the options in
  any order, values joined or apart and names cut to three characters or more, the profile reader reads
  or resets the named socket in the last format given, human if none, within the last timeout given, 2 seconds
  if none; a capture fetches the named URL into the named file within 5 seconds or the last timeout, and a
  summary compares the two named files, with the expected number if one is given. What is required and
  missing, the action, the socket, the URL, the output or one of the files, is reported.\<close>

theorem command_lines_read_back:
  assumes "list_all (well_spelled (map u [''read'', ''reset'']) (sk_usage (i_unicode I))) items" "length (filter is_word items) \<le> 1"
    and "list_all (well_spelled [] (capture_usage (i_unicode I))) capture_line"
    and "list_all (well_spelled [] (summary_usage (i_unicode I))) summary_line"
  shows "sk_program I P (concat (map spell items)) = (case sk_meant (i_unicode I) items of
        Inl s \<Rightarrow> Some (Stopped s) | Inr args \<Rightarrow> map_option Ran (sk_main I P args)) \<and>
    vsr_program I (u ''capture'' # concat (map spell capture_line)) w = (case capture_meant (i_unicode I) capture_line of
        Inl s \<Rightarrow> (Stopped s, w) | Inr args \<Rightarrow> map_prod Ran id (vsr_main I args w)) \<and>
    vsr_program I (u ''summarize'' # concat (map spell summary_line)) w = (case summary_meant (i_unicode I) summary_line of
        Inl s \<Rightarrow> (Stopped s, w) | Inr args \<Rightarrow> map_prod Ran id (vsr_main I args w))"
proof (intro conjI)
  show "sk_program I P (concat (map spell items)) = (case sk_meant (i_unicode I) items of
      Inl s \<Rightarrow> Some (Stopped s) | Inr args \<Rightarrow> map_option Ran (sk_main I P args))"
    using sk_items [OF assms(1,2)] by (auto simp: sk_program_def split: sum.splits)
  show "vsr_program I (u ''capture'' # concat (map spell capture_line)) w = (case capture_meant (i_unicode I) capture_line of
      Inl s \<Rightarrow> (Stopped s, w) | Inr args \<Rightarrow> map_prod Ran id (vsr_main I args w))"
    using capture_items [OF assms(3)] by (auto simp: vsr_program_def split: sum.splits prod.splits)
  show "vsr_program I (u ''summarize'' # concat (map spell summary_line)) w = (case summary_meant (i_unicode I) summary_line of
      Inl s \<Rightarrow> (Stopped s, w) | Inr args \<Rightarrow> map_prod Ran id (vsr_main I args w))"
    using summary_items [OF assms(4)] by (auto simp: vsr_program_def split: sum.splits prod.splits)
qed

text \<open>A timeout of more than about 292 years, or an infinite one, ends with a traceback.\<close>

lemma timeout_escapes:
  assumes "sk_timeout args = Infinite neg \<or> sk_timeout args = Finite t \<and> 2 ^ 34 \<le> t"
  shows "sk_main I P args = Some (Raised timeout_overflow)"
proof -
  have "settimeout (sk_timeout args) = Inl timeout_overflow"
    using assms settimeout_large by (auto simp: settimeout_def)
  then show ?thesis
    by (simp add: sk_main_def request_def sk_reply_def handled_def timeout_overflow_def)
qed

end
