(* ===== verification/SkRouter.thy ===== *)
theory SkRouter
  imports SkProgram "HOL-Library.Word"
begin

section \<open>The router's side of the profile protocol\<close>

text \<open>
  What the profile reader talks to. \<open>sk_profile_record\<close> of bpf/programs/sk_router.bpf.c adds a completed
  request to the per-CPU entry of a stage, on 64-bit counters; \<open>serve_profile_read\<close> and
  \<open>serve_profile_reset\<close> of src/sk_router.c print and clear the entries, and \<open>serve_status\<close> dispatches
  the command. What libbpf and the allocator return are fields of \<open>router_env\<close>. The end-to-end
  statement: reading after a reset reports the requests completed in between.
\<close>

subsection \<open>The counters\<close>

datatype profile_stage = Parse_Signal | Decision | Redirect

record profile_value =
  pv_count :: "64 word"
  pv_total_ns :: "64 word"

type_synonym profile_map = "profile_stage \<Rightarrow> nat \<Rightarrow> profile_value"

definition sk_profile_record :: "profile_stage \<Rightarrow> nat \<Rightarrow> 64 word \<Rightarrow> profile_map \<Rightarrow> profile_map" where
  "sk_profile_record stage cpu elapsed_ns m = m(stage := (m stage)(cpu :=
     \<lparr>pv_count = pv_count (m stage cpu) + 1, pv_total_ns = pv_total_ns (m stage cpu) + elapsed_ns\<rparr>))"

record completed =
  cr_cpu :: nat
  cr_parse :: "64 word"
  cr_decision :: "64 word"
  cr_redirect :: "64 word"

definition record_request :: "completed \<Rightarrow> profile_map \<Rightarrow> profile_map" where
  "record_request c m = sk_profile_record Redirect (cr_cpu c) (cr_redirect c)
     (sk_profile_record Decision (cr_cpu c) (cr_decision c)
       (sk_profile_record Parse_Signal (cr_cpu c) (cr_parse c) m))"

subsection \<open>The commands\<close>

record router_env =
  re_cpus :: int
  re_alloc :: bool
  re_lookup :: "profile_stage \<Rightarrow> bool"
  re_update :: "profile_stage \<Rightarrow> bool"

definition profile_stages :: "profile_stage list" where
  "profile_stages = [Parse_Signal, Decision, Redirect]"

definition llu :: "64 word \<Rightarrow> ustr" where
  "llu w = show_int (uint w)"

definition profile_row :: "profile_map \<Rightarrow> nat \<Rightarrow> ustr" where
  "profile_row m cpu = u ''cpu='' @ show_int (int cpu) @
     u '' parse_signal_count='' @ llu (pv_count (m Parse_Signal cpu)) @
     u '' parse_signal_total_ns='' @ llu (pv_total_ns (m Parse_Signal cpu)) @
     u '' decision_count='' @ llu (pv_count (m Decision cpu)) @
     u '' decision_total_ns='' @ llu (pv_total_ns (m Decision cpu)) @
     u '' redirect_count='' @ llu (pv_count (m Redirect cpu)) @
     u '' redirect_total_ns='' @ llu (pv_total_ns (m Redirect cpu)) @ [10]"

definition serve_profile_read :: "router_env \<Rightarrow> profile_map \<Rightarrow> ustr" where
  "serve_profile_read E m =
     (if re_cpus E \<le> 0 then u ''profile_enabled=1 error=cpu_count'' @ [10]
      else if \<not> re_alloc E then u ''profile_enabled=1 error=allocation'' @ [10]
      else if \<not> list_all (re_lookup E) profile_stages then u ''profile_enabled=1 error=map_lookup'' @ [10]
      else u ''profile_enabled=1 cpu_count='' @ show_int (re_cpus E) @ u '' stage_count='' @
        show_int (int (length profile_stages)) @ [10] @
        concat (map (profile_row m) [0 ..< nat (re_cpus E)]))"

text \<open>A failing update leaves the stages before it cleared.\<close>

fun clear_stages :: "router_env \<Rightarrow> profile_stage list \<Rightarrow> profile_map \<Rightarrow> profile_map \<times> bool" where
  "clear_stages E [] m = (m, True)"
| "clear_stages E (stage # stages) m =
     (if re_update E stage then clear_stages E stages (m(stage := (\<lambda>_. \<lparr>pv_count = 0, pv_total_ns = 0\<rparr>)))
      else (m, False))"

definition serve_profile_reset :: "router_env \<Rightarrow> profile_map \<Rightarrow> ustr \<times> profile_map" where
  "serve_profile_reset E m =
     (if re_cpus E \<le> 0 then (u ''profile_enabled=1 error=cpu_count'' @ [10], m)
      else if \<not> re_alloc E then (u ''profile_enabled=1 error=allocation'' @ [10], m)
      else case clear_stages E profile_stages m of (m', done_all) \<Rightarrow>
        (if done_all then u ''profile_enabled=1 reset=ok'' @ [10] else u ''profile_enabled=1 error=map_update'' @ [10], m'))"

text \<open>
  The dispatch, in a build with or without the profile counters. The status report of the router is
  a parameter.
\<close>

definition serve_status :: "bool \<Rightarrow> ustr \<Rightarrow> router_env \<Rightarrow> ustr \<Rightarrow> profile_map \<Rightarrow> ustr \<times> profile_map" where
  "serve_status profiling status E received m =
     (let command = (if received = [] then u ''status''
        else takeWhile (\<lambda>c. c \<noteq> 10 \<and> c \<noteq> 13 \<and> c \<noteq> 0) (take 63 received)) in
      if profiling \<and> command = u ''profile read'' then (serve_profile_read E m, m)
      else if profiling \<and> command = u ''profile reset'' then serve_profile_reset E m
      else if command = u ''profile read'' \<or> command = u ''profile reset''
      then (u ''profile_enabled=0 error=profiling_disabled'' @ [10], m)
      else if command \<noteq> u ''status'' then (u ''error=unknown_command'' @ [10], m)
      else (status, m))"

text \<open>The router as the peer of the script: it answers once and closes.\<close>

definition router_peer :: "bool \<Rightarrow> ustr \<Rightarrow> router_env \<Rightarrow> profile_map \<Rightarrow> peer" where
  "router_peer profiling status E m =
     \<lparr>p_connect = (\<lambda>_. Inr ()), p_sendall = (\<lambda>_. Inr ()), p_shutdown = Inr (),
      p_recv = (\<lambda>received n. if n = 0 then Inr (fst (serve_status profiling status E received m)) else Inr [])\<rparr>"

subsection \<open>The printed response\<close>

definition row_fields :: "profile_map \<Rightarrow> nat \<Rightarrow> (ustr \<times> int) list" where
  "row_fields m cpu = [(u ''cpu'', int cpu),
     (u ''parse_signal_count'', uint (pv_count (m Parse_Signal cpu))),
     (u ''parse_signal_total_ns'', uint (pv_total_ns (m Parse_Signal cpu))),
     (u ''decision_count'', uint (pv_count (m Decision cpu))),
     (u ''decision_total_ns'', uint (pv_total_ns (m Decision cpu))),
     (u ''redirect_count'', uint (pv_count (m Redirect cpu))),
     (u ''redirect_total_ns'', uint (pv_total_ns (m Redirect cpu)))]"

definition header_fields :: "int \<Rightarrow> (ustr \<times> int) list" where
  "header_fields n = [(u ''profile_enabled'', 1), (u ''cpu_count'', n), (u ''stage_count'', 3)]"

definition print_line :: "(ustr \<times> int) list \<Rightarrow> ustr" where
  "print_line attrs = join [32] (map print_field attrs)"

lemma profile_row_print: "profile_row m cpu = print_line (row_fields m cpu) @ [10]"
  by (simp add: profile_row_def print_line_def row_fields_def print_field_def llu_def u_def)

lemma read_print:
  assumes "0 < re_cpus E" "re_alloc E" "list_all (re_lookup E) profile_stages"
  shows "serve_profile_read E m = join [10] (print_line (header_fields (re_cpus E)) #
    map (\<lambda>cpu. print_line (row_fields m cpu)) [0 ..< nat (re_cpus E)]) @ [10]"
proof -
  have rows: "profile_row m = (\<lambda>cpu. print_line (row_fields m cpu) @ [10])"
    by (rule ext) (rule profile_row_print)
  have "show_int 1 = u ''1''" "show_int 3 = u ''3''" by code_simp+
  then have "serve_profile_read E m = concat (map (\<lambda>l. l @ [10]) (print_line (header_fields (re_cpus E)) #
      map (\<lambda>cpu. print_line (row_fields m cpu)) [0 ..< nat (re_cpus E)]))"
    using assms by (simp add: serve_profile_read_def print_line_def header_fields_def print_field_def
        rows profile_stages_def u_def comp_def)
  then show ?thesis by (simp only: concat_map_terminated list.distinct not_False_eq_True)
qed


lemma line_break_space: "is_line_break c \<Longrightarrow> is_space c"
  by (auto simp: is_line_break_def is_space_def)

lemma print_line_plain:
  assumes "list_all (\<lambda>kv. key_ok (fst kv)) attrs" shows "plain_line (print_line attrs)"
proof -
  have word: "\<not> is_space c" if "kv \<in> set attrs" "c \<in> set (print_field kv)" for kv c
    using that assms show_int_spaceless [of "snd kv"] by (auto simp: print_field_def key_ok_def list_all_iff is_space_def [of 61])
  have "\<not> is_line_break c" if c: "c \<in> set (print_line attrs)" for c
  proof -
    from c set_join [of "[32]" "map print_field attrs"] consider "c = 32" | kv where "kv \<in> set attrs" "c \<in> set (print_field kv)"
      by (auto simp: print_line_def)
    then show ?thesis using word line_break_space by cases (auto simp: is_line_break_def [of 32])
  qed
  then show ?thesis by (simp add: plain_line_def list_all_iff)
qed

lemma keys_ok:
  "list_all (\<lambda>kv. key_ok (fst kv)) (row_fields m cpu)" "distinct (map fst (row_fields m cpu))"
  "list_all (\<lambda>kv. key_ok (fst kv)) (header_fields n)" "distinct (map fst (header_fields n))"
proof -
  have "list_all key_ok (map fst (row_fields m cpu)) \<and> distinct (map fst (row_fields m cpu))"
    by (simp only: row_fields_def list.map fst_conv) code_simp
  moreover have "list_all key_ok (map fst (header_fields n)) \<and> distinct (map fst (header_fields n))"
    by (simp only: header_fields_def list.map fst_conv) code_simp
  ultimately show "list_all (\<lambda>kv. key_ok (fst kv)) (row_fields m cpu)" "distinct (map fst (row_fields m cpu))"
    "list_all (\<lambda>kv. key_ok (fst kv)) (header_fields n)" "distinct (map fst (header_fields n))"
    by (simp_all only: list.pred_map comp_def)
qed

lemmas parse_row = parse_fields_print [OF keys_ok(1,2), folded print_line_def]
lemmas parse_header = parse_fields_print [OF keys_ok(3,4), folded print_line_def]

lemma sk_header_print: "0 < n \<Longrightarrow> sk_header U (print_line (header_fields n)) (n + 1) = Inr n"
  by (simp add: sk_header_def parse_header) (simp add: header_fields_def SK_STAGES_def)

definition parsed_row :: "profile_map \<Rightarrow> nat \<Rightarrow> (ustr, pyval) dict" where
  "parsed_row m cpu = map (\<lambda>(k, i). (k, PInt i)) (row_fields m cpu)"

definition stage_cell :: "profile_map \<Rightarrow> nat \<Rightarrow> ustr \<times> ustr \<Rightarrow> int" where
  "stage_cell m cpu cell = (let v = m (if fst cell = u ''parse_signal'' then Parse_Signal
     else if fst cell = u ''decision'' then Decision else Redirect) cpu
     in uint (if snd cell = u ''count'' then pv_count v else pv_total_ns v))"

lemma cell_names:
  "u a @ u b @ u c = u (a @ b @ c)"
  by (simp add: u_def)

lemma parsed_row_cell: "cell \<in> set sk_cells \<Longrightarrow> row_cell (parsed_row m cpu) cell = Some (stage_cell m cpu cell)"
proof -
  have "list_all (\<lambda>cell. row_cell (parsed_row m cpu) cell = Some (stage_cell m cpu cell)) sk_cells"
    unfolding sk_cells_def SK_STAGES_def SK_METRICS_def
    by (simp add: row_cell_def parsed_row_def row_fields_def stage_cell_def cell_names)
  then show "cell \<in> set sk_cells \<Longrightarrow> row_cell (parsed_row m cpu) cell = Some (stage_cell m cpu cell)"
    by (simp add: list_all_iff)
qed

lemma parsed_row_ok: "int cpu < n \<Longrightarrow> row_ok n (parsed_row m cpu)"
proof -
  assume "int cpu < n"
  moreover have "row_cpu (parsed_row m cpu) = Some (int cpu)"
    by (simp add: row_cpu_def parsed_row_def row_fields_def)
  moreover have "list_all (cell_ok (parsed_row m cpu)) sk_cells"
    using parsed_row_cell by (auto simp: list_all_iff cell_ok_def stage_cell_def Let_def)
  ultimately show ?thesis by (simp add: row_ok_def)
qed

lemma parsed_rows_ok: "rows_ok (int n) (map (parsed_row m) [0 ..< n])"
proof -
  have "cpus_of (map (parsed_row m) [0 ..< n]) = map int [0 ..< n]"
    by (simp add: cpus_of_def row_cpu_def parsed_row_def row_fields_def)
  then show ?thesis
    using parsed_row_ok by (auto simp: rows_ok_def list_all_iff distinct_map)
qed

text \<open>The lines of a successful response, and what they are aggregated to.\<close>

lemma read_lines:
  assumes "0 < re_cpus E" "re_alloc E" "list_all (re_lookup E) profile_stages"
  shows "splitlines (py_strip (serve_profile_read E m)) = print_line (header_fields (re_cpus E)) #
    map (\<lambda>cpu. print_line (row_fields m cpu)) [0 ..< nat (re_cpus E)]"
proof -
  let ?rows = "map (\<lambda>cpu. print_line (row_fields m cpu)) [0 ..< nat (re_cpus E)]"
  let ?h = "print_line (header_fields (re_cpus E))"
  have h: "hd ?h = 112" "?h \<noteq> []" by (simp_all add: print_line_def header_fields_def print_field_def u_def)
  obtain k where k: "nat (re_cpus E) = Suc k" using assms(1) by (cases "nat (re_cpus E)") auto
  have ne: "print_line (row_fields m cpu) \<noteq> []" for cpu
    by (simp add: print_line_def row_fields_def print_field_def)
  have "last (print_line (row_fields m k)) = last (show_int (uint (pv_total_ns (m Redirect k))))"
    by (simp add: print_line_def row_fields_def print_field_def show_int_def)
  moreover have "last (show_int i) \<in> set (show_int i)" for i by (rule last_in_set) (simp add: show_int_def)
  ultimately have last: "\<not> is_space (last (print_line (row_fields m k)))"
    using show_int_spaceless by (auto simp: list_all_iff)
  have l: "last (?h # ?rows) = print_line (row_fields m k)" by (simp add: k)
  have "\<not> is_space (hd (join [10] (?h # ?rows)))"
    using hd_join [OF h(2)] h(1) by (simp add: is_space_def)
  moreover have "\<not> is_space (last (join [10] (?h # ?rows)))"
    using last last_join [of "?h # ?rows" "[10]"] ne by (simp add: l del: last.simps)
  moreover have "join [10] (?h # ?rows) \<noteq> []" using h(2) by (simp add: join_Nil_iff)
  ultimately have "py_strip (serve_profile_read E m) = join [10] (?h # ?rows)"
    unfolding read_print [OF assms] by (intro py_strip_terminated)
  then show ?thesis
    using splitlines_join [of "?h # ?rows"] print_line_plain keys_ok ne by (simp add: l list_all_iff del: last.simps)
qed

lemma aggregate_read:
  assumes "0 < re_cpus E" "re_alloc E" "list_all (re_lookup E) profile_stages"
    and "sk_summary_of I (re_cpus E) (row_sum (map (parsed_row m) [0 ..< nat (re_cpus E)])) = Inr r"
  shows "aggregate_response I (py_strip (serve_profile_read E m)) = Inr r"
proof -
  let ?rows = "map (\<lambda>cpu. print_line (row_fields m cpu)) [0 ..< nat (re_cpus E)]"
  have "map_res (parse_fields (i_unicode I)) ?rows = Inr (map (parsed_row m) [0 ..< nat (re_cpus E)])"
    by (simp add: map_res_eq_map parse_row parsed_row_def)
  moreover have "1 + int (length ?rows) = re_cpus E + 1" using assms(1) by simp
  moreover have "rows_ok (re_cpus E) (map (parsed_row m) [0 ..< nat (re_cpus E)])"
    using parsed_rows_ok [of "nat (re_cpus E)" m] assms(1) by simp
  ultimately show ?thesis
    unfolding aggregate_response_def read_lines [OF assms(1-3)] aggregate_lines_iff
    using sk_header_print [OF assms(1)] assms(4) by metis
qed


subsection \<open>Sums of the recorded requests\<close>

fun elapsed :: "profile_stage \<Rightarrow> completed \<Rightarrow> 64 word" where
  "elapsed Parse_Signal c = cr_parse c"
| "elapsed Decision c = cr_decision c"
| "elapsed Redirect c = cr_redirect c"

definition on_cpu :: "nat \<Rightarrow> completed list \<Rightarrow> completed list" where
  "on_cpu cpu cs = filter (\<lambda>c. cr_cpu c = cpu) cs"

definition cleared :: "profile_map \<Rightarrow> bool" where
  "cleared m \<longleftrightarrow> (\<forall>stage cpu. m stage cpu = \<lparr>pv_count = 0, pv_total_ns = 0\<rparr>)"

lemma record_request_at: "record_request c m stage cpu = (if cpu = cr_cpu c
    then \<lparr>pv_count = pv_count (m stage cpu) + 1, pv_total_ns = pv_total_ns (m stage cpu) + elapsed stage c\<rparr>
    else m stage cpu)"
  by (cases stage) (simp_all add: record_request_def sk_profile_record_def)

lemma recorded_at: "fold record_request cs m stage cpu = \<lparr>
     pv_count = pv_count (m stage cpu) + of_nat (length (on_cpu cpu cs)),
     pv_total_ns = pv_total_ns (m stage cpu) + sum_list (map (elapsed stage) (on_cpu cpu cs))\<rparr>"
  by (induction cs arbitrary: m) (simp_all add: on_cpu_def record_request_at)

lemma sum_uint_nonneg: "0 \<le> (\<Sum>c \<leftarrow> cs. uint (f c :: 64 word))"
  by (induction cs) auto

lemma uint_sum_list: "(\<Sum>c \<leftarrow> cs. uint (f c :: 64 word)) < 2 ^ 64 \<Longrightarrow> uint (sum_list (map f cs)) = (\<Sum>c \<leftarrow> cs. uint (f c))"
proof (induction cs)
  case (Cons c cs)
  have "(\<Sum>c \<leftarrow> c # cs. uint (f c)) = uint (f c) + (\<Sum>c \<leftarrow> cs. uint (f c))" by simp
  with Cons.prems uint_ge_0 [of "f c"] have "(\<Sum>c \<leftarrow> cs. uint (f c)) < 2 ^ 64" by linarith
  from Cons.IH [OF this] Cons.prems have "uint (f c) + uint (sum_list (map f cs)) < 2 ^ 64" by simp
  then have "uint (f c + sum_list (map f cs)) = uint (f c) + uint (sum_list (map f cs))"
    by (simp add: uint_plus_if')
  with \<open>uint (sum_list (map f cs)) = (\<Sum>c \<leftarrow> cs. uint (f c))\<close> show ?case by simp
qed simp

lemma uint_of_nat_small: "n < 2 ^ 64 \<Longrightarrow> uint (of_nat n :: 64 word) = int n"
  by (simp add: unsigned_of_nat take_bit_nat_eq_self)

lemma sum_on_cpu_le: "(\<Sum>c \<leftarrow> on_cpu cpu cs. uint (f c :: 64 word)) \<le> (\<Sum>c \<leftarrow> cs. uint (f c))"
  by (induction cs) (auto simp: on_cpu_def add_increasing)

lemma sum_cpus:
  fixes f :: "completed \<Rightarrow> int"
  assumes "list_all (\<lambda>c. cr_cpu c < n) cs"
  shows "(\<Sum>cpu \<leftarrow> [0 ..< n]. \<Sum>c \<leftarrow> on_cpu cpu cs. f c) = (\<Sum>c \<leftarrow> cs. f c)"
  using assms
proof (induction cs)
  case (Cons c cs)
  have "(\<Sum>cpu \<leftarrow> [0 ..< n]. \<Sum>c \<leftarrow> on_cpu cpu (c # cs). f c) =
      (\<Sum>cpu \<leftarrow> [0 ..< n]. (if cpu = cr_cpu c then f c else 0) + (\<Sum>c \<leftarrow> on_cpu cpu cs. f c))"
    by (rule arg_cong [of _ _ sum_list], rule map_cong) (auto simp: on_cpu_def)
  also have "\<dots> = (\<Sum>cpu \<leftarrow> [0 ..< n]. if cpu = cr_cpu c then f c else 0) + (\<Sum>cpu \<leftarrow> [0 ..< n]. \<Sum>c \<leftarrow> on_cpu cpu cs. f c)"
    by (rule sum_list_addf)
  also have "(\<Sum>cpu \<leftarrow> [0 ..< n]. if cpu = cr_cpu c then f c else 0) = f c"
    using Cons.prems by (simp add: interv_sum_list_conv_sum_set_nat)
  finally show ?case using Cons by simp
qed (simp add: on_cpu_def)

text \<open>The cells of the printed rows add up to the requests.\<close>

lemma row_sum_parsed: "cell \<in> set sk_cells \<Longrightarrow>
    row_sum (map (parsed_row m) [0 ..< n]) cell = (\<Sum>cpu \<leftarrow> [0 ..< n]. stage_cell m cpu cell)"
  by (simp add: row_sum_def comp_def cell_value_def parsed_row_cell)

lemma recorded_sums:
  assumes m: "cleared m" and n: "list_all (\<lambda>c. cr_cpu c < n) cs" and l: "length cs < 2 ^ 64"
    and t: "(\<Sum>c \<leftarrow> cs. uint (elapsed stage c)) < 2 ^ 64"
  shows "(\<Sum>cpu \<leftarrow> [0 ..< n]. uint (pv_count (fold record_request cs m stage cpu))) = int (length cs)"
    "(\<Sum>cpu \<leftarrow> [0 ..< n]. uint (pv_total_ns (fold record_request cs m stage cpu))) = (\<Sum>c \<leftarrow> cs. uint (elapsed stage c))"
proof -
  have "length (on_cpu cpu cs) < 2 ^ 64" for cpu
    using l by (simp add: on_cpu_def le_less_trans [OF length_filter_le])
  then have "uint (pv_count (fold record_request cs m stage cpu)) = (\<Sum>c \<leftarrow> on_cpu cpu cs. 1)" for cpu
    using m by (simp add: recorded_at cleared_def uint_of_nat_small sum_list_triv)
  then show "(\<Sum>cpu \<leftarrow> [0 ..< n]. uint (pv_count (fold record_request cs m stage cpu))) = int (length cs)"
    using sum_cpus [OF n, of "\<lambda>_. 1"] by (simp add: sum_list_triv)
  have "(\<Sum>c \<leftarrow> on_cpu cpu cs. uint (elapsed stage c)) < 2 ^ 64" for cpu
    using sum_on_cpu_le [of "elapsed stage" cpu cs] t by linarith
  then have "uint (pv_total_ns (fold record_request cs m stage cpu)) = (\<Sum>c \<leftarrow> on_cpu cpu cs. uint (elapsed stage c))" for cpu
    using m by (simp add: recorded_at cleared_def uint_sum_list)
  then show "(\<Sum>cpu \<leftarrow> [0 ..< n]. uint (pv_total_ns (fold record_request cs m stage cpu))) = (\<Sum>c \<leftarrow> cs. uint (elapsed stage c))"
    using sum_cpus [OF n, of "\<lambda>c. uint (elapsed stage c)"] by simp
qed


subsection \<open>From requests to the report\<close>

lemma reset_clears:
  assumes "0 < re_cpus E" "re_alloc E" "list_all (re_update E) profile_stages"
  shows "fst (serve_profile_reset E m) = u ''profile_enabled=1 reset=ok'' @ [10] \<and> cleared (snd (serve_profile_reset E m))"
proof -
  from assms(3) have up: "re_update E Parse_Signal" "re_update E Decision" "re_update E Redirect"
    by (simp_all add: profile_stages_def)
  have "cleared (fst (clear_stages E profile_stages m)) \<and> snd (clear_stages E profile_stages m)"
    unfolding cleared_def
  proof (intro conjI allI)
    show "fst (clear_stages E profile_stages m) stage cpu = \<lparr>pv_count = 0, pv_total_ns = 0\<rparr>" for stage cpu
      using up by (cases stage) (simp_all add: profile_stages_def)
    show "snd (clear_stages E profile_stages m)" using up by (simp add: profile_stages_def)
  qed
  with assms(1,2) show ?thesis
    by (cases "clear_stages E profile_stages m") (simp add: serve_profile_reset_def)
qed

lemma sk_stage_small:
  assumes "0 \<le> t" "t < 2 ^ 1023" "0 \<le> n"
  shows "\<exists>s. sk_stage n t = Inr s \<and> ss_count s = n \<and> ss_total_ns s = t"
proof (cases "n = 0")
  case False
  with assms true_div_small [of t n] show ?thesis by (simp add: sk_stage_def)
qed (simp add: sk_stage_def)

definition stage_total :: "profile_stage \<Rightarrow> completed list \<Rightarrow> int" where
  "stage_total stage cs = (\<Sum>c \<leftarrow> cs. uint (elapsed stage c))"

lemma recorded_summary:
  assumes m: "cleared m" and n: "list_all (\<lambda>c. cr_cpu c < n) cs" and l: "length cs < 2 ^ 64"
    and t: "list_all (\<lambda>stage. stage_total stage cs < 2 ^ 64) profile_stages"
  shows "\<exists>r. sk_summary_of I k (row_sum (map (parsed_row (fold record_request cs m)) [0 ..< n])) = Inr r \<and>
    sk_completed r = int (length cs) \<and> sk_cpu_count r = k \<and>
    map (\<lambda>(stage, s). (stage, ss_count s, ss_total_ns s)) (sk_stages r) =
      [(u ''parse_signal'', int (length cs), stage_total Parse_Signal cs),
       (u ''decision'', int (length cs), stage_total Decision cs),
       (u ''redirect'', int (length cs), stage_total Redirect cs)]"
proof -
  let ?f = "row_sum (map (parsed_row (fold record_request cs m)) [0 ..< n])"
  have cells: "?f cell = (\<Sum>cpu \<leftarrow> [0 ..< n]. stage_cell (fold record_request cs m) cpu cell)" if "cell \<in> set sk_cells" for cell
    using that by (rule row_sum_parsed)
  have bound: "(\<Sum>c \<leftarrow> cs. uint (elapsed stage c)) < 2 ^ 64" for stage
    using t by (cases stage) (simp_all add: profile_stages_def stage_total_def)
  note sums = recorded_sums [OF m n l bound]
  have f: "?f (u ''parse_signal'', u ''count'') = int (length cs)" "?f (u ''decision'', u ''count'') = int (length cs)"
    "?f (u ''redirect'', u ''count'') = int (length cs)" "?f (u ''parse_signal'', u ''total_ns'') = stage_total Parse_Signal cs"
    "?f (u ''decision'', u ''total_ns'') = stage_total Decision cs" "?f (u ''redirect'', u ''total_ns'') = stage_total Redirect cs"
    using cells sums by (simp_all add: set_sk_cells SK_STAGES_def SK_METRICS_def stage_cell_def stage_total_def)
  have small: "\<exists>s. sk_stage (int (length cs)) (stage_total stage cs) = Inr s \<and> ss_count s = int (length cs) \<and>
      ss_total_ns s = stage_total stage cs" for stage
  proof (rule sk_stage_small)
    show "0 \<le> stage_total stage cs" by (simp add: stage_total_def sum_uint_nonneg)
    have "stage_total stage cs < 2 ^ 64" using bound by (simp add: stage_total_def)
    also have "(2 :: int) ^ 64 \<le> 2 ^ 1023" by (intro power_increasing) auto
    finally show "stage_total stage cs < 2 ^ 1023" .
  qed simp
  obtain a b c where
    abc: "sk_stage (int (length cs)) (stage_total Parse_Signal cs) = Inr a" "ss_count a = int (length cs)" "ss_total_ns a = stage_total Parse_Signal cs"
      "sk_stage (int (length cs)) (stage_total Decision cs) = Inr b" "ss_count b = int (length cs)" "ss_total_ns b = stage_total Decision cs"
      "sk_stage (int (length cs)) (stage_total Redirect cs) = Inr c" "ss_count c = int (length cs)" "ss_total_ns c = stage_total Redirect cs"
    using small by metis
  then show ?thesis
    unfolding sk_summary_of_def stage_of_def f by simp
qed

lemma read_ascii: "list_all (\<lambda>b. b < 128) (serve_profile_read E m)"
proof -
  have number: "list_all (\<lambda>b. b < 128) (show_int i)" for i
    by (auto simp: list_all_iff is_digit_def dest!: show_int_ascii)
  have "list_all (\<lambda>b. b < 128) (profile_row m cpu)" for cpu
    unfolding profile_row_def llu_def list_all_append by (simp add: number u_def)
  then have "list_all (\<lambda>b. b < 128) (concat (map (profile_row m) cpus))" for cpus
    by (induction cpus) auto
  then show ?thesis
    unfolding serve_profile_read_def by (simp add: number u_def)
qed

lemma router_read_answer: "fst (serve_status True status E (profile_command (action_text Read)) m) = serve_profile_read E m"
proof -
  have "takeWhile (\<lambda>c. c \<noteq> 10 \<and> c \<noteq> 13 \<and> c \<noteq> 0) (take 63 (profile_command (action_text Read))) = u ''profile read''"
    by code_simp
  then show ?thesis by (simp add: serve_status_def Let_def) (simp add: profile_command_def)
qed

text \<open>The router is a peer that answers; the answer to a read is never empty and is ASCII.\<close>

interpretation router: answering_peer "router_peer profiling status E m"
  "\<lambda>received. fst (serve_status profiling status E received m)" for profiling status E m
  by unfold_locales (simp_all add: router_peer_def)

lemma router_read:
  assumes "sk_action args = Read" "settimeout (sk_timeout args) = Inr ()"
  shows "sk_main I (router_peer True status E m) args = Some (sk_reply I args (Inr (py_strip (serve_profile_read E m))))"
proof -
  have "serve_profile_read E m \<noteq> []" by (simp add: serve_profile_read_def)
  with router.main_reply [of args True status E m I] read_ascii assms show ?thesis by (simp add: router_read_answer)
qed

text \<open>C1. From the kernel to the report: when the counters are reset and then requests complete on any of the
  CPUs, a read reports exactly these requests and, per stage, the sum of their times, as long as
  no sum reaches 2 to the 64.\<close>

theorem profile_end_to_end:
  assumes "0 < re_cpus E" "re_alloc E" "list_all (re_lookup E) profile_stages" "list_all (re_update E) profile_stages"
    and "list_all (\<lambda>c. int (cr_cpu c) < re_cpus E) cs" and "length cs < 2 ^ 64"
    and "list_all (\<lambda>stage. stage_total stage cs < 2 ^ 64) profile_stages"
    and "m = fold record_request cs (snd (serve_profile_reset E m0))"
    and "sk_action args = Read" "settimeout (sk_timeout args) = Inr ()"
  shows "\<exists>r. sk_main I (router_peer True status E m) args = Some (sk_report I (sk_format args) r) \<and>
    sk_completed r = int (length cs) \<and> sk_cpu_count r = re_cpus E \<and>
    map (\<lambda>(stage, s). (stage, ss_count s, ss_total_ns s)) (sk_stages r) =
      [(u ''parse_signal'', int (length cs), stage_total Parse_Signal cs),
       (u ''decision'', int (length cs), stage_total Decision cs),
       (u ''redirect'', int (length cs), stage_total Redirect cs)]"
proof -
  have n: "list_all (\<lambda>c. cr_cpu c < nat (re_cpus E)) cs" using assms(5) by (auto simp: list_all_iff)
  from reset_clears [OF assms(1,2,4)] have "cleared (snd (serve_profile_reset E m0))" by blast
  from recorded_summary [OF this n assms(6,7), of I "re_cpus E", folded assms(8)] obtain r where
    r: "sk_summary_of I (re_cpus E) (row_sum (map (parsed_row m) [0 ..< nat (re_cpus E)])) = Inr r"
    and facts: "sk_completed r = int (length cs)" "sk_cpu_count r = re_cpus E"
      "map (\<lambda>(stage, s). (stage, ss_count s, ss_total_ns s)) (sk_stages r) =
      [(u ''parse_signal'', int (length cs), stage_total Parse_Signal cs),
       (u ''decision'', int (length cs), stage_total Decision cs),
       (u ''redirect'', int (length cs), stage_total Redirect cs)]"
    by (elim exE conjE)
  from aggregate_read [OF assms(1-3) r] have "sk_main I (router_peer True status E m) args = Some (sk_report I (sk_format args) r)"
    by (simp add: router_read assms(9,10) sk_reply_def)
  with facts show ?thesis by (intro exI [of _ r] conjI)
qed

end
