(* ===== verification/SkRace.thy ===== *)
theory SkRace
  imports SkRouter
begin

section \<open>Reading while requests complete\<close>

text \<open>
  The router reads the three stages one after the other while the kernel programs of other CPUs may
  be recording: the state holds the map, the recordings each CPU still has to make for its request,
  and the stages the reader has copied. A step starts recording a completed request, records one
  stage, or looks up the next stage.
\<close>

record sys =
  sys_map :: profile_map
  sys_pending :: "nat \<Rightarrow> (profile_stage \<times> 64 word) list"
  sys_seen :: "(nat \<Rightarrow> profile_value) list"

definition recordings :: "completed \<Rightarrow> (profile_stage \<times> 64 word) list" where
  "recordings c = [(Parse_Signal, cr_parse c), (Decision, cr_decision c), (Redirect, cr_redirect c)]"

inductive sys_step :: "sys \<Rightarrow> sys \<Rightarrow> bool" where
  complete: "sys_pending s (cr_cpu c) = [] \<Longrightarrow>
     sys_step s (s\<lparr>sys_pending := (sys_pending s)(cr_cpu c := recordings c)\<rparr>)"
| record_stage: "sys_pending s cpu = (stage, t) # rest \<Longrightarrow>
     sys_step s (s\<lparr>sys_map := sk_profile_record stage cpu t (sys_map s), sys_pending := (sys_pending s)(cpu := rest)\<rparr>)"
| look_up: "length (sys_seen s) < length profile_stages \<Longrightarrow>
     sys_step s (s\<lparr>sys_seen := sys_seen s @ [sys_map s (profile_stages ! length (sys_seen s))]\<rparr>)"

inductive reachable :: "sys \<Rightarrow> bool" where
  start: "cleared m \<Longrightarrow> reachable \<lparr>sys_map = m, sys_pending = (\<lambda>_. []), sys_seen = []\<rparr>"
| move: "reachable s \<Longrightarrow> sys_step s s' \<Longrightarrow> reachable s'"

inductive_cases sys_step_cases: "sys_step s s'"

definition seen_map :: "sys \<Rightarrow> profile_map" where
  "seen_map s = (\<lambda>stage. sys_seen s ! (case stage of Parse_Signal \<Rightarrow> 0 | Decision \<Rightarrow> 1 | Redirect \<Rightarrow> 2))"

subsection \<open>Between the stages of a request\<close>

text \<open>
  A CPU is at most one request ahead in the first stages: what it has still to record tells by how
  much the counts of the stages differ.
\<close>

definition cpu_ok :: "profile_map \<Rightarrow> nat \<Rightarrow> (profile_stage \<times> 64 word) list \<Rightarrow> bool" where
  "cpu_ok m cpu pending \<longleftrightarrow> (\<exists>c n. pending = drop n (recordings c) \<and> n \<le> 3 \<and>
     pv_count (m Parse_Signal cpu) = pv_count (m Redirect cpu) + (if n = 1 \<or> n = 2 then 1 else 0) \<and>
     pv_count (m Decision cpu) = pv_count (m Redirect cpu) + (if n = 2 then 1 else 0))"

lemma cpu_ok_idle: "cpu_ok m cpu [] \<longleftrightarrow>
   pv_count (m Parse_Signal cpu) = pv_count (m Redirect cpu) \<and> pv_count (m Decision cpu) = pv_count (m Redirect cpu)"
proof
  assume "cpu_ok m cpu []"
  then obtain c n where "[] = drop n (recordings c)" "n \<le> 3"
    "pv_count (m Parse_Signal cpu) = pv_count (m Redirect cpu) + (if n = 1 \<or> n = 2 then 1 else 0)"
    "pv_count (m Decision cpu) = pv_count (m Redirect cpu) + (if n = 2 then 1 else 0)"
    unfolding cpu_ok_def by blast
  moreover from this have "n = 3" by (simp add: recordings_def)
  ultimately show "pv_count (m Parse_Signal cpu) = pv_count (m Redirect cpu) \<and> pv_count (m Decision cpu) = pv_count (m Redirect cpu)"
    by simp
next
  assume "pv_count (m Parse_Signal cpu) = pv_count (m Redirect cpu) \<and> pv_count (m Decision cpu) = pv_count (m Redirect cpu)"
  then show "cpu_ok m cpu []"
    unfolding cpu_ok_def by (intro exI [of _ undefined] exI [of _ 3]) (simp add: recordings_def)
qed

lemma cpu_ok_complete: "cpu_ok m cpu [] \<Longrightarrow> cpu_ok m cpu (recordings c)"
  unfolding cpu_ok_idle unfolding cpu_ok_def by (intro exI [of _ c] exI [of _ 0]) simp

lemma cpu_ok_other: "cpu' \<noteq> cpu \<Longrightarrow> cpu_ok (sk_profile_record stage cpu t m) cpu' pending = cpu_ok m cpu' pending"
  by (simp add: cpu_ok_def sk_profile_record_def)

lemma cpu_ok_record:
  assumes "cpu_ok m cpu ((stage, t) # rest)"
  shows "cpu_ok (sk_profile_record stage cpu t m) cpu rest"
proof -
  from assms obtain c n where n: "(stage, t) # rest = drop n (recordings c)"
    and counts: "pv_count (m Parse_Signal cpu) = pv_count (m Redirect cpu) + (if n = 1 \<or> n = 2 then 1 else 0)"
      "pv_count (m Decision cpu) = pv_count (m Redirect cpu) + (if n = 2 then 1 else 0)"
    unfolding cpu_ok_def by blast
  have "n < 3"
  proof (rule ccontr)
    assume "\<not> n < 3"
    then have "drop n (recordings c) = []" by (simp add: recordings_def)
    with n show False by simp
  qed
  then consider "n = 0" | "n = 1" | "n = 2" by linarith
  then show ?thesis
  proof cases
    case 1
    with n counts show ?thesis unfolding cpu_ok_def
      by (intro exI [of _ c] exI [of _ 1]) (simp add: recordings_def sk_profile_record_def)
  next
    case 2
    with n counts show ?thesis unfolding cpu_ok_def
      by (intro exI [of _ c] exI [of _ 2]) (simp add: recordings_def sk_profile_record_def)
  next
    case 3
    with n counts show ?thesis unfolding cpu_ok_def
      by (intro exI [of _ c] exI [of _ 3]) (simp add: recordings_def sk_profile_record_def)
  qed
qed

lemma reachable_cpu_ok: "reachable s \<Longrightarrow> cpu_ok (sys_map s) cpu (sys_pending s cpu)"
proof (induction rule: reachable.induct)
  case (start m)
  then show ?case by (simp add: cpu_ok_idle cleared_def)
next
  case (move s s')
  from move.hyps(2) show ?case
  proof (rule sys_step_cases)
    fix c assume "s' = s\<lparr>sys_pending := (sys_pending s)(cr_cpu c := recordings c)\<rparr>" "sys_pending s (cr_cpu c) = []"
    with move.IH show ?thesis by (cases "cpu = cr_cpu c") (auto dest: cpu_ok_complete)
  next
    fix cpu' stage t rest
    assume "s' = s\<lparr>sys_map := sk_profile_record stage cpu' t (sys_map s), sys_pending := (sys_pending s)(cpu' := rest)\<rparr>"
      "sys_pending s cpu' = (stage, t) # rest"
    with move.IH show ?thesis by (cases "cpu = cpu'") (auto simp: cpu_ok_other dest: cpu_ok_record)
  next
    assume "s' = s\<lparr>sys_seen := sys_seen s @ [sys_map s (profile_stages ! length (sys_seen s))]\<rparr>"
    with move.IH show ?thesis by simp
  qed
qed

text \<open>A CPU that is not in the middle of a request has equal counts in all three stages, whatever the
  other CPUs are doing: a router at rest is never rejected for differing counts.\<close>

theorem idle_counts_agree:
  assumes "reachable s" and "sys_pending s cpu = []"
  shows "pv_count (sys_map s Parse_Signal cpu) = pv_count (sys_map s Redirect cpu) \<and>
    pv_count (sys_map s Decision cpu) = pv_count (sys_map s Redirect cpu)"
  using reachable_cpu_ok [OF assms(1), of cpu] assms(2) by (simp add: cpu_ok_idle)

subsection \<open>A torn read that is accepted\<close>

definition torn_map :: "completed \<Rightarrow> completed \<Rightarrow> profile_map" where
  "torn_map a b = (\<lambda>stage. (\<lambda>_. \<lparr>pv_count = 0, pv_total_ns = 0\<rparr>)
     (if stage = Parse_Signal then cr_cpu a else cr_cpu b :=
       \<lparr>pv_count = 1, pv_total_ns = elapsed stage (if stage = Parse_Signal then a else b)\<rparr>))"

definition empty_map :: profile_map where
  "empty_map = (\<lambda>_ _. \<lparr>pv_count = 0, pv_total_ns = 0\<rparr>)"

lemma torn_reachable:
  assumes "cr_cpu a \<noteq> cr_cpu b"
  shows "\<exists>s. reachable s \<and> length (sys_seen s) = 3 \<and> seen_map s = torn_map a b"
proof -
  define s0 where "s0 = \<lparr>sys_map = empty_map, sys_pending = (\<lambda>_. []), sys_seen = []\<rparr>"
  define s1 where "s1 = s0\<lparr>sys_pending := (sys_pending s0)(cr_cpu a := recordings a)\<rparr>"
  define s2 where "s2 = s1\<lparr>sys_map := sk_profile_record Parse_Signal (cr_cpu a) (cr_parse a) (sys_map s1),
    sys_pending := (sys_pending s1)(cr_cpu a := tl (recordings a))\<rparr>"
  define s3 where "s3 = s2\<lparr>sys_seen := sys_seen s2 @ [sys_map s2 (profile_stages ! length (sys_seen s2))]\<rparr>"
  define s4 where "s4 = s3\<lparr>sys_pending := (sys_pending s3)(cr_cpu b := recordings b)\<rparr>"
  define s5 where "s5 = s4\<lparr>sys_map := sk_profile_record Parse_Signal (cr_cpu b) (cr_parse b) (sys_map s4),
    sys_pending := (sys_pending s4)(cr_cpu b := tl (recordings b))\<rparr>"
  define s6 where "s6 = s5\<lparr>sys_map := sk_profile_record Decision (cr_cpu b) (cr_decision b) (sys_map s5),
    sys_pending := (sys_pending s5)(cr_cpu b := tl (tl (recordings b)))\<rparr>"
  define s7 where "s7 = s6\<lparr>sys_map := sk_profile_record Redirect (cr_cpu b) (cr_redirect b) (sys_map s6),
    sys_pending := (sys_pending s6)(cr_cpu b := [])\<rparr>"
  define s8 where "s8 = s7\<lparr>sys_seen := sys_seen s7 @ [sys_map s7 (profile_stages ! length (sys_seen s7))]\<rparr>"
  define s9 where "s9 = s8\<lparr>sys_seen := sys_seen s8 @ [sys_map s8 (profile_stages ! length (sys_seen s8))]\<rparr>"
  note defs = s0_def s1_def s2_def s3_def s4_def s5_def s6_def s7_def s8_def s9_def recordings_def profile_stages_def
  have r0: "reachable s0" unfolding s0_def by (rule reachable.start) (simp add: cleared_def empty_map_def)
  have "reachable s1" unfolding s1_def by (rule move [OF r0 complete]) (simp add: s0_def)
  then have "reachable s2" unfolding s2_def by (rule move [OF _ record_stage]) (simp add: s1_def recordings_def)
  then have "reachable s3" unfolding s3_def by (rule move [OF _ look_up]) (simp add: s2_def s1_def s0_def profile_stages_def)
  then have "reachable s4" unfolding s4_def by (rule move [OF _ complete]) (use assms in \<open>simp add: defs\<close>)
  then have "reachable s5" unfolding s5_def by (rule move [OF _ record_stage]) (simp add: s4_def recordings_def)
  then have "reachable s6" unfolding s6_def by (rule move [OF _ record_stage]) (simp add: s5_def recordings_def)
  then have "reachable s7" unfolding s7_def by (rule move [OF _ record_stage]) (simp add: s6_def recordings_def)
  then have "reachable s8" unfolding s8_def by (rule move [OF _ look_up]) (simp add: defs)
  then have r9: "reachable s9" unfolding s9_def by (rule move [OF _ look_up]) (simp add: defs)
  have seen: "sys_seen s9 = [sys_map s2 Parse_Signal, sys_map s7 Decision, sys_map s7 Redirect]"
    by (simp add: defs)
  have "seen_map s9 stage = torn_map a b stage" for stage
    unfolding seen_map_def seen
    by (cases stage) (simp_all add: defs torn_map_def sk_profile_record_def empty_map_def fun_eq_iff)
  then show ?thesis using r9 seen by (intro exI [of _ s9]) auto
qed


text \<open>C18. Equal counts do not rule out a torn read: with requests completing on two CPUs, the three lookups
  can see the first stage of one request and the other stages of another, and the response is
  accepted as one completed request whose times belong to two.\<close>

theorem torn_read_accepted:
  fixes a b :: completed
  assumes "cr_cpu a \<noteq> cr_cpu b" and "int (cr_cpu a) < re_cpus E" "int (cr_cpu b) < re_cpus E"
    and "re_alloc E" "list_all (re_lookup E) profile_stages"
  shows "\<exists>s r. reachable s \<and> length (sys_seen s) = 3 \<and>
    aggregate_response I (py_strip (serve_profile_read E (seen_map s))) = Inr r \<and> sk_completed r = 1 \<and>
    map (\<lambda>(stage, s). (stage, ss_count s, ss_total_ns s)) (sk_stages r) =
      [(u ''parse_signal'', 1, uint (cr_parse a)), (u ''decision'', 1, uint (cr_decision b)),
       (u ''redirect'', 1, uint (cr_redirect b))]"
proof -
  let ?n = "nat (re_cpus E)" and ?m = "torn_map a b"
  let ?f = "row_sum (map (parsed_row ?m) [0 ..< ?n])"
  have pos: "0 < re_cpus E" using assms(2) by simp
  have cpus: "cr_cpu a < ?n" "cr_cpu b < ?n" using assms(2,3) by auto
  have cells: "?f cell = (\<Sum>cpu \<leftarrow> [0 ..< ?n]. stage_cell ?m cpu cell)" if "cell \<in> set sk_cells" for cell
    using that by (rule row_sum_parsed)
  have one: "(\<Sum>cpu \<leftarrow> [0 ..< ?n]. if cpu = k then x else 0) = (x :: int)" if "k < ?n" for k x
    using that by (simp add: interv_sum_list_conv_sum_set_nat)
  have v: "uint (pv_count (?m stage cpu)) = (if cpu = (if stage = Parse_Signal then cr_cpu a else cr_cpu b) then 1 else 0)"
    "uint (pv_total_ns (?m stage cpu)) = (if cpu = (if stage = Parse_Signal then cr_cpu a else cr_cpu b)
      then uint (elapsed stage (if stage = Parse_Signal then a else b)) else 0)" for stage cpu
    by (simp_all add: torn_map_def)
  have f: "?f (u ''parse_signal'', u ''count'') = 1" "?f (u ''decision'', u ''count'') = 1" "?f (u ''redirect'', u ''count'') = 1"
    "?f (u ''parse_signal'', u ''total_ns'') = uint (cr_parse a)" "?f (u ''decision'', u ''total_ns'') = uint (cr_decision b)"
    "?f (u ''redirect'', u ''total_ns'') = uint (cr_redirect b)"
    using cells cpus by (simp_all add: set_sk_cells SK_STAGES_def SK_METRICS_def stage_cell_def v one)
  have small: "\<exists>s. sk_stage 1 (uint w) = Inr s \<and> ss_count s = 1 \<and> ss_total_ns s = uint w" for w :: "64 word"
  proof (rule sk_stage_small)
    have "uint w < 2 ^ 64" using uint_lt2p [of w] by simp
    also have "(2 :: int) ^ 64 \<le> 2 ^ 1023" by (intro power_increasing) auto
    finally show "uint w < 2 ^ 1023" .
  qed simp_all
  obtain x y z where
    "sk_stage 1 (uint (cr_parse a)) = Inr x" "ss_count x = 1" "ss_total_ns x = uint (cr_parse a)"
    "sk_stage 1 (uint (cr_decision b)) = Inr y" "ss_count y = 1" "ss_total_ns y = uint (cr_decision b)"
    "sk_stage 1 (uint (cr_redirect b)) = Inr z" "ss_count z = 1" "ss_total_ns z = uint (cr_redirect b)"
    using small by metis
  then obtain r where r: "sk_summary_of I (re_cpus E) ?f = Inr r" "sk_completed r = 1"
    "map (\<lambda>(stage, s). (stage, ss_count s, ss_total_ns s)) (sk_stages r) =
      [(u ''parse_signal'', 1, uint (cr_parse a)), (u ''decision'', 1, uint (cr_decision b)), (u ''redirect'', 1, uint (cr_redirect b))]"
    unfolding sk_summary_of_def stage_of_def f by simp
  obtain s where s: "reachable s" "length (sys_seen s) = 3" "seen_map s = ?m"
    using torn_reachable [OF assms(1)] by blast
  have "aggregate_response I (py_strip (serve_profile_read E (seen_map s))) = Inr r"
    unfolding s(3) by (rule aggregate_read [OF pos assms(4,5) r(1)])
  with s(1,2) r(2,3) show ?thesis by (intro exI [of _ s] exI [of _ r] conjI)
qed

end
