(* ===== verification/SkQuiesce.thy ===== *)
theory SkQuiesce
  imports SkRace
begin

section \<open>Coming to rest\<close>

text \<open>
  When no new request completes, the CPUs only finish the recordings they have started. From every
  reachable state they come to rest that way, and a read of the router at rest is accepted.
\<close>

inductive drains :: "sys \<Rightarrow> sys \<Rightarrow> bool" where
  drained: "drains s s"
| drain: "sys_pending s cpu = (stage, t) # rest \<Longrightarrow>
     drains (s\<lparr>sys_map := sk_profile_record stage cpu t (sys_map s), sys_pending := (sys_pending s)(cpu := rest)\<rparr>) s' \<Longrightarrow>
     drains s s'"

definition at_rest :: "sys \<Rightarrow> bool" where
  "at_rest s \<longleftrightarrow> sys_pending s = (\<lambda>_. [])"

lemma drains_trans: "drains s s1 \<Longrightarrow> drains s1 s2 \<Longrightarrow> drains s s2"
  by (induction rule: drains.induct) (auto intro: drain)

lemma drains_reachable: "drains s s' \<Longrightarrow> reachable s \<Longrightarrow> reachable s'"
  by (induction rule: drains.induct) (blast intro: reachable.move record_stage)+

lemma drains_seen: "drains s s' \<Longrightarrow> sys_seen s' = sys_seen s"
  by (induction rule: drains.induct) simp_all

lemma drain_cpu: "\<exists>s'. drains s s' \<and> sys_pending s' = (sys_pending s)(cpu := [])"
proof (induction "sys_pending s cpu" arbitrary: s)
  case Nil
  then have "(sys_pending s)(cpu := []) = sys_pending s" by (simp add: fun_upd_idem)
  then show ?case using drained by metis
next
  case (Cons item rest)
  obtain stage t where item: "item = (stage, t)" by (cases item)
  define s1 where "s1 = s\<lparr>sys_map := sk_profile_record stage cpu t (sys_map s), sys_pending := (sys_pending s)(cpu := rest)\<rparr>"
  have "rest = sys_pending s1 cpu" by (simp add: s1_def)
  from Cons.hyps(1) [OF this] obtain s' where s': "drains s1 s'" "sys_pending s' = (sys_pending s1)(cpu := [])" by blast
  have "drains s s'"
    by (rule drain [OF _ s'(1) [unfolded s1_def]]) (simp add: Cons.hyps(2) [symmetric] item)
  moreover have "sys_pending s' = (sys_pending s)(cpu := [])" unfolding s'(2) by (simp add: s1_def)
  ultimately show ?case by blast
qed

lemma reachable_finite: "reachable s \<Longrightarrow> finite {cpu. sys_pending s cpu \<noteq> []}"
proof (induction rule: reachable.induct)
  case (move s s')
  have "\<exists>cpu. {c. sys_pending s' c \<noteq> []} \<subseteq> insert cpu {c. sys_pending s c \<noteq> []}"
    using move.hyps(2) by cases (auto split: if_splits)
  with move.IH show ?case by (meson finite_insert finite_subset)
qed simp

lemma drain_all:
  assumes "finite A" "{cpu. sys_pending s cpu \<noteq> []} \<subseteq> A"
  shows "\<exists>s'. drains s s' \<and> at_rest s'"
  using assms
proof (induction A arbitrary: s)
  case empty
  then have "at_rest s" by (auto simp: at_rest_def)
  then show ?case using drained by blast
next
  case (insert cpu A)
  from drain_cpu obtain s1 where s1: "drains s s1" "sys_pending s1 = (sys_pending s)(cpu := [])" by blast
  have "{c. sys_pending s1 c \<noteq> []} \<subseteq> A" using insert.prems unfolding s1(2) by (auto split: if_splits)
  from insert.IH [OF this] s1(1) show ?case by (blast intro: drains_trans)
qed

lemma sum_words_bound: "(\<Sum>cpu \<leftarrow> [0 ..< n]. uint (f cpu :: 64 word)) \<le> int n * 2 ^ 64"
proof (induction n)
  case (Suc n)
  have "uint (f n) \<le> 2 ^ 64" using uint_lt2p [of "f n"] by simp
  with Suc show ?case by (simp add: distrib_right)
qed simp

text \<open>At rest the counts of the stages agree CPU by CPU, so their sums agree and the read is accepted.\<close>

lemma rest_accepted:
  assumes m: "\<And>cpu. pv_count (m Parse_Signal cpu) = pv_count (m Redirect cpu) \<and> pv_count (m Decision cpu) = pv_count (m Redirect cpu)"
    and E: "0 < re_cpus E" "re_cpus E < 2 ^ 31" "re_alloc E" "list_all (re_lookup E) profile_stages"
  shows "\<exists>r. aggregate_response I (py_strip (serve_profile_read E m)) = Inr r \<and>
    sk_completed r = (\<Sum>cpu \<leftarrow> [0 ..< nat (re_cpus E)]. uint (pv_count (m Redirect cpu))) \<and>
    map (\<lambda>(stage, s). ss_total_ns s) (sk_stages r) =
      map (\<lambda>stage. \<Sum>cpu \<leftarrow> [0 ..< nat (re_cpus E)]. uint (pv_total_ns (m stage cpu))) profile_stages"
proof -
  let ?n = "nat (re_cpus E)"
  let ?f = "row_sum (map (parsed_row m) [0 ..< ?n])"
  let ?t = "\<lambda>stage. \<Sum>cpu \<leftarrow> [0 ..< ?n]. uint (pv_total_ns (m stage cpu))"
  define k where "k = (\<Sum>cpu \<leftarrow> [0 ..< ?n]. uint (pv_count (m Redirect cpu)))"
  have cells: "?f cell = (\<Sum>cpu \<leftarrow> [0 ..< ?n]. stage_cell m cpu cell)" if "cell \<in> set sk_cells" for cell
    using that by (rule row_sum_parsed)
  have f: "?f (u ''parse_signal'', u ''count'') = k" "?f (u ''decision'', u ''count'') = k" "?f (u ''redirect'', u ''count'') = k"
    "?f (u ''parse_signal'', u ''total_ns'') = ?t Parse_Signal" "?f (u ''decision'', u ''total_ns'') = ?t Decision"
    "?f (u ''redirect'', u ''total_ns'') = ?t Redirect"
    using cells m by (simp_all add: set_sk_cells SK_STAGES_def SK_METRICS_def stage_cell_def k_def)
  have big: "(2 :: int) ^ 31 * 2 ^ 64 \<le> 2 ^ 1023" unfolding power_add [symmetric] by (intro power_increasing) auto
  have small: "\<exists>s. sk_stage k (?t stage) = Inr s \<and> ss_count s = k \<and> ss_total_ns s = ?t stage" for stage
  proof (rule sk_stage_small)
    have "?t stage \<le> int ?n * 2 ^ 64" by (rule sum_words_bound)
    also have "int ?n * 2 ^ 64 < 2 ^ 31 * (2 ^ 64 :: int)" using E(1,2) by simp
    also note big
    finally show "?t stage < 2 ^ 1023" .
  qed (simp_all add: k_def sum_uint_nonneg sum_list_nonneg)
  obtain a b c where
    "sk_stage k (?t Parse_Signal) = Inr a" "ss_count a = k" "ss_total_ns a = ?t Parse_Signal"
    "sk_stage k (?t Decision) = Inr b" "ss_count b = k" "ss_total_ns b = ?t Decision"
    "sk_stage k (?t Redirect) = Inr c" "ss_count c = k" "ss_total_ns c = ?t Redirect"
    using small by metis
  then obtain r where r: "sk_summary_of I (re_cpus E) ?f = Inr r" "sk_completed r = k"
    "map (\<lambda>(stage, s). ss_total_ns s) (sk_stages r) = map ?t profile_stages"
    unfolding sk_summary_of_def stage_of_def f by (simp add: profile_stages_def)
  from aggregate_read [OF E(1,3,4) r(1)] r(2,3) show ?thesis unfolding k_def by blast
qed

text \<open>C17. The system comes to rest: from every reachable state the CPUs can finish what they have started,
  and once they have, a read is accepted and reports per stage the sum of what the CPUs recorded. A
  read that was rejected for differing counts can always be repeated with success after the traffic
  has stopped.\<close>

theorem quiet_read_accepted:
  assumes "reachable s" and "0 < re_cpus E" "re_cpus E < 2 ^ 31" "re_alloc E" "list_all (re_lookup E) profile_stages"
  shows "\<exists>s' r. drains s s' \<and> at_rest s' \<and> aggregate_response I (py_strip (serve_profile_read E (sys_map s'))) = Inr r \<and>
    sk_completed r = (\<Sum>cpu \<leftarrow> [0 ..< nat (re_cpus E)]. uint (pv_count (sys_map s' Redirect cpu))) \<and>
    map (\<lambda>(stage, s). ss_total_ns s) (sk_stages r) =
      map (\<lambda>stage. \<Sum>cpu \<leftarrow> [0 ..< nat (re_cpus E)]. uint (pv_total_ns (sys_map s' stage cpu))) profile_stages"
proof -
  from drain_all [OF reachable_finite [OF assms(1)] subset_refl] obtain s' where s': "drains s s'" "at_rest s'" by blast
  then have "pv_count (sys_map s' Parse_Signal cpu) = pv_count (sys_map s' Redirect cpu) \<and>
      pv_count (sys_map s' Decision cpu) = pv_count (sys_map s' Redirect cpu)" for cpu
    using reachable_cpu_ok [OF drains_reachable [OF s'(1) assms(1)], of cpu] by (simp add: at_rest_def cpu_ok_idle)
  from rest_accepted [where I = I and m = "sys_map s'", OF this assms(2-5)] s' show ?thesis by blast
qed

end
