(* ===== verification/Doubles.thy ===== *)
theory Doubles
  imports ProfileBase
begin

section \<open>The numbers a double can hold\<close>

text \<open>
  Rounding returns a number of the format, keeps the numbers of the format and is monotone.
\<close>

subsection \<open>Numbers with at most \<open>p\<close> digits\<close>

context float_format
begin

lemma rnd_form: "\<exists>k. rnd b p x = of_int k * of_nat b powi (ilog b \<bar>x\<bar> + 1 - int p) \<and> \<bar>k\<bar> \<le> int b ^ p"
proof (cases "x = 0")
  case False
  define e where "e = ilog b \<bar>x\<bar> + 1 - int p"
  define q where "q = x / of_nat b powi e"
  have "\<bar>x\<bar> \<le> of_nat b powi (ilog b \<bar>x\<bar> + 1)"
    using ilog_bounds(2) [OF base, of "\<bar>x\<bar>"] False by simp
  also have "\<dots> = of_nat b powi int p * of_nat b powi e"
    using b_pos power_int_add [of "of_nat b :: rat" "int p" e] by (simp add: e_def add.commute)
  finally have "\<bar>q\<bar> \<le> of_nat b ^ p"
    by (simp add: q_def abs_divide pos_divide_le_eq)
  then have "q \<le> of_int (int b ^ p)" "- q \<le> of_int (int b ^ p)" by simp_all
  then have "round_half_even q \<le> int b ^ p" "round_half_even (- q) \<le> int b ^ p"
    by (simp_all only: round_half_even_le)
  then have "\<bar>round_half_even q\<bar> \<le> int b ^ p" by (simp add: round_half_even_uminus)
  moreover have "rnd b p x = of_int (round_half_even q) * of_nat b powi e"
    using False by (simp add: rnd_def q_def e_def Let_def)
  ultimately show ?thesis unfolding e_def by blast
qed (auto intro!: exI [of _ 0])

lemma rnd_exact_pos:
  assumes k: "0 < k" "k \<le> int b ^ p" shows "rnd b p (of_int k * of_nat b powi e) = of_int k * of_nat b powi e"
proof -
  define x where "x = (of_int k * of_nat b powi e :: rat)"
  define d where "d = ilog b x + 1 - int p"
  have x: "0 < x" using k by (simp add: x_def)
  have "\<exists>n. x / of_nat b powi d = of_int n"
  proof (cases "d \<le> e")
    case True
    then have "x / of_nat b powi d = of_int (k * int b ^ nat (e - d))"
      using b_pos by (simp add: x_def power_int_diff flip: power_int_of_nat)
    then show ?thesis by blast
  next
    case False
    have split: "of_nat b powi (int p + e) = (of_int (int b ^ p) * of_nat b powi e :: rat)"
      using b_pos by (simp add: power_int_add)
    have "x \<le> of_nat b powi (int p + e)"
      unfolding split x_def using k(2) by (simp only: of_int_le_iff mult_le_cancel_right_pos powi_pos)
    with ilog_bounds(1) [OF base x] have "of_nat b powi ilog b x \<le> (of_nat b powi (int p + e) :: rat)" by linarith
    then have "ilog b x \<le> int p + e" using power_int_strict_increasing [OF _ b_pos(2), of "int p + e" "ilog b x"] by linarith
    with False have l: "ilog b x = int p + e" by (simp add: d_def)
    with ilog_bounds(1) [OF base x] split have "of_int (int b ^ p) * of_nat b powi e \<le> x" by simp
    then have "int b ^ p \<le> k" unfolding x_def by (simp only: of_int_le_iff mult_le_cancel_right_pos powi_pos)
    with k(2) have "k = int b ^ p" by simp
    then have "x = of_nat b powi (int p + e)" by (simp add: x_def split)
    moreover have "int p + e = int (p - 1) + d" using prec by (simp add: d_def l)
    ultimately have "x / of_nat b powi d = of_int (int b ^ (p - 1))"
      using b_pos by (simp add: power_int_add)
    then show ?thesis by blast
  qed
  then have "of_int (round_half_even (x / of_nat b powi d)) = x / of_nat b powi d" by auto
  then have "of_int (round_half_even (x / of_nat b powi d)) * of_nat b powi d = x" using base by simp
  then show ?thesis using x unfolding x_def [symmetric] rnd_def Let_def by (simp add: d_def)
qed

lemma rnd_exact:
  assumes "\<bar>k\<bar> \<le> int b ^ p" shows "rnd b p (of_int k * of_nat b powi e) = of_int k * of_nat b powi e"
proof -
  consider "0 < k" | "k = 0" | "0 < - k" by linarith
  then show ?thesis
  proof cases
    case 3
    with rnd_exact_pos [of "- k" e] assms show ?thesis by (simp add: rnd_uminus)
  qed (use assms rnd_exact_pos in simp_all)
qed

end

subsection \<open>Doubles\<close>

definition is_double :: "rat \<Rightarrow> bool" where
  "is_double x \<longleftrightarrow> (\<exists>k e. \<bar>k\<bar> \<le> 2 ^ 53 \<and> - 1074 \<le> e \<and> x = of_int k * 2 powi e)"

lemma scale_powi: "subnormal_scale = 2 powi 1074" "normal_scale = 2 powi 1022"
  by (simp_all only: subnormal_scale_def normal_scale_def power_int_numeral)

lemma inverse_scales: "inverse subnormal_scale = 2 powi (- 1074)" "inverse normal_scale = 2 powi (- 1022)"
  by (simp_all only: scale_powi power_int_minus)

lemma double_small: "\<bar>x\<bar> * normal_scale < 1 \<Longrightarrow> \<bar>round_half_even (x * subnormal_scale)\<bar> \<le> 2 ^ 52"
proof -
  assume x: "\<bar>x\<bar> * normal_scale < 1"
  have "\<bar>x * subnormal_scale\<bar> = (\<bar>x\<bar> * normal_scale) * 2 ^ 52" using scale_facts(2) by (simp add: scale_facts(3) abs_mult)
  also have "\<dots> \<le> 1 * 2 ^ 52" using x by (intro mult_right_mono) auto
  finally have "x * subnormal_scale \<le> of_int (2 ^ 52)" "- (x * subnormal_scale) \<le> of_int (2 ^ 52)" by simp_all
  then have "round_half_even (x * subnormal_scale) \<le> 2 ^ 52" "round_half_even (- (x * subnormal_scale)) \<le> 2 ^ 52"
    by (simp_all only: round_half_even_le)
  then show ?thesis by (simp add: round_half_even_uminus)
qed

lemma is_double_double: "is_double (double x)"
proof (cases "\<bar>x\<bar> * normal_scale < 1")
  case True
  have "double x = of_int (round_half_even (x * subnormal_scale)) * 2 powi (- 1074)"
    unfolding double_def if_P [OF True] by (simp only: divide_inverse inverse_scales)
  moreover have "\<bar>round_half_even (x * subnormal_scale)\<bar> \<le> 2 ^ 53" using double_small [OF True] by simp
  ultimately show ?thesis unfolding is_double_def by (intro exI [of _ "round_half_even (x * subnormal_scale)"] exI [of _ "- 1074"]) simp
next
  case False
  define d where "d = ilog 2 \<bar>x\<bar> + 1 - 53"
  from double_format.rnd_form [of x] obtain k where k: "double x = of_int k * 2 powi d" "\<bar>k\<bar> \<le> 2 ^ 53"
    using False by (auto simp: double_def binary64_def d_def)
  have "1 \<le> \<bar>x\<bar> * normal_scale" using False by simp
  then have "0 < \<bar>x\<bar>" "inverse normal_scale \<le> \<bar>x\<bar>"
    using pos_of_scaled [of "\<bar>x\<bar>"] scale_facts(1) by (blast, simp add: inverse_eq_divide pos_divide_le_eq)
  then have "2 powi (- 1022) \<le> \<bar>x\<bar>" by (simp only: inverse_scales)
  also have "\<bar>x\<bar> < 2 powi (ilog 2 \<bar>x\<bar> + 1)" using ilog_bounds(2) [of 2 "\<bar>x\<bar>"] \<open>0 < \<bar>x\<bar>\<close> by simp
  finally have "- 1022 < ilog 2 \<bar>x\<bar> + 1" by (meson one_le_numeral less_le_not_le not_less power_int_increasing)
  with k show ?thesis unfolding is_double_def d_def by (intro exI [of _ k] exI [of _ "ilog 2 \<bar>x\<bar> + 1 - 53"]) simp
qed

lemma double_exact: "is_double x \<Longrightarrow> double x = x"
proof -
  assume "is_double x"
  then obtain k e where k: "\<bar>k\<bar> \<le> 2 ^ 53" "- 1074 \<le> e" "x = of_int k * 2 powi e" by (auto simp: is_double_def)
  show ?thesis
  proof (cases "\<bar>x\<bar> * normal_scale < 1")
    case True
    have "x * subnormal_scale = of_int k * 2 powi (e + 1074)"
      unfolding k(3) scale_powi(1) mult.assoc by (subst power_int_add) simp_all
    also have "\<dots> = of_int (k * 2 ^ nat (e + 1074))" using k(2) by (simp add: power_int_def)
    finally have n: "x * subnormal_scale = of_int (k * 2 ^ nat (e + 1074))" .
    then have "of_int (round_half_even (x * subnormal_scale)) = x * subnormal_scale" by (metis round_half_even_of_int)
    with True scale_facts(2) show ?thesis by (simp add: double_def)
  next
    case False
    with double_format.rnd_exact [of k e] k show ?thesis by (simp add: double_def binary64_def)
  qed
qed

lemma double_idem [simp]: "double (double x) = double x"
  by (rule double_exact [OF is_double_double])

lemma double_is: "double x = x \<Longrightarrow> is_double x"
  by (metis is_double_double)

lemma double_twice: "double x = x \<Longrightarrow> double (2 * x) = 2 * x"
proof -
  assume "double x = x"
  from double_is [OF this] obtain k e where k: "\<bar>k\<bar> \<le> 2 ^ 53" "- 1074 \<le> e" "x = of_int k * 2 powi e" by (auto simp: is_double_def)
  then have "2 * x = of_int k * 2 powi (e + 1)" by (simp add: power_int_add_1)
  with k(1,2) have "is_double (2 * x)" unfolding is_double_def by (intro exI [of _ k] exI [of _ "e + 1"]) simp
  then show ?thesis by (rule double_exact)
qed

lemma double_mono:
  assumes "0 \<le> x" "x \<le> y" shows "double x \<le> double y"
proof (cases "x * normal_scale < 1")
  case x: True
  show ?thesis
  proof (cases "y * normal_scale < 1")
    case True
    have "round_half_even (x * subnormal_scale) \<le> round_half_even (y * subnormal_scale)"
      using assms scale_facts(2) by (intro round_half_even_mono mult_right_mono) auto
    with x True assms scale_facts(2) show ?thesis by (simp add: double_def divide_right_mono)
  next
    case False
    have "double x * subnormal_scale = of_int (round_half_even (x * subnormal_scale))"
      using x assms scale_facts(2) by (simp add: double_def)
    also have "\<dots> \<le> of_int (2 ^ 52)" using double_small [of x] x assms by (simp only: of_int_le_iff) simp
    finally have "double x * normal_scale \<le> 1" by (simp add: scale_facts(3))
    moreover have "1 \<le> binary64 y * normal_scale"
    proof -
      have "inverse normal_scale \<le> y" using False scale_facts(1) by (simp add: inverse_eq_divide pos_divide_le_eq)
      then have "2 powi (- 1022) \<le> y" by (simp only: inverse_scales)
      then have "binary64 (2 powi (- 1022)) \<le> binary64 y" by (rule binary64_facts)
      moreover have "binary64 (2 powi (- 1022)) = 2 powi (- 1022)"
        using double_format.rnd_exact [of 1 "- 1022"] by (simp add: binary64_def)
      ultimately have "inverse normal_scale \<le> binary64 y" by (simp only: inverse_scales)
      then show ?thesis using scale_facts(1) by (simp add: inverse_eq_divide pos_divide_le_eq)
    qed
    moreover have "double y = binary64 y" using False by (intro double_normal) simp
    ultimately have "double x * normal_scale \<le> double y * normal_scale" by simp
    then show ?thesis using scale_facts(1) by simp
  qed
next
  case False
  moreover have "x * normal_scale \<le> y * normal_scale" using assms scale_facts(1) by (intro mult_right_mono) auto
  ultimately have "double x = binary64 x" "double y = binary64 y" by (intro double_normal; linarith)+
  with assms show ?thesis by (simp add: binary64_facts)
qed

lemma double_between: "double a = a \<Longrightarrow> double b = b \<Longrightarrow> 0 \<le> a \<Longrightarrow> a \<le> x \<Longrightarrow> x \<le> b \<Longrightarrow> a \<le> double x \<and> double x \<le> b"
  using double_mono [of a x] double_mono [of x b] by simp

lemma is_double_nat: "n \<le> 2 ^ 53 \<Longrightarrow> is_double (of_nat n)"
  unfolding is_double_def by (intro exI [of _ "int n"] exI [of _ 0]) simp

lemma double_numeral: "numeral k \<le> (2 ^ 53 :: nat) \<Longrightarrow> double (numeral k) = numeral k"
  using double_exact [OF is_double_nat [of "numeral k"]] by simp

subsection \<open>When a quotient does not fit\<close>

text \<open>
  Halfway between the largest double and 2 to the 1024 lies 2 to the 1024 less 2 to the 970; from there on
  the rounded quotient is 2 to the 1024 or more, since the tie goes to the even neighbour.
\<close>

lemma round_half_even_ge_even:
  assumes "even n" shows "n \<le> round_half_even q \<longleftrightarrow> of_int n - 1 / 2 \<le> q"
proof
  assume "n \<le> round_half_even q"
  then have "(of_int n :: rat) \<le> of_int (round_half_even q)" by (simp only: of_int_le_iff)
  with round_half_even_error [of q] show "of_int n - 1 / 2 \<le> q" by linarith
next
  assume q: "of_int n - 1 / 2 \<le> q"
  show "n \<le> round_half_even q"
  proof (cases "of_int n \<le> q")
    case False
    then have "of_int (n - 1) \<le> q" "q < of_int (n - 1) + 1" using q by (simp_all only: of_int_diff of_int_1)
    then have f: "\<lfloor>q\<rfloor> = n - 1" by (rule floor_unique)
    with assms q False show ?thesis by (auto simp: round_half_even_def Let_def)
  qed (rule round_half_even_ge)
qed

lemma double_large: "float_limit \<le> q \<Longrightarrow> float_limit \<le> double q"
proof -
  assume q: "float_limit \<le> q"
  then have "1 * 1 \<le> q * normal_scale" using scale_facts(1,4) by (intro mult_mono) auto
  then have "double q = binary64 q" by (intro double_normal) simp
  then show ?thesis
    using double_format.rnd_ge_power [of 1024 q] q by (simp only: binary64_def float_limit_def of_nat_numeral)
qed

lemma double_top: "2 ^ 1023 \<le> q \<Longrightarrow> q < 2 ^ 1024 \<Longrightarrow> double q = of_int (round_half_even (q / 2 ^ 971)) * 2 ^ 971"
proof -
  assume l: "2 ^ 1023 \<le> q" and h: "q < 2 ^ 1024"
  have n: "(1 :: rat) \<le> 2 ^ 1023" by simp
  with l have q: "0 < q" "1 \<le> q" by linarith+
  then have "1 * 1 \<le> q * normal_scale" using scale_facts(1) by (intro mult_mono) auto
  then have d: "double q = binary64 q" by (intro double_normal) simp
  have b: "2 powi ilog 2 q \<le> q" "q < 2 powi (ilog 2 q + 1)"
    using ilog_bounds [of 2 q] q(1) by simp_all
  have p: "(2 :: rat) powi 1023 = 2 ^ 1023" "(2 :: rat) powi 1024 = 2 ^ 1024" by (simp_all only: power_int_numeral)
  from b(1) h have "2 powi ilog 2 q < (2 :: rat) powi 1024" unfolding p by (rule le_less_trans)
  moreover from l b(2) have "(2 :: rat) powi 1023 < 2 powi (ilog 2 q + 1)" unfolding p by (rule le_less_trans)
  ultimately have "ilog 2 q < 1024" "1023 < ilog 2 q + 1"
    by (meson power_int_increasing not_less one_le_numeral)+
  then have i: "ilog 2 \<bar>q\<bar> + 1 - int 53 = 971" using q by simp
  show ?thesis
    unfolding d binary64_def rnd_def Let_def i using q by (simp only: if_False of_nat_numeral power_int_numeral) simp
qed

lemma double_overflow_iff: "0 \<le> q \<Longrightarrow> float_limit \<le> double q \<longleftrightarrow> (2 ^ 54 - 1) * 2 ^ 970 \<le> q"
proof -
  assume q: "0 \<le> q"
  have t: "(2 :: rat) ^ 1023 \<le> (2 ^ 54 - 1) * 2 ^ 970" "(2 ^ 54 - 1) * 2 ^ 970 \<le> (2 :: rat) ^ 1024" by simp_all
  consider "q < 2 ^ 1023" | "2 ^ 1023 \<le> q" "q < 2 ^ 1024" | "2 ^ 1024 \<le> q" by linarith
  then show ?thesis
  proof cases
    case 1
    with t(1) double_less [OF q] show ?thesis by (meson less_le_trans not_less)
  next
    case 2
    have f: "float_limit = of_int (2 ^ 53) * (2 :: rat) ^ 971" by (simp add: float_limit_def)
    have p: "0 < (2 :: rat) ^ 971" by simp
    have "float_limit \<le> double q \<longleftrightarrow> 2 ^ 53 \<le> round_half_even (q / 2 ^ 971)"
      unfolding double_top [OF 2] f mult_le_cancel_right_pos [OF p] by (rule of_int_le_iff)
    also have "\<dots> \<longleftrightarrow> of_int (2 ^ 53) - 1 / 2 \<le> q / 2 ^ 971"
      by (rule round_half_even_ge_even) simp
    also have "\<dots> \<longleftrightarrow> (of_int (2 ^ 53) - 1 / 2) * 2 ^ 971 \<le> q" by (rule pos_le_divide_eq) simp
    finally show ?thesis by simp
  next
    case 3
    then have "float_limit \<le> q" by (simp only: float_limit_def)
    with double_large 3 t(2) show ?thesis by (meson order_trans)
  qed
qed

lemma true_div_overflow:
  assumes "0 \<le> a" "0 < b"
  shows "true_div a b = Inl (OverflowErr ''integer division result too large for a float'') \<longleftrightarrow> (2 ^ 54 - 1) * 2 ^ 970 * b \<le> a"
proof -
  have q: "0 \<le> (of_int a / of_int b :: rat)" using assms by simp
  have "(2 ^ 54 - 1) * 2 ^ 970 \<le> (of_int a / of_int b :: rat) \<longleftrightarrow> (2 ^ 54 - 1) * 2 ^ 970 * of_int b \<le> (of_int a :: rat)"
    using assms(2) by (intro pos_le_divide_eq) simp
  also have "\<dots> \<longleftrightarrow> of_int ((2 ^ 54 - 1) * 2 ^ 970 * b) \<le> (of_int a :: rat)"
    by (simp only: of_int_mult of_int_diff of_int_power of_int_numeral of_int_1)
  finally have "(2 ^ 54 - 1) * 2 ^ 970 \<le> (of_int a / of_int b :: rat) \<longleftrightarrow> (2 ^ 54 - 1) * 2 ^ 970 * b \<le> a"
    by (simp only: of_int_le_iff)
  then show ?thesis
    using double_overflow_iff [OF q] double_nonneg [OF q] assms(2)
    by (simp add: true_div_def Let_def abs_of_nonneg del: power_numeral)
qed

end
