(* ===== verification/SkExamples.thy ===== *)
theory SkExamples
  imports SkQuiesce Doubles
begin

section \<open>Resetting, a total that is too large, and examples\<close>

text \<open>
  What a confirmed reset means for the counters, the response whose division overflows, and the
  concrete inputs at which the theorems about the profile reader apply.
\<close>

subsection \<open>Resetting\<close>

definition reset_reply :: "bool \<Rightarrow> router_env \<Rightarrow> ustr" where
  "reset_reply profiling E = (if \<not> profiling then u ''profile_enabled=0 error=profiling_disabled'' @ [10]
     else if re_cpus E \<le> 0 then u ''profile_enabled=1 error=cpu_count'' @ [10]
     else if \<not> re_alloc E then u ''profile_enabled=1 error=allocation'' @ [10]
     else if list_all (re_update E) profile_stages then u ''profile_enabled=1 reset=ok'' @ [10]
     else u ''profile_enabled=1 error=map_update'' @ [10])"

lemma clear_stages_done: "snd (clear_stages E stages m) \<longleftrightarrow> list_all (re_update E) stages"
  by (induction stages arbitrary: m) auto

lemma serve_reset:
  "serve_status profiling status E (profile_command (action_text Reset)) m =
     (reset_reply profiling E, if profiling then snd (serve_profile_reset E m) else m)"
proof -
  have c: "takeWhile (\<lambda>c. c \<noteq> 10 \<and> c \<noteq> 13 \<and> c \<noteq> 0) (take 63 (profile_command (action_text Reset))) = u ''profile reset''"
    by code_simp
  have "profile_command (action_text Reset) \<noteq> []" by (simp add: profile_command_def)
  then have s: "serve_status profiling status E (profile_command (action_text Reset)) m =
      (if profiling then serve_profile_reset E m else (u ''profile_enabled=0 error=profiling_disabled'' @ [10], m))"
    by (simp only: serve_status_def Let_def c if_False) simp
  have "fst (serve_profile_reset E m) = reset_reply True E"
    using clear_stages_done [of E profile_stages m]
    by (cases "clear_stages E profile_stages m") (simp add: serve_profile_reset_def reset_reply_def)
  then show ?thesis
    unfolding s by (cases profiling) (simp_all add: prod_eq_iff reset_reply_def)
qed

lemma reset_reply_facts: "reset_reply profiling E \<noteq> [] \<and> list_all (\<lambda>b. b < 128) (reset_reply profiling E)"
  by (simp add: reset_reply_def u_def)

lemma router_reset:
  assumes "sk_action args = Reset" "settimeout (sk_timeout args) = Inr ()"
  shows "sk_main I (router_peer profiling status E m) args = Some (sk_reply I args (Inr (py_strip (reset_reply profiling E))))"
  using router.main_reply [of args profiling status E m I] reset_reply_facts assms by (simp add: serve_reset)

lemma confirm_replies:
  "confirm_reset U (py_strip (u ''profile_enabled=1 reset=ok'' @ [10])) = Inr ()"
  "confirm_reset U (py_strip (u ''profile_enabled=0 error=profiling_disabled'' @ [10])) =
     Inl (RuntimeErr ''router was built with SK_PROFILE_COMPONENTS=0'' [])"
  "confirm_reset U (py_strip (u ''profile_enabled=1 error=cpu_count'' @ [10])) =
     Inl (RuntimeErr ''router profiling reset failed: {}'' [u ''cpu_count''])"
  "confirm_reset U (py_strip (u ''profile_enabled=1 error=allocation'' @ [10])) =
     Inl (RuntimeErr ''router profiling reset failed: {}'' [u ''allocation''])"
  "confirm_reset U (py_strip (u ''profile_enabled=1 error=map_update'' @ [10])) =
     Inl (RuntimeErr ''router profiling reset failed: {}'' [u ''map_update''])"
  by code_simp+

text \<open>C10. The script reports a reset exactly when the router was built with the counters and every step of
  its reset succeeded, and then all counters of all CPUs are zero.\<close>

theorem reset_reported_iff:
  assumes "sk_action args = Reset" "settimeout (sk_timeout args) = Inr ()"
  shows "((\<exists>out. sk_main I (router_peer profiling status E m) args = Some (Exit 0 out)) \<longleftrightarrow>
      profiling \<and> 0 < re_cpus E \<and> re_alloc E \<and> list_all (re_update E) profile_stages) \<and>
    (\<forall>out. sk_main I (router_peer profiling status E m) args = Some (Exit 0 out) \<longrightarrow>
      cleared (snd (serve_status profiling status E (profile_command (action_text Reset)) m)))"
proof -
  have main: "sk_main I (router_peer profiling status E m) args = Some
      (case confirm_reset (i_unicode I) (py_strip (reset_reply profiling E)) of
        Inl e \<Rightarrow> handled e | Inr _ \<Rightarrow> Exit 0 (u ''profiling counters reset'' @ [10]))"
    by (simp add: router_reset assms sk_reply_def)
  have iff: "(\<exists>out. sk_main I (router_peer profiling status E m) args = Some (Exit 0 out)) \<longleftrightarrow>
      profiling \<and> 0 < re_cpus E \<and> re_alloc E \<and> list_all (re_update E) profile_stages"
    unfolding main reset_reply_def by (simp add: confirm_replies handled_def)
  then show ?thesis
    using reset_clears [of E m] by (auto simp: serve_reset)
qed

subsection \<open>A total that is too large\<close>

lemma aggregate_lines_ok:
  assumes "sk_header (i_unicode I) first (1 + int (length rest)) = Inr n"
    and "map_res (parse_fields (i_unicode I)) rest = Inr rows" "rows_ok n rows"
  shows "aggregate_lines I (first # rest) = sk_summary_of I n (row_sum rows)"
proof -
  let ?U = "i_unicode I"
  obtain totals where l: "fold_res (sk_row ?U n) rest ([], sk_totals) = Inr (rev (cpus_of rows), totals)"
    using sk_rows_iff(1) [OF cells_hold_init, of ?U n rest "[]" "rev (cpus_of rows)"] assms(2,3) by (auto simp: rows_ok_def)
  from sk_rows_iff(2) [OF cells_hold_init l assms(2)] have "cells_hold totals (row_sum rows)" by simp
  with l assms(1) show ?thesis
    by (simp add: aggregate_lines_def sk_summary_cells)
qed

definition big_fields :: "int \<Rightarrow> (ustr \<times> int) list" where
  "big_fields t = [(u ''cpu'', 0), (u ''parse_signal_count'', 1), (u ''parse_signal_total_ns'', t),
     (u ''decision_count'', 1), (u ''decision_total_ns'', 0), (u ''redirect_count'', 1), (u ''redirect_total_ns'', 0)]"

lemma big_fields_ok: "list_all (\<lambda>kv. key_ok (fst kv)) (big_fields t)" "distinct (map fst (big_fields t))"
  using keys_ok(1,2) [of empty_map 0] by (simp_all add: big_fields_def row_fields_def)

lemma aggregate_lines_overflow:
  assumes "aggregate_lines I (first # rest) = Inl overflow"
  shows "\<exists>n rows. sk_header (i_unicode I) first (1 + int (length rest)) = Inr n \<and>
    map_res (parse_fields (i_unicode I)) rest = Inr rows \<and> rows_ok n rows \<and> sk_summary_of I n (row_sum rows) = Inl overflow"
proof -
  let ?U = "i_unicode I"
  have r: "\<not> reported overflow" by (simp add: overflow_def)
  from assms sk_header_error r obtain n where h: "sk_header ?U first (1 + int (length rest)) = Inr n"
    by (cases "sk_header ?U first (1 + int (length rest))") (auto simp: aggregate_lines_def)
  have "fold_res (sk_row ?U n) rest ([], sk_totals) \<noteq> Inl overflow"
  proof
    assume "fold_res (sk_row ?U n) rest ([], sk_totals) = Inl overflow"
    then have "reported overflow"
      by (rule fold_res_error [where P = "\<lambda>st. \<exists>f. cells_hold (snd st) f"])
        (use cells_hold_init sk_row_error sk_row_holds in \<open>fastforce+\<close>)
    with r show False ..
  qed
  with assms h obtain seen totals where l: "fold_res (sk_row ?U n) rest ([], sk_totals) = Inr (seen, totals)"
    by (cases "fold_res (sk_row ?U n) rest ([], sk_totals)") (auto simp: aggregate_lines_def)
  then obtain rows where rows: "map_res (parse_fields ?U) rest = Inr rows" "rows_ok n rows"
    using sk_rows_iff(1) [OF cells_hold_init, of ?U n rest "[]" seen] unfolding rows_ok_def by blast
  with assms aggregate_lines_ok [OF h rows] h show ?thesis by auto
qed

lemma stage_of_overflow:
  assumes "0 \<le> f (u stage, u ''count'')" "0 \<le> f (u stage, u ''total_ns'')"
  shows "stage_of f stage = Inl overflow \<longleftrightarrow> 0 < f (u stage, u ''count'') \<and>
    (2 ^ 54 - 1) * 2 ^ 970 * f (u stage, u ''count'') \<le> f (u stage, u ''total_ns'')"
proof (cases "f (u stage, u ''count'') = 0")
  case False
  with assms(1) have "0 < f (u stage, u ''count'')" by simp
  from true_div_overflow [OF assms(2) this] this show ?thesis
    unfolding stage_of_def sk_stage_def overflow_def by (simp only: if_P bind_res_Inl_iff) auto
qed (simp add: stage_of_def sk_stage_def)

lemma sk_summary_of_overflow: "sk_summary_of I n f = Inl overflow \<longleftrightarrow>
    f (u ''parse_signal'', u ''count'') = f (u ''redirect'', u ''count'') \<and>
    f (u ''decision'', u ''count'') = f (u ''redirect'', u ''count'') \<and>
    (stage_of f ''parse_signal'' = Inl overflow \<or> stage_of f ''decision'' = Inl overflow \<or> stage_of f ''redirect'' = Inl overflow)"
  using stage_of_error [of f "''parse_signal''"] stage_of_error [of f "''decision''"] stage_of_error [of f "''redirect''"]
  by (cases "stage_of f ''parse_signal''"; cases "stage_of f ''decision''"; cases "stage_of f ''redirect''")
    (auto simp: sk_summary_of_def overflow_def)

lemma row_sum_nonneg:
  assumes "rows_ok n rows" "cell \<in> set sk_cells" shows "0 \<le> row_sum rows cell"
proof -
  have "0 \<le> cell_value row cell" if "row \<in> set rows" for row
  proof -
    from assms that have "cell_ok row cell" by (simp add: rows_ok_def row_ok_def list_all_iff)
    then show ?thesis by (auto simp: cell_ok_def cell_value_def)
  qed
  then show ?thesis unfolding row_sum_def by (intro sum_list_nonneg) auto
qed

text \<open>C23. An OverflowError escapes the handlers of \<open>main\<close>, for every output format, exactly when the response
  passes every check, its counters agree on a positive number of requests, and the total of some stage
  is so large that its quotient by that number rounds to 2 to the 1024 or more.\<close>

theorem overflow_escapes:
  assumes "sk_action args = Read"
  shows "sk_reply I args (Inr raw) = Raised overflow \<longleftrightarrow>
    (\<exists>first rest n rows k. splitlines raw = first # rest \<and>
      sk_header (i_unicode I) first (1 + int (length rest)) = Inr n \<and>
      map_res (parse_fields (i_unicode I)) rest = Inr rows \<and> rows_ok n rows \<and>
      0 < k \<and> list_all (\<lambda>stage. row_sum rows (stage, u ''count'') = k) SK_STAGES \<and>
      list_ex (\<lambda>stage. (2 ^ 54 - 1) * 2 ^ 970 * k \<le> row_sum rows (stage, u ''total_ns'')) SK_STAGES)"
    (is "?raised \<longleftrightarrow> ?large")
proof -
  let ?U = "i_unicode I"
  have sums: "sk_summary_of I n (row_sum rows) = Inl overflow \<longleftrightarrow>
      (\<exists>k. 0 < k \<and> list_all (\<lambda>stage. row_sum rows (stage, u ''count'') = k) SK_STAGES \<and>
        list_ex (\<lambda>stage. (2 ^ 54 - 1) * 2 ^ 970 * k \<le> row_sum rows (stage, u ''total_ns'')) SK_STAGES)"
    if ok: "rows_ok n rows" for n rows
  proof -
    define T :: int where "T = (2 ^ 54 - 1) * 2 ^ 970"
    have n: "0 \<le> row_sum rows (u stage, u ''count'')" "0 \<le> row_sum rows (u stage, u ''total_ns'')"
      if "stage \<in> {''parse_signal'', ''decision'', ''redirect''}" for stage
      using that by (auto intro!: row_sum_nonneg [OF ok] simp: sk_cells_def SK_STAGES_def SK_METRICS_def)
    have o: "stage_of (row_sum rows) stage = Inl overflow \<longleftrightarrow> 0 < row_sum rows (u stage, u ''count'') \<and>
        T * row_sum rows (u stage, u ''count'') \<le> row_sum rows (u stage, u ''total_ns'')"
      if "stage \<in> {''parse_signal'', ''decision'', ''redirect''}" for stage
      unfolding T_def by (rule stage_of_overflow [OF n [OF that]])
    show ?thesis
      unfolding sk_summary_of_overflow SK_STAGES_def T_def [symmetric] by (auto simp: o)
  qed
  have "?raised \<longleftrightarrow> aggregate_response I raw = Inl overflow"
    using assms sk_report_written [of I raw _ "sk_format args"]
    by (auto simp: sk_reply_def handled_def overflow_def split: sum.splits)
  also have "\<dots> \<longleftrightarrow> ?large"
  proof (cases "splitlines raw")
    case Nil
    then show ?thesis by (simp add: aggregate_response_def aggregate_lines_def overflow_def)
  next
    case (Cons first rest)
    have "aggregate_lines I (first # rest) = Inl overflow \<longleftrightarrow> (\<exists>n rows. sk_header ?U first (1 + int (length rest)) = Inr n \<and>
        map_res (parse_fields ?U) rest = Inr rows \<and> rows_ok n rows \<and> sk_summary_of I n (row_sum rows) = Inl overflow)"
      using aggregate_lines_overflow [of I first rest] aggregate_lines_ok [of I first rest] by metis
    also have "\<dots> \<longleftrightarrow> (\<exists>n rows. sk_header ?U first (1 + int (length rest)) = Inr n \<and> map_res (parse_fields ?U) rest = Inr rows \<and>
        rows_ok n rows \<and> (\<exists>k. 0 < k \<and> list_all (\<lambda>stage. row_sum rows (stage, u ''count'') = k) SK_STAGES \<and>
        list_ex (\<lambda>stage. (2 ^ 54 - 1) * 2 ^ 970 * k \<le> row_sum rows (stage, u ''total_ns'')) SK_STAGES))"
      by (intro ex_cong1 conj_cong refl sums)
    finally show ?thesis unfolding aggregate_response_def Cons list.inject by blast
  qed
  finally show ?thesis .
qed

text \<open>One request of a single CPU whose first stage claims a total of 2 to the 1024 or more.\<close>

lemma big_row_overflows:
  assumes "2 ^ 1024 \<le> t"
  shows "\<exists>first rest n rows k. splitlines (join [10] [print_line (header_fields 1), print_line (big_fields t)]) = first # rest \<and>
      sk_header (i_unicode I) first (1 + int (length rest)) = Inr n \<and>
      map_res (parse_fields (i_unicode I)) rest = Inr rows \<and> rows_ok n rows \<and>
      0 < k \<and> list_all (\<lambda>stage. row_sum rows (stage, u ''count'') = k) SK_STAGES \<and>
      list_ex (\<lambda>stage. (2 ^ 54 - 1) * 2 ^ 970 * k \<le> row_sum rows (stage, u ''total_ns'')) SK_STAGES"
proof -
  let ?rows = "[map (\<lambda>(k, i). (k, PInt i)) (big_fields t)]"
  have t: "0 \<le> t" using assms by (rule order_trans [rotated]) simp
  have "(2 ^ 54 - 1) * 2 ^ 970 * 1 \<le> (2 :: int) ^ 1024" by simp
  with assms have large: "(2 ^ 54 - 1) * 2 ^ 970 * 1 \<le> t" by (rule order_trans [rotated])
  have "splitlines (join [10] [print_line (header_fields 1), print_line (big_fields t)]) =
      [print_line (header_fields 1), print_line (big_fields t)]"
    using print_line_plain [OF big_fields_ok(1)] print_line_plain [OF keys_ok(3)]
    by (intro splitlines_join) (simp_all add: print_line_def big_fields_def print_field_def)
  moreover have "map_res (parse_fields (i_unicode I)) [print_line (big_fields t)] = Inr ?rows"
    using parse_fields_print [OF big_fields_ok] by (simp add: print_line_def)
  moreover have "rows_ok 1 ?rows"
    using t by (simp add: rows_ok_def row_ok_def row_cpu_def cpus_of_def big_fields_def sk_cells_def SK_STAGES_def
        SK_METRICS_def cell_ok_def row_cell_def cell_names)
  moreover have "sk_header (i_unicode I) (print_line (header_fields 1)) (1 + int (length [print_line (big_fields t)])) = Inr 1"
    using sk_header_print [of 1 "i_unicode I"] by simp
  moreover have "row_sum ?rows (u s, u ''count'') = 1" if "s = ''parse_signal'' \<or> s = ''decision'' \<or> s = ''redirect''" for s
    using that by (auto simp: row_sum_def cell_value_def row_cell_def big_fields_def cell_names)
  then have "list_all (\<lambda>stage. row_sum ?rows (stage, u ''count'') = 1) SK_STAGES" by (simp add: SK_STAGES_def)
  moreover have "row_sum ?rows (u ''parse_signal'', u ''total_ns'') = t"
    by (simp add: row_sum_def cell_value_def row_cell_def big_fields_def cell_names)
  with large have "list_ex (\<lambda>stage. (2 ^ 54 - 1) * 2 ^ 970 * 1 \<le> row_sum ?rows (stage, u ''total_ns'')) SK_STAGES"
    by (simp only: SK_STAGES_def list.map list_ex_Cons_iff simp_thms)
  ultimately show ?thesis by (intro exI conjI) (assumption | rule zero_less_one)+
qed


subsection \<open>Examples\<close>

definition demo_rows :: "ustr list" where
  "demo_rows = [u ''cpu=0 parse_signal_count=2 parse_signal_total_ns=2000 decision_count=2 decision_total_ns=400 redirect_count=2 redirect_total_ns=100'',
    u ''cpu=1 parse_signal_count=3 parse_signal_total_ns=4500 decision_count=3 decision_total_ns=900 redirect_count=3 redirect_total_ns=250'']"

definition demo_header :: ustr where
  "demo_header = u ''profile_enabled=1 cpu_count=2 stage_count=3''"

definition demo_fields :: "(ustr, pyval) dict list" where
  "demo_fields =
    [[(u ''cpu'', PInt 0), (u ''parse_signal_count'', PInt 2), (u ''parse_signal_total_ns'', PInt 2000),
      (u ''decision_count'', PInt 2), (u ''decision_total_ns'', PInt 400), (u ''redirect_count'', PInt 2), (u ''redirect_total_ns'', PInt 100)],
     [(u ''cpu'', PInt 1), (u ''parse_signal_count'', PInt 3), (u ''parse_signal_total_ns'', PInt 4500),
      (u ''decision_count'', PInt 3), (u ''decision_total_ns'', PInt 900), (u ''redirect_count'', PInt 3), (u ''redirect_total_ns'', PInt 250)]]"

lemma demo_response_parses: "sk_header U demo_header 3 = Inr 2" "map_res (parse_fields U) demo_rows = Inr demo_fields"
  by code_simp+

lemma demo_sums:
  "rows_ok 2 demo_fields"
  "row_sum demo_fields (u ''parse_signal'', u ''count'') = 5" "row_sum demo_fields (u ''parse_signal'', u ''total_ns'') = 6500"
  "row_sum demo_fields (u ''decision'', u ''count'') = 5" "row_sum demo_fields (u ''decision'', u ''total_ns'') = 1300"
  "row_sum demo_fields (u ''redirect'', u ''count'') = 5" "row_sum demo_fields (u ''redirect'', u ''total_ns'') = 350"
proof -
  have "list_all (\<lambda>row. row_cpu row \<noteq> None \<and> 0 \<le> the (row_cpu row) \<and> the (row_cpu row) < 2) demo_fields"
    "list_all (\<lambda>row. list_all (\<lambda>cell. row_cell row cell \<noteq> None \<and> 0 \<le> the (row_cell row cell)) sk_cells) demo_fields"
    "distinct (cpus_of demo_fields)"
    by code_simp+
  moreover have "cell_ok row cell" if "row_cell row cell \<noteq> None \<and> 0 \<le> the (row_cell row cell)" for row cell
    using that by (auto simp: cell_ok_def)
  moreover have "row_cpu row \<noteq> None \<and> 0 \<le> the (row_cpu row) \<and> the (row_cpu row) < 2 \<Longrightarrow>
      \<exists>cpu. row_cpu row = Some cpu \<and> 0 \<le> cpu \<and> cpu < 2" for row
    by auto
  ultimately show "rows_ok 2 demo_fields"
    unfolding rows_ok_def row_ok_def list_all_iff by blast
qed code_simp+

lemma demo_aggregate:
  "\<exists>r. aggregate_lines I (demo_header # demo_rows) = Inr r \<and> sk_completed r = 5 \<and>
     map (\<lambda>(stage, s). (stage, ss_count s, ss_total_ns s)) (sk_stages r) =
       [(u ''parse_signal'', 5, 6500), (u ''decision'', 5, 1300), (u ''redirect'', 5, 350)]"
proof -
  obtain a b c where "sk_stage 5 6500 = Inr a" "ss_count a = 5" "ss_total_ns a = 6500"
    "sk_stage 5 1300 = Inr b" "ss_count b = 5" "ss_total_ns b = 1300" "sk_stage 5 350 = Inr c" "ss_count c = 5" "ss_total_ns c = 350"
    using sk_stage_small [of 6500 5] sk_stage_small [of 1300 5] sk_stage_small [of 350 5] by auto
  moreover have "aggregate_lines I (demo_header # demo_rows) = sk_summary_of I 2 (row_sum demo_fields)"
    using demo_response_parses demo_sums(1) by (intro aggregate_lines_ok) (simp_all add: demo_rows_def)
  ultimately show ?thesis
    by (simp add: sk_summary_of_def stage_of_def demo_sums)
qed

definition demo_response :: ustr where
  "demo_response = join [10] (demo_header # demo_rows)"

lemma demo_lines: "splitlines demo_response = demo_header # demo_rows"
  by code_simp

lemma demo_response_ok: "\<exists>r. aggregate_response I demo_response = Inr r \<and> sk_completed r = 5 \<and>
     map (\<lambda>(stage, s). (stage, ss_count s, ss_total_ns s)) (sk_stages r) =
       [(u ''parse_signal'', 5, 6500), (u ''decision'', 5, 1300), (u ''redirect'', 5, 350)]"
  using demo_aggregate by (simp add: aggregate_response_def demo_lines)

lemma aggregate_order_independent_witness:
  "\<exists>r. aggregate_lines ascii_interp (demo_header # demo_rows) = Inr r \<and>
     aggregate_lines ascii_interp (demo_header # rev demo_rows) = Inr r"
proof -
  obtain r where r: "aggregate_lines ascii_interp (demo_header # demo_rows) = Inr r"
    using demo_aggregate by blast
  with aggregate_order_independent [OF r, of "rev demo_rows"] show ?thesis by simp
qed

lemma aggregate_response_sound_witness:
  "\<exists>r. aggregate_response ascii_interp demo_response = Inr r \<and> dict_keys (sk_stages r) = SK_STAGES"
proof -
  obtain r where r: "aggregate_response ascii_interp demo_response = Inr r" using demo_response_ok by blast
  with aggregate_response_sound [OF r] show ?thesis by blast
qed

lemma sk_csv_roundtrip_witness:
  "\<exists>r out. aggregate_response ascii_interp demo_response = Inr r \<and> sk_report ascii_interp Csv r = Exit 0 out"
proof -
  obtain r where r: "aggregate_response ascii_interp demo_response = Inr r" using demo_response_ok by blast
  with sk_csv_roundtrip [OF r] show ?thesis by blast
qed

lemma sk_mean_accuracy_witness:
  "\<exists>(s :: stage_stats) m. ss_count s = 5 \<and> ss_total_ns s = 6500 \<and>
     decimal_text ascii_db (format_fixed 3 (Fin (ss_mean_ns s))) = Some (DFin m) \<and> \<bar>m - 1300\<bar> \<le> 1 / 2000 + 1300 / 2 ^ 53"
proof -
  obtain r where r: "aggregate_response ascii_interp demo_response = Inr r"
    and s: "map (\<lambda>(stage, s). (stage, ss_count s, ss_total_ns s)) (sk_stages r) =
       [(u ''parse_signal'', 5, 6500), (u ''decision'', 5, 1300), (u ''redirect'', 5, 350)]"
    using demo_response_ok [of ascii_interp] by (elim exE conjE)
  from s obtain x xs where x: "sk_stages r = x # xs" "(case x of (stage, s) \<Rightarrow> (stage, ss_count s, ss_total_ns s)) = (u ''parse_signal'', 5, 6500)"
    by (cases "sk_stages r") simp_all
  define a where "a = snd x"
  have a: "(u ''parse_signal'', a) \<in> set (sk_stages r)" "ss_count a = 5" "ss_total_ns a = 6500"
    using x by (cases x; simp add: a_def)+
  have "(0 :: int) < 5" "(5 :: int) \<le> 2 ^ 1000" "(0 :: int) < 6500" by simp_all
  from sk_mean_accuracy [OF r a(1), unfolded a(2,3), OF this, of ascii_db] obtain m where
    "decimal_text ascii_db (format_fixed 3 (Fin (ss_mean_ns a))) = Some (DFin m)"
    "\<bar>m - of_int 6500 / of_int 5\<bar> \<le> 1 / 2000 + of_int 6500 / of_int 5 / 2 ^ 53" by (elim exE conjE)
  moreover have "(of_int 6500 / of_int 5 :: rat) = 1300" by simp
  ultimately have "ss_count a = 5 \<and> ss_total_ns a = 6500 \<and>
      decimal_text ascii_db (format_fixed 3 (Fin (ss_mean_ns a))) = Some (DFin m) \<and> \<bar>m - 1300\<bar> \<le> 1 / 2000 + 1300 / 2 ^ 53"
    using a by (simp only:)
  then show ?thesis by (intro exI [of _ a] exI [of _ m])
qed


definition demo_env :: router_env where
  "demo_env = \<lparr>re_cpus = 2, re_alloc = True, re_lookup = (\<lambda>_. True), re_update = (\<lambda>_. True)\<rparr>"

definition demo_args :: "sk_action \<Rightarrow> sk_args" where
  "demo_args a = \<lparr>sk_action = a, sk_socket = u ''/run/xsr.sock'', sk_format = Human, sk_timeout = Finite 2\<rparr>"

lemma two_seconds: "settimeout (Finite 2) = Inr ()"
  by (rule settimeout_ok) simp_all

definition request_a :: completed where
  "request_a = \<lparr>cr_cpu = 0, cr_parse = 1000, cr_decision = 200, cr_redirect = 50\<rparr>"

definition request_b :: completed where
  "request_b = \<lparr>cr_cpu = 1, cr_parse = 1500, cr_decision = 300, cr_redirect = 70\<rparr>"

lemma request_joins_chunks_witness:
  "request (router_peer False (u ''up'') demo_env empty_map) (u ''/run/xsr.sock'') (action_text Reset) (Finite 2) =
     Some (Inr (py_strip (concat (map (\<lambda>_. reset_reply False demo_env) [0 ..< 1]))))"
proof (rule request_joins_chunks)
  show "request_setup (router_peer False (u ''up'') demo_env empty_map) (u ''/run/xsr.sock'') (action_text Reset) (Finite 2) =
      Inr (profile_command (action_text Reset))"
    by (rule router.setup_done) (rule two_seconds)
qed (use reset_reply_facts in \<open>simp_all add: router_peer_def serve_reset\<close>)

lemma profile_end_to_end_witness:
  "\<exists>r. sk_main ascii_interp (router_peer True [] demo_env
       (fold record_request [request_a, request_b] (snd (serve_profile_reset demo_env empty_map)))) (demo_args Read) =
     Some (sk_report ascii_interp Human r) \<and> sk_completed r = 2"
proof -
  have "stage_total Parse_Signal [request_a, request_b] = 2500" "stage_total Decision [request_a, request_b] = 500"
    "stage_total Redirect [request_a, request_b] = 120"
    by (simp_all add: stage_total_def request_a_def request_b_def)
  then have t: "list_all (\<lambda>stage. stage_total stage [request_a, request_b] < 2 ^ 64) profile_stages"
    by (simp add: profile_stages_def)
  have "\<exists>r. sk_main ascii_interp (router_peer True [] demo_env
       (fold record_request [request_a, request_b] (snd (serve_profile_reset demo_env empty_map)))) (demo_args Read) =
     Some (sk_report ascii_interp (sk_format (demo_args Read)) r) \<and> sk_completed r = int (length [request_a, request_b]) \<and>
     sk_cpu_count r = re_cpus demo_env \<and>
     map (\<lambda>(stage, s). (stage, ss_count s, ss_total_ns s)) (sk_stages r) =
      [(u ''parse_signal'', int (length [request_a, request_b]), stage_total Parse_Signal [request_a, request_b]),
       (u ''decision'', int (length [request_a, request_b]), stage_total Decision [request_a, request_b]),
       (u ''redirect'', int (length [request_a, request_b]), stage_total Redirect [request_a, request_b])]"
    by (rule profile_end_to_end [where cs = "[request_a, request_b]"])
      (use t in \<open>simp_all add: demo_env_def demo_args_def two_seconds profile_stages_def request_a_def request_b_def\<close>)
  then obtain r where r: "sk_main ascii_interp (router_peer True [] demo_env
       (fold record_request [request_a, request_b] (snd (serve_profile_reset demo_env empty_map)))) (demo_args Read) =
     Some (sk_report ascii_interp (sk_format (demo_args Read)) r)" "sk_completed r = int (length [request_a, request_b])"
    by (elim exE conjE)
  then show ?thesis by (intro exI [of _ r]) (simp add: demo_args_def)
qed

lemma idle_counts_agree_witness:
  "pv_count (empty_map Decision 0) = pv_count (empty_map Redirect 0)"
proof -
  have "reachable \<lparr>sys_map = empty_map, sys_pending = (\<lambda>_. []), sys_seen = []\<rparr>"
    by (rule reachable.start) (simp add: cleared_def empty_map_def)
  from idle_counts_agree [OF this, of 0] show ?thesis by simp
qed

lemma quiet_read_accepted_witness:
  "\<exists>s' r. drains \<lparr>sys_map = empty_map, sys_pending = (\<lambda>_. [])(0 := recordings request_a), sys_seen = []\<rparr> s' \<and> at_rest s' \<and>
     aggregate_response ascii_interp (py_strip (serve_profile_read demo_env (sys_map s'))) = Inr r"
proof -
  let ?s = "\<lparr>sys_map = empty_map, sys_pending = (\<lambda>_. []), sys_seen = []\<rparr>"
  have s: "reachable ?s" by (rule reachable.start) (simp add: cleared_def empty_map_def)
  have "cr_cpu request_a = 0" by (simp add: request_a_def)
  then have "reachable \<lparr>sys_map = empty_map, sys_pending = (\<lambda>_. [])(0 := recordings request_a), sys_seen = []\<rparr>"
    using reachable.move [OF s complete [of ?s request_a]] by simp
  from quiet_read_accepted [OF this, of demo_env ascii_interp] show ?thesis
    by (simp add: demo_env_def profile_stages_def) blast
qed

lemma torn_read_accepted_witness:
  "\<exists>s r. reachable s \<and> aggregate_response ascii_interp (py_strip (serve_profile_read demo_env (seen_map s))) = Inr r \<and>
     sk_completed r = 1"
proof -
  have "cr_cpu request_a \<noteq> cr_cpu request_b" "int (cr_cpu request_a) < re_cpus demo_env" "int (cr_cpu request_b) < re_cpus demo_env"
    "re_alloc demo_env" "list_all (re_lookup demo_env) profile_stages"
    by (simp_all add: request_a_def request_b_def demo_env_def profile_stages_def)
  from torn_read_accepted [OF this, of ascii_interp] show ?thesis by (elim exE conjE) (intro exI conjI)
qed

lemma reset_reported_iff_witness:
  "\<exists>out. sk_main ascii_interp (router_peer True [] demo_env empty_map) (demo_args Reset) = Some (Exit 0 out)"
proof -
  have "sk_action (demo_args Reset) = Reset" "settimeout (sk_timeout (demo_args Reset)) = Inr ()"
    by (simp_all add: demo_args_def two_seconds)
  from reset_reported_iff [OF this, of ascii_interp True "[]" demo_env empty_map] show ?thesis
    by (simp add: demo_env_def profile_stages_def)
qed

lemma overflow_escapes_witness:
  "sk_reply ascii_interp (demo_args Read)
     (Inr (join [10] [print_line (header_fields 1), print_line (big_fields (2 ^ 1024))])) = Raised overflow"
proof -
  have "sk_action (demo_args Read) = Read" by (simp add: demo_args_def)
  from overflow_escapes [OF this, of ascii_interp] big_row_overflows [OF order_refl, of ascii_interp]
  show ?thesis by (rule iffD2)
qed

end
