(* ===== verification/VsrExamples.thy ===== *)
theory VsrExamples
  imports VsrProgram
begin

section \<open>Concrete snapshots\<close>

text \<open>
  Three snapshots of one endpoint, with a comment and an unrelated metric among the samples, and the
  properties of the snapshot program applied to them.
\<close>

definition example_counters :: "int \<Rightarrow> int \<Rightarrow> ustr \<times> ustr \<Rightarrow> int" where
  "example_counters n t cell = (if snd cell = u ''count'' then n else t)"

definition example_raw :: "ustr \<Rightarrow> ustr \<Rightarrow> ustr \<times> ustr \<Rightarrow> ustr" where
  "example_raw n t cell = (if snd cell = u ''count'' then n else t)"

definition no_stamp :: "ustr \<times> ustr \<Rightarrow> nat option" where
  "no_stamp cell = None"

definition example_rows :: "ustr \<Rightarrow> ustr \<Rightarrow> ustr list" where
  "example_rows n t = u ''# HELP unrelated'' # u ''unrelated_metric 9'' # map (cell_text (example_raw n t) no_stamp) vsr_cells"

definition terminated :: "ustr list \<Rightarrow> ustr" where
  "terminated rows = concat (map (\<lambda>line. line @ [10]) rows)"

definition text1 :: ustr where "text1 = terminated (example_rows (u ''10'') (u ''1e+02''))"
definition text2 :: ustr where "text2 = terminated (example_rows (u ''15'') (u ''1100''))"
definition text3 :: ustr where "text3 = terminated (example_rows (u ''25'') (u ''3100.0''))"

lemma example_raws:
  "list_all (\<lambda>cell. counter_text ascii_db (example_raw (u ''10'') (u ''1e+02'') cell) (example_counters 10 100 cell)) vsr_cells"
  "list_all (\<lambda>cell. counter_text ascii_db (example_raw (u ''15'') (u ''1100'') cell) (example_counters 15 1100 cell)) vsr_cells"
  "list_all (\<lambda>cell. counter_text ascii_db (example_raw (u ''25'') (u ''3100.0'') cell) (example_counters 25 3100 cell)) vsr_cells"
  by code_simp+

lemma example_plain:
  "list_all plain_line (example_rows (u ''10'') (u ''1e+02''))" "list_all plain_line (example_rows (u ''15'') (u ''1100''))"
  "list_all plain_line (example_rows (u ''25'') (u ''3100.0''))"
  by code_simp+

lemma example_filter:
  assumes "list_all (\<lambda>cell. counter_text U (example_raw n t cell) (f cell)) vsr_cells"
  shows "mset (filter (\<lambda>line. \<not> ignored line) (example_rows n t)) = mset (map (cell_text (example_raw n t) no_stamp) vsr_cells)"
proof -
  have i: "ignored (u ''# HELP unrelated'')" "ignored (u ''unrelated_metric 9'')" by code_simp+
  have "\<not> ignored line" if "line \<in> set (map (cell_text (example_raw n t) no_stamp) vsr_cells)" for line
    using that assms line_item_text [of _ U "example_raw n t" _ no_stamp] by (auto simp: list_all_iff)
  then have "filter (\<lambda>line. \<not> ignored line) (map (cell_text (example_raw n t) no_stamp) vsr_cells) =
      map (cell_text (example_raw n t) no_stamp) vsr_cells" by (intro filter_True) blast
  then show ?thesis unfolding example_rows_def using i by simp
qed

lemma example_rows_ascii:
  "list_all (list_all (\<lambda>b. b < 128)) (example_rows (u ''10'') (u ''1e+02''))"
  "list_all (list_all (\<lambda>b. b < 128)) (example_rows (u ''15'') (u ''1100''))"
  "list_all (list_all (\<lambda>b. b < 128)) (example_rows (u ''25'') (u ''3100.0''))"
  by code_simp+

lemma example_ascii: "list_all (\<lambda>b. b < 128) text1" "list_all (\<lambda>b. b < 128) text2" "list_all (\<lambda>b. b < 128) text3"
  using example_rows_ascii by (auto simp: text1_def text2_def text3_def terminated_def list_all_iff)

lemma utf8_ascii: "list_all (\<lambda>b. b < 128) s \<Longrightarrow> utf8_decode s = Some s"
  by (induction s) auto

lemma example_exposes_rows:
  assumes "list_all (\<lambda>cell. counter_text U (example_raw n t cell) (f cell)) vsr_cells"
    and "list_all plain_line (example_rows n t)" "list_all (\<lambda>b. b < 128) (terminated (example_rows n t))"
  shows "exposes U (terminated (example_rows n t)) f"
  unfolding exposes_def
proof (intro exI conjI)
  show "utf8_decode (terminated (example_rows n t)) = Some (terminated (example_rows n t))"
    using assms(3) by (rule utf8_ascii)
  show "mset (filter (\<lambda>line. \<not> ignored line) (splitlines (terminated (example_rows n t)))) =
      mset (map (cell_text (example_raw n t) no_stamp) vsr_cells)"
    unfolding terminated_def splitlines_terminated [OF assms(2)] by (rule example_filter [OF assms(1)])
  show "list_all (\<lambda>cell. counter_text U (example_raw n t cell) (f cell)) vsr_cells" by (rule assms(1))
qed

lemma example_exposes:
  "exposes ascii_db text1 (example_counters 10 100)" "exposes ascii_db text2 (example_counters 15 1100)"
  "exposes ascii_db text3 (example_counters 25 3100)"
  unfolding text1_def text2_def text3_def
  by (rule example_exposes_rows [OF example_raws(1) example_plain(1) example_ascii(1) [unfolded text1_def]])
    (rule example_exposes_rows [OF example_raws(2) example_plain(2) example_ascii(2) [unfolded text2_def]],
     rule example_exposes_rows [OF example_raws(3) example_plain(3) example_ascii(3) [unfolded text3_def]])

lemma example_parses:
  "\<exists>cs. parse_snapshot ascii_db text1 = Inr cs \<and> snapshot_holds cs (example_counters 10 100)"
  "\<exists>cs. parse_snapshot ascii_db text2 = Inr cs \<and> snapshot_holds cs (example_counters 15 1100)"
  "\<exists>cs. parse_snapshot ascii_db text3 = Inr cs \<and> snapshot_holds cs (example_counters 25 3100)"
  using exposes_parse [OF example_exposes(1)] exposes_parse [OF example_exposes(2)] exposes_parse [OF example_exposes(3)]
    utf8_ascii [OF example_ascii(1)] utf8_ascii [OF example_ascii(2)] utf8_ascii [OF example_ascii(3)] by auto

subsection \<open>Summaries\<close>

lemma unicode_ascii [simp]: "i_unicode ascii_interp = ascii_db"
  by (simp add: ascii_interp_def)

lemma example_run:
  assumes "n0 < n1" "t0 \<le> t1" "t1 - t0 < 2 ^ 12"
  shows "run_between (n1 - n0) (example_counters n0 t0) (example_counters n1 t1)"
proof -
  have "(2 :: int) ^ 12 \<le> 2 ^ 1022" by (rule power_increasing) simp_all
  with assms(3) have small: "t1 - t0 < 2 ^ 1022" by (rule less_le_trans)
  have c: "example_counters n t (stage, u ''count'') = n" "example_counters n t (stage, u ''total_ns'') = t" for n t stage
    by (simp_all add: example_counters_def)
  show ?thesis unfolding run_between_def c list_all_iff using assms(1,2) small by simp
qed

lemma example_summary:
  assumes "parse_snapshot ascii_db b = Inr cs0" "snapshot_holds cs0 (example_counters n0 t0)"
    and "parse_snapshot ascii_db a = Inr cs1" "snapshot_holds cs1 (example_counters n1 t1)"
    and "n0 < n1" "t0 \<le> t1" "t1 - t0 < 2 ^ 12"
  shows "\<exists>r. summarize_snapshots ascii_interp b a None = Inr r \<and> vr_completed r = n1 - n0 \<and>
    list_all (\<lambda>(stage, s). ss_total_ns s < 2 ^ 1021) (vr_stages r)"
proof -
  from example_run [OF assms(5-7)] obtain r where
    r: "summary_of ascii_interp None (example_counters n0 t0) (example_counters n1 t1) = Inr r" "vr_completed r = n1 - n0"
    unfolding run_between_def using summary_exists by blast
  have "(2 :: int) ^ 12 \<le> 2 ^ 1021" by (rule power_increasing) simp_all
  with assms(7) have small: "t1 - t0 < 2 ^ 1021" by (rule less_le_trans)
  have "ss_total_ns s < 2 ^ 1021" if i: "(stage, s) \<in> set (vr_stages r)" for stage s
  proof -
    from summary_Inr [OF r(1)] i have "is_delta (example_counters n0 t0) (example_counters n1 t1) (stage, s)"
      unfolding list_all_iff by blast
    then have "ss_total_ns s = t1 - t0" unfolding is_delta_def by (simp add: example_counters_def)
    with small show ?thesis by (simp only:)
  qed
  then have "list_all (\<lambda>(stage, s). ss_total_ns s < 2 ^ 1021) (vr_stages r)" unfolding list_all_iff by blast
  moreover have "summarize_snapshots ascii_interp b a None = Inr r"
    using summarize_holds [of ascii_interp b cs0 a cs1] assms(1-4) r(1) by simp
  ultimately show ?thesis using r(2) by blast
qed

lemma example_summaries:
  "\<exists>r. summarize_snapshots ascii_interp text1 text2 None = Inr r \<and> vr_completed r = 5 \<and>
    list_all (\<lambda>(stage, s). ss_total_ns s < 2 ^ 1021) (vr_stages r)"
  "\<exists>r. summarize_snapshots ascii_interp text2 text3 None = Inr r \<and> vr_completed r = 10 \<and>
    list_all (\<lambda>(stage, s). ss_total_ns s < 2 ^ 1021) (vr_stages r)"
proof -
  from example_parses obtain cs1 cs2 cs3 where
    c: "parse_snapshot ascii_db text1 = Inr cs1" "snapshot_holds cs1 (example_counters 10 100)"
      "parse_snapshot ascii_db text2 = Inr cs2" "snapshot_holds cs2 (example_counters 15 1100)"
      "parse_snapshot ascii_db text3 = Inr cs3" "snapshot_holds cs3 (example_counters 25 3100)" by blast
  have n: "(15 :: int) - 10 = 5" "(25 :: int) - 15 = 10" by simp_all
  show "\<exists>r. summarize_snapshots ascii_interp text1 text2 None = Inr r \<and> vr_completed r = 5 \<and>
    list_all (\<lambda>(stage, s). ss_total_ns s < 2 ^ 1021) (vr_stages r)"
    using example_summary [OF c(1-4), unfolded n] by simp
  show "\<exists>r. summarize_snapshots ascii_interp text2 text3 None = Inr r \<and> vr_completed r = 10 \<and>
    list_all (\<lambda>(stage, s). ss_total_ns s < 2 ^ 1021) (vr_stages r)"
    using example_summary [OF c(3-6), unfolded n] by simp
qed

subsection \<open>The properties at these snapshots\<close>

theorem parse_snapshot_type_witness:
  "\<exists>cs. parse_snapshot ascii_db text1 = Inr cs \<and> dict_keys cs = VSR_STAGES \<and>
    list_all (\<lambda>(stage, d). mset (dict_keys d) = mset (map u [''count'', ''total_ns'']) \<and>
      list_all (\<lambda>(field, v). 0 \<le> v) d) cs"
proof -
  from example_parses(1) obtain cs where cs: "parse_snapshot ascii_db text1 = Inr cs" by blast
  with parse_snapshot_type [OF cs] show ?thesis by blast
qed

theorem exposition_roundtrip_witness:
  "\<exists>cs. parse_snapshot ascii_db text1 = Inr cs \<and>
    list_all (\<lambda>(stage, field). counter_read cs stage field = Inr (example_counters 10 100 (stage, field))) vsr_cells"
  unfolding text1_def terminated_def
  by (rule exposition_roundtrip [OF example_filter [OF example_raws(1)] example_plain(1) example_raws(1)])

theorem summarize_sound_witness:
  "\<exists>r cs0 cs1. summarize_snapshots ascii_interp text1 text2 None = Inr r \<and>
    parse_snapshot (i_unicode ascii_interp) text1 = Inr cs0 \<and> parse_snapshot (i_unicode ascii_interp) text2 = Inr cs1 \<and>
    vr_completed r = 5 \<and>
    list_all (\<lambda>(stage, s). ss_count s = vr_completed r \<and> reports_delta cs0 cs1 (stage, s)) (vr_stages r)"
proof -
  from example_summaries(1) obtain r where r: "summarize_snapshots ascii_interp text1 text2 None = Inr r" "vr_completed r = 5" by blast
  from summarize_sound [OF r(1)] r show ?thesis by blast
qed

theorem figure_accounts_once_witness:
  "\<exists>r. summarize_snapshots ascii_interp text1 text2 None = Inr r \<and>
    (\<Sum>(name, c) \<leftarrow> vr_components r. ss_total_ns (cp_stats c)) = (\<Sum>(stage, s) \<leftarrow> butlast (vr_stages r). ss_total_ns s)"
proof -
  from example_summaries(1) obtain r where r: "summarize_snapshots ascii_interp text1 text2 None = Inr r" by blast
  from figure_accounts_once [OF r] r show ?thesis by blast
qed

theorem summarize_telescopes_witness:
  "\<exists>r. summarize_snapshots ascii_interp text1 text3 None = Inr r \<and> vr_completed r = 15"
proof -
  from example_summaries(1) obtain r1 where r1: "summarize_snapshots ascii_interp text1 text2 None = Inr r1" "vr_completed r1 = 5"
    "list_all (\<lambda>(stage, s). ss_total_ns s < 2 ^ 1021) (vr_stages r1)" by blast
  from example_summaries(2) obtain r2 where r2: "summarize_snapshots ascii_interp text2 text3 None = Inr r2" "vr_completed r2 = 10"
    "list_all (\<lambda>(stage, s). ss_total_ns s < 2 ^ 1021) (vr_stages r2)" by blast
  from summarize_telescopes [OF r1(1) r2(1) r1(3) r2(3)] r1(2) r2(2) show ?thesis by auto
qed

theorem summarize_order_independent_witness:
  "\<exists>r. summarize_snapshots ascii_interp text1 text2 None = Inr r \<and>
    summarize_snapshots ascii_interp (terminated (rev (example_rows (u ''10'') (u ''1e+02'')))) text2 None = Inr r"
proof -
  from example_summaries(1) obtain r where r: "summarize_snapshots ascii_interp text1 text2 None = Inr r" by blast
  have rev: "list_all plain_line (rev (example_rows (u ''10'') (u ''1e+02'')))" using example_plain(1) by (simp add: list_all_iff)
  have "mset (splitlines (terminated (rev (example_rows (u ''10'') (u ''1e+02''))))) = mset (splitlines text1)"
    unfolding text1_def terminated_def splitlines_terminated [OF rev] splitlines_terminated [OF example_plain(1)] by simp
  from summarize_order_independent [OF r this refl] r show ?thesis by blast
qed

theorem vsr_csv_roundtrip_witness:
  "\<exists>r out. summarize_snapshots ascii_interp text1 text2 None = Inr r \<and> vsr_report ascii_interp Csv r = Exit 0 out \<and>
    length (splitlines out) = 6"
proof -
  from example_summaries(1) obtain r where r: "summarize_snapshots ascii_interp text1 text2 None = Inr r" by blast
  from vsr_csv_roundtrip [OF r] obtain out where out: "vsr_report ascii_interp Csv r = Exit 0 out"
    and rows: "map (split_on (\<lambda>c. c = 44)) (splitlines out) =
      map u [''component'', ''count'', ''total_ns'', ''mean_ns'', ''mean_us''] #
      map (\<lambda>(name, c). stats_cells (name, cp_stats c)) (vr_components r)" by (elim exE conjE)
  from figure_components [OF r] have "length (vr_components r) = 5" by (elim exE) simp
  moreover have "length (splitlines out) = Suc (length (vr_components r))"
    using arg_cong [OF rows, of length] by (simp only: length_map list.size)
  ultimately have "length (splitlines out) = 6" by simp
  with r out show ?thesis by blast
qed

definition example_world :: world where
  "example_world = \<lparr>w_fetch = (\<lambda>url timeout. Inr text1), w_files = (\<lambda>path. None),
     w_absent = (\<lambda>path. FileNotFoundErr ''No such file or directory: {!r}'' [path]), w_open = (\<lambda>path. None), w_full = (\<lambda>path. None)\<rparr>"

theorem vsr_end_to_end_witness:
  "\<exists>w1 w2 out. vsr_main ascii_interp (Capture (u ''url'') (u ''before'') (Finite 5)) example_world = (Exit 0 [], w1) \<and>
    vsr_main ascii_interp (Capture (u ''url'') (u ''after'') (Finite 5)) (w1\<lparr>w_fetch := \<lambda>url timeout. Inr text2\<rparr>) = (Exit 0 [], w2) \<and>
    fst (vsr_main ascii_interp (Summarize (u ''before'') (u ''after'') None Csv) w2) = Exit 0 out"
proof -
  have run: "run_between 5 (example_counters 10 100) (example_counters 15 1100)"
    using example_run [of 10 15 100 1100] by simp
  have paths: "u ''before'' \<noteq> u ''after''" by simp
  have e: "exposes (i_unicode ascii_interp) text1 (example_counters 10 100)" "exposes (i_unicode ascii_interp) text2 (example_counters 15 1100)"
    using example_exposes by simp_all
  have w: "w_fetch example_world (u ''url'') (Finite 5) = Inr text1" "w_open example_world = (\<lambda>_. None)" "w_full example_world = (\<lambda>_. None)"
    by (simp_all add: example_world_def)
  from vsr_end_to_end [OF e run w(1) refl paths w(2,3), of Csv]
  obtain w1 w2 r out where c: "vsr_main ascii_interp (Capture (u ''url'') (u ''before'') (Finite 5)) example_world = (Exit 0 [], w1)"
    "vsr_main ascii_interp (Capture (u ''url'') (u ''after'') (Finite 5)) (w1\<lparr>w_fetch := \<lambda>url timeout. Inr text2\<rparr>) = (Exit 0 [], w2)"
    and s: "vsr_main ascii_interp (Summarize (u ''before'') (u ''after'') None Csv) w2 = (vsr_report ascii_interp Csv r, w2)"
    "vsr_report ascii_interp Csv r = Exit 0 out" by blast
  from s have "fst (vsr_main ascii_interp (Summarize (u ''before'') (u ''after'') None Csv) w2) = Exit 0 out" by simp
  with c show ?thesis by blast
qed

end
