(* ===== verification/CommandExamples.thy ===== *)
theory CommandExamples
  imports CommandLines SkExamples VsrExamples
begin

section \<open>Concrete command lines\<close>

definition read_items :: "item list" where
  "read_items = [Apart (u ''--so'') (u ''/run//xsr.sock''), Word (u ''read''), Joined (u ''--f'') (u ''json'')]"

definition capture_words :: "item list" where
  "capture_words = [Joined (u ''--timeout'') (u ''inf''), Apart (u ''--url'') (u ''http://localhost/metrics'')]"

definition summary_words :: "item list" where
  "summary_words = [Joined (u ''--after'') (u ''a''), Apart (u ''--expected-completed'') (u ''12''), Joined (u ''--be'') (u ''./b''),
     Joined (u ''--format'') (u ''csv'')]"

lemma example_lines:
  "concat (map spell read_items) = map u [''--so'', ''/run//xsr.sock'', ''read'', ''--f=json'']"
  "u ''capture'' # concat (map spell capture_words) = map u [''capture'', ''--timeout=inf'', ''--url'', ''http://localhost/metrics'']"
  "u ''summarize'' # concat (map spell summary_words) =
     map u [''summarize'', ''--after=a'', ''--expected-completed'', ''12'', ''--be=./b'', ''--format=csv'']"
  by code_simp+

lemma example_meanings:
  "sk_meant ascii_db read_items = Inr \<lparr>sk_action = Read, sk_socket = u ''/run/xsr.sock'', sk_format = Json, sk_timeout = Finite 2\<rparr>"
  "capture_meant ascii_db capture_words = Inl (Misuse (MissingArguments [u ''--output'']))"
  "summary_meant ascii_db summary_words = Inr (Summarize (u ''b'') (u ''a'') (Some 12) Csv)"
  by code_simp+

lemma command_lines_read_back_witness:
  "sk_program ascii_interp (router_peer True [] demo_env empty_map) (map u [''--so'', ''/run//xsr.sock'', ''read'', ''--f=json'']) =
      map_option Ran (sk_main ascii_interp (router_peer True [] demo_env empty_map)
        \<lparr>sk_action = Read, sk_socket = u ''/run/xsr.sock'', sk_format = Json, sk_timeout = Finite 2\<rparr>) \<and>
    vsr_program ascii_interp (map u [''capture'', ''--timeout=inf'', ''--url'', ''http://localhost/metrics'']) example_world =
      (Stopped (Misuse (MissingArguments [u ''--output''])), example_world) \<and>
    vsr_program ascii_interp (map u [''summarize'', ''--after=a'', ''--expected-completed'', ''12'', ''--be=./b'', ''--format=csv'']) example_world =
      map_prod Ran id (vsr_main ascii_interp (Summarize (u ''b'') (u ''a'') (Some 12) Csv) example_world)"
proof -
  have p: "i_unicode ascii_interp = ascii_db" by (simp add: ascii_interp_def)
  have "list_all (well_spelled (map u [''read'', ''reset'']) (sk_usage (i_unicode ascii_interp))) read_items"
    "length (filter is_word read_items) \<le> 1"
    "list_all (well_spelled [] (capture_usage (i_unicode ascii_interp))) capture_words"
    "list_all (well_spelled [] (summary_usage (i_unicode ascii_interp))) summary_words"
    unfolding p by code_simp+
  from command_lines_read_back [OF this, of "router_peer True [] demo_env empty_map" example_world] show ?thesis
    unfolding p example_lines example_meanings by simp
qed

lemma parse_args_complete_witness:
  "\<exists>ns path. parse_args ascii_db sk_parser (map u [''reset'', ''--socket=x'', ''--'']) = Inl (Misuse (Unrecognized [u ''--''])) \<and>
    parse_args ascii_db sk_parser (map u [''reset'', ''--socket=x'']) = Inr ns \<and> dict_get ns (u ''socket'') = Some path"
proof -
  let ?ns = "[(u ''action'', TextV (u ''reset'')), (u ''socket'', FileV (u ''x'')), (u ''format'', TextV (u ''human'')),
      (u ''timeout'', FloatV (Finite 2))]"
  have bad: "parse_args ascii_db sk_parser (map u [''reset'', ''--socket=x'', ''--'']) = Inl (Misuse (Unrecognized [u ''--'']))"
    by code_simp
  have ns: "parse_args ascii_db sk_parser (map u [''reset'', ''--socket=x'']) = Inr ?ns"
    by code_simp
  have "required_option ''--socket'' File \<in> set (ps_options sk_parser)" by (simp add: sk_parser_def)
  with parse_args_complete [OF parsers_wf(1) ns] obtain path where "dict_get ?ns (u ''socket'') = Some path"
    by (auto simp: list_all_iff)
  with bad ns show ?thesis by blast
qed

definition infinite_timeout :: "ustr list" where
  "infinite_timeout = map u [''read'', ''--timeout=inf'', ''--socket'', ''/run/xsr.sock'']"

lemma infinite_timeout_parsed: "\<exists>ns args. parse_args ascii_db sk_parser infinite_timeout = Inr ns \<and> sk_args_of ns = Some args \<and>
    sk_timeout args = Infinite False"
proof -
  have "parse_args ascii_db sk_parser infinite_timeout = Inr [(u ''action'', TextV (u ''read'')), (u ''socket'', FileV (u ''/run/xsr.sock'')),
      (u ''format'', TextV (u ''human'')), (u ''timeout'', FloatV (Infinite False))]"
    by code_simp
  then show ?thesis by (simp add: sk_args_of_def sk_action_of_def action_text_def)
qed

lemma sk_program_escapes_witness:
  "\<exists>e. sk_program ascii_interp (router_peer True [] demo_env empty_map) infinite_timeout = Some (Ran (Raised e)) \<and>
     (e = overflow \<or> e = timeout_overflow)"
proof -
  obtain ns args where p: "parse_args ascii_db sk_parser infinite_timeout = Inr ns" "sk_args_of ns = Some args"
    "sk_timeout args = Infinite False" using infinite_timeout_parsed by blast
  then have r: "sk_program ascii_interp (router_peer True [] demo_env empty_map) infinite_timeout = Some (Ran (Raised timeout_overflow))"
    using timeout_escapes [OF disjI1 [OF p(3)]] by (simp add: sk_program_def ascii_interp_def)
  from sk_program_escapes [OF r router.no_failure] r show ?thesis by blast
qed

definition capture_line :: "ustr list" where
  "capture_line = map u [''capture'', ''--url'', ''http://localhost/metrics'', ''--o=./before'']"

lemma capture_line_args:
  "\<exists>ns. parse_command ascii_db vsr_parser vsr_commands (u ''action'') capture_line = Inr ns \<and>
    vsr_args_of ns = Some (Capture (u ''http://localhost/metrics'') (u ''before'') (Finite 5))"
proof -
  have "parse_command ascii_db vsr_parser vsr_commands (u ''action'') capture_line =
      Inr [(u ''action'', TextV (u ''capture'')), (u ''url'', TextV (u ''http://localhost/metrics'')), (u ''output'', FileV (u ''before'')),
        (u ''timeout'', FloatV (Finite 5))]"
    by code_simp
  then show ?thesis by (simp add: vsr_args_of_def)
qed

lemma vsr_program_safe_witness:
  "\<exists>w' raw. vsr_program ascii_interp capture_line example_world = (Ran (Exit 0 []), w') \<and>
    w_files w' (u ''before'') = Some text1 \<and> utf8_decode text1 = Some raw"
proof -
  obtain ns where ns: "parse_command (i_unicode ascii_interp) vsr_parser vsr_commands (u ''action'') capture_line = Inr ns"
    "vsr_args_of ns = Some (Capture (u ''http://localhost/metrics'') (u ''before'') (Finite 5))"
    using capture_line_args by (auto simp: ascii_interp_def)
  obtain w' where "vsr_main ascii_interp (Capture (u ''http://localhost/metrics'') (u ''before'') (Finite 5)) example_world = (Exit 0 [], w')"
    using capture_writes [of example_world "u ''http://localhost/metrics''" "Finite 5" text1 ascii_interp "example_counters 10 100" "u ''before''"]
      example_exposes(1) by (auto simp: example_world_def)
  with ns have r: "vsr_program ascii_interp capture_line example_world = (Ran (Exit 0 []), w')" by (simp add: vsr_program_def)
  from vsr_program_safe [OF r] ns obtain bytes raw where
    "fetched_snapshot (i_unicode ascii_interp) example_world (u ''http://localhost/metrics'') (Finite 5) bytes raw"
    "w' = example_world\<lparr>w_files := (w_files example_world)(u ''before'' \<mapsto> bytes)\<rparr>" by auto
  with r show ?thesis by (auto simp: fetched_snapshot_def example_world_def)
qed

lemma vsr_program_escapes_witness:
  "\<exists>e. vsr_program ascii_interp (map u [''summarize'', ''--before=b'', ''--after=a'']) example_world = (Ran (UsageError e), example_world) \<and>
    reported e"
proof -
  let ?argv = "map u [''summarize'', ''--before=b'', ''--after=a'']"
  have ns: "parse_command ascii_db vsr_parser vsr_commands (u ''action'') ?argv =
      Inr [(u ''action'', TextV (u ''summarize'')), (u ''before'', FileV (u ''b'')), (u ''after'', FileV (u ''a'')),
        (u ''expected_completed'', Unset), (u ''format'', TextV (u ''human''))]"
    by code_simp
  have "vsr_main ascii_interp (Summarize (u ''b'') (u ''a'') None Human) example_world =
      (UsageError (FileNotFoundErr ''No such file or directory: {!r}'' [u ''b'']), example_world)"
    by (simp add: vsr_main_def read_text_def example_world_def handled_def)
  then have r: "vsr_program ascii_interp ?argv example_world =
      (Ran (UsageError (FileNotFoundErr ''No such file or directory: {!r}'' [u ''b''])), example_world)"
    using ns by (simp add: vsr_program_def vsr_args_of_def format_of_def ascii_interp_def)
  have "files_report example_world" by (simp add: files_report_def example_world_def)
  from vsr_program_escapes [OF r this] r show ?thesis by auto
qed

end
