(* ===== verification/Waiter.thy ===== *)
theory Waiter
  imports CommandLines SkRouter
begin

section \<open>Waiting for the router to become quiescent\<close>

text \<open>
  benchmarks/routing_wrk/wait_for_xsr_quiescence.py reads the status of the router until every
  connection set is reaped. The loop is a partial function over the clock and over the peer as each attempt
  finds it, since neither the deadline nor the end of a reply is under its control.
\<close>

subsection \<open>Reading the status\<close>

definition status_command :: ustr where
  "status_command = u ''status'' @ [10]"

definition status_reply :: "peer \<Rightarrow> ustr \<Rightarrow> float_number \<Rightarrow> ustr res option" where
  "status_reply P path timeout =
     (case bind_res (settimeout timeout) (\<lambda>_. bind_res (p_connect P path) (\<lambda>_.
           bind_res (p_sendall P status_command) (\<lambda>_. p_shutdown P))) of
        Inl e \<Rightarrow> Some (Inl e)
      | Inr _ \<Rightarrow> map_option (\<lambda>raw. bind_res raw (\<lambda>bytes. bind_res (ascii_decode bytes) (\<lambda>text. Inr (py_strip text))))
          (recv_all (p_recv P status_command) 0 []))"

definition status_field :: "unidb \<Rightarrow> ustr \<Rightarrow> (ustr, int) dict \<Rightarrow> (ustr, int) dict res" where
  "status_field U field vals = (case split_once 61 field of
     (key, None) \<Rightarrow> Inl (ValueError ''invalid XSR status field: {!r}'' [field])
   | (key, Some v) \<Rightarrow> (case int_text U v of
       None \<Rightarrow> Inl (ValueError ''invalid literal for int() with base 10: {!r}'' [v])
     | Some i \<Rightarrow> Inr (dict_set key i vals)))"

definition REQUIRED :: "ustr list" where
  "REQUIRED = map u [''pid'', ''active_connection_sets'', ''free_slot_sets'', ''quarantined_slot_sets'', ''accepted_total'',
     ''reaped_total'', ''sockmap_entries'', ''routes_entries'', ''http_flows_entries'', ''route_decisions_entries'', ''lifecycle_entries'']"

definition status_values :: "unidb \<Rightarrow> ustr \<Rightarrow> (ustr, int) dict res" where
  "status_values U raw = bind_res (fold_res (status_field U) (split_ws raw) []) (\<lambda>vals.
     let absent = filter (\<lambda>k. k \<notin> set (dict_keys vals)) REQUIRED in
     bind_res (ensure (absent = []) (ValueError ''XSR status is missing fields: {}'' (sort absent))) (\<lambda>_. Inr vals))"

definition read_status :: "unidb \<Rightarrow> peer \<Rightarrow> ustr \<Rightarrow> float_number \<Rightarrow> (ustr, int) dict res option" where
  "read_status U P path timeout = map_option (\<lambda>reply. bind_res reply (status_values U)) (status_reply P path timeout)"

subsection \<open>Checking a status\<close>

definition ZERO_FIELDS :: "ustr list" where
  "ZERO_FIELDS = map u [''active_connection_sets'', ''sockmap_entries'', ''routes_entries'', ''http_flows_entries'',
     ''route_decisions_entries'', ''lifecycle_entries'']"

fun all_zero :: "(ustr, int) dict \<Rightarrow> ustr list \<Rightarrow> bool res" where
  "all_zero st [] = Inr True"
| "all_zero st (k # ks) = bind_res (dict_index st k) (\<lambda>v. if v = 0 then all_zero st ks else Inr False)"

definition check_status :: "int \<Rightarrow> int \<Rightarrow> (ustr, int) dict \<Rightarrow> bool res" where
  "check_status expected_pid minimum_reaped st =
     bind_res (dict_index st (u ''pid'')) (\<lambda>pid.
     bind_res (ensure (pid = expected_pid) (RuntimeErr ''XSR PID changed: expected {}, found {}'' [show_int expected_pid, show_int pid])) (\<lambda>_.
     bind_res (dict_index st (u ''quarantined_slot_sets'')) (\<lambda>quarantined.
     bind_res (ensure (quarantined = 0) (RuntimeErr ''XSR quarantined slot sets during cleanup: {}'' [show_int quarantined])) (\<lambda>_.
     bind_res (all_zero st ZERO_FIELDS) (\<lambda>zero.
     if zero then bind_res (dict_index st (u ''reaped_total'')) (\<lambda>reaped. Inr (minimum_reaped \<le> reaped))
     else Inr False)))))"

text \<open>The handler of the loop: OSError with its subclasses and ValueError, but no RuntimeError.\<close>

fun retried :: "pyerr \<Rightarrow> bool" where
  "retried (ValueError _ _) = True"
| "retried UnicodeEncodeErr = True"
| "retried (FileNotFoundErr _ _) = True"
| "retried (TimeoutErr _) = True"
| "retried (OSErr _ _) = True"
| "retried _ = False"

subsection \<open>The loop\<close>

text \<open>\<open>wt_clock n\<close> is what the \<open>n\<close>-th call of \<open>time.monotonic()\<close> returns, \<open>wt_peer n\<close> the peer the attempt after it finds.\<close>

record waiting =
  wt_clock :: "nat \<Rightarrow> rat"
  wt_peer :: "nat \<Rightarrow> peer"

definition deadline_at :: "rat \<Rightarrow> float_number \<Rightarrow> float_number" where
  "deadline_at now timeout = (case timeout of
     Finite t \<Rightarrow> (let d = double (now + t) in if float_limit \<le> \<bar>d\<bar> then Infinite (d < 0) else Finite d)
   | _ \<Rightarrow> timeout)"

fun earlier :: "rat \<Rightarrow> float_number \<Rightarrow> bool" where
  "earlier now (Finite d) = (now < d)"
| "earlier now (Infinite neg) = (\<not> neg)"
| "earlier now NotANumber = False"

datatype wait_detail = LastStatus "(ustr, int) dict" | LastError "pyerr option"

datatype wait_end = Quiescent "(ustr, int) dict" | Failed pyerr | Expired wait_detail

definition wait_detail_of :: "pyerr option \<Rightarrow> (ustr, int) dict option \<Rightarrow> wait_detail" where
  "wait_detail_of last_error last_status = (case last_status of
     Some st \<Rightarrow> if st = [] then LastError last_error else LastStatus st | None \<Rightarrow> LastError last_error)"

partial_function (option) wait_loop ::
  "unidb \<Rightarrow> waiting \<Rightarrow> ustr \<Rightarrow> int \<Rightarrow> int \<Rightarrow> float_number \<Rightarrow> nat \<Rightarrow> pyerr option \<Rightarrow> (ustr, int) dict option \<Rightarrow> wait_end option" where
  "wait_loop U W path expected_pid minimum_reaped deadline n last_error last_status =
     (if \<not> earlier (wt_clock W n) deadline then Some (Expired (wait_detail_of last_error last_status))
      else case read_status U (wt_peer W n) path (Finite 1) of
        None \<Rightarrow> None
      | Some (Inl e) \<Rightarrow>
          if retried e then wait_loop U W path expected_pid minimum_reaped deadline (Suc n) (Some e) last_status
          else Some (Failed e)
      | Some (Inr st) \<Rightarrow> (case check_status expected_pid minimum_reaped st of
          Inl e \<Rightarrow>
            if retried e then wait_loop U W path expected_pid minimum_reaped deadline (Suc n) (Some e) (Some st)
            else Some (Failed e)
        | Inr quiet \<Rightarrow>
            if quiet then Some (Quiescent st)
            else wait_loop U W path expected_pid minimum_reaped deadline (Suc n) None (Some st)))"

definition wait_for_quiescence :: "unidb \<Rightarrow> waiting \<Rightarrow> ustr \<Rightarrow> int \<Rightarrow> float_number \<Rightarrow> int \<Rightarrow> wait_end option" where
  "wait_for_quiescence U W path expected_pid timeout minimum_reaped =
     wait_loop U W path expected_pid minimum_reaped (deadline_at (wt_clock W 0) timeout) 1 None None"

subsection \<open>The program\<close>

definition waiter_parser :: parser where
  "waiter_parser = \<lparr>ps_positional = None,
     ps_options = [required_option ''--socket'' File, required_option ''--pid'' Whole,
       optional_option ''--timeout'' Number (FloatV (Finite 30)),
       optional_option ''--minimum-reaped'' Whole (IntV 0)]\<rparr>"

record waiter_args =
  wa_socket :: ustr
  wa_pid :: int
  wa_timeout :: float_number
  wa_minimum :: int

definition waiter_args_of :: "(ustr, arg_value) dict \<Rightarrow> waiter_args option" where
  "waiter_args_of ns = (case (dict_get ns (u ''socket''), dict_get ns (u ''pid''), dict_get ns (u ''timeout''), dict_get ns (u ''minimum_reaped'')) of
     (Some (FileV path), Some (IntV pid), Some (FloatV timeout), Some (IntV least)) \<Rightarrow>
       Some \<lparr>wa_socket = path, wa_pid = pid, wa_timeout = timeout, wa_minimum = least\<rparr>
   | _ \<Rightarrow> None)"

text \<open>The outcome; of the message of the final TimeoutError only the beginning is kept, its detail is in \<open>Expired\<close>.\<close>

definition wait_outcome :: "wait_end \<Rightarrow> outcome" where
  "wait_outcome r = (case r of
     Quiescent st \<Rightarrow> Exit 0 (print_line st @ [10])
   | Failed e \<Rightarrow> Raised e
   | Expired _ \<Rightarrow> Raised (TimeoutErr ''XSR did not become quiescent''))"

definition waiter_main :: "unidb \<Rightarrow> waiting \<Rightarrow> waiter_args \<Rightarrow> outcome option" where
  "waiter_main U W args = map_option wait_outcome
     (wait_for_quiescence U W (wa_socket args) (wa_pid args) (wa_timeout args) (wa_minimum args))"

definition waiter_program :: "unidb \<Rightarrow> waiting \<Rightarrow> ustr list \<Rightarrow> run option" where
  "waiter_program U W argv = (case parse_args U waiter_parser argv of
     Inl s \<Rightarrow> Some (Stopped s)
   | Inr ns \<Rightarrow> (case waiter_args_of ns of
       None \<Rightarrow> Some (Ran (Raised bad_attribute)) | Some args \<Rightarrow> map_option Ran (waiter_main U W args)))"

end
