(* ===== verification/WaiterTheorems.thy ===== *)
theory WaiterTheorems
  imports Waiter
begin

section \<open>What the waiter promises\<close>

text \<open>
  A status that is returned was read before the deadline and shows a router at rest; the loop ends when
  the clock passes the deadline; and composed with the router of SkRouter the waiter prints the
  status line of the first quiescent state it finds.
\<close>

subsection \<open>Checking\<close>

definition quiescent_status :: "int \<Rightarrow> int \<Rightarrow> (ustr, int) dict \<Rightarrow> bool" where
  "quiescent_status pid least st \<longleftrightarrow> dict_get st (u ''pid'') = Some pid \<and> dict_get st (u ''quarantined_slot_sets'') = Some 0 \<and>
     list_all (\<lambda>k. dict_get st k = Some 0) ZERO_FIELDS \<and>
     (case dict_get st (u ''reaped_total'') of None \<Rightarrow> False | Some reaped \<Rightarrow> least \<le> reaped)"

lemma all_zero_True: "all_zero st ks = Inr True \<longleftrightarrow> list_all (\<lambda>k. dict_get st k = Some 0) ks"
  by (induction ks) (auto simp: bind_res_Inr_iff dict_index_iff)

lemma all_zero_complete: "\<forall>k \<in> set ks. k \<in> set (dict_keys st) \<Longrightarrow> \<exists>b. all_zero st ks = Inr b"
proof (induction ks)
  case (Cons k ks)
  then obtain v where "dict_get st k = Some v" by (cases "dict_get st k") (auto simp: map_of_eq_None_iff)
  moreover obtain b where "all_zero st ks = Inr b" using Cons by auto
  ultimately show ?case by (cases "v = 0") (auto simp: ex_bool_eq)
qed (simp add: ex_bool_eq)

lemma check_status_True: "check_status pid least st = Inr True \<longleftrightarrow> quiescent_status pid least st"
  by (auto simp: check_status_def quiescent_status_def bind_res_Inr_iff dict_index_iff ensure_iff all_zero_True
      split: option.split if_splits)

lemma required_found: "k \<in> set REQUIRED \<Longrightarrow> set REQUIRED \<subseteq> set (dict_keys st) \<Longrightarrow> \<exists>v. dict_get st k = Some v"
  by (cases "dict_get st k") (auto simp: map_of_eq_None_iff)

lemma status_values_required: "status_values U raw = Inr st \<Longrightarrow> set REQUIRED \<subseteq> set (dict_keys st)"
  by (auto simp: status_values_def Let_def bind_res_Inr_iff ensure_iff filter_empty_conv)

definition wait_error :: "int \<Rightarrow> pyerr \<Rightarrow> bool" where
  "wait_error pid e \<longleftrightarrow>
     (\<exists>found. found \<noteq> pid \<and> e = RuntimeErr ''XSR PID changed: expected {}, found {}'' [show_int pid, show_int found]) \<or>
     (\<exists>n. n \<noteq> 0 \<and> e = RuntimeErr ''XSR quarantined slot sets during cleanup: {}'' [show_int n])"

lemma required_names: "u ''pid'' \<in> set REQUIRED" "u ''quarantined_slot_sets'' \<in> set REQUIRED" "u ''reaped_total'' \<in> set REQUIRED"
  "set ZERO_FIELDS \<subseteq> set REQUIRED"
  by (auto simp: REQUIRED_def ZERO_FIELDS_def)

lemma check_status_error:
  assumes "check_status pid least st = Inl e" "set REQUIRED \<subseteq> set (dict_keys st)"
  shows "wait_error pid e"
proof -
  from required_found [OF required_names(1) assms(2)] required_found [OF required_names(2) assms(2)]
    required_found [OF required_names(3) assms(2)] obtain found q reaped where
    f: "dict_get st (u ''pid'') = Some found" "dict_get st (u ''quarantined_slot_sets'') = Some q" "dict_get st (u ''reaped_total'') = Some reaped"
    by blast
  obtain b where "all_zero st ZERO_FIELDS = Inr b"
    using all_zero_complete [of ZERO_FIELDS st] required_names(4) assms(2) by blast
  with assms(1) f show ?thesis
    by (auto simp: check_status_def bind_res_Inl_iff ensure_iff wait_error_def split: if_splits)
qed

lemma wait_error_not_retried: "wait_error pid e \<Longrightarrow> \<not> retried e"
  by (auto simp: wait_error_def)

subsection \<open>The loop\<close>

definition attempt :: "unidb \<Rightarrow> waiting \<Rightarrow> ustr \<Rightarrow> nat \<Rightarrow> (ustr, int) dict res option" where
  "attempt U W path n = read_status U (wt_peer W n) path (Finite 1)"

lemma attempt_required: "attempt U W path n = Some (Inr st) \<Longrightarrow> set REQUIRED \<subseteq> set (dict_keys st)"
  by (auto simp: attempt_def read_status_def bind_res_Inr_iff dest!: status_values_required)

text \<open>What the end of the loop says of the attempt it ended with.\<close>

definition stops :: "unidb \<Rightarrow> waiting \<Rightarrow> ustr \<Rightarrow> int \<Rightarrow> int \<Rightarrow> float_number \<Rightarrow> wait_end \<Rightarrow> nat \<Rightarrow> bool" where
  "stops U W path pid least d r k \<longleftrightarrow> (case r of
     Quiescent st \<Rightarrow> earlier (wt_clock W k) d \<and> attempt U W path k = Some (Inr st) \<and> quiescent_status pid least st
   | Failed e \<Rightarrow> earlier (wt_clock W k) d \<and>
       (attempt U W path k = Some (Inl e) \<and> \<not> retried e \<or> (\<exists>st. attempt U W path k = Some (Inr st) \<and> wait_error pid e))
   | Expired _ \<Rightarrow> \<not> earlier (wt_clock W k) d)"

lemma wait_loop_stops:
  assumes "wait_loop U W path pid least d n le ls = Some r" shows "\<exists>k \<ge> n. stops U W path pid least d r k"
proof (rule wait_loop.raw_induct [OF _ assms], goal_cases)
  case (1 f U W path pid least d n le ls r)
  have later: "\<exists>k \<ge> n. stops U W path pid least d r k" if "\<exists>k \<ge> Suc n. stops U W path pid least d r k"
    using that Suc_leD by blast
  show ?case
  proof (cases "earlier (wt_clock W n) d")
    case False
    with 1(2) show ?thesis by (intro exI [of _ n]) (auto simp: stops_def)
  next
    case True
    note step = 1(2) [folded attempt_def, simplified True not_True_eq_False if_False]
    show ?thesis
    proof (cases "attempt U W path n")
      case None
      with step show ?thesis by simp
    next
      case (Some reply)
      show ?thesis
      proof (cases reply)
        case (Inl e)
        show ?thesis
        proof (cases "retried e")
          case True
          with step Some Inl have "f U W path pid least d (Suc n) (Some e) ls = Some r" by simp
          from later [OF 1(1) [OF this]] show ?thesis .
        next
          case False
          with step Some Inl \<open>earlier (wt_clock W n) d\<close> show ?thesis by (intro exI [of _ n]) (auto simp: stops_def)
        qed
      next
        case (Inr st)
        show ?thesis
        proof (cases "check_status pid least st")
          case (Inl e)
          have e: "wait_error pid e"
            using check_status_error [OF Inl] attempt_required Some \<open>reply = Inr st\<close> by blast
          with step Some \<open>reply = Inr st\<close> Inl wait_error_not_retried [OF e] True show ?thesis
            by (intro exI [of _ n]) (auto simp: stops_def)
        next
          case (Inr quiet)
          show ?thesis
          proof (cases quiet)
            case True
            with step Some \<open>reply = Inr st\<close> Inr \<open>earlier (wt_clock W n) d\<close> show ?thesis
              by (intro exI [of _ n]) (auto simp: stops_def check_status_True)
          next
            case False
            with step Some \<open>reply = Inr st\<close> Inr have "f U W path pid least d (Suc n) None (Some st) = Some r" by simp
            from later [OF 1(1) [OF this]] show ?thesis .
          qed
        qed
      qed
    qed
  qed
qed

text \<open>C16. A status the waiter returns was read by one of its attempts before the deadline, names the expected
  process, has no quarantined slot set, no active connection set and no entry in any of the maps, and
  at least the wanted number of reaped sets.\<close>

theorem wait_sound:
  assumes "wait_for_quiescence U W path pid timeout least = Some (Quiescent st)"
  shows "\<exists>k \<ge> 1. earlier (wt_clock W k) (deadline_at (wt_clock W 0) timeout) \<and>
    read_status U (wt_peer W k) path (Finite 1) = Some (Inr st) \<and>
    dict_get st (u ''pid'') = Some pid \<and> dict_get st (u ''quarantined_slot_sets'') = Some 0 \<and>
    list_all (\<lambda>k. dict_get st k = Some 0) ZERO_FIELDS \<and>
    (\<exists>reaped \<ge> least. dict_get st (u ''reaped_total'') = Some reaped)"
  using wait_loop_stops [OF assms [unfolded wait_for_quiescence_def]]
  by (auto simp: stops_def quiescent_status_def attempt_def split: option.splits)

text \<open>An attempt after which the loop goes on.\<close>

definition goes_on :: "unidb \<Rightarrow> waiting \<Rightarrow> ustr \<Rightarrow> int \<Rightarrow> int \<Rightarrow> nat \<Rightarrow> bool" where
  "goes_on U W path pid least n \<longleftrightarrow> (case attempt U W path n of
     None \<Rightarrow> False
   | Some (Inl e) \<Rightarrow> retried e
   | Some (Inr st) \<Rightarrow> check_status pid least st = Inr False)"

lemma wait_loop_goes_on:
  assumes "earlier (wt_clock W n) d" "goes_on U W path pid least n"
  shows "\<exists>le' ls'. wait_loop U W path pid least d n le ls = wait_loop U W path pid least d (Suc n) le' ls'"
  using assms unfolding goes_on_def
  by (subst wait_loop.simps) (auto simp: attempt_def [symmetric] split: option.splits sum.splits)

lemma wait_loop_reaches:
  assumes "\<And>i. i < k \<Longrightarrow> earlier (wt_clock W (n + i)) d \<and> goes_on U W path pid least (n + i)"
  shows "\<exists>le' ls'. wait_loop U W path pid least d n le ls = wait_loop U W path pid least d (n + k) le' ls'"
  using assms
proof (induction k)
  case (Suc k)
  then obtain le1 ls1 where "wait_loop U W path pid least d n le ls = wait_loop U W path pid least d (n + k) le1 ls1" by force
  with wait_loop_goes_on [of W "n + k" d U path pid least le1 ls1] Suc.prems [of k] show ?case by simp
qed auto

lemma wait_loop_ends:
  assumes "attempt U W path n \<noteq> None" "\<not> (earlier (wt_clock W n) d \<and> goes_on U W path pid least n)"
  shows "\<exists>r. wait_loop U W path pid least d n le ls = Some r"
proof (cases "earlier (wt_clock W n) d")
  case False
  then show ?thesis by (subst wait_loop.simps) simp
next
  case True
  with assms(2) have g: "\<not> goes_on U W path pid least n" by simp
  from assms(1) obtain reply where a: "attempt U W path n = Some reply" by auto
  show ?thesis
  proof (cases reply)
    case (Inl e)
    with g a True show ?thesis by (subst wait_loop.simps) (simp add: goes_on_def attempt_def [symmetric])
  next
    case (Inr st)
    from check_status_error [of pid least st] wait_error_not_retried attempt_required a Inr
    have "\<not> retried e" if "check_status pid least st = Inl e" for e using that by blast
    with g a Inr True show ?thesis
      by (subst wait_loop.simps) (auto simp: goes_on_def attempt_def [symmetric] split: sum.split)
  qed
qed

text \<open>C19. The waiter ends: when every attempt ends, because the peer closes the connection or a receive fails, and
  the clock passes the deadline at some point, it returns a status, fails or raises TimeoutError.\<close>

theorem wait_ends:
  assumes "\<And>n. \<exists>m. ends_at (p_recv (wt_peer W n) status_command) m"
    and "1 \<le> k" "\<not> earlier (wt_clock W k) (deadline_at (wt_clock W 0) timeout)"
  shows "\<exists>r. wait_for_quiescence U W path pid timeout least = Some r"
proof -
  let ?d = "deadline_at (wt_clock W 0) timeout"
  have ended: "attempt U W path n \<noteq> None" for n
    using recv_all_ends_Some assms(1) [of n] by (auto simp: attempt_def read_status_def status_reply_def split: sum.splits)
  let ?stop = "\<lambda>j. \<not> (earlier (wt_clock W (1 + j)) ?d \<and> goes_on U W path pid least (1 + j))"
  define j where "j = (LEAST j. ?stop j)"
  have "?stop (k - 1)" using assms(2,3) by simp
  then have "?stop j" unfolding j_def by (rule LeastI)
  moreover have "earlier (wt_clock W (1 + i)) ?d \<and> goes_on U W path pid least (1 + i)" if "i < j" for i
    using not_less_Least [of i ?stop] that unfolding j_def by blast
  from wait_loop_reaches [of j W 1 ?d U path pid least None None, OF this] obtain le' ls' where
    "wait_loop U W path pid least ?d 1 None None = wait_loop U W path pid least ?d (1 + j) le' ls'" by blast
  ultimately show ?thesis
    using wait_loop_ends [OF ended] by (simp add: wait_for_quiescence_def)
qed

subsection \<open>What escapes\<close>

text \<open>What the calls on the socket may raise: OSError and its subclasses, or a ValueError.\<close>

definition peer_retried :: "peer \<Rightarrow> bool" where
  "peer_retried P \<longleftrightarrow> (\<forall>path e. p_connect P path = Inl e \<longrightarrow> retried e) \<and> (\<forall>b e. p_sendall P b = Inl e \<longrightarrow> retried e) \<and>
     (\<forall>e. p_shutdown P = Inl e \<longrightarrow> retried e) \<and> (\<forall>b n e. p_recv P b n = Inl e \<longrightarrow> retried e)"

lemma status_field_error: "status_field U field vals = Inl e \<Longrightarrow> retried e"
  by (auto simp: status_field_def split: prod.splits option.splits)

lemma status_values_error: "status_values U raw = Inl e \<Longrightarrow> retried e"
proof -
  assume "status_values U raw = Inl e"
  then consider "fold_res (status_field U) (split_ws raw) [] = Inl e" | absent where "e = ValueError ''XSR status is missing fields: {}'' absent"
    by (auto simp: status_values_def Let_def bind_res_Inl_iff ensure_iff)
  then show ?thesis
  proof cases
    case 1
    then show ?thesis by (rule fold_res_error [where P = "\<lambda>_. True" and Q = retried]) (auto dest: status_field_error)
  qed simp
qed

lemma attempt_error:
  assumes "peer_retried (wt_peer W n)" "attempt U W path n = Some (Inl e)" shows "retried e"
proof -
  have "settimeout (Finite 1) = Inr ()" by (rule settimeout_ok) simp_all
  then obtain reply where r: "status_reply (wt_peer W n) path (Finite 1) = Some reply" "bind_res reply (status_values U) = Inl e"
    using assms(2) by (auto simp: attempt_def read_status_def)
  show ?thesis
  proof (cases reply)
    case (Inr raw)
    with r(2) status_values_error show ?thesis by simp
  next
    case (Inl e')
    with r have "status_reply (wt_peer W n) path (Finite 1) = Some (Inl e)" by simp
    then show ?thesis
      using assms(1) recv_all_Some [of "p_recv (wt_peer W n) status_command" 0 "[]"] \<open>settimeout (Finite 1) = Inr ()\<close>
      by (auto simp: status_reply_def peer_retried_def bind_res_Inl_iff run_end_def ascii_decode_def split: sum.splits if_splits)
  qed
qed

lemma waiter_parser_wf: "wf_parser waiter_parser"
  by code_simp

lemma waiter_dests [simp]:
  "dest (required_option ''--pid'' t) = u ''pid''" "dest (optional_option ''--minimum-reaped'' t v) = u ''minimum_reaped''"
  by code_simp+

lemma waiter_args_exist: "complete U waiter_parser ns \<Longrightarrow> waiter_args_of ns \<noteq> None"
proof -
  assume "complete U waiter_parser ns"
  then have h: "has_option U ns (required_option ''--socket'' File)" "has_option U ns (required_option ''--pid'' Whole)"
    "has_option U ns (optional_option ''--timeout'' Number (FloatV (Finite 30)))"
    "has_option U ns (optional_option ''--minimum-reaped'' Whole (IntV 0))"
    by (auto simp: complete_def waiter_parser_def)
  from has_path [OF h(1)] has_int [OF h(2)] has_number [OF h(3)] has_int_default [OF h(4)] show ?thesis
    by (auto simp: waiter_args_of_def)
qed

text \<open>C20. Whatever the command line, a run of the waiter prints a status and ends with status 0, or it ends with one
  of three exceptions: TimeoutError, and the RuntimeErrors for another process identifier and for quarantined slot
  sets, with the numbers found. Every failure of the socket and every malformed status is retried.\<close>

theorem waiter_escapes:
  assumes "waiter_program U W argv = Some (Ran out)" and "\<And>n. peer_retried (wt_peer W n)"
  shows "\<exists>ns args. parse_args U waiter_parser argv = Inr ns \<and> waiter_args_of ns = Some args \<and>
    (case out of Exit code line \<Rightarrow> code = 0
     | UsageError _ \<Rightarrow> False
     | Raised e \<Rightarrow> e = TimeoutErr ''XSR did not become quiescent'' \<or>
         (\<exists>found. found \<noteq> wa_pid args \<and>
           e = RuntimeErr ''XSR PID changed: expected {}, found {}'' [show_int (wa_pid args), show_int found]) \<or>
         (\<exists>n. n \<noteq> 0 \<and> e = RuntimeErr ''XSR quarantined slot sets during cleanup: {}'' [show_int n]))"
proof -
  from assms(1) obtain ns where ns: "parse_args U waiter_parser argv = Inr ns"
    by (auto simp: waiter_program_def split: sum.splits)
  from waiter_args_exist [OF parse_args_complete_lemma [OF waiter_parser_wf ns]] obtain args where a: "waiter_args_of ns = Some args" by blast
  with ns assms(1) obtain r where r: "wait_for_quiescence U W (wa_socket args) (wa_pid args) (wa_timeout args) (wa_minimum args) = Some r"
    and out: "out = wait_outcome r" by (auto simp: waiter_program_def waiter_main_def)
  from wait_loop_stops [OF r [unfolded wait_for_quiescence_def]] attempt_error [OF assms(2)]
  have "case r of Failed e \<Rightarrow> wait_error (wa_pid args) e | _ \<Rightarrow> True"
    by (auto simp: stops_def split: wait_end.splits)
  then have "case out of Exit code line \<Rightarrow> code = 0 | UsageError _ \<Rightarrow> False
     | Raised e \<Rightarrow> e = TimeoutErr ''XSR did not become quiescent'' \<or> wait_error (wa_pid args) e"
    unfolding out by (auto simp: wait_outcome_def split: wait_end.splits)
  with ns a show ?thesis unfolding wait_error_def by blast
qed

end
