(* ===== verification/WaiterRouter.thy ===== *)
theory WaiterRouter
  imports WaiterTheorems
begin

section \<open>Waiting for the modelled router\<close>

text \<open>
  The status report of src/sk_router.c, on the counters of its connection manager, and the waiter run
  against it: it prints the status of the first quiescent state it meets.
\<close>

subsection \<open>The report of the router\<close>

text \<open>
  The counters of \<open>struct connection_manager\<close> and the numbers of entries of its maps (-1 when a map
  cannot be walked), as \<open>serve_status\<close> prints them.
\<close>

record manager =
  cm_pid :: int
  cm_active :: "32 word"
  cm_free :: "32 word"
  cm_quarantined :: "32 word"
  cm_accepted :: "64 word"
  cm_reaped :: "64 word"
  cm_half_close :: "64 word"
  cm_lifecycle_poll :: "64 word"
  cm_sockmap :: int
  cm_routes :: int
  cm_http_flows :: int
  cm_route_decisions :: int
  cm_lifecycle :: int

definition status_fields :: "manager \<Rightarrow> (ustr \<times> int) list" where
  "status_fields M = [(u ''pid'', cm_pid M), (u ''active_connection_sets'', uint (cm_active M)), (u ''free_slot_sets'', uint (cm_free M)),
     (u ''quarantined_slot_sets'', uint (cm_quarantined M)), (u ''accepted_total'', uint (cm_accepted M)),
     (u ''reaped_total'', uint (cm_reaped M)), (u ''half_close_total'', uint (cm_half_close M)),
     (u ''lifecycle_poll_total'', uint (cm_lifecycle_poll M)), (u ''sockmap_entries'', cm_sockmap M),
     (u ''routes_entries'', cm_routes M), (u ''http_flows_entries'', cm_http_flows M),
     (u ''route_decisions_entries'', cm_route_decisions M), (u ''lifecycle_entries'', cm_lifecycle M)]"

definition status_report :: "manager \<Rightarrow> ustr" where
  "status_report M = join [32] (map print_field (status_fields M)) @ [10]"

text \<open>The router at rest, for a process and a number of connection sets it has reaped.\<close>

definition manager_quiescent :: "int \<Rightarrow> int \<Rightarrow> manager \<Rightarrow> bool" where
  "manager_quiescent pid least M \<longleftrightarrow> cm_pid M = pid \<and> cm_quarantined M = 0 \<and> cm_active M = 0 \<and> cm_sockmap M = 0 \<and>
     cm_routes M = 0 \<and> cm_http_flows M = 0 \<and> cm_route_decisions M = 0 \<and> cm_lifecycle M = 0 \<and> least \<le> uint (cm_reaped M)"

subsection \<open>Reading what was printed\<close>

lemma fold_status_field:
  assumes "list_all (\<lambda>kv. key_ok (fst kv)) kvs" "distinct (map fst kvs)" "fst ` set d \<inter> fst ` set kvs = {}"
  shows "fold_res (status_field U) (map print_field kvs) d = Inr (d @ kvs)"
  using assms
proof (induction kvs arbitrary: d)
  case (Cons kv kvs)
  have "status_field U (print_field kv) d = Inr (dict_set (fst kv) (snd kv) d)"
    using Cons.prems(1) by (simp add: status_field_def print_field_def key_ok_def split_once_app)
  moreover have "dict_set (fst kv) (snd kv) d = d @ [(fst kv, snd kv)]"
    using Cons.prems(3) by (intro dict_set_new) auto
  ultimately show ?case using Cons.prems by (auto simp: Cons.IH)
qed simp

lemma status_values_print:
  assumes "list_all (\<lambda>kv. key_ok (fst kv)) kvs" "distinct (map fst kvs)" "set REQUIRED \<subseteq> fst ` set kvs"
  shows "status_values U (print_line kvs) = Inr kvs"
proof -
  have "list_all (\<lambda>w. w \<noteq> [] \<and> list_all (\<lambda>c. \<not> is_space c) w) (map print_field kvs)"
    using assms(1) show_int_spaceless by (auto simp: list_all_iff print_field_def key_ok_def is_space_def)
  from split_ws_join [OF this] have "fold_res (status_field U) (split_ws (print_line kvs)) [] = Inr kvs"
    using fold_status_field [OF assms(1,2), of "[]" U] by (simp add: print_line_def)
  moreover have "filter (\<lambda>k. k \<notin> set (dict_keys kvs)) REQUIRED = []"
    using assms(3) by (auto simp: filter_empty_conv)
  ultimately show ?thesis by (simp add: status_values_def)
qed

lemma status_keys: "list_all (\<lambda>kv. key_ok (fst kv)) (status_fields M)" "distinct (map fst (status_fields M))"
  "set REQUIRED \<subseteq> fst ` set (status_fields M)"
proof -
  have "list_all key_ok (map fst (status_fields M)) \<and> distinct (map fst (status_fields M)) \<and> list_all (\<lambda>k. k \<in> set (map fst (status_fields M))) REQUIRED"
    by (simp only: status_fields_def list.map fst_conv) code_simp
  then show "list_all (\<lambda>kv. key_ok (fst kv)) (status_fields M)" "distinct (map fst (status_fields M))"
    "set REQUIRED \<subseteq> fst ` set (status_fields M)"
    by (auto simp: list.pred_map comp_def list_all_iff)
qed

lemma status_fields_quiescent: "quiescent_status pid least (status_fields M) \<longleftrightarrow> manager_quiescent pid least M"
  by (auto simp: quiescent_status_def manager_quiescent_def status_fields_def ZERO_FIELDS_def uint_0_iff)

context answering_peer
begin

lemma status_exchange:
  assumes "settimeout timeout = Inr ()" "answer status_command \<noteq> []" "list_all (\<lambda>b. b < 128) (answer status_command)"
  shows "status_reply P path timeout = Some (Inr (py_strip (answer status_command)))"
proof -
  have "recv_all (p_recv P status_command) 0 [] = Some (Inr (answer status_command))"
    using assms(2) closes [of _ 0] by (subst recv_all.simps, subst recv_all.simps) (simp add: answers)
  with assms show ?thesis by (simp add: status_reply_def accepts ascii_decode_def)
qed

end

lemma print_line_strip: "list_all (\<lambda>kv. key_ok (fst kv)) kvs \<Longrightarrow> kvs \<noteq> [] \<Longrightarrow> py_strip (print_line kvs @ [10]) = print_line kvs"
proof -
  assume k: "list_all (\<lambda>kv. key_ok (fst kv)) kvs" and ne: "kvs \<noteq> []"
  have field: "print_field kv \<noteq> [] \<and> \<not> is_space (hd (print_field kv)) \<and> \<not> is_space (last (print_field kv))" if "kv \<in> set kvs" for kv
  proof -
    have "list_all (\<lambda>c. \<not> is_space c) (print_field kv)" "print_field kv \<noteq> []"
      using k that show_int_spaceless [of "snd kv"] by (auto simp: print_field_def key_ok_def list_all_iff is_space_def [of 61])
    then show ?thesis by (auto simp: list_all_iff)
  qed
  obtain kv others where kvs: "kvs = kv # others" using ne by (cases kvs) auto
  have "hd (print_line kvs) = hd (print_field kv)" using field kvs by (simp add: print_line_def hd_join)
  moreover have "last (print_line kvs) = last (print_field (last kvs))"
    using field [of "last kvs"] ne by (simp add: print_line_def last_join last_map)
  moreover have "print_line kvs \<noteq> []" using field kvs by (auto simp: print_line_def join_Nil_iff)
  ultimately show ?thesis using field [of kv] field [of "last kvs"] kvs by (intro py_strip_terminated) simp_all
qed

lemma status_report_ascii: "list_all (\<lambda>b. b < 128) (status_report M)"
proof -
  have number: "list_all (\<lambda>b. b < 128) (show_int i)" for i
    by (auto simp: list_all_iff is_digit_def dest!: show_int_ascii)
  show ?thesis
    unfolding status_report_def status_fields_def print_field_def by (simp add: number u_def)
qed

lemma read_router_status:
  "read_status U (router_peer profiling (status_report M) E m) path (Finite 1) = Some (Inr (status_fields M))"
proof -
  have c: "takeWhile (\<lambda>c. c \<noteq> 10 \<and> c \<noteq> 13 \<and> c \<noteq> 0) (take 63 status_command) = u ''status''"
    by code_simp
  have "fst (serve_status profiling status E status_command m) = status" for status
    using c by (simp add: serve_status_def Let_def)
  moreover have "status_report M = print_line (status_fields M) @ [10]" by (simp add: status_report_def print_line_def)
  moreover have "status_fields M \<noteq> []" by (simp add: status_fields_def)
  ultimately have reply: "status_reply (router_peer profiling (status_report M) E m) path (Finite 1) = Some (Inr (print_line (status_fields M)))"
    using router.status_exchange [of "Finite 1" profiling "status_report M" E m path] settimeout_ok [of 1]
      status_report_ascii [of M] print_line_strip [OF status_keys(1)] by simp
  show ?thesis unfolding read_status_def reply by (simp add: status_values_print [OF status_keys])
qed

subsection \<open>The waiter and the router\<close>

definition router_waiting :: "(nat \<Rightarrow> rat) \<Rightarrow> (nat \<Rightarrow> manager) \<Rightarrow> bool \<Rightarrow> router_env \<Rightarrow> (nat \<Rightarrow> profile_map) \<Rightarrow> waiting" where
  "router_waiting clock M profiling E m =
     \<lparr>wt_clock = clock, wt_peer = (\<lambda>n. router_peer profiling (status_report (M n)) E (m n))\<rparr>"

lemma router_attempt: "attempt U (router_waiting clock M profiling E m) path n = Some (Inr (status_fields (M n)))"
  by (simp add: attempt_def router_waiting_def read_router_status)

lemma router_check:
  assumes "cm_pid M = pid" "cm_quarantined M = 0"
  shows "check_status pid least (status_fields M) = Inr (manager_quiescent pid least M)"
proof (cases "check_status pid least (status_fields M)")
  case (Inl e)
  obtain b where "all_zero (status_fields M) ZERO_FIELDS = Inr b"
    using all_zero_complete [of ZERO_FIELDS "status_fields M"] required_names(4) status_keys(3) [of M] by auto
  with Inl assms show ?thesis
    by (auto simp: check_status_def bind_res_Inl_iff ensure_iff dict_index_def status_fields_def split: if_splits)
next
  case (Inr b)
  with check_status_True [of pid least "status_fields M"] status_fields_quiescent show ?thesis by (cases b) auto
qed

text \<open>C13. The waiter and the router together: when the router, still the expected process and with nothing quarantined,
  is quiescent at some attempt before the deadline, the program ends with status 0 and prints the status
  line of the first attempt that finds the router quiescent.\<close>

theorem waiter_end_to_end:
  assumes "1 \<le> k" "manager_quiescent (wa_pid args) (wa_minimum args) (M k)"
    and "list_all (\<lambda>i. cm_pid (M i) = wa_pid args \<and> cm_quarantined (M i) = 0 \<and>
      earlier (clock i) (deadline_at (clock 0) (wa_timeout args))) [1 ..< Suc k]"
  shows "\<exists>j. 1 \<le> j \<and> j \<le> k \<and> manager_quiescent (wa_pid args) (wa_minimum args) (M j) \<and>
    list_all (\<lambda>i. \<not> manager_quiescent (wa_pid args) (wa_minimum args) (M i)) [1 ..< j] \<and>
    waiter_main U (router_waiting clock M profiling E m) args = Some (Exit 0 (status_report (M j)))"
proof -
  let ?W = "router_waiting clock M profiling E m" and ?q = "\<lambda>i. manager_quiescent (wa_pid args) (wa_minimum args) (M i)"
  let ?d = "deadline_at (clock 0) (wa_timeout args)"
  define j where "j = (LEAST j. 1 \<le> j \<and> ?q j)"
  have j: "1 \<le> j" "?q j" unfolding j_def using LeastI [of "\<lambda>j. 1 \<le> j \<and> ?q j" k] assms(1,2) by blast+
  have jk: "j \<le> k" unfolding j_def using assms(1,2) by (intro Least_le) simp
  have before_j: "\<not> ?q i" if "1 \<le> i" "i < j" for i
    using not_less_Least [of i "\<lambda>j. 1 \<le> j \<and> ?q j"] that unfolding j_def by blast
  have ok: "cm_pid (M i) = wa_pid args \<and> cm_quarantined (M i) = 0 \<and> earlier (wt_clock ?W i) ?d" if "1 \<le> i" "i \<le> j" for i
  proof -
    have "i \<in> set [1 ..< Suc k]" using that jk by auto
    with assms(3) show ?thesis unfolding list_all_iff by (simp only: router_waiting_def waiting.simps)
  qed
  have "earlier (wt_clock ?W (1 + i)) ?d \<and> goes_on U ?W (wa_socket args) (wa_pid args) (wa_minimum args) (1 + i)" if "i < j - 1" for i
    using ok [of "1 + i"] before_j [of "1 + i"] that by (auto simp: goes_on_def router_attempt router_check)
  from wait_loop_reaches [of "j - 1" ?W 1 ?d U "wa_socket args" "wa_pid args" "wa_minimum args" None None, OF this] obtain le ls where
    "wait_loop U ?W (wa_socket args) (wa_pid args) (wa_minimum args) ?d 1 None None =
     wait_loop U ?W (wa_socket args) (wa_pid args) (wa_minimum args) ?d j le ls" using j(1) by auto
  also have "\<dots> = Some (Quiescent (status_fields (M j)))"
    using ok [of j] j router_attempt [of U clock M profiling E m "wa_socket args" j]
    by (subst wait_loop.simps) (simp add: attempt_def router_check)
  finally have "waiter_main U ?W args = Some (Exit 0 (status_report (M j)))"
    by (simp add: waiter_main_def wait_for_quiescence_def wait_outcome_def router_waiting_def status_report_def print_line_def)
  with j jk before_j show ?thesis by (intro exI [of _ j]) (auto simp: list_all_iff)
qed

end
