(* ===== verification/WaiterExamples.thy ===== *)
theory WaiterExamples
  imports WaiterRouter SkExamples
begin

section \<open>A router that comes to rest\<close>

text \<open>One connection set is active at the first attempts and reaped before the third.\<close>

definition busy_manager :: manager where
  "busy_manager = \<lparr>cm_pid = 42, cm_active = 1, cm_free = 2729, cm_quarantined = 0, cm_accepted = 5, cm_reaped = 4,
     cm_half_close = 0, cm_lifecycle_poll = 0, cm_sockmap = 6, cm_routes = 6, cm_http_flows = 1, cm_route_decisions = 0, cm_lifecycle = 1\<rparr>"

definition idle_manager :: manager where
  "idle_manager = \<lparr>cm_pid = 42, cm_active = 0, cm_free = 2730, cm_quarantined = 0, cm_accepted = 5, cm_reaped = 5,
     cm_half_close = 0, cm_lifecycle_poll = 0, cm_sockmap = 0, cm_routes = 0, cm_http_flows = 0, cm_route_decisions = 0, cm_lifecycle = 0\<rparr>"

definition demo_waiting :: waiting where
  "demo_waiting = router_waiting (\<lambda>n. of_nat n) (\<lambda>n. if n < 3 then busy_manager else idle_manager) False demo_env (\<lambda>_. empty_map)"

definition demo_wait_args :: "float_number \<Rightarrow> waiter_args" where
  "demo_wait_args timeout = \<lparr>wa_socket = u ''/run/xsr.sock'', wa_pid = 42, wa_timeout = timeout, wa_minimum = 5\<rparr>"

lemma managers_quiescent: "manager_quiescent 42 5 idle_manager" "\<not> manager_quiescent 42 5 busy_manager"
  by (simp_all add: manager_quiescent_def idle_manager_def busy_manager_def)

lemma waiter_end_to_end_witness:
  "waiter_main ascii_db demo_waiting (demo_wait_args (Infinite False)) = Some (Exit 0 (status_report idle_manager))"
proof -
  let ?M = "\<lambda>n :: nat. if n < 3 then busy_manager else idle_manager"
  have "(1 :: nat) \<le> 3" "manager_quiescent (wa_pid (demo_wait_args (Infinite False))) (wa_minimum (demo_wait_args (Infinite False))) (?M 3)"
    using managers_quiescent by (simp_all add: demo_wait_args_def)
  moreover have "list_all (\<lambda>i. cm_pid (?M i) = wa_pid (demo_wait_args (Infinite False)) \<and> cm_quarantined (?M i) = 0 \<and>
      earlier (of_nat i) (deadline_at (of_nat 0) (wa_timeout (demo_wait_args (Infinite False))))) [1 ..< Suc 3]"
    by (simp add: list_all_iff demo_wait_args_def busy_manager_def idle_manager_def deadline_at_def)
  ultimately obtain j where "1 \<le> j" "j \<le> 3" "manager_quiescent 42 5 (?M j)"
    "waiter_main ascii_db demo_waiting (demo_wait_args (Infinite False)) = Some (Exit 0 (status_report (?M j)))"
    using waiter_end_to_end [of 3 "demo_wait_args (Infinite False)" ?M of_nat ascii_db False demo_env "\<lambda>_. empty_map"]
    unfolding demo_waiting_def by (auto simp: demo_wait_args_def)
  with managers_quiescent(2) show ?thesis by (cases "j < 3") auto
qed

lemma wait_sound_witness:
  "\<exists>st. wait_for_quiescence ascii_db demo_waiting (u ''/run/xsr.sock'') 42 (Infinite False) 5 = Some (Quiescent st) \<and>
     dict_get st (u ''quarantined_slot_sets'') = Some 0"
proof -
  have "goes_on ascii_db demo_waiting (u ''/run/xsr.sock'') 42 5 n" if "n < 3" for n
    using that router_check [of busy_manager 42 5] managers_quiescent(2)
    by (simp add: goes_on_def demo_waiting_def router_attempt) (simp add: busy_manager_def)
  then have "\<And>i. i < 2 \<Longrightarrow> earlier (wt_clock demo_waiting (1 + i)) (Infinite False) \<and>
      goes_on ascii_db demo_waiting (u ''/run/xsr.sock'') 42 5 (1 + i)" by simp
  from wait_loop_reaches [of 2 demo_waiting 1 "Infinite False" ascii_db "u ''/run/xsr.sock''" 42 5 None None, OF this]
  obtain le ls where "wait_for_quiescence ascii_db demo_waiting (u ''/run/xsr.sock'') 42 (Infinite False) 5 =
      wait_loop ascii_db demo_waiting (u ''/run/xsr.sock'') 42 5 (Infinite False) 3 le ls"
    by (auto simp: wait_for_quiescence_def deadline_at_def numeral_eq_Suc)
  also have "\<dots> = Some (Quiescent (status_fields idle_manager))"
    using router_attempt [of ascii_db _ "\<lambda>n. if n < 3 then busy_manager else idle_manager" False demo_env "\<lambda>_. empty_map" _ 3]
      router_check [of idle_manager 42 5] managers_quiescent(1)
    by (subst wait_loop.simps) (simp add: attempt_def demo_waiting_def, simp add: idle_manager_def)
  finally show ?thesis using wait_sound by blast
qed

lemma wait_ends_witness:
  "\<exists>r. wait_for_quiescence ascii_db demo_waiting (u ''/run/xsr.sock'') 42 NotANumber 5 = Some r"
proof (rule wait_ends)
  show "\<exists>m. ends_at (p_recv (wt_peer demo_waiting n) status_command) m" for n
    by (intro exI [of _ 1]) (simp add: ends_at_def demo_waiting_def router_waiting_def router_peer_def)
  show "(1 :: nat) \<le> 1" by simp
qed (simp add: deadline_at_def)

definition wait_line :: "ustr list" where
  "wait_line = map u [''--pid'', ''42'', ''--socket'', ''/run/xsr.sock'', ''--timeout=nan'', ''--m'', ''5'']"

lemma waiter_escapes_witness:
  "\<exists>e. waiter_program ascii_db demo_waiting wait_line = Some (Ran (Raised e)) \<and>
     (e = TimeoutErr ''XSR did not become quiescent'' \<or> (\<exists>m args. e = RuntimeErr m args))"
proof -
  have ns: "parse_args ascii_db waiter_parser wait_line = Inr [(u ''socket'', FileV (u ''/run/xsr.sock'')), (u ''pid'', IntV 42),
      (u ''timeout'', FloatV NotANumber), (u ''minimum_reaped'', IntV 5)]"
    by code_simp
  have "wait_for_quiescence ascii_db demo_waiting (u ''/run/xsr.sock'') 42 NotANumber 5 = Some (Expired (LastError None))"
    unfolding wait_for_quiescence_def by (subst wait_loop.simps) (simp add: deadline_at_def wait_detail_of_def)
  with ns have r: "waiter_program ascii_db demo_waiting wait_line = Some (Ran (Raised (TimeoutErr ''XSR did not become quiescent'')))"
    by (simp add: waiter_program_def waiter_args_of_def waiter_main_def wait_outcome_def)
  have "peer_retried (wt_peer demo_waiting n)" for n
    by (simp add: peer_retried_def demo_waiting_def router_waiting_def router_peer_def)
  from waiter_escapes [OF r this] r show ?thesis by auto
qed

end
