(* ===== verification/PolicyYaml.thy ===== *)
theory PolicyYaml
  imports PyValue
begin

section \<open>The policy reader\<close>

text \<open>
  \<open>parse_scalar\<close> and \<open>load_policy\<close> of benchmarks/policy/generate_keyword_header.py.

  The reader builds nested dictionaries and lists by mutating containers it reaches through a stack
  of open blocks; a container is at the same time a value inside its parent and an entry of the
  stack. The model keeps that sharing: containers live in a heap, a slot of a container is a value
  or the address of another container, and the stack holds addresses. \<open>deref\<close> reads the finished
  structure back as a value, with the number of containers as fuel; \<open>deref_total\<close> shows that this
  is enough, because a container only ever refers to younger ones.
\<close>

subsection \<open>Scalars\<close>

definition LIST_KEYS :: "ustr list" where
  "LIST_KEYS = map u [''backend_refs'', ''conditions'', ''decisions'', ''keywords'', ''listeners'',
     ''modelCards'', ''models'', ''modelRefs'', ''routes'']"

text \<open>
  \<open>re.split\<close> with the pattern "a comma followed by an even number of double quotes": the commas
  outside quotes.
\<close>

definition even_quotes :: "ustr \<Rightarrow> bool" where
  "even_quotes s \<longleftrightarrow> even (count_list s 34)"

fun split_items :: "ustr \<Rightarrow> ustr list" where
  "split_items [] = [[]]"
| "split_items (c # s) = (if c = 44 \<and> even_quotes s then [] # split_items s
     else (case split_items s of [] \<Rightarrow> [[c]] | w # ws \<Rightarrow> (c # w) # ws))"

lemma split_items_length: "w \<in> set (split_items s) \<Longrightarrow> length w \<le> length s"
proof (induction s arbitrary: w)
  case (Cons c s)
  show ?case
  proof (cases "c = 44 \<and> even_quotes s")
    case True
    with Cons.prems Cons.IH show ?thesis by (auto intro: le_SucI)
  next
    case False
    with Cons.prems Cons.IH show ?thesis
      by (cases "split_items s") (auto intro: le_SucI)
  qed
qed simp

definition int_literal :: "ustr \<Rightarrow> bool" where
  "int_literal s \<longleftrightarrow> (let t = (case s of c # r \<Rightarrow> if c = 45 then r else s | [] \<Rightarrow> []) in
     t \<noteq> [] \<and> list_all is_digit t)"

definition int_literal_value :: "ustr \<Rightarrow> int" where
  "int_literal_value s = (case s of c # r \<Rightarrow> if c = 45 then - digits_value r else digits_value s | [] \<Rightarrow> 0)"

definition is_quote :: "int \<Rightarrow> bool" where
  "is_quote c \<longleftrightarrow> c = 34 \<or> c = 39"

definition bracketed :: "ustr \<Rightarrow> bool" where
  "bracketed v \<longleftrightarrow> starts_with v (u ''['') \<and> ends_with v (u '']'')"

lemma bracketed_length: "bracketed v \<Longrightarrow> 0 < length v"
  by (auto simp: bracketed_def starts_with_def u_def)

function parse_scalar :: "ustr \<Rightarrow> pyval" where
  "parse_scalar value = (let v = py_strip value in
     if bracketed v then
       (let body = py_strip (drop 1 (drop_last 1 v)) in
        if body = [] then PList []
        else PList (map parse_scalar (filter (\<lambda>item. py_strip item \<noteq> []) (split_items body))))
     else if v = u ''true'' \<or> v = u ''false'' then PBool (v = u ''true'')
     else if int_literal v then PInt (int_literal_value v)
     else PStr (strip_by is_quote v))"
  by pat_completeness auto
termination
proof (relation "measure length", simp, clarsimp)
  fix v x :: ustr
  assume b: "bracketed (py_strip v)"
    and x: "x \<in> set (split_items (py_strip (drop (Suc 0) (drop_last (Suc 0) (py_strip v)))))"
  have "length x \<le> length (drop (Suc 0) (drop_last (Suc 0) (py_strip v)))"
    using split_items_length [OF x] length_py_strip le_trans by blast
  moreover have "length (py_strip v) \<le> length v" by (rule length_py_strip)
  ultimately show "length x < length v"
    using bracketed_length [OF b] by (simp del: length_greater_0_conv)
qed

declare parse_scalar.simps [simp del]

subsection \<open>Containers in a heap\<close>

datatype slot = Leaf pyval | At nat

datatype cell = CDict "(ustr \<times> slot) list" | CList "slot list"

record loader =
  heap :: "cell list"
  stack :: "(int \<times> nat) list"

definition loader_init :: loader where
  "loader_init = \<lparr>heap = [CDict []], stack = [(- 1, 0)]\<rparr>"

fun cell_slots :: "cell \<Rightarrow> slot list" where
  "cell_slots (CDict d) = map snd d"
| "cell_slots (CList l) = l"

definition new_cell :: "cell \<Rightarrow> loader \<Rightarrow> loader \<times> nat" where
  "new_cell c st = (st\<lparr>heap := heap st @ [c]\<rparr>, length (heap st))"

definition write_cell :: "nat \<Rightarrow> cell \<Rightarrow> loader \<Rightarrow> loader" where
  "write_cell a c st = st\<lparr>heap := (heap st)[a := c]\<rparr>"

definition push :: "int \<Rightarrow> nat \<Rightarrow> loader \<Rightarrow> loader" where
  "push i a st = st\<lparr>stack := (i, a) # stack st\<rparr>"

subsection \<open>One line\<close>

text \<open>The top of the stack comes first. \<open>stack[-1]\<close> on an empty stack would be an IndexError.\<close>

definition list_item :: "ustr \<Rightarrow> ustr \<Rightarrow> int \<Rightarrow> nat \<Rightarrow> cell \<Rightarrow> ustr \<Rightarrow> loader \<Rightarrow> loader res" where
  "list_item path raw indent a parent item_text st = (case parent of
     CDict _ \<Rightarrow> Inl (ValueError ''list item without list parent: {}:{!r}'' [path, raw])
   | CList xs \<Rightarrow>
       (case split_once 58 item_text of
          (_, None) \<Rightarrow> Inr (write_cell a (CList (xs @ [Leaf (parse_scalar item_text)])) st)
        | (key, Some value) \<Rightarrow>
            (case new_cell (CDict [(key, Leaf (parse_scalar value))]) st of (st1, b) \<Rightarrow>
               Inr (push indent b (write_cell a (CList (xs @ [At b])) st1)))))"

definition mapping_entry :: "ustr \<Rightarrow> ustr \<Rightarrow> int \<Rightarrow> nat \<Rightarrow> cell \<Rightarrow> ustr \<Rightarrow> ustr \<Rightarrow> loader \<Rightarrow> loader res" where
  "mapping_entry path raw indent a parent key value0 st = (case parent of
     CList _ \<Rightarrow> Inl (ValueError ''mapping value without mapping parent: {}:{!r}'' [path, raw])
   | CDict d \<Rightarrow>
       (let value = py_strip value0 in
        if value \<noteq> [] then Inr (write_cell a (CDict (dict_set key (Leaf (parse_scalar value)) d)) st)
        else (case new_cell (if key \<in> set LIST_KEYS then CList [] else CDict []) st of (st1, b) \<Rightarrow>
               Inr (push indent b (write_cell a (CDict (dict_set key (At b) d)) st1)))))"

definition content_of :: "ustr \<Rightarrow> ustr" where
  "content_of raw_line = py_rstrip (fst (split_once 35 raw_line))"

definition load_line :: "ustr \<Rightarrow> ustr \<Rightarrow> loader \<Rightarrow> loader res" where
  "load_line path raw_line st = (let line = content_of raw_line; stripped = py_strip line in
     if stripped = [] then Inr st
     else let indent = int (length line) - int (length (dropWhile (\<lambda>c. c = 32) line));
              st1 = st\<lparr>stack := dropWhile (\<lambda>e. indent \<le> fst e) (stack st)\<rparr>
       in case stack st1 of
            [] \<Rightarrow> Inl IndexErr
          | (_, a) # _ \<Rightarrow>
              (let parent = heap st1 ! a in
               if starts_with stripped (u ''- '')
               then list_item path raw_line indent a parent (drop 2 stripped) st1
               else case split_once 58 stripped of
                      (key, Some value) \<Rightarrow> mapping_entry path raw_line indent a parent key value st1
                    | (_, None) \<Rightarrow> Inl (ValueError ''cannot parse {}:{!r}'' [path, raw_line])))"

subsection \<open>Reading the structure back\<close>

fun deref :: "nat \<Rightarrow> cell list \<Rightarrow> slot \<Rightarrow> pyval option" where
  "deref n h (Leaf v) = Some v"
| "deref 0 h (At a) = None"
| "deref (Suc n) h (At a) = (if a < length h then (case h ! a of
       CList ss \<Rightarrow> map_option PList (those (map (deref n h) ss))
     | CDict kss \<Rightarrow> map_option (\<lambda>vs. PDict (zip (map fst kss) vs)) (those (map (deref n h) (map snd kss))))
     else None)"

text \<open>
  \<open>json_load\<close> stands for \<open>json.load\<close> on a file with the suffix \<open>.json\<close>; \<open>ext\<close> and \<open>text\<close> are
  the path's suffix and the file's text.
\<close>

definition load_policy :: "(ustr \<Rightarrow> pyval res) \<Rightarrow> ustr \<Rightarrow> ustr \<Rightarrow> ustr \<Rightarrow> pyval res" where
  "load_policy json_load path ext text = (if ext = u ''.json'' then json_load text
     else bind_res (fold_res (load_line path) (file_lines text) loader_init)
       (\<lambda>st. case deref (length (heap st)) (heap st) (At 0) of
               Some v \<Rightarrow> Inr v | None \<Rightarrow> Inl AssertionErr))"

subsection \<open>The heap and the stack stay well formed\<close>

definition heap_ok :: "cell list \<Rightarrow> bool" where
  "heap_ok h \<longleftrightarrow> (\<forall>a < length h. \<forall>b. At b \<in> set (cell_slots (h ! a)) \<longrightarrow> a < b \<and> b < length h)"

definition stack_ok :: "loader \<Rightarrow> bool" where
  "stack_ok st \<longleftrightarrow> (\<exists>upper. stack st = upper @ [(- 1, 0)] \<and> (\<forall>e \<in> set upper. 0 \<le> fst e)) \<and>
     sorted_wrt (>) (map fst (stack st)) \<and> (\<forall>e \<in> set (stack st). snd e < length (heap st))"

definition loader_ok :: "loader \<Rightarrow> bool" where
  "loader_ok st \<longleftrightarrow> heap_ok (heap st) \<and> stack_ok st \<and> (\<exists>d. heap st ! 0 = CDict d)"

lemma loader_ok_init: "loader_ok loader_init"
  by (auto simp: loader_ok_def loader_init_def heap_ok_def stack_ok_def nth_Cons split: nat.splits)

lemma stack_okI:
  "stack st = upper @ [(- 1, 0)] \<Longrightarrow> \<forall>e \<in> set upper. 0 \<le> fst e \<Longrightarrow> sorted_wrt (>) (map fst (stack st)) \<Longrightarrow>
   \<forall>e \<in> set (stack st). snd e < length (heap st) \<Longrightarrow> stack_ok st"
  unfolding stack_ok_def by blast

text \<open>Closing blocks: the entries that remain are those of a smaller indent, and one always does.\<close>

lemma stack_ok_pop:
  assumes "stack_ok st" and "0 \<le> i"
  shows "stack_ok (st\<lparr>stack := dropWhile (\<lambda>e. i \<le> fst e) (stack st)\<rparr>)"
    and "\<exists>e es. dropWhile (\<lambda>e. i \<le> fst e) (stack st) = e # es \<and> fst e < i"
proof -
  let ?pop = "dropWhile (\<lambda>e :: int \<times> nat. i \<le> fst e)"
  obtain upper where st: "stack st = upper @ [(- 1, 0)]" and pos: "\<forall>e \<in> set upper. 0 \<le> fst e"
    using assms(1) by (auto simp: stack_ok_def)
  have pop: "?pop (stack st) = ?pop upper @ [(- 1, 0)]"
  proof (cases "\<forall>e \<in> set upper. i \<le> fst e")
    case True
    then show ?thesis using assms(2) st by (simp add: dropWhile_append2)
  next
    case False
    then obtain e where "e \<in> set upper" "\<not> i \<le> fst e" by auto
    then show ?thesis unfolding st by (rule dropWhile_append1)
  qed
  moreover have "\<forall>e \<in> set (?pop upper). 0 \<le> fst e"
    using pos set_dropWhile_subset [of "\<lambda>e. i \<le> fst e" upper] by (simp add: subset_eq)
  moreover have "sorted_wrt (>) (map fst (?pop (stack st)))"
  proof -
    have "sorted_wrt (>) (map fst (takeWhile (\<lambda>e. i \<le> fst e) (stack st) @ ?pop (stack st)))"
      using assms(1) by (simp only: takeWhile_dropWhile_id stack_ok_def)
    then show ?thesis by (simp only: map_append sorted_wrt_append)
  qed
  moreover have "\<forall>e \<in> set (?pop (stack st)). snd e < length (heap st)"
    using assms(1) set_dropWhile_subset [of "\<lambda>e. i \<le> fst e" "stack st"]
    by (simp add: stack_ok_def subset_eq)
  moreover have "stack (st\<lparr>stack := ?pop (stack st)\<rparr>) = ?pop (stack st)"
    and "heap (st\<lparr>stack := ?pop (stack st)\<rparr>) = heap st"
    by simp_all
  ultimately show "stack_ok (st\<lparr>stack := ?pop (stack st)\<rparr>)"
    by (intro stack_okI [where upper = "?pop upper"]) (simp_all only:)
  have "?pop (stack st) \<noteq> []" unfolding pop by simp
  then obtain e es where ees: "?pop (stack st) = e # es"
    by (cases "?pop (stack st)") blast+
  then have "fst e < i" using dropWhile_Cons_False [OF ees] by simp
  with ees show "\<exists>e es. ?pop (stack st) = e # es \<and> fst e < i" by blast
qed

lemma heap_okI:
  "(\<And>a b. a < length h \<Longrightarrow> At b \<in> set (cell_slots (h ! a)) \<Longrightarrow> a < b \<and> b < length h) \<Longrightarrow> heap_ok h"
  unfolding heap_ok_def by blast

lemma heap_okD: "heap_ok h \<Longrightarrow> a < length h \<Longrightarrow> At b \<in> set (cell_slots (h ! a)) \<Longrightarrow> a < b \<and> b < length h"
  unfolding heap_ok_def by blast

lemma heap_ok_write:
  assumes h: "heap_ok h" and a: "a < length h"
    and c: "\<And>b. At b \<in> set (cell_slots c) \<Longrightarrow> a < b \<and> b < length h"
  shows "heap_ok (h[a := c])"
proof (rule heap_okI)
  fix a' b
  assume "a' < length (h[a := c])" and "At b \<in> set (cell_slots (h[a := c] ! a'))"
  then show "a' < b \<and> b < length (h[a := c])"
    using heap_okD [OF h, of a' b] c [of b] by (cases "a' = a") simp_all
qed

lemma heap_ok_alloc:
  assumes h: "heap_ok h" and new: "\<And>b. At b \<notin> set (cell_slots new)"
  shows "heap_ok (h @ [new])"
proof (rule heap_okI)
  fix a b
  assume "a < length (h @ [new])" and s: "At b \<in> set (cell_slots ((h @ [new]) ! a))"
  then consider "a < length h" | "a = length h" by (auto simp: less_Suc_eq)
  then show "a < b \<and> b < length (h @ [new])"
  proof cases
    case 1
    with s heap_okD [OF h 1, of b] show ?thesis by (simp add: nth_append)
  next
    case 2
    with s new show ?thesis by simp
  qed
qed

lemma slots_dict_set: "(k', At b) \<in> set (dict_set k s d) \<Longrightarrow> s = At b \<or> At b \<in> snd ` set d"
  by (induction d) (auto split: if_splits simp: rev_image_eqI)

text \<open>What both kinds of line do to the state: overwrite the parent, and maybe open a new block in it.\<close>

lemma loader_ok_write:
  assumes ok: "loader_ok st" and a: "a < length (heap st)"
    and c: "\<And>b. At b \<in> set (cell_slots c) \<Longrightarrow> At b \<in> set (cell_slots (heap st ! a))"
    and root: "a = 0 \<Longrightarrow> \<exists>d. c = CDict d"
  shows "loader_ok (write_cell a c st)"
proof -
  from ok have h: "heap_ok (heap st)" and s: "stack_ok st" and r: "\<exists>d. heap st ! 0 = CDict d"
    by (simp_all add: loader_ok_def)
  have "heap_ok ((heap st)[a := c])"
    using h a by (rule heap_ok_write) (rule heap_okD [OF h a c])
  moreover have "stack_ok (write_cell a c st)"
    using s by (simp add: stack_ok_def write_cell_def)
  moreover have "\<exists>d. (heap st)[a := c] ! 0 = CDict d"
    using r root a by (cases "a = 0") simp_all
  ultimately show ?thesis by (simp add: loader_ok_def write_cell_def)
qed

lemma stack_ok_push:
  assumes s: "stack_ok st" and top: "stack st = (j, a) # rest" "j < i" "0 \<le> i"
  shows "stack_ok (push i (length (heap st)) (st\<lparr>heap := (heap st @ [new])[a := c]\<rparr>))"
proof -
  from s obtain upper where ab: "stack st = upper @ [(- 1, 0)]" "\<forall>e \<in> set upper. 0 \<le> fst e"
    and sorted: "sorted_wrt (>) (map fst (stack st))"
    and range: "\<forall>e \<in> set (stack st). snd e < length (heap st)"
    by (auto simp: stack_ok_def)
  let ?st = "push i (length (heap st)) (st\<lparr>heap := (heap st @ [new])[a := c]\<rparr>)"
  have eq: "stack ?st = ((i, length (heap st)) # upper) @ [(- 1, 0)]"
    using ab by (simp add: push_def)
  have "\<forall>e \<in> set ((i, length (heap st)) # upper). 0 \<le> fst e"
    using ab top by simp
  moreover have "sorted_wrt (>) (map fst (stack ?st))"
    using sorted top by (auto simp: push_def)
  moreover have "\<forall>e \<in> set (stack ?st). snd e < length (heap ?st)"
    using range by (auto simp: push_def intro: less_SucI)
  ultimately show ?thesis
    using eq by (intro stack_okI)
qed

lemma loader_ok_open:
  assumes ok: "loader_ok st" and a: "a < length (heap st)"
    and top: "stack st = (j, a) # rest" "j < i" "0 \<le> i"
    and new: "\<And>b. At b \<notin> set (cell_slots new)"
    and c: "\<And>b. At b \<in> set (cell_slots c) \<Longrightarrow> At b \<in> set (cell_slots (heap st ! a)) \<or> b = length (heap st)"
    and root: "a = 0 \<Longrightarrow> \<exists>d. c = CDict d"
  shows "loader_ok (push i (length (heap st)) (write_cell a c (st\<lparr>heap := heap st @ [new]\<rparr>)))"
proof -
  from ok have h: "heap_ok (heap st)" and s: "stack_ok st" and r: "\<exists>d. heap st ! 0 = CDict d"
    by (simp_all add: loader_ok_def)
  have "heap_ok ((heap st @ [new])[a := c])"
  proof (rule heap_ok_write)
    show "heap_ok (heap st @ [new])" using h new by (rule heap_ok_alloc)
    show "a < length (heap st @ [new])" using a by simp
    fix b assume "At b \<in> set (cell_slots c)"
    then show "a < b \<and> b < length (heap st @ [new])"
      using c [of b] heap_okD [OF h a, of b] a by auto
  qed
  moreover have "\<exists>d. (heap st @ [new])[a := c] ! 0 = CDict d"
    using r root a by (cases "heap st"; cases a) simp_all
  moreover note stack_ok_push [OF s top, of new c]
  ultimately show ?thesis by (simp add: loader_ok_def push_def write_cell_def)
qed

text \<open>Every line that does not raise keeps the invariant, and a line raises a ValueError or nothing.\<close>

lemma list_item_ok:
  assumes ok: "loader_ok st" and top: "stack st = (j, a) # rest" "j < i" "0 \<le> i"
    and res: "list_item path raw i a (heap st ! a) txt st = Inr st'"
  shows "loader_ok st'"
proof -
  have a: "a < length (heap st)" using ok top by (simp add: loader_ok_def stack_ok_def)
  from res obtain xs where xs: "heap st ! a = CList xs"
    by (auto simp: list_item_def split: cell.splits)
  with ok have a0: "a \<noteq> 0" unfolding loader_ok_def by (metis cell.distinct(1))
  show ?thesis
  proof (cases "snd (split_once 58 txt)")
    case None
    with res xs have "st' = write_cell a (CList (xs @ [Leaf (parse_scalar txt)])) st"
      by (auto simp: list_item_def split: prod.splits)
    then show ?thesis using ok a a0 xs by (auto intro!: loader_ok_write)
  next
    case (Some v)
    let ?new = "CDict [(fst (split_once 58 txt), Leaf (parse_scalar v))]"
    from Some res xs have st': "st' = push i (length (heap st))
        (write_cell a (CList (xs @ [At (length (heap st))])) (st\<lparr>heap := heap st @ [?new]\<rparr>))"
      by (auto simp: list_item_def new_cell_def split: prod.splits)
    show ?thesis
      unfolding st' using ok a top by (rule loader_ok_open) (use a0 xs in auto)
  qed
qed

lemma mapping_entry_ok:
  assumes ok: "loader_ok st" and top: "stack st = (j, a) # rest" "j < i" "0 \<le> i"
    and res: "mapping_entry path raw i a (heap st ! a) key v st = Inr st'"
  shows "loader_ok st'"
proof -
  have a: "a < length (heap st)" using ok top by (simp add: loader_ok_def stack_ok_def)
  from res obtain d where d: "heap st ! a = CDict d"
    by (auto simp: mapping_entry_def split: cell.splits)
  show ?thesis
  proof (cases "py_strip v = []")
    case False
    with res d have st': "st' = write_cell a (CDict (dict_set key (Leaf (parse_scalar (py_strip v))) d)) st"
      by (simp add: mapping_entry_def)
    show ?thesis
      unfolding st' using ok a by (rule loader_ok_write) (use d in \<open>auto dest: slots_dict_set\<close>)
  next
    case True
    let ?new = "if key \<in> set LIST_KEYS then CList [] else CDict []"
    from True res d have st': "st' = push i (length (heap st))
        (write_cell a (CDict (dict_set key (At (length (heap st))) d)) (st\<lparr>heap := heap st @ [?new]\<rparr>))"
      by (simp add: mapping_entry_def new_cell_def)
    show ?thesis
      unfolding st' using ok a top by (rule loader_ok_open) (use d in \<open>auto dest: slots_dict_set\<close>)
  qed
qed

lemma indent_nonneg: "0 \<le> int (length l) - int (length (dropWhile P l))"
  using length_dropWhile_le [of P l] by simp

lemma load_line_ok:
  assumes ok: "loader_ok st" and res: "load_line path raw st = Inr st'"
  shows "loader_ok st'"
proof -
  define line where "line = content_of raw"
  define i where "i = int (length line) - int (length (dropWhile (\<lambda>c. c = 32) line))"
  define st1 where "st1 = st\<lparr>stack := dropWhile (\<lambda>e. i \<le> fst e) (stack st)\<rparr>"
  have i0: "0 \<le> i" unfolding i_def by (rule indent_nonneg)
  from ok have s: "stack_ok st" by (simp add: loader_ok_def)
  from stack_ok_pop(2) [OF s i0] obtain j a rest where top: "stack st1 = (j, a) # rest" "j < i"
    by (auto simp: st1_def)
  from stack_ok_pop(1) [OF s i0] ok have ok1: "loader_ok st1"
    by (simp add: loader_ok_def st1_def)
  have line: "load_line path raw st = (if py_strip line = [] then Inr st
      else if starts_with (py_strip line) (u ''- '')
      then list_item path raw i a (heap st1 ! a) (drop 2 (py_strip line)) st1
      else case split_once 58 (py_strip line) of
        (key, Some v) \<Rightarrow> mapping_entry path raw i a (heap st1 ! a) key v st1
      | (_, None) \<Rightarrow> Inl (ValueError ''cannot parse {}:{!r}'' [path, raw]))"
    unfolding load_line_def Let_def line_def [symmetric] i_def [symmetric] st1_def [symmetric]
    by (simp add: top)
  show ?thesis
    using res ok ok1 list_item_ok [OF ok1 top i0] mapping_entry_ok [OF ok1 top i0]
    unfolding line by (auto split: if_splits prod.splits option.splits)
qed

lemma load_line_error:
  assumes ok: "loader_ok st" and res: "load_line path raw st = Inl e"
  shows "\<exists>t. e = ValueError t [path, raw]"
proof -
  define line where "line = content_of raw"
  define i where "i = int (length line) - int (length (dropWhile (\<lambda>c. c = 32) line))"
  have i0: "0 \<le> i" unfolding i_def by (rule indent_nonneg)
  from ok have s: "stack_ok st" by (simp add: loader_ok_def)
  from stack_ok_pop(2) [OF s i0] obtain j a rest
    where top: "dropWhile (\<lambda>e. i \<le> fst e) (stack st) = (j, a) # rest" by auto
  from res top show ?thesis
    by (auto simp: load_line_def Let_def list_item_def mapping_entry_def new_cell_def
      simp flip: line_def i_def split: if_splits prod.splits option.splits cell.splits)
qed

lemma load_lines_ok: "loader_ok st \<Longrightarrow> fold_res (load_line path) ls st = Inr st' \<Longrightarrow> loader_ok st'"
  by (erule fold_res_invariant) (auto intro: load_line_ok)

lemma those_map_total: "(\<And>x. x \<in> set xs \<Longrightarrow> \<exists>y. f x = Some y) \<Longrightarrow> \<exists>ys. those (map f xs) = Some ys"
  by (induction xs) (auto, force)

lemma deref_total:
  assumes h: "heap_ok h"
  shows "(\<forall>a. s = At a \<longrightarrow> a < length h \<and> length h \<le> n + a) \<Longrightarrow> \<exists>v. deref n h s = Some v"
proof (induction n arbitrary: s)
  case 0
  then show ?case by (cases s) auto
next
  case (Suc n)
  show ?case
  proof (cases s)
    case (Leaf v)
    then show ?thesis by simp
  next
    case (At a)
    with Suc.prems have a: "a < length h" "length h \<le> Suc n + a" by auto
    have sub: "\<exists>v. deref n h t = Some v" if "t \<in> set (cell_slots (h ! a))" for t
    proof (rule Suc.IH, intro allI impI)
      fix b assume "t = At b"
      with that heap_okD [OF h a(1), of b] a show "b < length h \<and> length h \<le> n + b" by auto
    qed
    show ?thesis
    proof (cases "h ! a")
      case (CDict d)
      with sub those_map_total [of "map snd d" "deref n h"] At a show ?thesis by fastforce
    next
      case (CList l)
      with sub those_map_total [of l "deref n h"] At a show ?thesis by fastforce
    qed
  qed
qed

lemma heap_nonempty: "loader_ok st \<Longrightarrow> heap st \<noteq> []"
  by (auto simp: loader_ok_def stack_ok_def)

lemma read_back_total:
  assumes "loader_ok st" shows "\<exists>d. deref (length (heap st)) (heap st) (At 0) = Some (PDict d)"
proof -
  from assms obtain d where d: "heap st ! 0 = CDict d" by (auto simp: loader_ok_def)
  have "\<exists>v. deref (length (heap st)) (heap st) (At 0) = Some v"
    by (rule deref_total) (use assms heap_nonempty [OF assms] in \<open>auto simp: loader_ok_def\<close>)
  with d show ?thesis
    by (cases "length (heap st)") (auto split: if_splits)
qed

text \<open>C30. On a YAML policy the reader returns a mapping, or raises a ValueError that names the
  file and quotes the offending line with its line feed; the stack of open blocks is never empty where the code indexes it, and the value
  read back from the shared containers is always complete.\<close>

theorem load_policy_result:
  assumes "ext \<noteq> u ''.json''"
  shows "(\<exists>d. load_policy json_load path ext text = Inr (PDict d)) \<or>
    (\<exists>t raw. raw \<in> set (file_lines text) \<and> load_policy json_load path ext text = Inl (ValueError t [path, raw]))"
proof (cases "fold_res (load_line path) (file_lines text) loader_init")
  case (Inl e)
  then have "\<exists>t raw. raw \<in> set (file_lines text) \<and> e = ValueError t [path, raw]"
    by (rule fold_res_error [where P = loader_ok])
      (auto simp: loader_ok_init dest: load_line_ok load_line_error)
  with Inl assms show ?thesis by (auto simp: load_policy_def)
next
  case (Inr st)
  then have "loader_ok st" using load_lines_ok [OF loader_ok_init] by blast
  from read_back_total [OF this] Inr assms show ?thesis by (auto simp: load_policy_def)
qed


definition json_stub :: "ustr \<Rightarrow> pyval res" where
  "json_stub text = Inl (ValueError ''json'' [text])"

lemma load_policy_result_witness:
  "\<exists>d. load_policy json_stub (u ''p.yaml'') (u ''.yaml'') (u ''a: 1'') = Inr (PDict d)"
proof -
  have "load_policy json_stub (u ''p.yaml'') (u ''.yaml'') (u ''a: 1'') = Inr (PDict [(u ''a'', PInt 1)])" by code_simp
  then show ?thesis using load_policy_result [of "u ''.yaml''" json_stub "u ''p.yaml''" "u ''a: 1''"] by auto
qed

subsection \<open>Scalars and inline lists\<close>

lemma show_int_chars: "c \<in> set (show_int i) \<Longrightarrow> is_digit c \<or> c = 45"
  by (auto simp: show_int_def dest: show_nat_digits split: if_splits)

lemma show_int_nonempty [simp]: "show_int i \<noteq> []"
  by (simp add: show_int_def)

lemma show_int_no_space: "c \<in> set (show_int i) \<Longrightarrow> \<not> is_space c"
  by (auto simp: is_space_def is_digit_def dest!: show_int_chars)

lemma show_int_strip: "py_strip (show_int i) = show_int i"
  unfolding py_strip_def by (rule strip_by_id) (metis hd_in_set last_in_set show_int_no_space)

lemma int_literal_show_int: "int_literal (show_int i) \<and> int_literal_value (show_int i) = i"
proof (cases "i < 0")
  case True
  then show ?thesis
    by (auto simp: show_int_def int_literal_def int_literal_value_def digits_value_show_nat
      list_all_iff dest: show_nat_digits)
next
  case False
  then obtain c t where ct: "show_nat (nat i) = c # t" by (cases "show_nat (nat i)") auto
  then have d: "list_all is_digit (c # t)" by (metis list_all_iff show_nat_digits)
  then have "c \<noteq> 45" by (auto simp: is_digit_def)
  with False ct d show ?thesis
    using digits_value_show_nat [of "nat i"]
    by (simp add: show_int_def int_literal_def int_literal_value_def)
qed

lemma parse_scalar_int:
  assumes "py_strip s = show_int i"
  shows "parse_scalar s = PInt i"
proof -
  obtain c t where ct: "show_int i = c # t" by (cases "show_int i") auto
  then have "is_digit c \<or> c = 45" using show_int_chars [of c i] by simp
  then have "\<not> bracketed (show_int i)" "show_int i \<noteq> u ''true''" "show_int i \<noteq> u ''false''"
    using ct by (auto simp: bracketed_def starts_with_def u_def is_digit_def)
  with assms int_literal_show_int show ?thesis
    by (subst parse_scalar.simps) (simp add: Let_def)
qed

lemma even_quotes_none: "34 \<notin> set s \<Longrightarrow> even_quotes s"
  by (simp add: even_quotes_def count_list_0_iff)

lemma split_items_join:
  assumes "xs \<noteq> []" and "\<forall>x \<in> set xs. 44 \<notin> set x \<and> 34 \<notin> set x"
  shows "split_items (join (u '', '') xs) = hd xs # map ((#) 32) (tl xs)"
proof -
  have noq: "34 \<notin> set (join (u '', '') ys)" if "\<forall>x \<in> set ys. 34 \<notin> set x" for ys
    using that by (induction "u '', ''" ys rule: join.induct) (auto simp: u_def)
  have word: "split_items (w @ r) = (case split_items r of v # vs \<Rightarrow> (w @ v) # vs | [] \<Rightarrow> [])"
    if "44 \<notin> set w" for w r
    using that
  proof (induction w)
    case Nil
    have "split_items r \<noteq> []" by (cases r) (auto split: list.splits)
    then show ?case by (auto split: list.splits)
  next
    case (Cons c w)
    have "split_items r \<noteq> []" by (cases r) (auto split: list.splits)
    with Cons show ?case by (auto split: list.splits)
  qed
  show ?thesis using assms
  proof (induction xs rule: induct_list012)
    case (2 x)
    then show ?case using word [of x "[]"] by simp
  next
    case (3 x y zs)
    have sep: "split_items (44 # 32 # join (u '', '') (y # zs)) = [] # (32 # y) # map ((#) 32) zs"
      using 3 noq [of "y # zs"] word [of "[32]" "join (u '', '') (y # zs)"]
      by (simp add: even_quotes_none)
    show ?case using word [of x "44 # 32 # join (u '', '') (y # zs)"] 3 sep by (simp add: u_def)
  qed simp
qed

text \<open>Inline lists of integers are read back: the flow sequence that lists the integers separated
  by a comma and a blank parses to the list of exactly these integers, also when it is empty or an
  integer is negative.\<close>

theorem parse_scalar_int_list:
  "parse_scalar (u ''['' @ join (u '', '') (map show_int xs) @ u '']'') = PList (map PInt xs)"
proof -
  let ?b = "join (u '', '') (map show_int xs)"
  let ?s = "u ''['' @ ?b @ u '']''"
  have strip: "py_strip ?s = ?s"
    unfolding py_strip_def by (rule strip_by_id) (simp add: u_def is_space_def)
  have br: "bracketed ?s" by (simp add: bracketed_def starts_with_def ends_with_def u_def suffix_def)
  have body: "drop 1 (drop_last 1 ?s) = ?b" by (simp add: drop_last_def u_def)
  show ?thesis
  proof (cases xs)
    case Nil
    with strip br body show ?thesis
      by (subst parse_scalar.simps) (simp add: Let_def py_strip_def strip_by_def)
  next
    case (Cons y ys)
    have chars: "\<forall>x \<in> set (map show_int xs). 44 \<notin> set x \<and> 34 \<notin> set x"
      by (auto simp: is_digit_def dest!: show_int_chars)
    have b: "?b \<noteq> []" "hd ?b = hd (show_int y)" "last ?b = last (show_int (last xs))"
      using Cons by (induction ys arbitrary: y xs) auto
    have bstrip: "py_strip ?b = ?b"
      unfolding py_strip_def using b show_int_no_space [of "hd (show_int y)" y]
        show_int_no_space [of "last (show_int (last xs))" "last xs"]
      by (intro strip_by_id) simp
    have items: "split_items ?b = show_int y # map (\<lambda>i. 32 # show_int i) ys"
      using split_items_join [OF _ chars] Cons by (simp add: comp_def)
    have sp: "py_strip (32 # show_int i) = show_int i" for i
      using show_int_strip [of i] by (simp add: py_strip_def strip_by_def is_space_def)
    have "map parse_scalar (filter (\<lambda>item. py_strip item \<noteq> []) (split_items ?b)) = map PInt xs"
      unfolding items using Cons by (simp add: sp show_int_strip parse_scalar_int)
    with strip br body bstrip b(1) show ?thesis
      by (subst parse_scalar.simps) (simp add: Let_def)
  qed
qed

subsection \<open>Block lists\<close>

text \<open>The line of a block list entry, indented by two blanks.\<close>

definition item_line :: "ustr \<Rightarrow> ustr" where
  "item_line x = u ''  - '' @ x"

definition plain_item :: "ustr \<Rightarrow> bool" where
  "plain_item x \<longleftrightarrow> x \<noteq> [] \<and> 35 \<notin> set x \<and> 58 \<notin> set x \<and> \<not> is_space (last x)"

lemma split_once_absent: "c \<notin> set s \<Longrightarrow> split_once c s = (s, None)"
  by (simp add: split_once_None)

lemma load_item_line:
  assumes "plain_item x"
  shows "load_line path (item_line x) \<lparr>heap = [d, CList xs], stack = [(0, 1), (- 1, 0)]\<rparr> =
    Inr \<lparr>heap = [d, CList (xs @ [Leaf (parse_scalar x)])], stack = [(0, 1), (- 1, 0)]\<rparr>"
proof -
  have line: "item_line x = 32 # 32 # 45 # 32 # x" by (simp add: item_line_def u_def)
  from assms have x: "x \<noteq> []" "35 \<notin> set x" "58 \<notin> set x" "\<not> is_space (last x)"
    by (simp_all add: plain_item_def)
  then have content: "content_of (item_line x) = 32 # 32 # 45 # 32 # x"
    unfolding content_of_def line by (simp add: split_once_absent py_rstrip_def rstrip_by_id)
  have "rstrip_by is_space (45 # 32 # x) = 45 # 32 # x"
    using x by (intro rstrip_by_id) simp
  then have strip: "py_strip (32 # 32 # 45 # 32 # x) = 45 # 32 # x"
    by (simp add: py_strip_def strip_by_def is_space_def)
  show ?thesis
    using x by (simp add: load_line_def content strip starts_with_def u_def list_item_def
      split_once_absent write_cell_def)
qed

lemma load_item_lines:
  "list_all plain_item xs \<Longrightarrow>
   fold_res (load_line path) (map item_line xs) \<lparr>heap = [d, CList ys], stack = [(0, 1), (- 1, 0)]\<rparr> =
     Inr \<lparr>heap = [d, CList (ys @ map (\<lambda>x. Leaf (parse_scalar x)) xs)], stack = [(0, 1), (- 1, 0)]\<rparr>"
  by (induction xs arbitrary: ys) (simp_all add: load_item_line del: One_nat_def)

lemma deref_leaves: "those (map (deref n h) (map (\<lambda>x. Leaf (f x)) xs)) = Some (map f xs)"
  by (induction xs) (cases n; simp)+

text \<open>A block list under a list key is read entry by entry: the value of the key is the list of
  the parsed entries, in the order of the lines.\<close>

theorem block_list_loads:
  assumes "key \<in> set LIST_KEYS" and "list_all plain_item xs"
  shows "bind_res (fold_res (load_line path) ((key @ u '':'') # map item_line xs) loader_init)
      (\<lambda>st. Inr (deref (length (heap st)) (heap st) (At 0))) =
    Inr (Some (PDict [(key, PList (map parse_scalar xs))]))"
proof -
  have "list_all (\<lambda>k. load_line path (k @ u '':'') loader_init =
      Inr \<lparr>heap = [CDict [(k, At 1)], CList []], stack = [(0, 1), (- 1, 0)]\<rparr>) LIST_KEYS"
    by code_simp
  with assms(1) have "load_line path (key @ u '':'') loader_init =
      Inr \<lparr>heap = [CDict [(key, At 1)], CList []], stack = [(0, 1), (- 1, 0)]\<rparr>"
    by (simp only: list_all_iff)
  then show ?thesis
    using load_item_lines [OF assms(2), of path "CDict [(key, At 1)]" "[]"]
    by (simp add: deref_leaves del: map_map)
qed

lemma block_list_loads_witness:
  "fold_res (load_line (u ''p.yaml'')) (map u [''keywords:'', ''  - sum'', ''  - 3'']) loader_init =
     Inr \<lparr>heap = [CDict [(u ''keywords'', At 1)], CList [Leaf (PStr (u ''sum'')), Leaf (PInt 3)]],
       stack = [(0, 1), (- 1, 0)]\<rparr> \<and>
   deref 2 [CDict [(u ''keywords'', At 1)], CList [Leaf (PStr (u ''sum'')), Leaf (PInt 3)]] (At 0) =
     Some (PDict [(u ''keywords'', PList [PStr (u ''sum''), PInt 3])])"
proof -
  have run: "fold_res (load_line (u ''p.yaml'')) (map u [''keywords:'', ''  - sum'', ''  - 3'']) loader_init =
     Inr \<lparr>heap = [CDict [(u ''keywords'', At 1)], CList [Leaf (PStr (u ''sum'')), Leaf (PInt 3)]],
       stack = [(0, 1), (- 1, 0)]\<rparr>" by code_simp
  have sc: "map parse_scalar (map u [''sum'', ''3'']) = [PStr (u ''sum''), PInt 3]" by code_simp
  have lines: "(u ''keywords'' @ u '':'') # map item_line (map u [''sum'', ''3'']) =
     map u [''keywords:'', ''  - sum'', ''  - 3'']"
    by (simp add: item_line_def u_def)
  have pre: "u ''keywords'' \<in> set LIST_KEYS" "list_all plain_item (map u [''sum'', ''3''])"
    by code_simp+
  from block_list_loads [OF pre, of "u ''p.yaml''"] run show ?thesis
    unfolding lines sc by (simp add: numeral_2_eq_2)
qed

end
