(* ===== verification/KeywordPolicy.thy ===== *)
theory KeywordPolicy
  imports PolicyYaml "HOL-Library.Multiset"
begin

section \<open>Keyword policies\<close>

text \<open>
  The rest of benchmarks/policy/generate_keyword_header.py: which signals a policy declares
  (\<open>keyword_signals\<close>), which route and priority the decisions give them
  (\<open>decision_keyword_routes\<close>, \<open>signal_route_name\<close>), the validation of the policy
  (\<open>validate_policy\<close>) and the C header generated from it (\<open>emit_header\<close>).

  Definitions take the Unicode database \<open>U\<close> where the code calls \<open>str.upper\<close>, \<open>str.lower\<close> or \<open>repr\<close>.
\<close>

subsection \<open>Signals and decisions\<close>

definition ROUTES :: "(ustr \<times> ustr) list" where
  "ROUTES = [(u ''coding'', u ''XDP_KEYWORD_ROUTE_CODING''), (u ''math'', u ''XDP_KEYWORD_ROUTE_MATH''),
     (u ''qa'', u ''XDP_KEYWORD_ROUTE_QA''), (u ''writing'', u ''XDP_KEYWORD_ROUTE_WRITING''),
     (u ''others'', u ''XDP_KEYWORD_ROUTE_GENERAL'')]"

definition keyword_routes :: "ustr list" where
  "keyword_routes = map u [''coding'', ''math'', ''qa'', ''writing'']"

definition signals_of_routing :: "(ustr \<times> pyval) list \<Rightarrow> pyval list option" where
  "signals_of_routing p = (case dget p ''routing'' of
     PDict r \<Rightarrow> (case dget r ''signals'' of
       PDict s \<Rightarrow> (case dget s ''keywords'' of PList ks \<Rightarrow> Some ks | _ \<Rightarrow> None)
     | _ \<Rightarrow> None)
   | _ \<Rightarrow> None)"

definition keyword_signals :: "pyval \<Rightarrow> pyval list res" where
  "keyword_signals policy = (case policy of
     PDict p \<Rightarrow> (case signals_of_routing p of
       Some ks \<Rightarrow> Inr ks
     | None \<Rightarrow> (case dget p ''routes'' of
         PList rs \<Rightarrow> Inr rs
       | _ \<Rightarrow> Inl (ValueError ''policy must define routing.signals.keywords'' [])))
   | _ \<Rightarrow> Inl (AttributeErr ''get''))"

type_synonym decisions = "(ustr, ustr) dict \<times> (ustr, int) dict"

definition decision_condition :: "unidb \<Rightarrow> ustr \<Rightarrow> int \<Rightarrow> pyval \<Rightarrow> decisions \<Rightarrow> decisions" where
  "decision_condition U decision_name priority condition acc = (case condition of
     PDict c \<Rightarrow>
       (if py_str U (dget_or c ''type'' (PStr [])) \<noteq> u ''keyword'' then acc
        else let signal_name = py_str U (dget_or c ''name'' (PStr [])) in
          if signal_name \<noteq> []
          then (dict_set signal_name decision_name (fst acc), dict_set signal_name priority (snd acc))
          else acc)
   | _ \<Rightarrow> acc)"

definition decision_step :: "unidb \<Rightarrow> pyval \<Rightarrow> decisions \<Rightarrow> decisions res" where
  "decision_step U decision acc = (case decision of
     PDict d \<Rightarrow>
       (let decision_name = py_str U (dget_or d ''name'' (PStr [])) in
        if decision_name \<notin> set keyword_routes then Inr acc
        else bind_res (py_int U (dget_or d ''priority'' (PInt 0))) (\<lambda>priority.
          case dget d ''rules'' of
            PDict r \<Rightarrow> (case dget r ''conditions'' of
              PList conditions \<Rightarrow> Inr (fold (decision_condition U decision_name priority) conditions acc)
            | _ \<Rightarrow> Inr acc)
          | _ \<Rightarrow> Inr acc))
   | _ \<Rightarrow> Inr acc)"

definition decision_keyword_routes :: "unidb \<Rightarrow> pyval \<Rightarrow> decisions res" where
  "decision_keyword_routes U policy = (case policy of
     PDict p \<Rightarrow> (case dget p ''routing'' of
       PDict r \<Rightarrow> (case dget r ''decisions'' of
         PList decisions \<Rightarrow> fold_res (decision_step U) decisions ([], [])
       | _ \<Rightarrow> Inr ([], []))
     | _ \<Rightarrow> Inr ([], []))
   | _ \<Rightarrow> Inl (AttributeErr ''get''))"

definition signal_route_name :: "unidb \<Rightarrow> (ustr \<times> pyval) list \<Rightarrow> (ustr, ustr) dict \<Rightarrow> ustr res" where
  "signal_route_name U signal decision_routes =
     (let route = dget signal ''route'' in
      if py_truthy route then Inr (py_str U route)
      else let name = py_str U (dget_or signal ''name'' (PStr [])) in
        case dict_get decision_routes name of
          Some r \<Rightarrow> Inr r
        | None \<Rightarrow>
            if starts_with name (u ''code_'') \<or> starts_with name (u ''coding_'') then Inr (u ''coding'')
            else if starts_with name (u ''math_'') then Inr (u ''math'')
            else if starts_with name (u ''qa_'') then Inr (u ''qa'')
            else if starts_with name (u ''writing_'') then Inr (u ''writing'')
            else Inl (ValueError ''keyword signal {!r} must define route: coding|math|qa|writing'' [name]))"

subsection \<open>Validation\<close>

record kroute =
  kr_name :: ustr
  kr_priority :: int
  kr_keywords :: "ustr list"
  kr_operator :: ustr
  kr_method :: ustr
  kr_ngram_arity :: int
  kr_ngram_threshold :: pyval
  kr_bm25_threshold :: pyval

definition operators :: "ustr list" where
  "operators = map u [''OR'', ''AND'', ''NOR'']"

definition methods :: "ustr list" where
  "methods = map u [''literal'', ''exact'', ''regex'', ''bm25'', ''ngram'']"

text \<open>
  The pattern of the regex-syntax check, as written: a character class that ends at the first
  unescaped bracket, two backslashes, then an alternative that is an empty group and a closing
  bracket. A search succeeds iff the text has a closing bracket, or a class character followed by
  two backslashes.
\<close>

definition regex_class :: "ustr" where
  "regex_class = u ''.^$*+?{}['' @ [92]"

fun regex_syntax_search :: "ustr \<Rightarrow> bool" where
  "regex_syntax_search (a # b # c # s) =
     (a = 93 \<or> a \<in> set regex_class \<and> b = 92 \<and> c = 92 \<or> regex_syntax_search (b # c # s))"
| "regex_syntax_search s = (93 \<in> set s)"

definition printable :: "ustr \<Rightarrow> bool" where
  "printable s \<longleftrightarrow> list_all (\<lambda>c. 32 \<le> c \<and> c \<le> 126) s"

text \<open>One keyword: the state is the cleaned keywords of this signal and the keywords seen so far.\<close>

definition clean_keyword ::
  "unidb \<Rightarrow> ustr \<Rightarrow> ustr \<Rightarrow> bool \<Rightarrow> pyval \<Rightarrow> ustr list \<times> ustr list \<Rightarrow> (ustr list \<times> ustr list) res" where
  "clean_keyword U signal_name method case_sensitive keyword acc =
     (let v = py_str U keyword in
      bind_res (ensure (v \<noteq> []) (ValueError ''{}: has an empty keyword'' [signal_name])) (\<lambda>_.
      bind_res (ensure (is_ascii v) (ValueError ''{}: keyword {!r} must be ASCII'' [signal_name, v])) (\<lambda>_.
      bind_res (ensure (printable v) (ValueError ''{}: keyword {!r} must be printable ASCII'' [signal_name, v])) (\<lambda>_.
      bind_res (ensure (\<not> (method = u ''regex'' \<and> regex_syntax_search v))
        (ValueError ''{}: regex keyword {!r} uses regex syntax'' [signal_name, v])) (\<lambda>_.
      let normalized = (if case_sensitive then v else u_lower U v) in
      bind_res (ensure (normalized \<notin> set (snd acc)) (ValueError ''duplicate keyword {!r}'' [v])) (\<lambda>_.
      Inr (fst acc @ [normalized], snd acc @ [normalized])))))))"

record vstate =
  vs_routes :: "kroute list"
  vs_seen :: "ustr list"
  vs_case :: "bool option"

definition validate_signal :: "unidb \<Rightarrow> decisions \<Rightarrow> pyval \<Rightarrow> vstate \<Rightarrow> vstate res" where
  "validate_signal U dec route st = (case route of
     PDict r \<Rightarrow>
       bind_res (signal_route_name U r (fst dec)) (\<lambda>name.
       bind_res (ensure (name \<in> set keyword_routes)
         (ValueError ''unsupported route {!r}; use coding, math, qa, or writing'' [name])) (\<lambda>_.
       let signal_name = py_str U (dget_or r ''name'' (PStr name));
           operator = u_upper U (py_str U (dget_or r ''operator'' (PStr (u ''OR'')))) in
       bind_res (ensure (operator \<in> set operators)
         (ValueError ''{}: operator must be OR, AND, or NOR'' [signal_name])) (\<lambda>_.
       let method = u_lower U (py_str U (dget_or r ''method'' (PStr (u ''regex'')))) in
       bind_res (ensure (method \<in> set methods)
         (ValueError ''{}: unsupported method {!r}'' [signal_name, method])) (\<lambda>_.
       let case_sensitive = py_truthy (dget_or r ''case_sensitive'' (PBool False)) in
       bind_res (ensure (vs_case st = None \<or> vs_case st = Some case_sensitive)
         (ValueError ''XDP requires the same case_sensitive value for every keyword signal'' [])) (\<lambda>_.
       (case dget r ''keywords'' of
          PList (k # ks) \<Rightarrow>
            bind_res (fold_res (clean_keyword U signal_name method case_sensitive) (k # ks) ([], vs_seen st)) (\<lambda>acc.
            bind_res (py_int U (dget_or r ''priority'' (PInt 0))) (\<lambda>own_priority.
            bind_res (py_int U (dget_or r ''ngram_arity'' (PInt 3))) (\<lambda>arity.
            Inr \<lparr>vs_routes = vs_routes st @
                   [\<lparr>kr_name = name, kr_priority = get_default (snd dec) signal_name own_priority,
                     kr_keywords = fst acc, kr_operator = operator, kr_method = method,
                     kr_ngram_arity = arity,
                     kr_ngram_threshold = dget_or r ''ngram_threshold'' (PFloat (u ''0.4'')),
                     kr_bm25_threshold = dget_or r ''bm25_threshold'' (PFloat (u ''0.1''))\<rparr>],
                 vs_seen = snd acc, vs_case = Some case_sensitive\<rparr>)))
        | _ \<Rightarrow> Inl (ValueError ''{}: must define keywords'' [signal_name])))))))
   | _ \<Rightarrow> Inl (ValueError ''each keyword signal must be an object'' []))"

definition validate_policy :: "unidb \<Rightarrow> pyval \<Rightarrow> (bool \<times> kroute list) res" where
  "validate_policy U policy =
     bind_res (keyword_signals policy) (\<lambda>raw_routes.
     bind_res (ensure (raw_routes \<noteq> []) (ValueError ''policy must define keyword signals'' [])) (\<lambda>_.
     bind_res (decision_keyword_routes U policy) (\<lambda>dec.
     bind_res (fold_res (validate_signal U dec) raw_routes
         \<lparr>vs_routes = [], vs_seen = [], vs_case = None\<rparr>) (\<lambda>st.
     Inr (vs_case st = Some True, sort_key (\<lambda>r. - kr_priority r) (vs_routes st))))))"

subsection \<open>The generated header\<close>

fun sub_underscore :: "bool \<Rightarrow> ustr \<Rightarrow> ustr" where
  "sub_underscore inside [] = []"
| "sub_underscore inside (c # s) = (if is_ascii_alnum c then c # sub_underscore False s
     else if inside then sub_underscore True s else 95 # sub_underscore True s)"

definition macro_name :: "ustr \<Rightarrow> ustr" where
  "macro_name keyword =
     (let name = ascii_upper (strip_by (\<lambda>c. c = 95) (sub_underscore False keyword));
          name' = (if name = [] \<or> is_digit (hd name) then u ''KEYWORD_'' @ name else name)
      in u ''XDP_KEYWORD_'' @ name')"

definition c_char :: "int \<Rightarrow> ustr" where
  "c_char char = (if char = 39 then [39, 92, 39, 39]
     else if char = 92 then [39, 92, 92, 39] else [39, char, 39])"

definition named_keywords :: "kroute list \<Rightarrow> (ustr \<times> ustr \<times> ustr) list" where
  "named_keywords routes =
     concat (map (\<lambda>r. map (\<lambda>k. (macro_name k, k, kr_name r)) (kr_keywords r)) routes)"

fun keyword_layout :: "ustr list \<Rightarrow> nat list \<times> ustr \<Rightarrow> nat list \<times> ustr" where
  "keyword_layout [] acc = acc"
| "keyword_layout (k # ks) (offsets, chars) = keyword_layout ks (offsets @ [length chars], chars @ k)"

definition pad32 :: "int list \<Rightarrow> int list" where
  "pad32 xs = xs @ replicate (32 - length xs) 0"

definition c_array :: "int list \<Rightarrow> ustr \<Rightarrow> ustr" where
  "c_array xs ctype = u ''static const '' @ ctype @ u ''[] = {'' @ join (u '', '') (map show_int xs) @ u ''};''"

fun enum_lines :: "nat \<Rightarrow> (ustr \<times> ustr \<times> ustr) list \<Rightarrow> ustr list" where
  "enum_lines i [] = []"
| "enum_lines i ((name, rest) # ks) = (u ''  '' @ name @ u '' = '' @ show_nat i @ u '','') # enum_lines (Suc i) ks"

definition accessor_lines :: "ustr list" where
  \<open>accessor_lines = [
     [],
     u ''static __always_inline __u8 xdp_keyword_len(__u32 id) {'',
     u ''  if (id >= MAX_KEYWORDS)'',
     u ''    return 0;'',
     u ''  return xdp_keyword_lens[id];'',
     u ''}'',
     [],
     u ''static __always_inline __u8 xdp_keyword_route_for_id(__u32 id) {'',
     u ''  if (id >= MAX_KEYWORDS || id >= XDP_KEYWORD_COUNT)'',
     u ''    return XDP_KEYWORD_ROUTE_GENERAL;'',
     u ''  return xdp_keyword_is_math[id] ? XDP_KEYWORD_ROUTE_MATH : XDP_KEYWORD_ROUTE_CODING;'',
     u ''}'',
     [],
     u ''static __always_inline unsigned char xdp_keyword_char(__u32 id, __u8 pos) {'',
     u ''  if (id >= MAX_KEYWORDS || pos >= xdp_keyword_lens[id])'',
     u ''    return 0;'',
     u ''  if (pos >= XDP_KEYWORD_MAX_LEN)'',
     u ''    return 0;'',
     u ''  __u16 offset = xdp_keyword_offsets[id];'',
     u ''  if (offset >= XDP_KEYWORD_CHARS_LEN || offset + pos >= XDP_KEYWORD_CHARS_LEN)'',
     u ''    return 0;'',
     u ''  return xdp_keyword_chars[offset + pos];'',
     u ''}'',
     [],
     u ''struct xdp_keyword_score_ctx {'',
     u ''  struct xdp_keyword_state *state;'',
     u ''  unsigned char c;'',
     u ''  __u32 count;'',
     u ''};'',
     [],
     u ''static long xdp_keyword_score_callback(__u32 id, void *data) {'',
     u ''  struct xdp_keyword_score_ctx *ctx = data;'',
     u ''  struct xdp_keyword_state *state = ctx->state;'',
     u ''  unsigned char c = ctx->c;'',
     u ''  __u32 idx = id & (MAX_KEYWORDS - 1);'',
     [],
     u ''  if (idx >= ctx->count)'',
     u ''    return 1;'',
     [],
     u ''  __u8 len = xdp_keyword_lens[idx];'',
     u ''  if (len == 0 || len > XDP_KEYWORD_MAX_LEN)'',
     u ''    return 0;'',
     u ''  __u8 pos = state->pos[idx];'',
     [],
     u ''  if (pos < len && c == xdp_keyword_char(idx, pos)) {'',
     u ''    pos++;'',
     u ''    if (pos == len) {'',
     u ''      if (xdp_keyword_is_math[idx])'',
     u ''        state->matched_math = 1;'',
     u ''      else'',
     u ''        state->matched_coding = 1;'',
     u ''      pos = 0;'',
     u ''    }'',
     u ''  } else {'',
     u ''    pos = (c == xdp_keyword_char(idx, 0)) ? 1 : 0;'',
     u ''  }'',
     [],
     u ''  state->pos[idx] = pos;'',
     u ''  return 0;'',
     u ''}'',
     [],
     u ''static __always_inline void xdp_keyword_score_generated(struct xdp_keyword_state *state, unsigned char c) {'',
     u ''  __u32 count = xdp_keyword_runtime_count;'',
     u ''  if (count > XDP_KEYWORD_COUNT)'',
     u ''    count = XDP_KEYWORD_COUNT;'',
     u ''  struct xdp_keyword_score_ctx ctx = {'',
     u ''    .state = state,'',
     u ''    .c = c,'',
     u ''    .count = count,'',
     u ''  };'',
     u ''  bpf_loop(MAX_KEYWORDS, xdp_keyword_score_callback, &ctx, 0);'',
     u ''}'',
     []]\<close>

definition route_lines :: "kroute list \<Rightarrow> ustr list res" where
  "route_lines routes = bind_res (map_res (\<lambda>name. bind_res (dict_index ROUTES name) (\<lambda>code. Inr
     [u ''  if ((state)->matched_'' @ name @ u '') '' @ [92],
      u ''    return '' @ code @ u ''; '' @ [92]]))
     (rev (remdups (rev (map kr_name routes))))) (\<lambda>ls. Inr (concat ls))"

definition emit_header :: "ustr \<Rightarrow> bool \<Rightarrow> kroute list \<Rightarrow> ustr res" where
  \<open>emit_header path case_sensitive routes =
     (let keywords = named_keywords routes;
          texts = map (fst \<circ> snd) keywords;
          (offsets, chars) = keyword_layout texts ([], []);
          max_len = foldr max (map length texts) 0
      in if keywords = [] then Inl (ValueError ''max() iterable argument is empty'' [])
      else bind_res (route_lines routes) (\<lambda>returns. Inr (join [10] ([
     u ''/* Generated by benchmarks/policy/generate_keyword_header.py. Do not edit by hand. */'',
     u ''/* Source: '' @ path @ u '' */'',
     u ''#ifndef XDP_KEYWORD_POLICY_GENERATED_H'',
     u ''#define XDP_KEYWORD_POLICY_GENERATED_H'',
     [],
     u ''#define XDP_KEYWORD_POLICY_CASE_SENSITIVE '' @ (if case_sensitive then u ''1'' else u ''0''),
     u ''#define XDP_KEYWORD_COUNT '' @ show_nat (length keywords),
     u ''#define XDP_KEYWORD_MAX_LEN '' @ show_nat max_len,
     u ''#define XDP_KEYWORD_CHARS_LEN '' @ show_nat (length chars),
     [],
     u ''enum xdp_keyword_id {'']
     @ enum_lines 0 keywords @ [u ''};'', []]
     @ [c_array (pad32 (map int offsets)) (u ''__u16 xdp_keyword_offsets''),
        c_array (pad32 (map (int \<circ> length) texts)) (u ''__u8 xdp_keyword_lens''),
        c_array (pad32 (map (\<lambda>k. if snd (snd k) = u ''coding'' then 0 else 1) keywords)) (u ''__u8 xdp_keyword_is_math''),
        c_array chars (u ''unsigned char xdp_keyword_chars''),
        u ''static volatile const __u32 xdp_keyword_runtime_count = '' @ show_nat (length keywords) @ u '';'']
     @ accessor_lines
     @ [u ''#define XDP_KEYWORD_CLEAR_ALL(state) '' @ [92], u ''  do { '' @ [92]]
     @ map (\<lambda>i. u ''    (state)->pos['' @ show_nat i @ u ''] = 0; '' @ [92]) [0 ..< length keywords]
     @ [u ''  } while (0)'', [],
        u ''#define XDP_KEYWORD_SCORE_ALL(state, c) '' @ [92], u ''  do { '' @ [92],
        u ''    xdp_keyword_score_generated((state), (c)); '' @ [92],
        u ''  } while (0)'', [],
        u ''#define XDP_KEYWORD_ROUTE_FOR_MATCHES(state) '' @ [92]]
     @ returns
     @ [u ''  return XDP_KEYWORD_ROUTE_GENERAL'', [], u ''#endif'', []]))))\<close>


subsection \<open>What validation guarantees\<close>

lemma keyword_routes_mem: "n \<in> set keyword_routes \<longleftrightarrow> n = u ''coding'' \<or> n = u ''math'' \<or> n = u ''qa'' \<or> n = u ''writing''"
  by (auto simp: keyword_routes_def)

lemma is_ascii_printable: "printable s \<Longrightarrow> is_ascii s"
  by (auto simp: printable_def is_ascii_def list_all_iff)

lemma printable_ascii_lower: "printable s \<Longrightarrow> printable (ascii_lower s)"
  by (auto simp: printable_def ascii_lower_def list_all_iff char_defs)

definition good_keyword :: "ustr \<Rightarrow> bool" where
  "good_keyword k \<longleftrightarrow> k \<noteq> [] \<and> printable k"

text \<open>The keywords of one signal: what is added is new, and stays good under the normalization.\<close>

definition keywords_ok :: "ustr list \<Rightarrow> ustr list \<times> ustr list \<Rightarrow> bool" where
  "keywords_ok before acc \<longleftrightarrow> snd acc = before @ fst acc \<and> distinct (snd acc) \<and> list_all good_keyword (fst acc)"

lemma clean_keyword_ok:
  assumes uc: "unicode_case (u_lower U) (u_upper U)"
    and inv: "keywords_ok before acc" and res: "clean_keyword U n m cs k acc = Inr acc'"
  shows "keywords_ok before acc' \<and> fst acc' \<noteq> []"
proof -
  from res have "py_str U k \<noteq> []" and a: "is_ascii (py_str U k)" and p: "printable (py_str U k)"
    and new: "(if cs then py_str U k else u_lower U (py_str U k)) \<notin> set (snd acc)"
    and acc': "acc' = (fst acc @ [if cs then py_str U k else u_lower U (py_str U k)],
      snd acc @ [if cs then py_str U k else u_lower U (py_str U k)])"
    by (auto simp: clean_keyword_def Let_def res_simps)
  then have "good_keyword (if cs then py_str U k else u_lower U (py_str U k))"
    using unicode_case.lower_ascii [OF uc a] printable_ascii_lower [OF p] p
    by (auto simp: good_keyword_def ascii_lower_def)
  with inv new acc' show ?thesis by (auto simp: keywords_ok_def)
qed

lemma clean_keywords_ok:
  assumes uc: "unicode_case (u_lower U) (u_upper U)" and d: "distinct seen"
    and res: "fold_res (clean_keyword U n m cs) (k # ks) ([], seen) = Inr acc"
  shows "keywords_ok seen acc \<and> fst acc \<noteq> []"
proof -
  from res obtain acc1 where one: "clean_keyword U n m cs k ([], seen) = Inr acc1"
    and rest: "fold_res (clean_keyword U n m cs) ks acc1 = Inr acc"
    by (auto simp: res_simps)
  have "keywords_ok seen ([], seen)" using d by (simp add: keywords_ok_def)
  from clean_keyword_ok [OF uc this one] have "keywords_ok seen acc1 \<and> fst acc1 \<noteq> []" .
  with rest show ?thesis
    by (rule fold_res_invariant) (blast dest: clean_keyword_ok [OF uc])
qed

definition route_ok :: "kroute \<Rightarrow> bool" where
  "route_ok r \<longleftrightarrow> kr_name r \<in> set keyword_routes \<and> kr_operator r \<in> set operators \<and>
     kr_method r \<in> set methods \<and> kr_keywords r \<noteq> [] \<and> list_all good_keyword (kr_keywords r)"

definition vstate_ok :: "vstate \<Rightarrow> bool" where
  "vstate_ok st \<longleftrightarrow> list_all route_ok (vs_routes st) \<and> distinct (vs_seen st) \<and>
     vs_seen st = concat (map kr_keywords (vs_routes st))"

lemma vstate_ok_distinct: "vstate_ok st \<Longrightarrow> distinct (vs_seen st)"
  unfolding vstate_ok_def by blast

lemma vstate_ok_seen: "vstate_ok st \<Longrightarrow> concat (map kr_keywords (vs_routes st)) = vs_seen st"
  unfolding vstate_ok_def by simp

lemma validate_signal_ok:
  assumes uc: "unicode_case (u_lower U) (u_upper U)"
    and inv: "vstate_ok st" and res: "validate_signal U dec sig st = Inr st'"
  shows "vstate_ok st' \<and> vs_routes st' \<noteq> [] \<and> vs_case st' \<noteq> None \<and> (\<forall>b. vs_case st = Some b \<longrightarrow> vs_case st' = Some b)"
proof -
  from res obtain r name where r: "sig = PDict r"
    and name: "signal_route_name U r (fst dec) = Inr name" "name \<in> set keyword_routes"
    by (auto simp: validate_signal_def res_simps split: pyval.splits)
  define sn where "sn = py_str U (dget_or r ''name'' (PStr name))"
  define op where "op = u_upper U (py_str U (dget_or r ''operator'' (PStr (u ''OR''))))"
  define m where "m = u_lower U (py_str U (dget_or r ''method'' (PStr (u ''regex''))))"
  define cs where "cs = py_truthy (dget_or r ''case_sensitive'' (PBool False))"
  from res r name have sets: "op \<in> set operators" "m \<in> set methods"
    and cse: "vs_case st = None \<or> vs_case st = Some cs"
    by (auto simp: validate_signal_def res_simps Let_def op_def m_def cs_def)
  have body: "validate_signal U dec sig st = (case dget r ''keywords'' of
          PList (k # ks) \<Rightarrow>
            bind_res (fold_res (clean_keyword U sn m cs) (k # ks) ([], vs_seen st)) (\<lambda>acc.
            bind_res (py_int U (dget_or r ''priority'' (PInt 0))) (\<lambda>own_priority.
            bind_res (py_int U (dget_or r ''ngram_arity'' (PInt 3))) (\<lambda>arity.
            Inr \<lparr>vs_routes = vs_routes st @
                   [\<lparr>kr_name = name, kr_priority = get_default (snd dec) sn own_priority,
                     kr_keywords = fst acc, kr_operator = op, kr_method = m,
                     kr_ngram_arity = arity,
                     kr_ngram_threshold = dget_or r ''ngram_threshold'' (PFloat (u ''0.4'')),
                     kr_bm25_threshold = dget_or r ''bm25_threshold'' (PFloat (u ''0.1''))\<rparr>],
                 vs_seen = snd acc, vs_case = Some cs\<rparr>)))
        | _ \<Rightarrow> Inl (ValueError ''{}: must define keywords'' [sn]))"
    using sets cse name unfolding r validate_signal_def op_def m_def cs_def sn_def Let_def
    by (simp del: fold_res.simps)
  from res body obtain k ks acc rt where
      acc: "fold_res (clean_keyword U sn m cs) (k # ks) ([], vs_seen st) = Inr acc"
    and st': "vs_routes st' = vs_routes st @ [rt]" "vs_seen st' = snd acc" "vs_case st' = Some cs"
    and rt: "kr_name rt = name" "kr_operator rt = op" "kr_method rt = m" "kr_keywords rt = fst acc"
    by (auto simp del: fold_res.simps simp: res_simps split: pyval.splits list.splits)
  from inv have "distinct (vs_seen st)" by (rule vstate_ok_distinct)
  from clean_keywords_ok [OF uc this acc] have kw: "snd acc = vs_seen st @ fst acc" "distinct (snd acc)"
    "list_all good_keyword (fst acc)" "fst acc \<noteq> []"
    unfolding keywords_ok_def by blast+
  have "vs_seen st' = concat (map kr_keywords (vs_routes st'))"
    using kw(1) st' rt vstate_ok_seen [OF inv] by simp
  moreover have "list_all route_ok (vs_routes st')"
    using inv st' rt kw sets name by (simp add: vstate_ok_def route_ok_def)
  ultimately have "vstate_ok st'" using kw(2) st' by (simp only: vstate_ok_def)
  then show ?thesis using st' cse by auto
qed

lemma validate_signals_ok:
  assumes uc: "unicode_case (u_lower U) (u_upper U)"
    and res: "fold_res (validate_signal U dec) (x # xs) \<lparr>vs_routes = [], vs_seen = [], vs_case = None\<rparr> = Inr st"
  shows "vstate_ok st \<and> vs_routes st \<noteq> []"
proof -
  let ?init = "\<lparr>vs_routes = [], vs_seen = [], vs_case = None\<rparr>"
  have init: "vstate_ok ?init" by (simp add: vstate_ok_def)
  from res obtain st1 where one: "validate_signal U dec x ?init = Inr st1"
    and rest: "fold_res (validate_signal U dec) xs st1 = Inr st"
    by (auto simp: res_simps)
  from validate_signal_ok [OF uc init one] have "vstate_ok st1 \<and> vs_routes st1 \<noteq> []" by blast
  with rest show ?thesis
    by (rule fold_res_invariant) (use validate_signal_ok [OF uc] in blast)
qed

lemma validate_policy_cases:
  assumes "validate_policy U policy = Inr (cs, routes)"
  obtains x xs dec st where "fold_res (validate_signal U dec) (x # xs)
      \<lparr>vs_routes = [], vs_seen = [], vs_case = None\<rparr> = Inr st"
    and "keyword_signals policy = Inr (x # xs)" and "decision_keyword_routes U policy = Inr dec"
    and "routes = sort_key (\<lambda>r. - kr_priority r) (vs_routes st)"
proof -
  from assms obtain raw dec st where h: "raw \<noteq> []" "fold_res (validate_signal U dec) raw
      \<lparr>vs_routes = [], vs_seen = [], vs_case = None\<rparr> = Inr st"
    "keyword_signals policy = Inr raw" "decision_keyword_routes U policy = Inr dec"
    "routes = sort_key (\<lambda>r. - kr_priority r) (vs_routes st)"
    by (auto simp: validate_policy_def res_simps)
  moreover from h obtain x xs where "raw = x # xs" by (cases raw) auto
  ultimately show thesis using that by blast
qed

lemma distinct_concat_mset:
  "mset xs = mset ys \<Longrightarrow> distinct (concat (map f xs)) = distinct (concat (map f ys))"
proof (rule mset_eq_imp_distinct_iff)
  assume "mset xs = mset ys"
  then have "mset (map mset (map f xs)) = mset (map mset (map f ys))" by simp
  then show "mset (concat (map f xs)) = mset (concat (map f ys))"
    by (metis mset_concat sum_mset_sum_list)
qed

text \<open>C29. A policy that validates yields at least one route; every route has a supported name,
  operator and method and a non-empty list of non-empty printable ASCII keywords; no keyword occurs
  twice in the whole policy; and the routes come out by descending priority.\<close>

theorem validate_policy_sound:
  assumes "unicode_case (u_lower U) (u_upper U)"
    and "validate_policy U policy = Inr (cs, routes)"
  shows "routes \<noteq> [] \<and> list_all route_ok routes \<and> distinct (concat (map kr_keywords routes)) \<and>
    sorted_wrt (\<ge>) (map kr_priority routes)"
proof -
  from assms(2) obtain x xs dec st where fr: "fold_res (validate_signal U dec) (x # xs)
      \<lparr>vs_routes = [], vs_seen = [], vs_case = None\<rparr> = Inr st"
    and routes: "routes = sort_key (\<lambda>r. - kr_priority r) (vs_routes st)"
    by (rule validate_policy_cases)
  from validate_signals_ok [OF assms(1) fr] have ok: "vstate_ok st" "vs_routes st \<noteq> []" by blast+
  have same: "mset routes = mset (vs_routes st)" by (simp add: routes)
  then have "set routes = set (vs_routes st)" by (metis set_mset_mset)
  moreover have "sorted (map (\<lambda>r. - kr_priority r) routes)" unfolding routes by (rule sorted_sort_key)
  then have "sorted_wrt (\<ge>) (map kr_priority routes)" by (simp add: sorted_wrt_map)
  moreover have "distinct (concat (map kr_keywords routes))"
    using vstate_ok_distinct [OF ok(1)] distinct_concat_mset [OF same, of kr_keywords]
    by (simp add: vstate_ok_seen [OF ok(1)])
  moreover have "routes \<noteq> []" using ok(2) same by auto
  ultimately show ?thesis using ok(1) by (simp add: vstate_ok_def list_all_iff)
qed


text \<open>A small policy, used to run the validator.\<close>

definition demo_signal :: "string \<Rightarrow> int \<Rightarrow> string list \<Rightarrow> pyval" where
  "demo_signal name p ks = PDict [(u ''name'', PStr (u name)), (u ''priority'', PInt p),
     (u ''keywords'', PList (map (\<lambda>k. PStr (u k)) ks))]"

definition demo_policy :: pyval where
  "demo_policy = PDict [(u ''routes'', PList [demo_signal ''code_a'' 1 [''Def'', ''a.b''], demo_signal ''math_a'' 5 [''sum'']])]"

definition demo_route :: "string \<Rightarrow> int \<Rightarrow> string list \<Rightarrow> kroute" where
  "demo_route n p ks = \<lparr>kr_name = u n, kr_priority = p, kr_keywords = map u ks, kr_operator = u ''OR'',
     kr_method = u ''regex'', kr_ngram_arity = 3, kr_ngram_threshold = PFloat (u ''0.4''),
     kr_bm25_threshold = PFloat (u ''0.1'')\<rparr>"

lemma demo_policy_validates:
  "validate_policy ascii_db demo_policy =
     Inr (False, [demo_route ''math'' 5 [''sum''], demo_route ''coding'' 1 [''def'', ''a.b'']])"
  by code_simp

lemma ascii_db_case: "unicode_case (u_lower ascii_db) (u_upper ascii_db)"
  by (simp add: ascii_db_def ascii_case.unicode_case_axioms)

lemma validate_policy_sound_witness:
  "list_all route_ok [demo_route ''math'' 5 [''sum''], demo_route ''coding'' 1 [''def'', ''a.b'']]"
  using validate_policy_sound [OF ascii_db_case demo_policy_validates] by simp

text \<open>Sorting by priority never reorders signals of equal priority: for every priority the routes
  of that priority are exactly the validated signals of that priority, in the order the policy
  declares them.\<close>

theorem validate_policy_stable:
  assumes "validate_policy U policy = Inr (cs, routes)"
  shows "\<exists>sigs dec st. keyword_signals policy = Inr sigs \<and> decision_keyword_routes U policy = Inr dec \<and>
    fold_res (validate_signal U dec) sigs \<lparr>vs_routes = [], vs_seen = [], vs_case = None\<rparr> = Inr st \<and>
    mset routes = mset (vs_routes st) \<and>
    (\<forall>p. filter (\<lambda>r. kr_priority r = p) routes = filter (\<lambda>r. kr_priority r = p) (vs_routes st))"
proof -
  from assms obtain x xs dec st where h: "fold_res (validate_signal U dec) (x # xs)
      \<lparr>vs_routes = [], vs_seen = [], vs_case = None\<rparr> = Inr st"
    "keyword_signals policy = Inr (x # xs)" "decision_keyword_routes U policy = Inr dec"
    and routes: "routes = sort_key (\<lambda>r. - kr_priority r) (vs_routes st)"
    by (rule validate_policy_cases)
  have "filter (\<lambda>r. kr_priority r = p) routes = filter (\<lambda>r. kr_priority r = p) (vs_routes st)" for p
    using sort_key_stable [where f = "\<lambda>r. - kr_priority r" and k = "- p" and xs = "vs_routes st"]
    by (simp add: routes)
  with h routes show ?thesis by (intro exI conjI) auto
qed

lemma validate_policy_stable_witness:
  "\<exists>sigs dec st. keyword_signals demo_policy = Inr sigs \<and> decision_keyword_routes ascii_db demo_policy = Inr dec \<and>
    fold_res (validate_signal ascii_db dec) sigs \<lparr>vs_routes = [], vs_seen = [], vs_case = None\<rparr> = Inr st \<and>
    mset [demo_route ''math'' 5 [''sum''], demo_route ''coding'' 1 [''def'', ''a.b'']] = mset (vs_routes st)"
  using validate_policy_stable [OF demo_policy_validates] by blast

subsection \<open>The rules the decisions give\<close>

definition decided_by :: "unidb \<Rightarrow> pyval list \<Rightarrow> ustr \<Rightarrow> int \<Rightarrow> bool" where
  "decided_by U decisions r p \<longleftrightarrow> (\<exists>d. PDict d \<in> set decisions \<and> r \<in> set keyword_routes \<and>
     py_str U (dget_or d ''name'' (PStr [])) = r \<and> py_int U (dget_or d ''priority'' (PInt 0)) = Inr p)"

definition decisions_ok :: "unidb \<Rightarrow> pyval list \<Rightarrow> decisions \<Rightarrow> bool" where
  "decisions_ok U decisions acc \<longleftrightarrow> dict_keys (fst acc) = dict_keys (snd acc) \<and>
     (\<forall>n r p. dict_get (fst acc) n = Some r \<longrightarrow> dict_get (snd acc) n = Some p \<longrightarrow> decided_by U decisions r p)"

lemma decision_condition_ok:
  "decisions_ok U ds acc \<Longrightarrow> decided_by U ds r p \<Longrightarrow> decisions_ok U ds (decision_condition U r p c acc)"
  by (auto simp: decisions_ok_def decision_condition_def Let_def dict_keys_set split: pyval.splits)

lemma decision_conditions_ok:
  "decisions_ok U ds acc \<Longrightarrow> decided_by U ds r p \<Longrightarrow> decisions_ok U ds (fold (decision_condition U r p) cs acc)"
  by (induction cs arbitrary: acc) (simp_all add: decision_condition_ok)

lemma decision_step_ok:
  assumes "decisions_ok U ds acc" "d \<in> set ds" "decision_step U d acc = Inr acc'"
  shows "decisions_ok U ds acc'"
proof (cases d)
  case (PDict c)
  let ?r = "py_str U (dget_or c ''name'' (PStr []))"
  show ?thesis
  proof (cases "?r \<in> set keyword_routes")
    case True
    then obtain p where p: "py_int U (dget_or c ''priority'' (PInt 0)) = Inr p"
      using assms(3) PDict by (auto simp: decision_step_def Let_def res_simps)
    have by_d: "decided_by U ds ?r p"
      using p True assms(2) PDict by (auto simp: decided_by_def)
    have "acc' = acc \<or> (\<exists>cs. acc' = fold (decision_condition U ?r p) cs acc)"
      using assms(3) PDict True p by (auto simp: decision_step_def Let_def split: pyval.splits)
    then show ?thesis using assms(1) decision_conditions_ok [OF assms(1) by_d] by auto
  qed (use assms PDict in \<open>simp add: decision_step_def Let_def\<close>)
qed (use assms in \<open>simp_all add: decision_step_def\<close>)

lemma decisions_ok_Nil: "decisions_ok U ds ([], [])"
  by (simp add: decisions_ok_def)

text \<open>The two maps built from the decisions name the same signals, in the same order; every
  signal is mapped to one of the four keyword routes; and the route and the priority of a signal
  come from one and the same decision, also when several decisions name the signal.\<close>

theorem decision_maps_agree:
  assumes "decision_keyword_routes U (PDict p) = Inr (routes, priorities)"
  shows "dict_keys routes = dict_keys priorities \<and>
    (\<forall>n r. dict_get routes n = Some r \<longrightarrow> (\<exists>q ds. dict_get priorities n = Some q \<and>
       dget p ''routing'' \<noteq> PNone \<and> decided_by U ds r q \<and>
       (\<exists>rt. dget p ''routing'' = PDict rt \<and> dget rt ''decisions'' = PList ds)))"
proof (cases "\<exists>rt ds. dget p ''routing'' = PDict rt \<and> dget rt ''decisions'' = PList ds")
  case True
  then obtain rt ds where at: "dget p ''routing'' = PDict rt" "dget rt ''decisions'' = PList ds"
    by blast
  with assms have "fold_res (decision_step U) ds ([], []) = Inr (routes, priorities)"
    by (simp add: decision_keyword_routes_def)
  then have ok: "decisions_ok U ds (routes, priorities)"
    by (rule fold_res_invariant) (auto simp: decisions_ok_Nil intro: decision_step_ok)
  have "\<exists>q. dict_get priorities n = Some q" if "dict_get routes n = Some r" for n r
  proof -
    have "n \<in> set (dict_keys routes)" using that by (force dest: map_of_SomeD)
    with ok have "n \<in> fst ` set priorities" by (simp add: decisions_ok_def)
    then show ?thesis by (metis map_of_eq_None_iff not_None_eq)
  qed
  with ok at show ?thesis unfolding decisions_ok_def by fastforce
next
  case False
  with assms have "routes = [] \<and> priorities = []"
    by (auto simp: decision_keyword_routes_def split: pyval.splits)
  then show ?thesis by simp
qed

definition demo_decision :: "string \<Rightarrow> pyval \<Rightarrow> string \<Rightarrow> pyval" where
  "demo_decision n p s = PDict [(u ''name'', PStr (u n)), (u ''priority'', p),
     (u ''rules'', PDict [(u ''conditions'', PList [PDict [(u ''type'', PStr (u ''keyword'')), (u ''name'', PStr (u s))]])])]"

definition demo_routing :: "(ustr \<times> pyval) list" where
  "demo_routing = [(u ''routing'', PDict [(u ''decisions'', PList [demo_decision ''math'' (PInt 7) ''sig'',
     demo_decision ''coding'' (PStr (u ''30'')) ''sig''])])]"

lemma decision_maps_agree_witness:
  "dict_keys [(u ''sig'', u ''coding'')] = dict_keys [(u ''sig'', 30 :: int)]"
proof -
  have "decision_keyword_routes ascii_db (PDict demo_routing) = Inr ([(u ''sig'', u ''coding'')], [(u ''sig'', 30)])"
    by code_simp
  from decision_maps_agree [OF this] show ?thesis by (rule conjunct1)
qed

subsection \<open>The regex check and the macro names\<close>

lemma regex_class_mem: "c \<in> set regex_class \<longleftrightarrow> c \<in> {46, 94, 36, 42, 43, 63, 123, 125, 91, 92}"
  by (simp add: regex_class_def u_def)

text \<open>C31. What the check for regular-expression syntax detects: a keyword with no closing bracket and
  no backslash always passes, so none of the characters of the class is detected on its own, nor
  are parentheses and the bar.\<close>

theorem regex_check_misses:
  "93 \<notin> set v \<Longrightarrow> 92 \<notin> set v \<Longrightarrow> \<not> regex_syntax_search v"
  by (induction v rule: regex_syntax_search.induct) auto

lemma regex_check_misses_witness: "\<not> regex_syntax_search (u ''(a.b)*|c+'')"
  by (rule regex_check_misses) (simp_all add: u_def)

lemma regex_syntax_search_iff:
  "regex_syntax_search v \<longleftrightarrow> 93 \<in> set v \<or> (\<exists>c \<in> set regex_class. contains v [c, 92, 92])"
proof (induction v rule: regex_syntax_search.induct)
  case (1 a b c s)
  then show ?case by (auto simp: contains_def sublist_Cons_right)
qed (auto simp: contains_def sublist_Cons_right dest: sublist_length_le)

lemma sub_underscore_set: "set (sub_underscore i s) \<subseteq> insert 95 {c. is_ascii_alnum c}"
  by (induction s arbitrary: i) auto

text \<open>The macro of a keyword is a C identifier: the prefix, then a non-empty name of upper-case
  letters, digits and underscores that does not start with a digit.\<close>

theorem macro_name_identifier:
  "\<exists>name. macro_name k = u ''XDP_KEYWORD_'' @ name \<and> name \<noteq> [] \<and> \<not> is_digit (hd name) \<and>
     list_all (\<lambda>c. is_upper c \<or> is_digit c \<or> c = 95) name"
proof -
  let ?raw = "ascii_upper (strip_by (\<lambda>c. c = 95) (sub_underscore False k))"
  have "\<forall>c \<in> set (strip_by (\<lambda>c. c = 95) (sub_underscore False k)). c = 95 \<or> is_ascii_alnum c"
    using sub_underscore_set [of False k] set_strip_by [of "\<lambda>c. c = 95" "sub_underscore False k"]
    by blast
  then have raw: "\<forall>c \<in> set ?raw. is_upper c \<or> is_digit c \<or> c = 95"
    by (auto simp: ascii_upper_def char_defs)
  then have raw': "list_all (\<lambda>c. is_upper c \<or> is_digit c \<or> c = 95) ?raw"
    by (simp only: list_all_iff)
  have pre: "list_all (\<lambda>c. is_upper c \<or> is_digit c \<or> c = 95) (u ''KEYWORD_'')"
    by (simp add: u_def char_defs)
  show ?thesis
  proof (cases "?raw = [] \<or> is_digit (hd ?raw)")
    case True
    then have "macro_name k = u ''XDP_KEYWORD_'' @ u ''KEYWORD_'' @ ?raw"
      by (simp add: macro_name_def Let_def)
    moreover have "list_all (\<lambda>c. is_upper c \<or> is_digit c \<or> c = 95) (u ''KEYWORD_'' @ ?raw)"
      using raw' pre by simp
    moreover have "\<not> is_digit (hd (u ''KEYWORD_'' @ ?raw))" "u ''KEYWORD_'' @ ?raw \<noteq> []"
      by (simp_all add: u_def is_digit_def)
    ultimately show ?thesis by blast
  next
    case False
    then have "macro_name k = u ''XDP_KEYWORD_'' @ ?raw"
      by (simp add: macro_name_def Let_def)
    then show ?thesis using raw' False by blast
  qed
qed

text \<open>Different keywords of one policy can have the same macro, hence the same enumerator.\<close>

lemma macro_name_collision: "macro_name (u ''a b'') = macro_name (u ''a_b'')"
  by code_simp

subsection \<open>The layout of the keyword table\<close>

lemma keyword_layout_spec:
  "keyword_layout ks (offs, cs) = (offs @ map (\<lambda>i. length cs + length (concat (take i ks))) [0 ..< length ks],
     cs @ concat ks)"
proof (induction ks arbitrary: offs cs)
  case (Cons k ks)
  have "map (\<lambda>i. length cs + length (concat (take i (k # ks)))) [0 ..< length (k # ks)] =
    length cs # map (\<lambda>i. length (cs @ k) + length (concat (take i ks))) [0 ..< length ks]"
    by (simp add: upt_conv_Cons map_Suc_upt [symmetric] del: upt_Suc)
  with Cons show ?case by simp
qed simp

lemma concat_slice:
  "i < length ks \<Longrightarrow> take (length (ks ! i)) (drop (length (concat (take i ks))) (concat ks)) = ks ! i"
proof -
  assume "i < length ks"
  then have "ks = take i ks @ ks ! i # drop (Suc i) ks" by (rule id_take_nth_drop)
  then have "concat ks = concat (take i ks) @ ks ! i @ concat (drop (Suc i) ks)"
    by (metis concat.simps(2) concat_append)
  then show ?thesis by simp
qed

text \<open>The table of the header is a round trip: keyword \<open>i\<close> is read back from the character
  array at its offset with its length, never past the end of the array, and the offsets never
  decrease.\<close>

theorem keyword_layout_roundtrip:
  assumes "keyword_layout ks ([], []) = (offs, cs)" and "i < length ks"
  shows "length offs = length ks \<and> take (length (ks ! i)) (drop (offs ! i) cs) = ks ! i \<and>
    offs ! i + length (ks ! i) \<le> length cs \<and> sorted offs"
proof -
  from assms(1) have offs: "offs = map (\<lambda>i. length (concat (take i ks))) [0 ..< length ks]"
    and cs: "cs = concat ks" by (simp_all add: keyword_layout_spec)
  have mono: "length (concat (take i ks)) \<le> length (concat (take j ks))" if "i \<le> j" for i j
  proof -
    have "take j ks = take i ks @ take (j - i) (drop i ks)"
      using that by (metis le_add_diff_inverse take_add)
    then show ?thesis by simp
  qed
  have "sorted offs" unfolding offs by (auto simp: sorted_iff_nth_mono intro: mono)
  moreover have "offs ! i + length (ks ! i) \<le> length cs"
    using mono [of "Suc i" "length ks"] assms(2) offs cs by (simp add: take_Suc_conv_app_nth)
  ultimately show ?thesis using concat_slice [OF assms(2)] offs cs assms(2) by simp
qed

lemma keyword_layout_roundtrip_witness:
  "take 3 (drop 2 (u ''defsum'')) = u ''fsu'' \<and> take 3 (drop ([0, 3] ! 1) (u ''defsum'')) = u ''sum''"
  using keyword_layout_roundtrip [of "[u ''def'', u ''sum'']" "[0, 3]" "u ''defsum''" 1]
  by (simp add: u_def)

end
