(* ===== verification/Tokenizer.thy ===== *)
theory Tokenizer
  imports PyText
begin

section \<open>The English tokenizer\<close>

text \<open>
  benchmarks/policy/vsr_bm25_tokenizer.py: the word scanner (a regular expression over lowercase
  ASCII text), the stop words and the Snowball English (Porter2) stemmer, one definition per step of
  the code. The steps are composed by \<open>stem_english\<close> in the order of the code, with the regions of
  the marked word computed once, before the first step.
\<close>

subsection \<open>Stop words and tables\<close>

definition ENGLISH_STOP_WORDS :: "ustr list" where
  "ENGLISH_STOP_WORDS = map u
    [''i'', ''me'', ''my'', ''myself'', ''we'', ''our'', ''ours'', ''ourselves'', ''you'',
     ''you're'', ''you've'', ''you'll'', ''you'd'', ''your'', ''yours'', ''yourself'',
     ''yourselves'', ''he'', ''him'', ''his'', ''himself'', ''she'', ''she's'', ''her'', ''hers'',
     ''herself'', ''it'', ''it's'', ''its'', ''itself'', ''they'', ''them'', ''their'', ''theirs'',
     ''themselves'', ''what'', ''which'', ''who'', ''whom'', ''this'', ''that'', ''that'll'',
     ''these'', ''those'', ''am'', ''is'', ''are'', ''was'', ''were'', ''be'', ''been'', ''being'',
     ''have'', ''has'', ''had'', ''having'', ''do'', ''does'', ''did'', ''doing'', ''a'', ''an'',
     ''the'', ''and'', ''but'', ''if'', ''or'', ''because'', ''as'', ''until'', ''while'', ''of'',
     ''at'', ''by'', ''for'', ''with'', ''about'', ''against'', ''between'', ''into'', ''through'',
     ''during'', ''before'', ''after'', ''above'', ''below'', ''to'', ''from'', ''up'', ''down'',
     ''in'', ''out'', ''on'', ''off'', ''over'', ''under'', ''again'', ''further'', ''then'',
     ''once'', ''here'', ''there'', ''when'', ''where'', ''why'', ''how'', ''all'', ''any'',
     ''both'', ''each'', ''few'', ''more'', ''most'', ''other'', ''some'', ''such'', ''no'',
     ''nor'', ''not'', ''only'', ''own'', ''same'', ''so'', ''than'', ''too'', ''very'', ''s'',
     ''t'', ''can'', ''will'', ''just'', ''don'', ''don't'', ''should'', ''should've'', ''now'',
     ''d'', ''ll'', ''m'', ''o'', ''re'', ''ve'', ''y'', ''ain'', ''aren'', ''aren't'', ''couldn'',
     ''couldn't'', ''didn'', ''didn't'', ''doesn'', ''doesn't'', ''hadn'', ''hadn't'', ''hasn'',
     ''hasn't'', ''haven'', ''haven't'', ''isn'', ''isn't'', ''ma'', ''mightn'', ''mightn't'',
     ''mustn'', ''mustn't'', ''needn'', ''needn't'', ''shan'', ''shan't'', ''shouldn'',
     ''shouldn't'', ''wasn'', ''wasn't'', ''weren'', ''weren't'', ''won'', ''won't'', ''wouldn'',
     ''wouldn't'']"

definition is_vowel :: "int \<Rightarrow> bool" where
  "is_vowel c \<longleftrightarrow> c = 97 \<or> c = 101 \<or> c = 105 \<or> c = 111 \<or> c = 117 \<or> c = 121"

definition valid_li :: "int \<Rightarrow> bool" where
  "valid_li c \<longleftrightarrow> c \<in> set (u ''cdeghkmnrt'')"

definition DOUBLES :: "ustr list" where
  "DOUBLES = map u [''bb'', ''dd'', ''ff'', ''gg'', ''mm'', ''nn'', ''pp'', ''rr'', ''tt'']"

definition EXCEPTIONS :: "(ustr \<times> ustr) list" where
  "EXCEPTIONS = map (\<lambda>(w, s). (u w, u s))
    [(''skis'', ''ski''), (''skies'', ''sky''), (''dying'', ''die''), (''lying'', ''lie''),
     (''tying'', ''tie''), (''idly'', ''idl''), (''gently'', ''gentl''), (''ugly'', ''ugli''),
     (''early'', ''earli''), (''only'', ''onli''), (''singly'', ''singl''), (''sky'', ''sky''),
     (''news'', ''news''), (''howe'', ''howe''), (''atlas'', ''atlas''), (''cosmos'', ''cosmos''),
     (''bias'', ''bias''), (''andes'', ''andes'')]"

definition POST_1A_EXCEPTIONS :: "ustr list" where
  "POST_1A_EXCEPTIONS = map u [''inning'', ''outing'', ''canning'', ''herring'', ''earring'',
     ''proceed'', ''exceed'', ''succeed'']"

subsection \<open>The word scanner\<close>

text \<open>
  The alternatives of \<open>_ASCII_WORD\<close> are a run of word characters followed by groups "separator, run".
  A separator is not a word character, so the greedy match never has to give characters back:
  \<open>groups\<close> consumes the longest sequence of groups.
\<close>

definition lalnum :: "int \<Rightarrow> bool" where
  "lalnum c \<longleftrightarrow> is_lower c \<or> is_digit c"

lemma dropWhile_less: "length (dropWhile P xs) < Suc (Suc (length xs))"
  using length_dropWhile_le [of P xs] by simp

function groups :: "int \<Rightarrow> (int \<Rightarrow> bool) \<Rightarrow> ustr \<Rightarrow> ustr \<times> ustr" where
  "groups sep P s = (case s of
     c # d # t \<Rightarrow> if c = sep \<and> P d
       then (case groups sep P (dropWhile P (d # t)) of (m, r) \<Rightarrow> (c # takeWhile P (d # t) @ m, r))
       else ([], s)
   | _ \<Rightarrow> ([], s))"
  by pat_completeness auto
termination
  by (relation "measure (\<lambda>(sep, P, s). length s)")
    (auto simp: dropWhile_less)

declare groups.simps [simp del]

lemma groups_eqs [simp]:
  "groups sep P [] = ([], [])"
  "groups sep P [c] = ([], [c])"
  "groups sep P (c # d # t) = (if c = sep \<and> P d
     then (c # takeWhile P (d # t) @ fst (groups sep P (dropWhile P (d # t))), snd (groups sep P (dropWhile P (d # t))))
     else ([], c # d # t))"
  by (simp_all add: groups.simps split: prod.split)

definition run_groups :: "(int \<Rightarrow> bool) \<Rightarrow> int \<Rightarrow> ustr \<Rightarrow> ustr \<times> ustr \<times> ustr" where
  "run_groups P sep s = (takeWhile P s, groups sep P (dropWhile P s))"

text \<open>The match at a word character: a decimal number, a word with underscores, a contraction.\<close>

definition match_word :: "ustr \<Rightarrow> ustr \<times> ustr" where
  "match_word s = (case run_groups is_digit 46 s of (run, m, r) \<Rightarrow>
     if run \<noteq> [] \<and> m \<noteq> [] then (run @ m, r)
     else case run_groups lalnum 95 s of (run, m, r) \<Rightarrow>
       if m \<noteq> [] then (run @ m, r)
       else case run_groups lalnum 39 s of (run, m, r) \<Rightarrow> (run @ m, r))"

lemma groups_cases:
  obtains "s = []" | c where "s = [c]" | c d t where "s = c # d # (t :: 'a list)"
  by (cases s rule: remdups_adj.cases) blast+

lemma groups_length: "length (fst (groups sep P s)) + length (snd (groups sep P s)) = length s"
proof (induction sep P s rule: groups.induct)
  case (1 sep P s)
  show ?case
  proof (cases "\<exists>c d t. s = c # d # t \<and> c = sep \<and> P d")
    case True
    then obtain d t where s: "s = sep # d # t" "P d" by blast
    have "length (fst (groups sep P (dropWhile P t))) + length (snd (groups sep P (dropWhile P t))) =
        length (dropWhile P t)"
      using "1.IH" [of sep "d # t" d t] s by simp
    then show ?thesis using s length_takeWhile_dropWhile [of P t] by simp
  next
    case False
    then show ?thesis by (cases s rule: groups_cases) auto
  qed
qed

lemma match_word_length:
  assumes "lalnum c" shows "length (snd (match_word (c # s))) < length (c # s)"
proof -
  have rest: "length (snd (groups sep P (dropWhile P (c # s)))) < length (c # s)" if "P c" for sep P
    using groups_length [of sep P "dropWhile P (c # s)"] length_dropWhile_le [of P s] that by simp
  from assms rest [of lalnum 39] rest [of lalnum 95] rest [of is_digit 46] show ?thesis
    by (auto simp: match_word_def run_groups_def split: prod.splits if_splits)
qed

text \<open>\<open>findall\<close>.\<close>

function find_words :: "ustr \<Rightarrow> ustr list" where
  "find_words [] = []"
| "find_words (c # s) = (if lalnum c
     then fst (match_word (c # s)) # find_words (snd (match_word (c # s)))
     else find_words s)"
  by pat_completeness auto
termination
  by (relation "measure length") (auto simp: match_word_length [simplified])

definition is_ascii_word :: "unidb \<Rightarrow> ustr \<Rightarrow> bool" where
  "is_ascii_word U text \<longleftrightarrow> is_ascii text \<and> (let s = u_lower U text in
     (case run_groups is_digit 46 s of (run, m, r) \<Rightarrow> run \<noteq> [] \<and> m \<noteq> [] \<and> r = []) \<or>
     (case run_groups lalnum 95 s of (run, m, r) \<Rightarrow> run \<noteq> [] \<and> m \<noteq> [] \<and> r = []) \<or>
     (case run_groups lalnum 39 s of (run, m, r) \<Rightarrow> run \<noteq> [] \<and> r = []))"

subsection \<open>The stemmer\<close>

text \<open>Snowball marks a consonantal y by writing it in upper case; the mark of one letter decides the next.\<close>

fun mark_from :: "int option \<Rightarrow> ustr \<Rightarrow> ustr" where
  "mark_from before [] = []"
| "mark_from before (c # s) = (let d = (if c = 121 \<and> (case before of None \<Rightarrow> True | Some p \<Rightarrow> is_vowel p)
     then 89 else c) in d # mark_from (Some d) s)"

definition mark_y :: "ustr \<Rightarrow> ustr" where
  "mark_y = mark_from None"

text \<open>The loops of \<open>_regions\<close>: the first index from \<open>i\<close> on that follows a vowel and holds none.\<close>

definition region_from :: "nat \<Rightarrow> ustr \<Rightarrow> nat" where
  "region_from i w = (case find (\<lambda>k. is_vowel (w ! (k - 1)) \<and> \<not> is_vowel (w ! k)) [i ..< length w] of
     Some k \<Rightarrow> k + 1 | None \<Rightarrow> length w)"

definition regions :: "ustr \<Rightarrow> nat \<times> nat" where
  "regions w = (let r1 = (if starts_with w (u ''gener'') \<or> starts_with w (u ''arsen'') then 5
       else if starts_with w (u ''commun'') then 6 else region_from 1 w)
     in (r1, region_from (r1 + 1) w))"

definition short_syllable :: "ustr \<Rightarrow> bool" where
  "short_syllable w = (if length w = 2 then is_vowel (w ! 0) \<and> \<not> is_vowel (w ! 1)
     else 3 \<le> length w \<and> \<not> is_vowel (w ! (length w - 3)) \<and> is_vowel (w ! (length w - 2)) \<and>
       \<not> is_vowel (w ! (length w - 1)) \<and> w ! (length w - 1) \<notin> set (u ''wxyY''))"

definition has_vowel :: "ustr \<Rightarrow> bool" where
  "has_vowel w = list_ex is_vowel w"

definition ends_any :: "string list \<Rightarrow> ustr \<Rightarrow> bool" where
  "ends_any sfx w = list_ex (\<lambda>s. ends_with w (u s)) sfx"

definition step0 :: "ustr \<Rightarrow> ustr" where
  "step0 w = (case find (ends_with w) [[39, 115, 39], [39, 115], [39]] of
     Some s \<Rightarrow> drop_last (length s) w | None \<Rightarrow> w)"

definition step1a :: "ustr \<Rightarrow> ustr" where
  "step1a w = (if ends_any [''sses''] w then drop_last 2 w
     else if ends_any [''ied'', ''ies''] w then (if 4 < length w then drop_last 2 w else drop_last 1 w)
     else if \<not> ends_any [''us'', ''ss''] w \<and> ends_any [''s''] w
     then (if has_vowel (drop_last 2 w) then drop_last 1 w else w) else w)"

definition step1b :: "nat \<Rightarrow> ustr \<Rightarrow> ustr" where
  "step1b r1 w = (if ends_any [''eedly''] w then (if r1 \<le> length w - 5 then drop_last 3 w else w)
     else if ends_any [''eed''] w then (if r1 \<le> length w - 3 then drop_last 1 w else w)
     else case find (\<lambda>s. ends_with w s \<and> has_vowel (drop_last (length s) w))
         (map u [''ingly'', ''edly'', ''ing'', ''ed'']) of
       None \<Rightarrow> w
     | Some s \<Rightarrow> (let v = drop_last (length s) w in
         if ends_any [''at'', ''bl'', ''iz''] v then v @ u ''e''
         else if list_ex (ends_with v) DOUBLES then drop_last 1 v
         else if length v \<le> r1 \<and> short_syllable v then v @ u ''e'' else v))"

definition step1c :: "ustr \<Rightarrow> ustr" where
  "step1c w = (if 2 < length w \<and> ends_any [''y'', ''Y''] w \<and> \<not> is_vowel (w ! (length w - 2))
     then drop_last 1 w @ u ''i'' else w)"

definition STEP2 :: "(ustr \<times> ustr) list" where
  "STEP2 = map (\<lambda>(s, r). (u s, u r))
    [(''ization'', ''ize''), (''ational'', ''ate''), (''fulness'', ''ful''), (''ousness'', ''ous''),
     (''iveness'', ''ive''), (''tional'', ''tion''), (''biliti'', ''ble''), (''lessli'', ''less''),
     (''entli'', ''ent''), (''ation'', ''ate''), (''alism'', ''al''), (''aliti'', ''al''),
     (''ousli'', ''ous''), (''iviti'', ''ive''), (''fulli'', ''ful''), (''enci'', ''ence''),
     (''anci'', ''ance''), (''abli'', ''able''), (''izer'', ''ize''), (''ator'', ''ate''), (''alli'',
     ''al''), (''bli'', ''ble'')]"

definition step2 :: "nat \<Rightarrow> ustr \<Rightarrow> ustr" where
  "step2 r1 w = (case find (\<lambda>(s, r). ends_with w s) STEP2 of
     Some (s, r) \<Rightarrow> if r1 \<le> length w - length s then drop_last (length s) w @ r else w
   | None \<Rightarrow>
       if ends_any [''ogi''] w
       then (if r1 \<le> length w - 3 \<and> 4 \<le> length w \<and> w ! (length w - 4) = 108 then drop_last 1 w else w)
       else if ends_any [''li''] w
       then (if r1 \<le> length w - 2 \<and> 3 \<le> length w \<and> valid_li (w ! (length w - 3)) then drop_last 2 w else w)
       else w)"

definition STEP3 :: "(ustr \<times> ustr \<times> bool) list" where
  "STEP3 = map (\<lambda>(s, r, b). (u s, u r, b))
    [(''ational'', ''ate'', False), (''tional'', ''tion'', False), (''alize'', ''al'', False),
     (''icate'', ''ic'', False), (''iciti'', ''ic'', False), (''ative'', [], True),
     (''ical'', ''ic'', False), (''ness'', [], False), (''ful'', [], False)]"

definition step3 :: "nat \<Rightarrow> nat \<Rightarrow> ustr \<Rightarrow> ustr" where
  "step3 r1 r2 w = (case find (\<lambda>(s, r, b). ends_with w s) STEP3 of
     Some (s, r, needs_r2) \<Rightarrow>
       if (if needs_r2 then r2 else r1) \<le> length w - length s then drop_last (length s) w @ r else w
   | None \<Rightarrow> w)"

definition STEP4 :: "ustr list" where
  "STEP4 = map u [''ement'', ''ance'', ''ence'', ''able'', ''ible'', ''ment'', ''ant'', ''ent'',
     ''ism'', ''ate'', ''iti'', ''ous'', ''ive'', ''ize'', ''al'', ''er'', ''ic'']"

definition step4 :: "nat \<Rightarrow> ustr \<Rightarrow> ustr" where
  "step4 r2 w = (case find (ends_with w) STEP4 of
     Some s \<Rightarrow> if r2 \<le> length w - length s then drop_last (length s) w else w
   | None \<Rightarrow> if ends_any [''sion'', ''tion''] w \<and> r2 \<le> length w - 3 then drop_last 3 w else w)"

definition step5 :: "nat \<Rightarrow> nat \<Rightarrow> ustr \<Rightarrow> ustr" where
  "step5 r1 r2 w = (if ends_any [''e''] w
     then (let base = drop_last 1 w in
       if r2 \<le> length base \<or> r1 \<le> length base \<and> \<not> short_syllable base then base else w)
     else if ends_any [''ll''] w \<and> r2 \<le> length w - 1 then drop_last 1 w else w)"

definition unmark :: "ustr \<Rightarrow> ustr" where
  "unmark = map (\<lambda>c. if c = 89 then 121 else c)"

definition stem_english :: "ustr \<Rightarrow> ustr" where
  "stem_english word = (if length word \<le> 2 then word
     else let w = (if starts_with word [39] then drop 1 word else word) in
       case dict_get EXCEPTIONS w of
         Some s \<Rightarrow> s
       | None \<Rightarrow>
           (let m = mark_y w; (r1, r2) = regions m; a = step1a (step0 m) in
            if a \<in> set POST_1A_EXCEPTIONS then unmark a
            else unmark (step5 r1 r2 (step4 r2 (step3 r1 r2 (step2 r1 (step1c (step1b r1 a))))))))"

subsection \<open>Tokenization\<close>

definition ascii_words :: "unidb \<Rightarrow> ustr \<Rightarrow> ustr list res" where
  "ascii_words U text = (if is_ascii text
     then Inr (filter (\<lambda>t. t \<notin> set ENGLISH_STOP_WORDS) (find_words (u_lower U text)))
     else Inl (ValueError ''BM25 text {!r} is outside XSR's exact ASCII tokenizer domain'' [text]))"

definition tokenize :: "unidb \<Rightarrow> ustr \<Rightarrow> ustr list res" where
  "tokenize U text = bind_res (ascii_words U text) (\<lambda>ws. Inr (map stem_english ws))"

definition tokenize_query :: "unidb \<Rightarrow> ustr \<Rightarrow> ustr list" where
  "tokenize_query U text = (let normalized = map (\<lambda>c. if c < 128 then c else 32) text in
     map stem_english (filter (\<lambda>t. t \<notin> set ENGLISH_STOP_WORDS) (find_words (u_lower U normalized))))"


subsection \<open>What the scanner returns\<close>

lemma groups_split: "fst (groups sep P s) @ snd (groups sep P s) = s"
proof (induction sep P s rule: groups.induct)
  case (1 sep P s)
  show ?case
  proof (cases "\<exists>c d t. s = c # d # t \<and> c = sep \<and> P d")
    case True
    then obtain d t where s: "s = sep # d # t" "P d" by blast
    have "fst (groups sep P (dropWhile P t)) @ snd (groups sep P (dropWhile P t)) = dropWhile P t"
      using "1.IH" [of sep "d # t" d t] s by simp
    then show ?thesis using s by simp
  next
    case False
    then show ?thesis by (cases s rule: groups_cases) auto
  qed
qed

lemma groups_absent: "sep \<notin> set s \<Longrightarrow> groups sep P s = ([], s)"
  by (cases s rule: groups_cases) auto

lemma groups_chars: "set (fst (groups sep P s)) \<subseteq> insert sep {c. P c}"
proof (induction sep P s rule: groups.induct)
  case (1 sep P s)
  show ?case
  proof (cases "\<exists>c d t. s = c # d # t \<and> c = sep \<and> P d")
    case True
    then obtain d t where s: "s = sep # d # t" "P d" by blast
    have "set (fst (groups sep P (dropWhile P t))) \<subseteq> insert sep {c. P c}"
      using "1.IH" [of sep "d # t" d t] s by simp
    moreover have "set (takeWhile P t) \<subseteq> {c. P c}" by (auto dest: set_takeWhileD)
    ultimately show ?thesis using s by auto
  next
    case False
    then show ?thesis by (cases s rule: groups_cases) auto
  qed
qed

lemma groups_head: "\<not> P sep \<Longrightarrow> fst (groups sep P s) = [] \<or> \<not> P (hd (fst (groups sep P s)))"
  by (cases s rule: groups_cases) auto

lemma split_run:
  assumes "m = [] \<or> \<not> P (hd m)"
  shows "takeWhile P (takeWhile P s @ m) = takeWhile P s" "dropWhile P (takeWhile P s @ m) = m"
proof -
  have p: "\<And>x. x \<in> set (takeWhile P s) \<Longrightarrow> P x" by (auto dest: set_takeWhileD)
  show "takeWhile P (takeWhile P s @ m) = takeWhile P s"
    using assms p by (cases m) (simp_all add: takeWhile_append2)
  show "dropWhile P (takeWhile P s @ m) = m"
    using assms p by (cases m) (simp_all add: dropWhile_append2)
qed

lemma takeWhile_hd: "takeWhile P s \<noteq> [] \<Longrightarrow> s \<noteq> [] \<and> P (hd s)"
  by (cases s) (auto split: if_splits)

lemma groups_again: "\<not> P sep \<Longrightarrow> groups sep P (fst (groups sep P s)) = (fst (groups sep P s), [])"
proof (induction sep P s rule: groups.induct)
  case (1 sep P s)
  show ?case
  proof (cases "\<exists>c d t. s = c # d # t \<and> c = sep \<and> P d")
    case True
    then obtain d t where s: "s = sep # d # t" "P d" by blast
    let ?m = "fst (groups sep P (dropWhile P t))"
    have again: "groups sep P ?m = (?m, [])"
      using "1.IH" [of sep "d # t" d t] s "1.prems" by simp
    have hd: "?m = [] \<or> \<not> P (hd ?m)" using "1.prems" by (rule groups_head)
    then show ?thesis using s again split_run [where P = P and m = ?m and s = t, OF hd] by simp
  next
    case False
    then show ?thesis by (cases s rule: groups_cases) auto
  qed
qed

lemma run_groups_again:
  assumes "\<not> P sep" and "run_groups P sep s = (run, m, r)"
  shows "run_groups P sep (run @ m) = (run, m, []) \<and> run @ m @ r = s \<and> set (run @ m) \<subseteq> insert sep {c. P c}"
proof -
  from assms(2) have run: "run = takeWhile P s" and m: "m = fst (groups sep P (dropWhile P s))"
    and r: "r = snd (groups sep P (dropWhile P s))" by (auto simp: run_groups_def)
  have hd: "m = [] \<or> \<not> P (hd m)" unfolding m using assms(1) by (rule groups_head)
  have "takeWhile P (run @ m) = run \<and> dropWhile P (run @ m) = m"
    unfolding run using split_run [where P = P and m = m and s = s, OF hd] by simp
  moreover have "run @ m @ r = s" unfolding run m r by (simp add: groups_split)
  moreover have "set run \<subseteq> {c. P c}" unfolding run by (auto dest: set_takeWhileD)
  ultimately show ?thesis
    using groups_again [where P = P and sep = sep and s = "dropWhile P s", OF assms(1)] groups_chars [of sep P "dropWhile P s"]
    by (auto simp: run_groups_def m)
qed

lemma run_groups_absent: "sep \<notin> set s \<Longrightarrow> run_groups P sep s = (takeWhile P s, [], dropWhile P s)"
  using set_dropWhile_subset [of P s] by (auto simp: run_groups_def intro!: groups_absent)

lemma sep_facts: "\<not> is_digit 46" "\<not> lalnum 95" "\<not> lalnum 39" "\<not> lalnum 46"
  by (simp_all add: lalnum_def char_defs)

definition word_char :: "int \<Rightarrow> bool" where
  "word_char c \<longleftrightarrow> lalnum c \<or> c = 46 \<or> c = 95 \<or> c = 39"

text \<open>The three ways \<open>match_word\<close> succeeds, with what they mean for the text that was matched.\<close>

lemma match_word_cases:
  assumes "lalnum (hd s)" "s \<noteq> []" and mw: "match_word s = (t, r)"
  shows "t @ r = s \<and> t \<noteq> [] \<and> lalnum (hd t) \<and> list_all word_char t \<and> match_word t = (t, [])"
proof -
  obtain a ma ra where A: "run_groups is_digit 46 s = (a, ma, ra)" by (cases "run_groups is_digit 46 s")
  obtain b mb rb where B: "run_groups lalnum 95 s = (b, mb, rb)" by (cases "run_groups lalnum 95 s")
  obtain c mc rc where C: "run_groups lalnum 39 s = (c, mc, rc)" by (cases "run_groups lalnum 39 s")
  note again = run_groups_again [OF sep_facts(1) A] run_groups_again [OF sep_facts(2) B]
    run_groups_again [OF sep_facts(3) C]
  have digits: "set (a @ ma) \<subseteq> insert 46 {c. lalnum c}"
    using again(1) by (auto simp: lalnum_def)
  have b: "b \<noteq> []" "c \<noteq> []" using assms(1,2) B C by (cases s; auto simp: run_groups_def)+
  consider (num) "a \<noteq> []" "ma \<noteq> []" "t = a @ ma" "r = ra"
    | (under) "a = [] \<or> ma = []" "mb \<noteq> []" "t = b @ mb" "r = rb"
    | (plain) "a = [] \<or> ma = []" "mb = []" "t = c @ mc" "r = rc"
    using mw A B C by (auto simp: match_word_def split: if_splits)
  then have "t @ r = s \<and> t \<noteq> [] \<and> set t \<subseteq> {c. word_char c} \<and> match_word t = (t, [])"
  proof cases
    case num
    with again(1) digits show ?thesis by (auto simp: match_word_def word_char_def)
  next
    case under
    have chars: "set t \<subseteq> insert 95 {c. lalnum c}" using again(2) under by simp
    then have "46 \<notin> set t" by (auto simp: lalnum_def char_defs)
    then have "run_groups is_digit 46 t = (takeWhile is_digit t, [], dropWhile is_digit t)"
      by (rule run_groups_absent)
    with again(2) under b chars show ?thesis by (auto simp: match_word_def word_char_def)
  next
    case plain
    have chars: "set t \<subseteq> insert 39 {c. lalnum c}" using again(3) plain by simp
    then have "46 \<notin> set t" "95 \<notin> set t" by (auto simp: lalnum_def char_defs)
    then have "run_groups is_digit 46 t = (takeWhile is_digit t, [], dropWhile is_digit t)"
      "run_groups lalnum 95 t = (takeWhile lalnum t, [], dropWhile lalnum t)"
      by (simp_all add: run_groups_absent)
    with again(3) plain b chars show ?thesis by (auto simp: match_word_def word_char_def)
  qed
  then show ?thesis using assms(1) by (auto simp: list_all_iff)
qed

lemma find_words_facts:
  "concat (map (filter lalnum) (find_words s)) = filter lalnum s \<and>
   list_all (\<lambda>t. t \<noteq> [] \<and> lalnum (hd t) \<and> list_all word_char t \<and> find_words t = [t]) (find_words s)"
proof (induction s rule: find_words.induct)
  case 1
  then show ?case by simp
next
  case (2 c s)
  show ?case
  proof (cases "lalnum c")
    case False
    with 2 show ?thesis by simp
  next
    case True
    obtain t r where tr: "match_word (c # s) = (t, r)" by (cases "match_word (c # s)")
    have t: "t @ r = c # s" "t \<noteq> []" "lalnum (hd t)" "list_all word_char t" "match_word t = (t, [])"
      using match_word_cases [OF _ _ tr] True by auto
    obtain d t' where dt: "t = d # t'" using t(2) by (cases t) auto
    have self: "find_words t = [t]" using t(3,5) unfolding dt by simp
    have fw: "find_words (c # s) = t # find_words r" using True tr by simp
    have "concat (map (filter lalnum) (find_words r)) = filter lalnum r \<and>
      list_all (\<lambda>t. t \<noteq> [] \<and> lalnum (hd t) \<and> list_all word_char t \<and> find_words t = [t]) (find_words r)"
      using 2 True tr by simp
    moreover have "filter lalnum (c # s) = filter lalnum t @ filter lalnum r"
      by (simp only: t(1) [symmetric] filter_append)
    ultimately show ?thesis unfolding fw using t(2,3,4) self by simp
  qed
qed

lemma find_words_one: "find_words s = [s] \<longleftrightarrow> s \<noteq> [] \<and> lalnum (hd s) \<and> match_word s = (s, [])"
proof (cases s)
  case (Cons x xs)
  obtain t r where tr: "match_word s = (t, r)" by (cases "match_word s")
  have "list_all (\<lambda>t. lalnum (hd t)) (find_words s)"
    using find_words_facts [of s] unfolding list_all_iff by blast
  then have x: "lalnum x" if "find_words s = [s]"
    unfolding that by (simp add: Cons)
  show ?thesis
  proof (cases "lalnum x")
    case True
    then have fw: "find_words s = t # find_words r" using Cons tr by simp
    have ne: "s \<noteq> []" "lalnum (hd s)" using True Cons by simp_all
    have eq: "t @ r = s" using match_word_cases [OF ne(2,1) tr] by simp
    show ?thesis
    proof
      assume "find_words s = [s]"
      then have ts: "t = s" by (simp only: fw list.inject)
      with eq have "r = []" by simp
      then show "s \<noteq> [] \<and> lalnum (hd s) \<and> match_word s = (s, [])" by (simp only: tr ts ne simp_thms)
    next
      assume "s \<noteq> [] \<and> lalnum (hd s) \<and> match_word s = (s, [])"
      then have "t = s" "r = []" by (simp_all only: tr prod.inject)
      then show "find_words s = [s]" by (simp only: fw find_words.simps)
    qed
  next
    case False
    then have "find_words s \<noteq> [s]" using x by blast
    moreover have "\<not> lalnum (hd s)" using False Cons by simp
    ultimately show ?thesis by blast
  qed
qed simp

text \<open>The scanner finds exactly the word characters of the text: in order, none lost and none
  invented; every token is non-empty, consists of word characters and separators inside a word, and
  scanned on its own is a single token again.\<close>

theorem find_words_sound:
  "concat (map (filter lalnum) (find_words s)) = filter lalnum s \<and>
   list_all (\<lambda>t. t \<noteq> [] \<and> lalnum (hd t) \<and> list_all word_char t \<and> find_words t = [t]) (find_words s)"
  by (rule find_words_facts)

text \<open>\<open>is_ascii_word\<close> agrees with the scanner: a string is one supported word iff it is ASCII and
  the scanner returns its lowercase form as the only token.\<close>

theorem is_ascii_word_iff:
  "is_ascii_word U text \<longleftrightarrow> is_ascii text \<and> find_words (u_lower U text) = [u_lower U text]"
proof -
  let ?s = "u_lower U text"
  obtain a ma ra where A: "run_groups is_digit 46 ?s = (a, ma, ra)" by (cases "run_groups is_digit 46 ?s")
  obtain b mb rb where B: "run_groups lalnum 95 ?s = (b, mb, rb)" by (cases "run_groups lalnum 95 ?s")
  obtain c mc rc where C: "run_groups lalnum 39 ?s = (c, mc, rc)" by (cases "run_groups lalnum 39 ?s")
  note again = run_groups_again [OF sep_facts(1) A] run_groups_again [OF sep_facts(2) B]
    run_groups_again [OF sep_facts(3) C]
  have a: "a = takeWhile is_digit ?s" and b: "b = takeWhile lalnum ?s" and c: "c = takeWhile lalnum ?s"
    using A B C by (simp_all add: run_groups_def)
  have starts: "a \<noteq> [] \<or> b \<noteq> [] \<or> c \<noteq> [] \<Longrightarrow> ?s \<noteq> [] \<and> lalnum (hd ?s)"
    using takeWhile_hd [of is_digit ?s] takeWhile_hd [of lalnum ?s] by (auto simp: a b c lalnum_def)
  have bc: "b \<noteq> [] \<and> c \<noteq> []" if "?s \<noteq> []" "lalnum (hd ?s)"
    using that by (cases ?s) (simp_all add: b c)
  have no_dot: "ma = []" if "46 \<notin> set ?s"
    using run_groups_absent [OF that, of is_digit] A by simp
  have no_under: "mb = []" if "95 \<notin> set ?s"
    using run_groups_absent [OF that, of lalnum] B by simp
  have under: "46 \<notin> set ?s" if "rb = []"
  proof -
    have eq: "?s = b @ mb" using again(2) that by simp
    have "46 \<notin> set (b @ mb)" using again(2) sep_facts(4) by auto
    then show ?thesis unfolding eq .
  qed
  have plain: "46 \<notin> set ?s" "95 \<notin> set ?s" if "rc = []"
  proof -
    have eq: "?s = c @ mc" using again(3) that by simp
    have "46 \<notin> set (c @ mc) \<and> 95 \<notin> set (c @ mc)" using again(3) sep_facts by auto
    then show "46 \<notin> set ?s" "95 \<notin> set ?s" unfolding eq by blast+
  qed
  have "(a \<noteq> [] \<and> ma \<noteq> [] \<and> ra = [] \<or> b \<noteq> [] \<and> mb \<noteq> [] \<and> rb = [] \<or> c \<noteq> [] \<and> rc = []) \<longleftrightarrow>
      ?s \<noteq> [] \<and> lalnum (hd ?s) \<and> match_word ?s = (?s, [])"
  proof
    assume "a \<noteq> [] \<and> ma \<noteq> [] \<and> ra = [] \<or> b \<noteq> [] \<and> mb \<noteq> [] \<and> rb = [] \<or> c \<noteq> [] \<and> rc = []"
    then show "?s \<noteq> [] \<and> lalnum (hd ?s) \<and> match_word ?s = (?s, [])"
      using starts no_dot no_under under plain again A B C by (auto simp: match_word_def)
  next
    assume "?s \<noteq> [] \<and> lalnum (hd ?s) \<and> match_word ?s = (?s, [])"
    then show "a \<noteq> [] \<and> ma \<noteq> [] \<and> ra = [] \<or> b \<noteq> [] \<and> mb \<noteq> [] \<and> rb = [] \<or> c \<noteq> [] \<and> rc = []"
      using bc A B C by (auto simp: match_word_def split: if_splits)
  qed
  then show ?thesis
    unfolding find_words_one is_ascii_word_def Let_def A B C by auto
qed

lemma tokenize_ascii: "is_ascii text \<Longrightarrow> tokenize U text = Inr (tokenize_query U text)"
proof -
  assume "is_ascii text"
  moreover from this have "map (\<lambda>c. if c < 128 then c else 32) text = text"
    by (intro map_idI) (auto simp: is_ascii_set)
  ultimately show ?thesis by (simp add: tokenize_def ascii_words_def tokenize_query_def Let_def)
qed

text \<open>Policy text and query text are tokenized alike: on ASCII input \<open>tokenize\<close> and
  \<open>tokenize_query\<close> return the same stems; on other text only \<open>tokenize\<close> raises.\<close>

theorem tokenize_agrees:
  "tokenize U text = (if is_ascii text then Inr (tokenize_query U text)
     else Inl (ValueError ''BM25 text {!r} is outside XSR's exact ASCII tokenizer domain'' [text]))"
  by (simp add: tokenize_ascii) (simp add: tokenize_def ascii_words_def)


subsection \<open>What stemming can do to a word\<close>

text \<open>
  Every step cuts the end of the word and may append a replacement that is not longer than the cut.
  \<open>shorter w v\<close> is what holds of the input and the output of a step; it is transitive, so it holds
  of the composition.
\<close>

definition shorter :: "ustr \<Rightarrow> ustr \<Rightarrow> bool" where
  "shorter w v \<longleftrightarrow> length v \<le> length w \<and> (\<forall>c \<in> set v. c \<in> set w \<or> is_lower c) \<and> (w \<noteq> [] \<longrightarrow> v \<noteq> [])"

lemma shorter_refl [simp]: "shorter w w"
  by (simp add: shorter_def)

lemma shorter_trans: "shorter w v \<Longrightarrow> shorter v x \<Longrightarrow> shorter w x"
  unfolding shorter_def by (meson le_trans)

lemma shorter_cut:
  assumes "n < length w" "length r \<le> n" "list_all is_lower r"
  shows "shorter w (drop_last n w @ r)"
proof -
  have "set (drop_last n w) \<subseteq> set w" by (rule set_drop_last)
  moreover have "drop_last n w \<noteq> []" using assms(1) by (auto simp: drop_last_def)
  ultimately show ?thesis using assms by (auto simp: shorter_def list_all_iff)
qed

lemma shorter_drop: "n < length w \<Longrightarrow> shorter w (drop_last n w)"
  using shorter_cut [of n w "[]"] by simp

lemma ends_any_length: "ends_any sfx w \<Longrightarrow> list_all (\<lambda>s. n \<le> length s) sfx \<Longrightarrow> n \<le> length w"
  by (auto simp: ends_any_def list_ex_iff list_all_iff dest!: ends_with_length)

lemma find_Some_mem: "find P xs = Some x \<Longrightarrow> x \<in> set xs \<and> P x"
  by (induction xs) (auto split: if_splits)

lemma find_ends_length: "find (\<lambda>s. ends_with w s \<and> P s) sfx = Some s \<Longrightarrow> length s \<le> length w \<and> s \<in> set sfx \<and> P s"
  by (drule find_Some_mem) (auto dest: ends_with_length)

lemma has_vowel_nonempty: "has_vowel w \<Longrightarrow> w \<noteq> []"
  by (auto simp: has_vowel_def)

lemma shorter_step1a: "shorter w (step1a w)"
proof -
  have v: "shorter w (drop_last 1 w)" if "has_vowel (drop_last 2 w)"
    using has_vowel_nonempty [OF that] by (intro shorter_drop) (simp add: drop_last_def)
  have a: "shorter w (drop_last 2 w)" if "ends_any [''sses''] w"
    using ends_any_length [OF that, of 4] by (intro shorter_drop) simp
  have b: "shorter w (drop_last 1 w)" if "ends_any [''ied'', ''ies''] w"
    using ends_any_length [OF that, of 3] by (intro shorter_drop) simp
  have c: "shorter w (drop_last 2 w)" if "4 < length w"
    using that by (intro shorter_drop) simp
  show ?thesis unfolding step1a_def using v a b c by (simp only: if_split shorter_refl simp_thms) blast
qed

lemma shorter_step1b:
  assumes "0 < r1" shows "shorter w (step1b r1 w)"
proof (cases "ends_any [''eedly''] w \<or> ends_any [''eed''] w")
  case True
  have a: "shorter w (drop_last 3 w)" if "ends_any [''eedly''] w"
    using ends_any_length [OF that, of 5] by (intro shorter_drop) simp
  have b: "shorter w (drop_last 1 w)" if "ends_any [''eed''] w"
    using ends_any_length [OF that, of 3] by (intro shorter_drop) simp
  show ?thesis
  proof (cases "ends_any [''eedly''] w")
    case True
    with a [OF True] show ?thesis by (simp only: step1b_def if_True shorter_refl split: if_split) blast
  next
    case False
    with True have e: "ends_any [''eed''] w" by blast
    with b [OF e] False show ?thesis
      by (simp only: step1b_def if_True if_False shorter_refl split: if_split) blast
  qed
next
  case False
  let ?sfx = "map u [''ingly'', ''edly'', ''ing'', ''ed'']"
  show ?thesis
  proof (cases "find (\<lambda>s. ends_with w s \<and> has_vowel (drop_last (length s) w)) ?sfx")
    case None
    with False show ?thesis by (simp add: step1b_def)
  next
    case (Some s)
    let ?v = "drop_last (length s) w"
    have s: "length s \<le> length w" "s \<in> set ?sfx" "?v \<noteq> []"
      using find_ends_length [OF Some] has_vowel_nonempty by blast+
    have two: "2 \<le> length s" using s(2) by auto
    have n: "length s < length w" using s(3) by (simp add: drop_last_def)
    have double: "1 < length ?v" if "list_ex (ends_with ?v) DOUBLES"
      using that by (auto simp: DOUBLES_def dest!: ends_with_length)
    have "shorter w ?v" using n by (rule shorter_drop)
    moreover have "shorter w (?v @ u ''e'')"
      using n two by (intro shorter_cut) (simp_all add: u_def is_lower_def)
    moreover have "shorter ?v (drop_last 1 ?v)" if "list_ex (ends_with ?v) DOUBLES"
      using double [OF that] by (rule shorter_drop)
    ultimately show ?thesis
      using Some False by (auto simp: step1b_def Let_def intro: shorter_trans)
  qed
qed

lemma shorter_step1c: "shorter w (step1c w)"
  using shorter_cut [of 1 w "u ''i''"] by (simp add: step1c_def u_def is_lower_def)

lemma STEP2_shrinks: "list_all (\<lambda>(s, r). length r \<le> length s \<and> list_all is_lower r) STEP2"
  by code_simp

lemma STEP3_shrinks: "list_all (\<lambda>(s, r, b). length r \<le> length s \<and> list_all is_lower r) STEP3"
  by code_simp

lemma shorter_step2:
  assumes "0 < r1" shows "shorter w (step2 r1 w)"
proof (cases "find (\<lambda>(s, r). ends_with w s) STEP2")
  case None
  then show ?thesis
    using assms ends_any_length [of "[''ogi'']" w 3] by (auto simp: step2_def intro!: shorter_drop)
next
  case (Some p)
  obtain s r where p: "p = (s, r)" by (cases p)
  with find_Some_mem [OF Some] have "ends_with w s" "(s, r) \<in> set STEP2" by auto
  then have "length s \<le> length w" "length r \<le> length s" "list_all is_lower r"
    using STEP2_shrinks by (auto simp: list_all_iff dest: ends_with_length)
  with Some p assms show ?thesis by (auto simp: step2_def intro!: shorter_cut)
qed

lemma shorter_step3:
  assumes "0 < r1" "r1 \<le> r2" shows "shorter w (step3 r1 r2 w)"
proof (cases "find (\<lambda>(s, r, b). ends_with w s) STEP3")
  case None
  then show ?thesis by (simp add: step3_def)
next
  case (Some p)
  obtain s r b where p: "p = (s, r, b)" by (cases p)
  with find_Some_mem [OF Some] have "ends_with w s" "(s, r, b) \<in> set STEP3" by auto
  then have "length s \<le> length w" "length r \<le> length s" "list_all is_lower r"
    using STEP3_shrinks by (auto simp: list_all_iff dest: ends_with_length)
  with Some p assms show ?thesis by (auto simp: step3_def intro!: shorter_cut)
qed

lemma shorter_step4:
  assumes "0 < r2" shows "shorter w (step4 r2 w)"
proof (cases "find (ends_with w) STEP4")
  case None
  with assms show ?thesis by (auto simp: step4_def intro!: shorter_drop)
next
  case (Some s)
  from find_Some_mem [OF this] have "length s \<le> length w" by (auto dest: ends_with_length)
  with Some assms show ?thesis by (auto simp: step4_def intro!: shorter_drop)
qed

lemma shorter_step5:
  assumes "0 < r1" "r1 \<le> r2" shows "shorter w (step5 r1 r2 w)"
  using assms ends_any_length [of "[''ll'']" w 2]
  by (auto simp: step5_def Let_def intro!: shorter_drop)

lemma region_from_bounds: "i \<le> length w \<Longrightarrow> i \<le> region_from i w \<and> region_from i w \<le> length w"
  by (auto simp: region_from_def find_Some_iff split: option.splits)

text \<open>The regions lie inside the word, in order.\<close>

lemma regions_bounds:
  assumes "w \<noteq> []" "regions w = (r1, r2)"
  shows "0 < r1 \<and> r1 \<le> r2 \<and> r2 \<le> length w"
proof -
  have one: "1 \<le> length w" using assms(1) by (cases w) simp_all
  have "starts_with w (u ''gener'') \<or> starts_with w (u ''arsen'') \<Longrightarrow> 5 \<le> length w"
    "starts_with w (u ''commun'') \<Longrightarrow> 6 \<le> length w"
    by (auto simp: starts_with_def dest!: prefix_length_le)
  then have r1: "0 < r1" "r1 \<le> length w"
    using assms(2) region_from_bounds [OF one] by (auto simp: regions_def Let_def split: if_splits)
  have r2: "r2 = region_from (r1 + 1) w"
    using assms(2) by (auto simp: regions_def Let_def)
  show ?thesis
  proof (cases "r1 = length w")
    case True
    then show ?thesis using r1 r2 by (simp add: region_from_def)
  next
    case False
    then show ?thesis using r1 r2 region_from_bounds [of "r1 + 1" w] by simp
  qed
qed

lemma shorter_mark: "set (mark_from b w) \<subseteq> insert 89 (set w) \<and> length (mark_from b w) = length w"
  by (induction w arbitrary: b) (auto simp: Let_def)

lemma shorter_step0: "hd w \<noteq> 39 \<Longrightarrow> shorter w (step0 w)"
proof (cases "find (ends_with w) [[39, 115, 39], [39, 115], [39]]")
  case None
  then show ?thesis by (simp add: step0_def)
next
  case (Some s)
  assume h: "hd w \<noteq> 39"
  from find_Some_mem [OF Some] have "ends_with w s" and s: "s = [39, 115, 39] \<or> s = [39, 115] \<or> s = [39]"
    by auto
  then obtain p where "w = p @ s" by (auto simp: ends_with_def suffix_def)
  with h s have "length s < length w" by (cases p) auto
  with Some show ?thesis by (simp add: step0_def shorter_drop)
qed

lemma EXCEPTIONS_shrink:
  "list_all (\<lambda>(w, s). length s \<le> length w \<and> s \<noteq> [] \<and> list_all is_lower s) EXCEPTIONS"
  by code_simp

lemma unmark_facts: "length (unmark w) = length w" "set (unmark w) \<subseteq> insert 121 (set w - {89})"
  by (auto simp: unmark_def)

lemma shorter_unmark_mark:
  assumes "shorter (mark_y w) v" shows "shorter w (unmark v)"
proof -
  have "set (mark_y w) \<subseteq> insert 89 (set w)" "length (mark_y w) = length w"
    using shorter_mark [of None w] by (simp_all add: mark_y_def)
  moreover have "is_lower 121" by (simp add: is_lower_def)
  moreover have "set v \<subseteq> set (mark_y w) \<union> {c. is_lower c}" "length v \<le> length (mark_y w)"
    "mark_y w \<noteq> [] \<longrightarrow> v \<noteq> []"
    using assms by (auto simp: shorter_def)
  ultimately have "set (unmark v) \<subseteq> set w \<union> {c. is_lower c}" "length (unmark v) \<le> length w"
    "w \<noteq> [] \<longrightarrow> unmark v \<noteq> []"
    using unmark_facts [of v] by (blast, simp, metis length_0_conv)
  then show ?thesis unfolding shorter_def by blast
qed

lemma mark_hd: "w \<noteq> [] \<Longrightarrow> hd (mark_y w) = hd w \<or> hd (mark_y w) = 89"
  by (cases w) (auto simp: mark_y_def Let_def)

text \<open>The stem of a token is never empty and never longer than the token, and it consists of
  characters of the token and lowercase letters; in particular the mark for a consonantal y never
  leaks out of the stemmer.\<close>

theorem stem_english_shape:
  assumes "w \<noteq> []" and "hd w \<noteq> 39"
  shows "stem_english w \<noteq> [] \<and> length (stem_english w) \<le> length w \<and>
    (\<forall>c \<in> set (stem_english w). c \<in> set w \<or> is_lower c) \<and> (89 \<notin> set w \<longrightarrow> 89 \<notin> set (stem_english w))"
proof -
  have "shorter w (stem_english w)"
  proof (cases "length w \<le> 2 \<or> dict_get EXCEPTIONS w \<noteq> None")
    case True
    have "shorter w s" if "dict_get EXCEPTIONS w = Some s" for s
      using map_of_SomeD [OF that] EXCEPTIONS_shrink assms(1) by (auto simp: list_all_iff shorter_def)
    with True assms show ?thesis by (auto simp: stem_english_def starts_with_def prefix_def)
  next
    case False
    let ?m = "mark_y w"
    obtain r1 r2 where reg: "regions ?m = (r1, r2)" by (cases "regions ?m")
    have len: "length ?m = length w" using shorter_mark [of None w] by (simp add: mark_y_def)
    have m: "?m \<noteq> []" using len assms(1) by auto
    have r: "0 < r1" "r1 \<le> r2" using regions_bounds [OF m reg] by auto
    have "hd ?m \<noteq> 39" using mark_hd [OF assms(1)] assms(2) by auto
    then have a: "shorter ?m (step1a (step0 ?m))"
      by (blast intro: shorter_trans shorter_step0 shorter_step1a)
    let ?a = "step1a (step0 ?m)"
    have "shorter ?a (step5 r1 r2 (step4 r2 (step3 r1 r2 (step2 r1 (step1c (step1b r1 ?a))))))"
      using r by (intro shorter_trans [OF shorter_step1b shorter_trans [OF shorter_step1c
        shorter_trans [OF shorter_step2 shorter_trans [OF shorter_step3
        shorter_trans [OF shorter_step4 shorter_step5]]]]]) simp_all
    then have "shorter ?m (step5 r1 r2 (step4 r2 (step3 r1 r2 (step2 r1 (step1c (step1b r1 ?a))))))"
      using a shorter_trans by blast
    moreover have "stem_english w = unmark ?a \<or> stem_english w =
        unmark (step5 r1 r2 (step4 r2 (step3 r1 r2 (step2 r1 (step1c (step1b r1 ?a))))))"
      using False assms reg by (auto simp: stem_english_def starts_with_def prefix_def Let_def)
    ultimately show ?thesis using a shorter_unmark_mark by metis
  qed
  moreover have "\<not> is_lower 89" by (simp add: is_lower_def)
  ultimately show ?thesis using assms(1) unfolding shorter_def by blast
qed

lemma stem_english_shape_witness: "stem_english (u ''hopping'') \<noteq> [] \<and> stem_english (u ''hopping'') = u ''hop''"
proof -
  have "stem_english (u ''hopping'') = u ''hop''" by code_simp
  then show ?thesis using stem_english_shape [of "u ''hopping''"] by (simp add: u_def)
qed

text \<open>A few stems, computed.\<close>

lemma stem_examples:
  "map stem_english (map u [''generalization'', ''knives'', ''skies'', ''relational'', ''happily'', ''yellow'']) =
   map u [''general'', ''knive'', ''sky'', ''relat'', ''happili'', ''yellow'']"
  by code_simp

end
