(* ===== verification/Bm25Policy.thy ===== *)
theory Bm25Policy
  imports KeywordPolicy Tokenizer Floats "HOL-Library.Word"
begin

section \<open>The BM25 policy\<close>

text \<open>
  benchmarks/policy/generate_bm25_policy_header.py: the corpus of every bm25 rule is tokenized and
  turned into fixed-point term weights per document, keyed by a 32-bit hash, together with the
  vocabulary aliases of the stems and the stop words; \<open>emit\<close> writes the tables as C.

  The vocabulary file enters as its decompressed text and the SHA-256 digest the code compares. A
  Python set becomes a list without duplicates; the code only looks sets up, sorts what it builds
  from them, or reports a collision between two of their elements, in which case which pair is
  named depends on the iteration order and is not part of the model's claim.
\<close>

unbundle bit_operations_syntax

subsection \<open>Constants\<close>

definition MAX_RULES :: nat where "MAX_RULES = 8"
definition MAX_DOCUMENTS :: nat where "MAX_DOCUMENTS = 16"
definition MAX_DOCUMENT_TOKENS :: nat where "MAX_DOCUMENT_TOKENS = 16"
definition MAX_CORPUS_TERMS :: nat where "MAX_CORPUS_TERMS = 128"
definition MAX_TERMS :: nat where "MAX_TERMS = 2048"
definition MAX_TOKEN_BYTES :: nat where "MAX_TOKEN_BYTES = 64"
definition SCORE_SCALE :: int where "SCORE_SCALE = 1000000000"
definition MAX_QUERY_TOKENS :: int where "MAX_QUERY_TOKENS = 131072"
definition MAX_FIXED_SCORE :: int where "MAX_FIXED_SCORE = 2 ^ 63 - 1"
definition MAX_FIXED_TERM_WEIGHT :: int where "MAX_FIXED_TERM_WEIGHT = MAX_FIXED_SCORE div MAX_QUERY_TOKENS"

lemmas bm25_limits = MAX_RULES_def MAX_DOCUMENTS_def MAX_DOCUMENT_TOKENS_def MAX_CORPUS_TERMS_def
  MAX_TERMS_def MAX_TOKEN_BYTES_def

definition BM25_ROUTES :: "(ustr \<times> ustr) list" where
  "BM25_ROUTES = [(u ''coding'', u ''XDP_ROUTE_CODING''), (u ''math'', u ''XDP_ROUTE_MATH''),
     (u ''qa'', u ''XDP_ROUTE_QA''), (u ''writing'', u ''XDP_ROUTE_WRITING'')]"

definition BM25_OPERATORS :: "(ustr \<times> ustr) list" where
  "BM25_OPERATORS = [(u ''OR'', u ''XDP_BM25_OR''), (u ''AND'', u ''XDP_BM25_AND''), (u ''NOR'', u ''XDP_BM25_NOR'')]"

subsection \<open>Hashes, tokens and thresholds\<close>

definition token_hash :: "ustr \<Rightarrow> int" where
  "token_hash token = foldl (\<lambda>v byte. ((v XOR byte) * 16777619) AND 0xFFFFFFFF) 2166136261 token"

definition token_bytes :: "ustr \<Rightarrow> ustr res" where
  "token_bytes token = (if \<not> is_ascii token then Inl UnicodeEncodeErr
     else if MAX_TOKEN_BYTES < length token
     then Inl (ValueError ''BM25 token {!r} is {} bytes; maximum is 64'' [token, show_nat (length token)])
     else Inr token)"

definition threshold_fixed :: "unidb \<Rightarrow> pyval \<Rightarrow> int res" where
  "threshold_fixed U v = bind_res (decimal_fixed SCORE_SCALE (map (ascii_digit U) (py_str U v))) (\<lambda>r.
     bind_res (ensure (0 \<le> r \<and> r \<le> MAX_FIXED_SCORE)
       (ValueError ''bm25_threshold {!r} exceeds the Q1e9 signed-64 accumulator bound'' [py_repr U v])) (\<lambda>_.
     Inr r))"

subsection \<open>The vocabulary\<close>

definition VOCABULARY_SHA256 :: ustr where
  "VOCABULARY_SHA256 = u ''9f513f1ceadb6a01c5485b7dbdfd5118dc66cd70b59cae2851292112d4066a32''"

record vocabulary =
  vo_digest :: ustr
  vo_text :: ustr

definition set_add :: "'a \<Rightarrow> 'a list \<Rightarrow> 'a list" where
  "set_add x xs = (if x \<in> set xs then xs else xs @ [x])"

definition vocabulary_line :: "unidb \<Rightarrow> ustr \<Rightarrow> (ustr, ustr list) dict \<Rightarrow> (ustr, ustr list) dict" where
  "vocabulary_line U line index = (let word = u_lower U (py_strip line) in
     if word \<noteq> [] \<and> is_ascii_word U word
     then dict_set (stem_english word) (set_add word (get_default index (stem_english word) [])) index
     else index)"

definition vocabulary_by_stem :: "unidb \<Rightarrow> vocabulary \<Rightarrow> (ustr, ustr list) dict res" where
  "vocabulary_by_stem U V = (if vo_digest V \<noteq> VOCABULARY_SHA256
     then Inl (ValueError ''pinned English vocabulary has SHA-256 {}'' [vo_digest V])
     else Inr (fold (vocabulary_line U) (splitlines (vo_text V)) []))"

definition possessive :: "ustr \<Rightarrow> ustr" where
  "possessive surface = surface @ [39, 115]"

definition add_possessive :: "ustr \<Rightarrow> ustr \<Rightarrow> ustr list \<Rightarrow> ustr list" where
  "add_possessive stem surface aliases = (if 39 \<in> set surface then aliases
     else if stem_english (possessive surface) = stem then set_add (possessive surface) aliases
     else aliases)"

definition vocabulary_aliases :: "(ustr, ustr list) dict \<Rightarrow> ustr \<Rightarrow> ustr list \<Rightarrow> ustr list" where
  "vocabulary_aliases index stem configured =
     (let aliases = set_add stem (fold set_add configured (get_default index stem []))
      in fold (add_possessive stem) aliases aliases)"

subsection \<open>Term weights\<close>

definition inverse_frequency :: "floatlib \<Rightarrow> nat \<Rightarrow> nat \<Rightarrow> rat" where
  "inverse_frequency L corpus_size df = f_log L (fadd 1
     (fdiv (fadd (of_int (int corpus_size - int df)) (1 / 2)) (fadd (of_nat df) (1 / 2))))"

definition term_frequency :: "nat \<Rightarrow> nat \<Rightarrow> rat \<Rightarrow> rat" where
  "term_frequency tf tokens avgdl =
     fdiv (fmul (of_nat tf) (binary64 (22 / 10)))
       (fadd (of_nat tf) (fmul (binary64 (12 / 10))
         (fadd (1 / 4) (fdiv (fmul (3 / 4) (of_nat tokens)) avgdl))))"

definition average_length :: "ustr list list \<Rightarrow> rat" where
  "average_length corpus = fdiv (of_nat (sum_list (map length corpus))) (of_nat (length corpus))"

definition document_frequency :: "ustr list list \<Rightarrow> (ustr, nat) dict" where
  "document_frequency corpus = counter (concat (map remdups corpus))"

definition term_weight :: "floatlib \<Rightarrow> ustr list list \<Rightarrow> ustr list \<Rightarrow> ustr \<Rightarrow> nat \<Rightarrow> int res" where
  "term_weight L corpus tokens token tf =
     decimal_fixed SCORE_SCALE (f_repr L (fmul
       (inverse_frequency L (length corpus) (get_default (document_frequency corpus) token 0))
       (term_frequency tf (length tokens) (average_length corpus))))"

subsection \<open>Parsing a policy\<close>

record bm25_rule =
  br_threshold :: int
  br_priority :: int
  br_route :: ustr
  br_operator :: ustr
  br_start :: nat
  br_count :: nat
  br_mask :: int

record bm25_document =
  bd_rule :: nat
  bd_threshold :: int

record bm25_state =
  b_rules :: "bm25_rule list"
  b_docs :: "bm25_document list"
  b_vectors :: "(int, int list) dict"
  b_tokens :: "(int, ustr) dict"
  b_surfaces :: "(ustr, ustr list) dict"

definition bm25_init :: bm25_state where
  "bm25_init = \<lparr>b_rules = [], b_docs = [], b_vectors = [], b_tokens = [], b_surfaces = []\<rparr>"

definition collision :: "ustr \<Rightarrow> ustr \<Rightarrow> pyerr" where
  "collision previous token = ValueError ''BM25 FNV-1a collision between {!r} and {!r}'' [previous, token]"

definition register_token :: "ustr \<Rightarrow> (int, ustr) dict \<Rightarrow> (int, ustr) dict res" where
  "register_token token d = (case setdefault d (token_hash token) token of (d', previous) \<Rightarrow>
     if previous \<noteq> token then Inl (collision previous token) else Inr d')"

definition add_surface :: "ustr \<Rightarrow> (ustr, ustr list) dict \<Rightarrow> (ustr, ustr list) dict" where
  "add_surface surface d = (case setdefault d (stem_english surface) [] of (d', s) \<Rightarrow>
     dict_set (stem_english surface) (set_add surface s) d')"

definition bm25_term ::
  "floatlib \<Rightarrow> ustr list list \<Rightarrow> ustr list \<Rightarrow> nat \<Rightarrow> ustr \<times> nat \<Rightarrow> bm25_state \<Rightarrow> bm25_state res" where
  "bm25_term L corpus tokens doc_id item st = (case item of (token, tf) \<Rightarrow>
     bind_res (register_token token (b_tokens st)) (\<lambda>toks.
     bind_res (term_weight L corpus tokens token tf) (\<lambda>weight.
     bind_res (ensure (0 < weight \<and> weight \<le> MAX_FIXED_TERM_WEIGHT)
       (ValueError ''BM25 term weight for {!r} exceeds the Q1e9 signed-64 accumulator bound'' [token])) (\<lambda>_.
     case setdefault (b_vectors st) (token_hash token) (replicate MAX_DOCUMENTS 0) of (vecs, vector) \<Rightarrow>
     bind_res (ensure (doc_id < length vector) IndexErr) (\<lambda>_.
     Inr (st\<lparr>b_tokens := toks, b_vectors := dict_set (token_hash token) (vector[doc_id := weight]) vecs\<rparr>))))))"

definition bm25_document_step ::
  "floatlib \<Rightarrow> ustr list list \<Rightarrow> int \<Rightarrow> ustr list \<Rightarrow> bm25_state \<Rightarrow> bm25_state res" where
  "bm25_document_step L corpus threshold tokens st =
     fold_res (bm25_term L corpus tokens (length (b_docs st))) (counter tokens)
       (st\<lparr>b_docs := b_docs st @ [\<lparr>bd_rule = length (b_rules st), bd_threshold = threshold\<rparr>]\<rparr>)"

text \<open>The part of the loop body after the checks of the route, the operator and the keyword list.\<close>

definition bm25_keywords :: "unidb \<Rightarrow> floatlib \<Rightarrow> decisions \<Rightarrow> (ustr \<times> pyval) list \<Rightarrow> ustr \<Rightarrow> ustr \<Rightarrow> ustr \<Rightarrow>
    pyval list \<Rightarrow> bm25_state \<Rightarrow> bm25_state res" where
  "bm25_keywords U L dec s name route_name operator keywords st =
     bind_res (ensure (\<not> (MAX_RULES \<le> length (b_rules st) \<or> MAX_DOCUMENTS < length (b_docs st) + length keywords))
       (ValueError ''BM25 supports at most 8 rules and 16 keyword documents'' [])) (\<lambda>_.
     let doc_start = length (b_docs st) in
     bind_res (threshold_fixed U (dget_or s ''bm25_threshold'' (PFloat (u ''0.1'')))) (\<lambda>rule_threshold.
     bind_res (map_res (\<lambda>value. tokenize U (py_str U value)) keywords) (\<lambda>corpus.
     bind_res (map_res (\<lambda>value. ascii_words U (py_str U value)) keywords) (\<lambda>raw_corpus.
     bind_res (ensure (\<not> list_ex (\<lambda>tokens. tokens = []) corpus)
       (ValueError ''{}: every keyword must contain an ASCII alphanumeric token'' [name])) (\<lambda>_.
     bind_res (ensure (\<not> list_ex (\<lambda>tokens. MAX_DOCUMENT_TOKENS < length tokens) corpus)
       (ValueError ''{}: keyword documents support at most 16 tokens'' [name])) (\<lambda>_.
     bind_res (fold_res (bm25_document_step L corpus rule_threshold) corpus
         (st\<lparr>b_surfaces := fold (fold add_surface) raw_corpus (b_surfaces st)\<rparr>)) (\<lambda>st1.
     bind_res (py_int U (dget_or s ''priority'' (PInt 0))) (\<lambda>own_priority.
     bind_res (dict_index BM25_ROUTES route_name) (\<lambda>route_text.
     bind_res (dict_index BM25_OPERATORS operator) (\<lambda>operator_text.
     Inr (st1\<lparr>b_rules := b_rules st1 @ [\<lparr>br_threshold = rule_threshold,
       br_priority = get_default (snd dec) name own_priority,
       br_route = route_text, br_operator = operator_text,
       br_start = doc_start, br_count = length keywords,
       br_mask = (2 ^ length keywords - 1) * 2 ^ doc_start\<rparr>]\<rparr>)))))))))))"

definition bm25_signal :: "unidb \<Rightarrow> floatlib \<Rightarrow> decisions \<Rightarrow> pyval \<Rightarrow> bm25_state \<Rightarrow> bm25_state res" where
  "bm25_signal U L dec signal st = (case signal of
     PDict s \<Rightarrow>
      (if u_lower U (py_str U (dget_or s ''method'' (PStr []))) \<noteq> u ''bm25'' then Inr st
       else let name = py_str U (dget_or s ''name'' (PStr [])) in
       bind_res (signal_route_name U s (fst dec)) (\<lambda>route_name.
       bind_res (ensure (route_name \<in> set (dict_keys BM25_ROUTES))
         (ValueError ''{}: unsupported route {!r}'' [name, route_name])) (\<lambda>_.
       let operator = u_upper U (py_str U (dget_or s ''operator'' (PStr (u ''OR'')))) in
       bind_res (ensure (operator \<in> set (dict_keys BM25_OPERATORS))
         (ValueError ''{}: operator must be OR, AND, or NOR'' [name])) (\<lambda>_.
       case dget s ''keywords'' of
         PList (v # vs) \<Rightarrow> bm25_keywords U L dec s name route_name operator (v # vs) st
       | _ \<Rightarrow> Inl (ValueError ''{}: keywords must be a non-empty list'' [name])))))
   | _ \<Rightarrow> Inr st)"

subsection \<open>Aliases, stop words and the term table\<close>

record bm25_term_entry =
  bt_hash :: int
  bt_token :: ustr
  bt_weights :: "int list"
  bt_stopword :: bool

definition bm25_alias :: "int list \<Rightarrow> ustr \<Rightarrow> (int, ustr) dict \<times> (int, int list) dict \<Rightarrow>
    ((int, ustr) dict \<times> (int, int list) dict) res" where
  "bm25_alias vector alias acc = bind_res (register_token alias (fst acc)) (\<lambda>toks.
     Inr (toks, dict_set (token_hash alias) vector (snd acc)))"

definition bm25_stem :: "(ustr, ustr list) dict \<Rightarrow> (int, int list) dict \<Rightarrow> ustr \<times> ustr list \<Rightarrow>
    (int, ustr) dict \<times> (int, int list) dict \<Rightarrow> ((int, ustr) dict \<times> (int, int list) dict) res" where
  "bm25_stem index vectors item acc = (case item of (stem, surfaces) \<Rightarrow>
     case dict_get vectors (token_hash stem) of
       None \<Rightarrow> Inl (KeyErr stem)
     | Some vector \<Rightarrow> fold_res (bm25_alias vector) (vocabulary_aliases index stem surfaces) acc)"

definition bm25_stopword :: "(int, ustr) dict \<Rightarrow> ustr \<Rightarrow> (int, ustr) dict \<Rightarrow> (int, ustr) dict res" where
  "bm25_stopword hash_tokens stopword d =
     (let (d', previous) = (case dict_get hash_tokens (token_hash stopword) of
            Some (c # t) \<Rightarrow> (d, c # t)
          | _ \<Rightarrow> setdefault d (token_hash stopword) stopword)
      in if previous \<noteq> stopword then Inl (collision previous stopword) else Inr d')"

definition alias_entry :: "(int, ustr) dict \<Rightarrow> int \<times> int list \<Rightarrow> bm25_term_entry res" where
  "alias_entry hash_tokens item = (case item of (key, weights) \<Rightarrow>
     case dict_get hash_tokens key of
       None \<Rightarrow> Inl (KeyErr (show_int key))
     | Some t \<Rightarrow> Inr \<lparr>bt_hash = key, bt_token = t, bt_weights = weights, bt_stopword = False\<rparr>)"

definition stopword_entry :: "int \<times> ustr \<Rightarrow> bm25_term_entry" where
  "stopword_entry item = \<lparr>bt_hash = fst item, bt_token = snd item,
     bt_weights = replicate MAX_DOCUMENTS 0, bt_stopword = True\<rparr>"

definition bm25_terms :: "(ustr, ustr list) dict \<Rightarrow> bm25_state \<Rightarrow> bm25_term_entry list res" where
  "bm25_terms index st =
     bind_res (fold_res (bm25_stem index (b_vectors st)) (b_surfaces st) (b_tokens st, [])) (\<lambda>acc.
     bind_res (fold_res (bm25_stopword (fst acc)) ENGLISH_STOP_WORDS []) (\<lambda>stopwords.
     bind_res (map_res (alias_entry (fst acc)) (sort_key fst (snd acc))) (\<lambda>aliases.
     let terms = aliases @ map stopword_entry (sort_key fst stopwords) in
     bind_res (map_res (\<lambda>t. token_bytes (bt_token t)) terms) (\<lambda>_.
     let terms' = sort_key bt_hash terms in
     bind_res (ensure (length terms' \<le> MAX_TERMS)
       (ValueError ''BM25 policy requires {} map terms; maximum is 2048'' [show_nat (length terms')])) (\<lambda>_.
     Inr terms')))))"

definition bm25_signals :: "unidb \<Rightarrow> floatlib \<Rightarrow> pyval \<Rightarrow> bm25_state res" where
  "bm25_signals U L policy =
     bind_res (keyword_signals policy) (\<lambda>signals.
     bind_res (decision_keyword_routes U policy) (\<lambda>dec.
     bind_res (fold_res (bm25_signal U L dec) signals bm25_init) (\<lambda>st.
     bind_res (ensure (length (b_vectors st) \<le> MAX_CORPUS_TERMS)
       (ValueError ''BM25 policy has {} corpus terms; maximum is 128'' [show_nat (length (b_vectors st))])) (\<lambda>_.
     Inr st))))"

definition bm25_parse :: "unidb \<Rightarrow> floatlib \<Rightarrow> vocabulary \<Rightarrow> pyval \<Rightarrow>
    (bm25_rule list \<times> bm25_document list \<times> bm25_term_entry list) res" where
  "bm25_parse U L V policy =
     bind_res (bm25_signals U L policy) (\<lambda>st.
     bind_res (if b_surfaces st = [] then Inr [] else vocabulary_by_stem U V) (\<lambda>index.
     bind_res (bm25_terms index st) (\<lambda>terms.
     Inr (b_rules st, b_docs st, terms))))"


subsection \<open>The generated header\<close>

definition comma_ints :: "int list \<Rightarrow> ustr" where
  "comma_ints xs = join (u '', '') (map show_int xs)"

definition comma_LL :: "int list \<Rightarrow> ustr" where
  "comma_LL xs = join (u '', '') (map (\<lambda>x. show_int x @ u ''LL'') xs)"

definition bm25_rule_line :: "bm25_rule \<Rightarrow> ustr" where
  "bm25_rule_line r = u ''  {.threshold_fixed = '' @ show_int (br_threshold r) @ u ''LL, .priority = '' @
     show_int (br_priority r) @ u '', .route = '' @ br_route r @ u '', .operator = '' @ br_operator r @
     u '', .document_start = '' @ show_nat (br_start r) @ u '', .document_count = '' @ show_nat (br_count r) @
     u '', .document_mask = '' @ show_int (br_mask r) @ u ''},''"

definition bm25_term_line :: "bm25_term_entry \<Rightarrow> ustr res" where
  "bm25_term_line t = bind_res (token_bytes (bt_token t)) (\<lambda>encoded. Inr
     (u ''  {.hash = '' @ show_int (bt_hash t) @ u ''U, .value = {.weights = {'' @ comma_LL (bt_weights t) @
      u ''}, .token = {'' @ comma_ints encoded @ u ''}, .token_length = '' @ show_nat (length encoded) @
      u '', .stopword = '' @ (if bt_stopword t then u ''1'' else u ''0'') @ u ''}},''))"

definition bm25_emit ::
  "ustr \<Rightarrow> bm25_rule list \<Rightarrow> bm25_document list \<Rightarrow> bm25_term_entry list \<Rightarrow> ustr res" where
  \<open>bm25_emit source rules documents terms =
     bind_res (map_res bm25_term_line terms) (\<lambda>term_lines. Inr (join [10] ([
     u ''/* Generated by generate_bm25_policy_header.py. Do not edit. */'',
     u ''/* Source: '' @ source @ u ''; bm25 crate 2.3 defaults, Q1e9 scores. */'',
     u ''#ifndef XDP_BM25_POLICY_GENERATED_H'',
     u ''#define XDP_BM25_POLICY_GENERATED_H'',
     [],
     u ''#define XDP_BM25_GENERATED_RULE_COUNT '' @ show_nat (length rules),
     u ''#define XDP_BM25_GENERATED_DOCUMENT_COUNT '' @ show_nat (length documents),
     u ''#define XDP_BM25_GENERATED_TERM_COUNT '' @ show_nat (length terms),
     [],
     u ''#ifndef __BPF__'',
     u ''static const struct xdp_bm25_policy_config xdp_bm25_generated_config = {'',
     u ''  .rule_count = '' @ show_nat (length rules) @ u '', .document_count = '' @ show_nat (length documents) @ u '','',
     u ''  .thresholds_fixed = {'' @
       comma_LL (map bd_threshold documents @ replicate (MAX_DOCUMENTS - length documents) 0) @ u ''},'',
     u ''};'',
     u ''static const struct xdp_bm25_rule xdp_bm25_generated_rules[] = {'']
     @ map bm25_rule_line rules
     @ [u ''};'',
     u ''struct xdp_bm25_generated_term { __u32 hash; struct xdp_bm25_term_weights value; };'',
     u ''static const struct xdp_bm25_generated_term xdp_bm25_generated_terms[] = {'']
     @ term_lines
     @ [u ''};'', u ''#endif'', [], u ''#endif'', []])))\<close>

subsection \<open>A registry of hashes\<close>

text \<open>
  Tokens, aliases and stop words are entered under their hash, and entering a second token under a
  hash that is taken is refused. The locale states this interface; its lemmas say that a run that
  is not refused is injective on what it has entered.
\<close>

locale hash_registry =
  fixes hash :: "'t \<Rightarrow> 'k"
    and lookup :: "'d \<Rightarrow> 'k \<Rightarrow> 't option"
    and register :: "'t \<Rightarrow> 'd \<Rightarrow> 'e + 'd"
  assumes registered: "register t d = Inr d' \<Longrightarrow> lookup d' (hash t) = Some t"
    and kept: "register t d = Inr d' \<Longrightarrow> lookup d k = Some s \<Longrightarrow> lookup d' k = Some s"
    and nothing_else: "register t d = Inr d' \<Longrightarrow> lookup d' k = Some s \<Longrightarrow> lookup d k = Some s \<or> k = hash t \<and> s = t"
begin

lemma all_kept: "fold_res register ts d = Inr d' \<Longrightarrow> lookup d k = Some s \<Longrightarrow> lookup d' k = Some s"
  by (induction ts arbitrary: d) (auto simp: res_simps dest: kept)

lemma all_registered: "fold_res register ts d = Inr d' \<Longrightarrow> t \<in> set ts \<Longrightarrow> lookup d' (hash t) = Some t"
  by (induction ts arbitrary: d) (auto simp: res_simps dest: all_kept registered)

lemma hash_sound:
  "fold_res register ts d = Inr d' \<Longrightarrow> (\<And>k s. lookup d k = Some s \<Longrightarrow> hash s = k) \<Longrightarrow>
   lookup d' k = Some s \<Longrightarrow> hash s = k"
proof (induction ts arbitrary: d)
  case (Cons t ts)
  from Cons.prems(1) obtain d1 where d1: "register t d = Inr d1" "fold_res register ts d1 = Inr d'"
    by (auto simp: res_simps)
  show ?case
    by (rule Cons.IH [OF d1(2) _ Cons.prems(3)]) (use nothing_else [OF d1(1)] Cons.prems(2) in blast)
qed auto

lemma injective:
  "fold_res register ts d = Inr d' \<Longrightarrow> t \<in> set ts \<Longrightarrow> t' \<in> set ts \<Longrightarrow> hash t = hash t' \<Longrightarrow> t = t'"
  by (metis all_registered option.inject)

end

lemma register_token_Inr:
  "register_token t d = Inr d' \<longleftrightarrow> d' = fst (setdefault d (token_hash t) t) \<and> snd (setdefault d (token_hash t) t) = t"
  by (auto simp: register_token_def split: prod.splits)

interpretation tokens: hash_registry token_hash dict_get register_token
proof
  fix t :: ustr and d d' :: "(int, ustr) dict" and k s
  assume r: "register_token t d = Inr d'"
  then show "dict_get d' (token_hash t) = Some t"
    using setdefault_get [of d "token_hash t" t] by (simp add: register_token_Inr)
  show "dict_get d k = Some s \<Longrightarrow> dict_get d' k = Some s"
    using r by (simp add: register_token_Inr setdefault_keeps)
  show "dict_get d' k = Some s \<Longrightarrow> dict_get d k = Some s \<or> k = token_hash t \<and> s = t"
    using r setdefault_get [of d "token_hash t" t] setdefault_get_other [of k "token_hash t" d t]
    by (cases "k = token_hash t") (simp_all add: register_token_Inr)
qed

subsection \<open>The hash is 32-bit FNV-1a\<close>

lemma and_mask32: "x AND 0xFFFFFFFF = take_bit 32 (x :: int)"
  by (simp add: take_bit_eq_mask mask_eq_exp_minus_1)

lemma token_hash_range: "0 \<le> token_hash t \<and> token_hash t < 2 ^ 32"
proof (cases t rule: rev_cases)
  case Nil
  then show ?thesis by (simp add: token_hash_def)
next
  case (snoc s c)
  then show ?thesis
    using take_bit_int_less_exp [of 32] by (simp add: token_hash_def and_mask32)
qed

text \<open>The hash the generator computes on unbounded integers with a mask is the hash the kernel
  computes in 32-bit registers with wrap-around.\<close>

theorem token_hash_word:
  "word_of_int (token_hash t) =
    foldl (\<lambda>h b. (h XOR word_of_int b) * 16777619) (2166136261 :: 32 word) t"
proof (induction t rule: rev_induct)
  case Nil
  then show ?case by (simp add: token_hash_def)
next
  case (snoc c t)
  have m: "word_of_int (x AND 0xFFFFFFFF) = (word_of_int x :: 32 word)" for x
    by (simp add: and_mask32 word_of_int_eq_iff)
  have "word_of_int (token_hash (t @ [c])) =
      (word_of_int (((token_hash t) XOR c) * 16777619) :: 32 word)"
    by (simp only: token_hash_def foldl_append foldl.simps m)
  also have "\<dots> = (word_of_int (token_hash t) XOR word_of_int c) * 16777619"
    by (simp add: word_wi_log_defs wi_hom_mult [symmetric])
  finally show ?case using snoc by simp
qed


end
