(* ===== verification/Bm25Invariants.thy ===== *)
theory Bm25Invariants
  imports Bm25Policy
begin

section \<open>Invariants of the BM25 preprocessing\<close>

text \<open>
  The invariants of the loops of \<open>bm25_signals\<close> and \<open>bm25_terms\<close>: the tables and the document ranges
  while the signals are read, the registry of aliases, and the stop words.
\<close>

subsection \<open>What parsing guarantees\<close>

text \<open>
  The invariant of the state: the tables are keyed alike, every token sits under its hash, every
  vector has a slot per document with weights the accumulator can take, and the documents are those
  of the rules, in order, each rule owning a contiguous range.
\<close>

definition weights_ok :: "int list \<Rightarrow> bool" where
  "weights_ok v \<longleftrightarrow> length v = MAX_DOCUMENTS \<and> (\<forall>w \<in> set v. 0 \<le> w \<and> w \<le> MAX_FIXED_TERM_WEIGHT)"

definition tables_ok :: "bm25_state \<Rightarrow> bool" where
  "tables_ok st \<longleftrightarrow> (\<forall>k t. dict_get (b_tokens st) k = Some t \<longrightarrow> token_hash t = k \<and> dict_get (b_vectors st) k \<noteq> None) \<and>
     (\<forall>k v. dict_get (b_vectors st) k = Some v \<longrightarrow> weights_ok v)"

definition documents_of :: "bm25_rule list \<Rightarrow> bm25_document list" where
  "documents_of rules = concat (map (\<lambda>(i, r). replicate (br_count r) \<lparr>bd_rule = i, bd_threshold = br_threshold r\<rparr>)
     (enumerate 0 rules))"

definition rules_ok :: "bm25_rule list \<Rightarrow> bool" where
  "rules_ok rules \<longleftrightarrow> (\<forall>i < length rules. br_start (rules ! i) = sum_list (map br_count (take i rules)) \<and>
     0 < br_count (rules ! i) \<and>
     br_mask (rules ! i) = (2 ^ br_count (rules ! i) - 1) * 2 ^ br_start (rules ! i))"

definition bm25_ok :: "bm25_state \<Rightarrow> bool" where
  "bm25_ok st \<longleftrightarrow> tables_ok st \<and> rules_ok (b_rules st) \<and> b_docs st = documents_of (b_rules st) \<and>
     length (b_docs st) \<le> MAX_DOCUMENTS \<and> length (b_rules st) \<le> MAX_RULES \<and>
     (\<forall>stem s. dict_get (b_surfaces st) stem = Some s \<longrightarrow> dict_get (b_vectors st) (token_hash stem) \<noteq> None)"

lemma weights_ok_new: "weights_ok (replicate MAX_DOCUMENTS 0)"
  by (simp add: weights_ok_def MAX_FIXED_TERM_WEIGHT_def MAX_FIXED_SCORE_def MAX_QUERY_TOKENS_def)

lemma weights_ok_update: "weights_ok v \<Longrightarrow> 0 \<le> w \<Longrightarrow> w \<le> MAX_FIXED_TERM_WEIGHT \<Longrightarrow> weights_ok (v[i := w])"
  by (auto simp: weights_ok_def dest!: set_update_subset_insert [THEN subsetD])

text \<open>One term: the tables stay well formed, nothing else changes, and the term has its vector.\<close>

lemma bm25_term_ok:
  assumes inv: "tables_ok st" and doc: "doc_id < MAX_DOCUMENTS"
    and res: "bm25_term L corpus tokens doc_id (token, tf) st = Inr st'"
  shows "tables_ok st' \<and> b_rules st' = b_rules st \<and> b_docs st' = b_docs st \<and> b_surfaces st' = b_surfaces st \<and>
    dict_get (b_vectors st') (token_hash token) \<noteq> None \<and>
    (\<forall>k. dict_get (b_vectors st) k \<noteq> None \<longrightarrow> dict_get (b_vectors st') k \<noteq> None)"
proof -
  let ?h = "token_hash token"
  obtain vecs vector where sd: "setdefault (b_vectors st) ?h (replicate MAX_DOCUMENTS 0) = (vecs, vector)"
    by (cases "setdefault (b_vectors st) ?h (replicate MAX_DOCUMENTS 0)")
  from res sd obtain toks w where toks: "register_token token (b_tokens st) = Inr toks"
    and w: "0 < w" "w \<le> MAX_FIXED_TERM_WEIGHT"
    and st': "st' = st\<lparr>b_tokens := toks, b_vectors := dict_set ?h (vector[doc_id := w]) vecs\<rparr>"
    by (auto simp: bm25_term_def res_simps split: prod.splits)
  have vec: "weights_ok vector"
    using sd inv weights_ok_new by (auto simp: setdefault_def tables_ok_def split: option.splits)
  have others: "k \<noteq> ?h \<Longrightarrow> dict_get vecs k = dict_get (b_vectors st) k" for k
    using setdefault_get_other [of k ?h "b_vectors st" "replicate MAX_DOCUMENTS 0"] sd by simp
  have new: "weights_ok (vector[doc_id := w])"
    using vec w by (intro weights_ok_update) simp_all
  have "token_hash t = k \<and> dict_get (b_vectors st') k \<noteq> None" if "dict_get toks k = Some t" for k t
    using tokens.nothing_else [OF toks that] inv others [of k] st' by (auto simp: tables_ok_def)
  moreover have "weights_ok v" if "dict_get (b_vectors st') k = Some v" for k v
    using that inv others [of k] new st' by (auto simp: tables_ok_def split: if_splits)
  ultimately show ?thesis
    using st' others by (auto simp: tables_ok_def)
qed

lemma bm25_terms_loop_ok:
  assumes "fold_res (bm25_term L corpus tokens doc_id) items st = Inr st'"
    and "tables_ok st" and "doc_id < MAX_DOCUMENTS"
  shows "tables_ok st' \<and> b_rules st' = b_rules st \<and> b_docs st' = b_docs st \<and> b_surfaces st' = b_surfaces st \<and>
    (\<forall>item \<in> set items. dict_get (b_vectors st') (token_hash (fst item)) \<noteq> None) \<and>
    (\<forall>k. dict_get (b_vectors st) k \<noteq> None \<longrightarrow> dict_get (b_vectors st') k \<noteq> None)"
  using assms
proof (induction items arbitrary: st)
  case (Cons item items)
  obtain token tf where item: "item = (token, tf)" by (cases item)
  from Cons.prems(1) item obtain st1 where one: "bm25_term L corpus tokens doc_id (token, tf) st = Inr st1"
    and rest: "fold_res (bm25_term L corpus tokens doc_id) items st1 = Inr st'"
    by (auto simp: res_simps)
  note a = bm25_term_ok [OF Cons.prems(2,3) one]
  from a have "tables_ok st1" by blast
  note b = Cons.IH [OF rest this Cons.prems(3)]
  from a b item show ?case by auto
qed simp

lemma bm25_document_step_ok:
  assumes res: "bm25_document_step L corpus threshold tokens st = Inr st'"
    and "tables_ok st" and "length (b_docs st) < MAX_DOCUMENTS"
  shows "tables_ok st' \<and> b_rules st' = b_rules st \<and> b_surfaces st' = b_surfaces st \<and>
    b_docs st' = b_docs st @ [\<lparr>bd_rule = length (b_rules st), bd_threshold = threshold\<rparr>] \<and>
    (\<forall>t \<in> set tokens. dict_get (b_vectors st') (token_hash t) \<noteq> None) \<and>
    (\<forall>k. dict_get (b_vectors st) k \<noteq> None \<longrightarrow> dict_get (b_vectors st') k \<noteq> None)"
proof -
  have t: "tables_ok (st\<lparr>b_docs := b_docs st @ [\<lparr>bd_rule = length (b_rules st), bd_threshold = threshold\<rparr>]\<rparr>)"
    using assms(2) by (simp add: tables_ok_def)
  note l = bm25_terms_loop_ok [OF res [unfolded bm25_document_step_def] t assms(3)]
  have "\<forall>t \<in> set tokens. dict_get (b_vectors st') (token_hash t) \<noteq> None"
  proof
    fix t assume "t \<in> set tokens"
    then have "(t, count_list tokens t) \<in> set (counter tokens)" by (simp add: mem_counter_iff)
    with l show "dict_get (b_vectors st') (token_hash t) \<noteq> None" by fastforce
  qed
  with l show ?thesis by simp
qed

lemma bm25_documents_ok:
  assumes "fold_res (bm25_document_step L corpus threshold) docs st = Inr st'"
    and "tables_ok st" and "length (b_docs st) + length docs \<le> MAX_DOCUMENTS"
  shows "tables_ok st' \<and> b_rules st' = b_rules st \<and> b_surfaces st' = b_surfaces st \<and>
    b_docs st' = b_docs st @ replicate (length docs) \<lparr>bd_rule = length (b_rules st), bd_threshold = threshold\<rparr> \<and>
    (\<forall>tokens \<in> set docs. \<forall>t \<in> set tokens. dict_get (b_vectors st') (token_hash t) \<noteq> None) \<and>
    (\<forall>k. dict_get (b_vectors st) k \<noteq> None \<longrightarrow> dict_get (b_vectors st') k \<noteq> None)"
  using assms
proof (induction docs arbitrary: st)
  case (Cons d docs)
  from Cons.prems(1) obtain st1 where one: "bm25_document_step L corpus threshold d st = Inr st1"
    and rest: "fold_res (bm25_document_step L corpus threshold) docs st1 = Inr st'"
    by (auto simp: res_simps)
  have "length (b_docs st) < MAX_DOCUMENTS" using Cons.prems(3) by simp
  note a = bm25_document_step_ok [OF one Cons.prems(2) this]
  have "tables_ok st1" "length (b_docs st1) + length docs \<le> MAX_DOCUMENTS" using a Cons.prems(3) by simp_all
  note b = Cons.IH [OF rest this]
  from a b show ?case by simp
qed simp


text \<open>The surfaces entered for a corpus are exactly keyed by its stems.\<close>

lemma add_surface_keys: "fst ` set (add_surface w d) = insert (stem_english w) (fst ` set d)"
  by (auto simp: add_surface_def setdefault_def split: option.splits)

lemma add_surfaces_keys: "fst ` set (fold (fold add_surface) raw d) = fst ` set d \<union> stem_english ` set (concat raw)"
proof -
  have one: "fst ` set (fold add_surface ws d) = fst ` set d \<union> stem_english ` set ws" for ws d
    by (induction ws arbitrary: d) (auto simp: add_surface_keys)
  show ?thesis by (induction raw arbitrary: d) (auto simp: one)
qed

lemma corpus_stems:
  assumes "map_res (\<lambda>v. tokenize U (f v)) vs = Inr corpus" and "map_res (\<lambda>v. ascii_words U (f v)) vs = Inr raw"
  shows "corpus = map (map stem_english) raw"
  using assms
proof (induction vs arbitrary: corpus raw)
  case (Cons v vs)
  then show ?case by (auto simp: tokenize_def bind_res_Inr_iff)
qed simp

lemma dict_get_not_None: "dict_get d k \<noteq> None \<longleftrightarrow> k \<in> fst ` set d"
  by (metis map_of_eq_None_iff)

lemma enumerate_snoc: "enumerate n (xs @ [x]) = enumerate n xs @ [(n + length xs, x)]"
  by (simp add: enumerate_append_eq)

lemma documents_of_snoc:
  "documents_of (rs @ [r]) = documents_of rs @ replicate (br_count r) \<lparr>bd_rule = length rs, bd_threshold = br_threshold r\<rparr>"
  by (simp add: documents_of_def enumerate_snoc)

lemma length_documents_of: "length (documents_of rs) = sum_list (map br_count rs)"
  by (induction rs rule: rev_induct) (simp_all add: documents_of_snoc, simp add: documents_of_def)

lemma rules_ok_snoc:
  assumes "rules_ok rs" "br_start r = sum_list (map br_count rs)" "0 < br_count r"
    "br_mask r = (2 ^ br_count r - 1) * 2 ^ br_start r"
  shows "rules_ok (rs @ [r])"
  using assms by (auto simp: rules_ok_def nth_append less_Suc_eq)

lemma bm25_signal_cases:
  assumes "bm25_signal U L dec signal st = Inr st'" and "st' \<noteq> st"
  obtains s name rn opn v vs where "bm25_keywords U L dec s name rn opn (v # vs) st = Inr st'"
proof -
  from assms obtain s where s: "signal = PDict s"
    by (auto simp: bm25_signal_def split: pyval.splits)
  obtain name rn opn where kw: "(case dget s ''keywords'' of
       PList (v # vs) \<Rightarrow> bm25_keywords U L dec s name rn opn (v # vs) st
     | _ \<Rightarrow> Inl (ValueError ''{}: keywords must be a non-empty list'' [name])) = Inr st'"
    using assms unfolding s bm25_signal_def Let_def
    by (simp add: bind_res_Inr_iff ensure_iff split: if_splits) blast
  then obtain ks where "dget s ''keywords'' = PList ks" by (cases "dget s ''keywords''") simp_all
  with kw obtain v vs where "bm25_keywords U L dec s name rn opn (v # vs) st = Inr st'"
    by (cases ks) simp_all
  then show thesis by (rule that)
qed

lemma bm25_signal_ok:
  assumes inv: "bm25_ok st" and res: "bm25_signal U L dec signal st = Inr st'"
  shows "bm25_ok st'"
proof (cases "st' = st")
  case True
  with inv show ?thesis by simp
next
  case False
  from bm25_signal_cases [OF res False] obtain s name rn opn v vs where
    kw: "bm25_keywords U L dec s name rn opn (v # vs) st = Inr st'" .
  from kw obtain thr corpus raw st1 prio route op where
      room: "\<not> (MAX_RULES \<le> length (b_rules st) \<or> MAX_DOCUMENTS < length (b_docs st) + length (v # vs))"
    and corpus: "map_res (\<lambda>value. tokenize U (py_str U value)) (v # vs) = Inr corpus"
    and raw: "map_res (\<lambda>value. ascii_words U (py_str U value)) (v # vs) = Inr raw"
    and docs: "fold_res (bm25_document_step L corpus thr) corpus
        (st\<lparr>b_surfaces := fold (fold add_surface) raw (b_surfaces st)\<rparr>) = Inr st1"
    and st': "st' = st1\<lparr>b_rules := b_rules st1 @ [\<lparr>br_threshold = thr, br_priority = prio, br_route = route,
        br_operator = op, br_start = length (b_docs st), br_count = length (v # vs),
        br_mask = (2 ^ length (v # vs) - 1) * 2 ^ length (b_docs st)\<rparr>]\<rparr>"
    unfolding bm25_keywords_def Let_def bind_res_Inr_iff ensure_iff by blast
  let ?st0 = "st\<lparr>b_surfaces := fold (fold add_surface) raw (b_surfaces st)\<rparr>"
  have len: "length corpus = length (v # vs)" using map_res_length [OF corpus] .
  have t0: "tables_ok ?st0" using inv by (simp add: bm25_ok_def tables_ok_def)
  have room0: "length (b_docs ?st0) + length corpus \<le> MAX_DOCUMENTS" using room len by simp
  note d = bm25_documents_ok [OF docs t0 room0]
  from d have tab: "tables_ok st1" and same: "b_rules st1 = b_rules st"
    and sur: "b_surfaces st1 = fold (fold add_surface) raw (b_surfaces st)"
    and bd: "b_docs st1 = b_docs st @ replicate (length corpus) \<lparr>bd_rule = length (b_rules st), bd_threshold = thr\<rparr>"
    and all: "\<forall>tokens \<in> set corpus. \<forall>t \<in> set tokens. dict_get (b_vectors st1) (token_hash t) \<noteq> None"
    and old: "\<forall>k. dict_get (b_vectors st) k \<noteq> None \<longrightarrow> dict_get (b_vectors st1) k \<noteq> None"
    by simp_all
  from inv have bdocs: "b_docs st = documents_of (b_rules st)" and rok: "rules_ok (b_rules st)"
    and sold: "\<forall>stem s. dict_get (b_surfaces st) stem = Some s \<longrightarrow> dict_get (b_vectors st) (token_hash stem) \<noteq> None"
    by (simp_all add: bm25_ok_def)
  have start: "length (b_docs st) = sum_list (map br_count (b_rules st))"
    unfolding bdocs by (rule length_documents_of)
  have "rules_ok (b_rules st')"
    unfolding st' same using rok start by (auto intro!: rules_ok_snoc)
  moreover have "b_docs st' = documents_of (b_rules st')"
    unfolding st' using bd bdocs same len by (simp add: documents_of_snoc)
  moreover have "length (b_docs st') \<le> MAX_DOCUMENTS" "length (b_rules st') \<le> MAX_RULES"
    unfolding st' using bd room same len by simp_all
  moreover have "tables_ok st'" unfolding st' using tab by (simp add: tables_ok_def)
  moreover have "dict_get (b_vectors st') (token_hash stem) \<noteq> None" if "dict_get (b_surfaces st') stem = Some s" for stem s
  proof -
    have "stem \<in> fst ` set (fold (fold add_surface) raw (b_surfaces st))"
      using that st' sur by (auto simp flip: dict_get_not_None)
    then consider "stem \<in> fst ` set (b_surfaces st)" | "stem \<in> stem_english ` set (concat raw)"
      unfolding add_surfaces_keys by blast
    then show ?thesis
    proof cases
      case 1
      then obtain s0 where "dict_get (b_surfaces st) stem = Some s0" by (metis dict_get_not_None not_None_eq)
      with sold old st' show ?thesis by simp
    next
      case 2
      then have "\<exists>tokens \<in> set corpus. stem \<in> set tokens"
        unfolding corpus_stems [OF corpus raw] by auto
      with all st' show ?thesis by auto
    qed
  qed
  ultimately show ?thesis by (simp add: bm25_ok_def)
qed

lemma bm25_ok_init: "bm25_ok bm25_init"
  by (simp add: bm25_ok_def bm25_init_def tables_ok_def rules_ok_def documents_of_def)

lemma bm25_signals_ok: "bm25_signals U L policy = Inr st \<Longrightarrow> bm25_ok st \<and> length (b_vectors st) \<le> MAX_CORPUS_TERMS"
proof -
  assume "bm25_signals U L policy = Inr st"
  then obtain dec signals where f: "fold_res (bm25_signal U L dec) signals bm25_init = Inr st"
    and n: "length (b_vectors st) \<le> MAX_CORPUS_TERMS"
    by (auto simp: bm25_signals_def res_simps)
  from f have "bm25_ok st"
    by (rule fold_res_invariant) (auto simp: bm25_ok_init intro: bm25_signal_ok)
  with n show ?thesis by simp
qed


subsection \<open>The alias table\<close>

text \<open>
  The state of the alias loop: every token sits under its hash, every alias vector has a token and
  is well formed, and the keys are distinct.
\<close>

definition aliases_ok :: "(int, ustr) dict \<times> (int, int list) dict \<Rightarrow> bool" where
  "aliases_ok acc \<longleftrightarrow> (\<forall>k t. dict_get (fst acc) k = Some t \<longrightarrow> token_hash t = k) \<and>
     (\<forall>(k, v) \<in> set (snd acc). weights_ok v \<and> dict_get (fst acc) k \<noteq> None) \<and> distinct (dict_keys (snd acc))"

lemma dict_set_mem: "(k', v') \<in> set (dict_set k v d) \<Longrightarrow> k' = k \<and> v' = v \<or> (k', v') \<in> set d"
  by (induction d) (auto split: if_splits)

lemma distinct_dict_set: "distinct (dict_keys d) \<Longrightarrow> distinct (dict_keys (dict_set k v d))"
  by (auto simp: dict_keys_set)

lemma bm25_alias_ok:
  assumes inv: "aliases_ok acc" and v: "weights_ok v" and res: "bm25_alias v a acc = Inr acc'"
  shows "aliases_ok acc' \<and> (\<forall>k t. dict_get (fst acc) k = Some t \<longrightarrow> dict_get (fst acc') k = Some t) \<and>
    dict_get (fst acc') (token_hash a) = Some a \<and> (token_hash a, v) \<in> set (snd acc') \<and>
    fst ` set (snd acc') = insert (token_hash a) (fst ` set (snd acc))"
proof -
  from res obtain toks where r: "register_token a (fst acc) = Inr toks"
    and acc': "acc' = (toks, dict_set (token_hash a) v (snd acc))"
    by (auto simp: bm25_alias_def res_simps)
  have kept: "\<forall>k t. dict_get (fst acc) k = Some t \<longrightarrow> dict_get toks k = Some t"
    using tokens.kept [OF r] by blast
  have now: "dict_get toks (token_hash a) = Some a" using tokens.registered [OF r] .
  have A: "token_hash t = k" if "dict_get toks k = Some t" for k t
    using tokens.nothing_else [OF r that] inv by (auto simp: aliases_ok_def)
  have B: "weights_ok w \<and> dict_get toks k \<noteq> None" if "(k, w) \<in> set (dict_set (token_hash a) v (snd acc))" for k w
    using dict_set_mem [OF that] inv v now kept by (auto simp: aliases_ok_def)
  have C: "distinct (dict_keys (dict_set (token_hash a) v (snd acc)))"
    using inv by (intro distinct_dict_set) (simp add: aliases_ok_def)
  have D: "(token_hash a, v) \<in> set (dict_set (token_hash a) v (snd acc))"
    using map_of_SomeD [of "dict_set (token_hash a) v (snd acc)" "token_hash a" v] by simp
  have "aliases_ok acc'"
    unfolding aliases_ok_def acc' fst_conv snd_conv using A B C by blast
  moreover have "fst ` set (snd acc') = insert (token_hash a) (fst ` set (snd acc))"
    unfolding acc' by simp
  ultimately show ?thesis using kept now D unfolding acc' fst_conv snd_conv by blast
qed

lemma bm25_aliases_ok:
  assumes "fold_res (bm25_alias v) as acc = Inr acc'" and "aliases_ok acc" and "weights_ok v"
  shows "aliases_ok acc' \<and> (\<forall>k t. dict_get (fst acc) k = Some t \<longrightarrow> dict_get (fst acc') k = Some t) \<and>
    (\<forall>a \<in> set as. dict_get (fst acc') (token_hash a) = Some a) \<and>
    fst ` set (snd acc') = token_hash ` set as \<union> fst ` set (snd acc)"
  using assms
proof (induction as arbitrary: acc)
  case (Cons a as)
  from Cons.prems(1) obtain acc1 where one: "bm25_alias v a acc = Inr acc1"
    and rest: "fold_res (bm25_alias v) as acc1 = Inr acc'"
    by (auto simp: res_simps)
  note x = bm25_alias_ok [OF Cons.prems(2,3) one]
  note x1 = conjunct1 [OF x] and x2 = conjunct1 [OF conjunct2 [OF x]]
    and x3 = conjunct1 [OF conjunct2 [OF conjunct2 [OF x]]]
    and x4 = conjunct2 [OF conjunct2 [OF conjunct2 [OF conjunct2 [OF x]]]]
  note y = Cons.IH [OF rest x1 Cons.prems(3)]
  note y1 = conjunct1 [OF y] and y2 = conjunct1 [OF conjunct2 [OF y]]
    and y3 = conjunct1 [OF conjunct2 [OF conjunct2 [OF y]]]
    and y4 = conjunct2 [OF conjunct2 [OF conjunct2 [OF y]]]
  have "dict_get (fst acc') (token_hash a) = Some a" using x3 y2 by blast
  with y3 have "\<forall>b \<in> set (a # as). dict_get (fst acc') (token_hash b) = Some b" by simp
  moreover have "\<forall>k t. dict_get (fst acc) k = Some t \<longrightarrow> dict_get (fst acc') k = Some t"
    using x2 y2 by blast
  moreover have "fst ` set (snd acc') = token_hash ` set (a # as) \<union> fst ` set (snd acc)"
    unfolding y4 x4 by simp
  ultimately show ?case using y1 by blast
qed simp

lemma bm25_stem_ok:
  assumes inv: "aliases_ok acc" and vec: "\<forall>k v. dict_get vectors k = Some v \<longrightarrow> weights_ok v"
    and res: "bm25_stem index vectors (stem, surfaces) acc = Inr acc'"
  shows "aliases_ok acc' \<and> (\<forall>k t. dict_get (fst acc) k = Some t \<longrightarrow> dict_get (fst acc') k = Some t) \<and>
    (\<forall>a \<in> set (vocabulary_aliases index stem surfaces). dict_get (fst acc') (token_hash a) = Some a) \<and>
    fst ` set (snd acc') = token_hash ` set (vocabulary_aliases index stem surfaces) \<union> fst ` set (snd acc)"
proof -
  from res obtain v where v: "dict_get vectors (token_hash stem) = Some v"
    and f: "fold_res (bm25_alias v) (vocabulary_aliases index stem surfaces) acc = Inr acc'"
    by (auto simp: bm25_stem_def split: option.splits)
  from vec v have "weights_ok v" by blast
  from bm25_aliases_ok [OF f inv this] show ?thesis .
qed

lemma bm25_stems_ok:
  assumes "fold_res (bm25_stem index vectors) items acc = Inr acc'" and "aliases_ok acc"
    and "\<forall>k v. dict_get vectors k = Some v \<longrightarrow> weights_ok v"
  shows "aliases_ok acc' \<and> (\<forall>k t. dict_get (fst acc) k = Some t \<longrightarrow> dict_get (fst acc') k = Some t) \<and>
    (\<forall>(stem, s) \<in> set items. \<forall>a \<in> set (vocabulary_aliases index stem s).
       dict_get (fst acc') (token_hash a) = Some a \<and> token_hash a \<in> fst ` set (snd acc')) \<and>
    fst ` set (snd acc) \<subseteq> fst ` set (snd acc')"
  using assms
proof (induction items arbitrary: acc)
  case (Cons item items)
  obtain stem s where item: "item = (stem, s)" by (cases item)
  from Cons.prems(1) item obtain acc1 where one: "bm25_stem index vectors (stem, s) acc = Inr acc1"
    and rest: "fold_res (bm25_stem index vectors) items acc1 = Inr acc'"
    by (auto simp: res_simps)
  note x = bm25_stem_ok [OF Cons.prems(2,3) one]
  note x1 = conjunct1 [OF x] and x2 = conjunct1 [OF conjunct2 [OF x]]
    and x3 = conjunct1 [OF conjunct2 [OF conjunct2 [OF x]]]
    and x4 = conjunct2 [OF conjunct2 [OF conjunct2 [OF x]]]
  note y = Cons.IH [OF rest x1 Cons.prems(3)]
  note y1 = conjunct1 [OF y] and y2 = conjunct1 [OF conjunct2 [OF y]]
    and y3 = conjunct1 [OF conjunct2 [OF conjunct2 [OF y]]]
    and y4 = conjunct2 [OF conjunct2 [OF conjunct2 [OF y]]]
  have "\<forall>a \<in> set (vocabulary_aliases index stem s).
      dict_get (fst acc') (token_hash a) = Some a \<and> token_hash a \<in> fst ` set (snd acc')"
  proof
    fix a assume a: "a \<in> set (vocabulary_aliases index stem s)"
    have "token_hash a \<in> fst ` set (snd acc1)" unfolding x4 using a by blast
    moreover have "dict_get (fst acc') (token_hash a) = Some a" using x3 y2 a by blast
    ultimately show "dict_get (fst acc') (token_hash a) = Some a \<and> token_hash a \<in> fst ` set (snd acc')"
      using y4 by blast
  qed
  with y3 have "\<forall>(stem, s) \<in> set (item # items). \<forall>a \<in> set (vocabulary_aliases index stem s).
      dict_get (fst acc') (token_hash a) = Some a \<and> token_hash a \<in> fst ` set (snd acc')"
    unfolding item by simp
  moreover have "\<forall>k t. dict_get (fst acc) k = Some t \<longrightarrow> dict_get (fst acc') k = Some t"
    using x2 y2 by blast
  moreover have "fst ` set (snd acc) \<subseteq> fst ` set (snd acc')" using x4 y4 by blast
  ultimately show ?case using y1 by blast
qed simp

lemma stem_is_alias: "stem \<in> set (vocabulary_aliases index stem configured)"
proof -
  have grow: "set xs \<subseteq> set (fold (add_possessive stem) ys xs)" for xs ys
  proof (induction ys arbitrary: xs)
    case (Cons y ys)
    have "set xs \<subseteq> set (add_possessive stem y xs)" by (auto simp: add_possessive_def set_add_def)
    with Cons [of "add_possessive stem y xs"] show ?case by auto
  qed simp
  have "stem \<in> set (set_add stem xs)" for xs by (simp add: set_add_def)
  with grow show ?thesis unfolding vocabulary_aliases_def Let_def by blast
qed


subsection \<open>The stop words\<close>

lemma stopword_hashes_distinct: "distinct (map token_hash ENGLISH_STOP_WORDS)"
  by code_simp

lemma stopword_facts:
  "list_all (\<lambda>w. token_hash w \<noteq> 2166136261 \<and> is_ascii w \<and> length w \<le> MAX_TOKEN_BYTES) ENGLISH_STOP_WORDS"
  by code_simp

lemma stopword_hash_Nil: "w \<in> set ENGLISH_STOP_WORDS \<Longrightarrow> token_hash w \<noteq> token_hash []"
  using stopword_facts by (auto simp: list_all_iff token_hash_def [of "[]"])

definition hashes_sound :: "(int, ustr) dict \<Rightarrow> bool" where
  "hashes_sound d \<longleftrightarrow> (\<forall>k t. dict_get d k = Some t \<longrightarrow> token_hash t = k)"

text \<open>What the expression \<open>hash_tokens.get(hashed) or stopword_hashes.setdefault(...)\<close> does.\<close>

lemma bm25_stopword_eq:
  assumes "hashes_sound toks" and "w \<in> set ENGLISH_STOP_WORDS"
  shows "bm25_stopword toks w d = (case dict_get toks (token_hash w) of
     Some t \<Rightarrow> if t = w then Inr d else Inl (collision t w) | None \<Rightarrow> register_token w d)"
proof (cases "dict_get toks (token_hash w)")
  case None
  then show ?thesis by (simp add: bm25_stopword_def register_token_def split: prod.splits)
next
  case (Some t)
  then have "token_hash t = token_hash w" using assms(1) by (simp add: hashes_sound_def)
  then have "t \<noteq> []" using stopword_hash_Nil [OF assms(2)] by auto
  then obtain c t' where "t = c # t'" by (cases t) auto
  with Some show ?thesis by (simp add: bm25_stopword_def)
qed

lemma bm25_stopwords_ok:
  assumes "fold_res (bm25_stopword toks) ws d = Inr d'" and "hashes_sound toks" and "set ws \<subseteq> set ENGLISH_STOP_WORDS"
    and "distinct (dict_keys d)"
    and "\<forall>(k, t) \<in> set d. token_hash t = k \<and> t \<in> set ENGLISH_STOP_WORDS \<and> dict_get toks k = None"
  shows "distinct (dict_keys d') \<and>
    (\<forall>(k, t) \<in> set d'. token_hash t = k \<and> t \<in> set ENGLISH_STOP_WORDS \<and> dict_get toks k = None) \<and>
    (\<forall>k t. dict_get d k = Some t \<longrightarrow> dict_get d' k = Some t) \<and>
    (\<forall>w \<in> set ws. dict_get toks (token_hash w) = Some w \<or> dict_get d' (token_hash w) = Some w)"
  using assms(1,3,4,5)
proof (induction ws arbitrary: d)
  case (Cons w ws)
  from Cons.prems(1) obtain d1 where one: "bm25_stopword toks w d = Inr d1"
    and rest: "fold_res (bm25_stopword toks) ws d1 = Inr d'"
    by (auto simp: res_simps)
  have w: "w \<in> set ENGLISH_STOP_WORDS" using Cons.prems(2) by simp
  have step: "distinct (dict_keys d1)" "\<forall>(k, t) \<in> set d1. token_hash t = k \<and> t \<in> set ENGLISH_STOP_WORDS \<and> dict_get toks k = None"
    "\<forall>k t. dict_get d k = Some t \<longrightarrow> dict_get d1 k = Some t"
    "dict_get toks (token_hash w) = Some w \<or> dict_get d1 (token_hash w) = Some w"
  proof -
    consider (old) "dict_get toks (token_hash w) = Some w" "d1 = d"
      | (new) "dict_get toks (token_hash w) = None" "register_token w d = Inr d1"
      using one bm25_stopword_eq [OF assms(2) w, of d] by (auto split: option.splits if_splits)
    note both = this
    show "distinct (dict_keys d1)"
      using both Cons.prems(3) by cases (simp_all add: register_token_Inr distinct_setdefault)
    show "\<forall>(k, t) \<in> set d1. token_hash t = k \<and> t \<in> set ENGLISH_STOP_WORDS \<and> dict_get toks k = None"
      using both Cons.prems(4) w
      by cases (auto simp: register_token_Inr setdefault_def split: option.splits)
    show "\<forall>k t. dict_get d k = Some t \<longrightarrow> dict_get d1 k = Some t"
      using both by cases (auto dest: tokens.kept)
    show "dict_get toks (token_hash w) = Some w \<or> dict_get d1 (token_hash w) = Some w"
      using both by cases (auto dest: tokens.registered)
  qed
  have "set ws \<subseteq> set ENGLISH_STOP_WORDS" using Cons.prems(2) by simp
  note y = Cons.IH [OF rest this step(1,2)]
  note y3 = conjunct1 [OF conjunct2 [OF conjunct2 [OF y]]]
    and y4 = conjunct2 [OF conjunct2 [OF conjunct2 [OF y]]]
  have "dict_get toks (token_hash w) = Some w \<or> dict_get d' (token_hash w) = Some w"
    using step(4) y3 by blast
  with y4 have "\<forall>v \<in> set (w # ws). dict_get toks (token_hash v) = Some v \<or> dict_get d' (token_hash v) = Some v"
    by simp
  moreover have "\<forall>k t. dict_get d k = Some t \<longrightarrow> dict_get d' k = Some t" using step(3) y3 by blast
  ultimately show ?case using conjunct1 [OF y] conjunct1 [OF conjunct2 [OF y]] by blast
qed simp

lemma bm25_stopwords_result:
  assumes "fold_res (bm25_stopword toks) ENGLISH_STOP_WORDS [] = Inr stops" and "hashes_sound toks"
  shows "distinct (dict_keys stops)"
    and "\<forall>(k, t) \<in> set stops. token_hash t = k \<and> t \<in> set ENGLISH_STOP_WORDS \<and> dict_get toks k = None"
    and "w \<in> set ENGLISH_STOP_WORDS \<Longrightarrow> dict_get toks (token_hash w) = Some w \<or> dict_get stops (token_hash w) = Some w"
proof -
  have "distinct (dict_keys ([] :: (int, ustr) dict))"
    "\<forall>(k, t) \<in> set ([] :: (int, ustr) dict). token_hash t = k \<and> t \<in> set ENGLISH_STOP_WORDS \<and> dict_get toks k = None"
    by simp_all
  note r = bm25_stopwords_ok [OF assms subset_refl this]
  show "distinct (dict_keys stops)" using r by (rule conjunct1)
  show "\<forall>(k, t) \<in> set stops. token_hash t = k \<and> t \<in> set ENGLISH_STOP_WORDS \<and> dict_get toks k = None"
    using conjunct2 [OF r] by (rule conjunct1)
  show "w \<in> set ENGLISH_STOP_WORDS \<Longrightarrow> dict_get toks (token_hash w) = Some w \<or> dict_get stops (token_hash w) = Some w"
    using conjunct2 [OF conjunct2 [OF conjunct2 [OF r]]] by blast
qed

text \<open>When no stop word collides with a token, the loop succeeds.\<close>

lemma bm25_stopwords_total:
  assumes "hashes_sound toks" and "set ws \<subseteq> set ENGLISH_STOP_WORDS" and "distinct (map token_hash ws)"
    and "\<forall>w \<in> set ws. dict_get toks (token_hash w) = None \<or> dict_get toks (token_hash w) = Some w"
    and "\<forall>w \<in> set ws. token_hash w \<notin> fst ` set d"
  shows "fold_res (bm25_stopword toks) ws d =
    Inr (d @ map (\<lambda>w. (token_hash w, w)) (filter (\<lambda>w. dict_get toks (token_hash w) = None) ws))"
  using assms(2-)
proof (induction ws arbitrary: d)
  case (Cons w ws)
  have w: "w \<in> set ENGLISH_STOP_WORDS" using Cons.prems(1) by simp
  show ?case
  proof (cases "dict_get toks (token_hash w)")
    case None
    have "dict_get d (token_hash w) = None" using Cons.prems(4) by (simp add: map_of_eq_None_iff)
    then have "bm25_stopword toks w d = Inr (d @ [(token_hash w, w)])"
      using bm25_stopword_eq [OF assms(1) w, of d] None by (simp add: register_token_def setdefault_def)
    moreover have "\<forall>v \<in> set ws. token_hash v \<notin> fst ` set (d @ [(token_hash w, w)])"
      using Cons.prems(2,4) by (auto simp: image_iff)
    then have "fold_res (bm25_stopword toks) ws (d @ [(token_hash w, w)]) = Inr ((d @ [(token_hash w, w)]) @
        map (\<lambda>w. (token_hash w, w)) (filter (\<lambda>w. dict_get toks (token_hash w) = None) ws))"
      using Cons.prems(1,2,3) by (intro Cons.IH) simp_all
    ultimately show ?thesis using None by simp
  next
    case (Some t)
    then have "bm25_stopword toks w d = Inr d"
      using bm25_stopword_eq [OF assms(1) w, of d] Cons.prems(3) by simp
    with Cons Some show ?thesis by auto
  qed
qed simp

end
