(* ===== verification/Bm25Table.thy ===== *)
theory Bm25Table
  imports Bm25Invariants
begin

section \<open>The tables of a BM25 policy\<close>

text \<open>
  What holds of the rules, documents and terms \<open>bm25_parse\<close> returns: the term table is strictly
  sorted by hash, the weights cannot overflow the accumulator, the documents of the rules are
  disjoint ranges, every stop word has its entry; and which errors parsing can raise.
\<close>

subsection \<open>The term table\<close>

definition alias_of :: "(int, ustr) dict \<Rightarrow> int \<times> int list \<Rightarrow> bm25_term_entry" where
  "alias_of toks item = \<lparr>bt_hash = fst item, bt_token = get_default toks (fst item) [],
     bt_weights = snd item, bt_stopword = False\<rparr>"

lemma alias_entries:
  assumes "\<forall>item \<in> set items. dict_get toks (fst item) \<noteq> None"
  shows "map_res (alias_entry toks) items = Inr (map (alias_of toks) items)"
  using assms by (intro map_res_total) (auto simp: alias_entry_def alias_of_def get_default_def)

lemma bm25_terms_cases:
  assumes st: "bm25_ok st" and res: "bm25_terms index st = Inr terms"
  obtains toks avecs stops where "fold_res (bm25_stem index (b_vectors st)) (b_surfaces st) (b_tokens st, []) = Inr (toks, avecs)"
    and "aliases_ok (toks, avecs)" and "fold_res (bm25_stopword toks) ENGLISH_STOP_WORDS [] = Inr stops"
    and "terms = sort_key bt_hash (map (alias_of toks) (sort_key fst avecs) @ map stopword_entry (sort_key fst stops))"
    and "length terms \<le> MAX_TERMS" and "list_all (\<lambda>t. token_bytes (bt_token t) = Inr (bt_token t)) terms"
proof -
  have ok0: "aliases_ok (b_tokens st, [])" using st by (auto simp: aliases_ok_def bm25_ok_def tables_ok_def)
  have vec: "\<forall>k v. dict_get (b_vectors st) k = Some v \<longrightarrow> weights_ok v"
    using st by (simp add: bm25_ok_def tables_ok_def)
  from res obtain toks avecs stops as bs where
      f: "fold_res (bm25_stem index (b_vectors st)) (b_surfaces st) (b_tokens st, []) = Inr (toks, avecs)"
    and g: "fold_res (bm25_stopword toks) ENGLISH_STOP_WORDS [] = Inr stops"
    and as: "map_res (alias_entry toks) (sort_key fst avecs) = Inr as"
    and bytes: "map_res (\<lambda>t. token_bytes (bt_token t)) (as @ map stopword_entry (sort_key fst stops)) = Inr bs"
    and terms: "terms = sort_key bt_hash (as @ map stopword_entry (sort_key fst stops))" "length terms \<le> MAX_TERMS"
    unfolding bm25_terms_def Let_def bind_res_Inr_iff ensure_iff by (auto simp del: map_res.simps)
  have ok: "aliases_ok (toks, avecs)" using conjunct1 [OF bm25_stems_ok [OF f ok0 vec]] .
  then have "\<forall>item \<in> set (sort_key fst avecs). dict_get toks (fst item) \<noteq> None"
    by (auto simp: aliases_ok_def)
  from alias_entries [OF this] as have as': "as = map (alias_of toks) (sort_key fst avecs)" by simp
  have "token_bytes (bt_token t) = Inr (bt_token t)" if "t \<in> set terms" for t
  proof -
    have "t \<in> set (as @ map stopword_entry (sort_key fst stops))" using that terms(1) by simp
    from map_res_dom [OF bytes this] obtain b where "token_bytes (bt_token t) = Inr b" by blast
    then show ?thesis by (auto simp: token_bytes_def split: if_splits)
  qed
  then have "list_all (\<lambda>t. token_bytes (bt_token t) = Inr (bt_token t)) terms" by (simp add: list_all_iff)
  with that f ok g terms show thesis unfolding as' by blast
qed


lemma bm25_table_facts:
  assumes "bm25_parse U L V policy = Inr (rules, docs, terms)"
  shows "length terms \<le> MAX_TERMS \<and> sorted_wrt (<) (map bt_hash terms) \<and>
    list_all (\<lambda>t. token_hash (bt_token t) = bt_hash t \<and> is_ascii (bt_token t) \<and>
      length (bt_token t) \<le> MAX_TOKEN_BYTES \<and> weights_ok (bt_weights t)) terms"
proof -
  from assms obtain st index where st: "bm25_signals U L policy = Inr st" and t: "bm25_terms index st = Inr terms"
    by (auto simp: bm25_parse_def res_simps)
  have ok: "bm25_ok st" using bm25_signals_ok [OF st] ..
  from bm25_terms_cases [OF ok t] obtain toks avecs stops where al: "aliases_ok (toks, avecs)"
    and g: "fold_res (bm25_stopword toks) ENGLISH_STOP_WORDS [] = Inr stops"
    and terms: "terms = sort_key bt_hash (map (alias_of toks) (sort_key fst avecs) @ map stopword_entry (sort_key fst stops))"
    and len: "length terms \<le> MAX_TERMS" and bytes: "list_all (\<lambda>t. token_bytes (bt_token t) = Inr (bt_token t)) terms"
    by blast
  have hs: "hashes_sound toks" using al by (simp add: aliases_ok_def hashes_sound_def)
  note sw = bm25_stopwords_result [OF g hs]
  have d1: "distinct (map fst avecs)" using al by (simp add: aliases_ok_def)
  have keys: "map bt_hash (map (alias_of toks) (sort_key fst avecs) @ map stopword_entry (sort_key fst stops)) =
      map fst (sort_key fst avecs) @ map fst (sort_key fst stops)"
    by (simp add: alias_of_def stopword_entry_def comp_def)
  have dd: "distinct (map fst (sort_key fst xs))" if "distinct (map fst xs)" for xs :: "(int \<times> 'a) list"
    using that by (metis mset_eq_imp_distinct_iff mset_map mset_sort)
  have disj: "fst ` set avecs \<inter> fst ` set stops = {}"
  proof -
    have "k \<notin> fst ` set stops" if "k \<in> fst ` set avecs" for k
    proof -
      have "dict_get toks k \<noteq> None" using that al by (auto simp: aliases_ok_def)
      then show ?thesis using sw(2) by fastforce
    qed
    then show ?thesis by blast
  qed
  have "distinct (map bt_hash (map (alias_of toks) (sort_key fst avecs) @ map stopword_entry (sort_key fst stops)))"
    unfolding keys using d1 sw(1) disj by (simp add: dd)
  then have "sorted_wrt (<) (map bt_hash terms)" unfolding terms by (rule sort_key_strict)
  moreover have "token_hash (bt_token t) = bt_hash t \<and> weights_ok (bt_weights t)" if "t \<in> set terms" for t
  proof -
    from that terms consider k v where "(k, v) \<in> set avecs" "t = alias_of toks (k, v)"
      | k w where "(k, w) \<in> set stops" "t = stopword_entry (k, w)" by auto
    then show ?thesis
    proof cases
      case 1
      then show ?thesis using al by (auto simp: aliases_ok_def alias_of_def get_default_def)
    next
      case 2
      then show ?thesis using sw(2) weights_ok_new by (fastforce simp: stopword_entry_def)
    qed
  qed
  ultimately show ?thesis using len bytes by (auto simp: list_all_iff token_bytes_def split: if_splits)
qed

lemma bm25_table_sorted: "bm25_parse U L V policy = Inr (rules, docs, terms) \<Longrightarrow> sorted_wrt (<) (map bt_hash terms)"
  using bm25_table_facts [of U L V policy rules docs terms] by blast

text \<open>C32. The term table of a policy: at most 2048 entries, strictly sorted by hash, so a lookup by
  hash finds at most one; every entry's hash is the hash of its token, the token is ASCII of at most
  64 bytes, and there is one weight per document slot, each within the per-term bound.\<close>

theorem bm25_term_table:
  assumes "bm25_parse U L V policy = Inr (rules, docs, terms)"
  shows "length terms \<le> MAX_TERMS \<and> sorted_wrt (<) (map bt_hash terms) \<and>
    list_all (\<lambda>t. token_hash (bt_token t) = bt_hash t \<and> is_ascii (bt_token t) \<and>
      length (bt_token t) \<le> MAX_TOKEN_BYTES \<and> weights_ok (bt_weights t)) terms"
  using assms by (rule bm25_table_facts)

text \<open>C33. No overflow: for any query of at most 131072 tokens, however its tokens hit the term table,
  the score a document accumulates from the table's weights is non-negative and fits a signed 64-bit
  integer.\<close>

theorem bm25_score_bound:
  assumes "bm25_parse U L V policy = Inr (rules, docs, terms)"
    and "int (length hits) \<le> MAX_QUERY_TOKENS" and "set hits \<subseteq> set terms" and "d < MAX_DOCUMENTS"
  shows "0 \<le> sum_list (map (\<lambda>t. bt_weights t ! d) hits) \<and>
    sum_list (map (\<lambda>t. bt_weights t ! d) hits) \<le> 2 ^ 63 - 1"
proof -
  from assms(1) obtain st index where st: "bm25_signals U L policy = Inr st" and t: "bm25_terms index st = Inr terms"
    by (auto simp: bm25_parse_def res_simps)
  have ok: "bm25_ok st" using bm25_signals_ok [OF st] ..
  from bm25_terms_cases [OF ok t] obtain toks avecs stops where al: "aliases_ok (toks, avecs)"
    and terms: "terms = sort_key bt_hash (map (alias_of toks) (sort_key fst avecs) @ map stopword_entry (sort_key fst stops))"
    by blast
  have "weights_ok (bt_weights t)" if "t \<in> set terms" for t
    using that al weights_ok_new unfolding terms
    by (auto simp: aliases_ok_def alias_of_def stopword_entry_def)
  then have w: "0 \<le> bt_weights t ! d \<and> bt_weights t ! d \<le> MAX_FIXED_TERM_WEIGHT" if "t \<in> set hits" for t
    using that assms(3,4) by (metis nth_mem subsetD weights_ok_def)
  have "0 \<le> sum_list (map (\<lambda>t. bt_weights t ! d) hits) \<and>
      sum_list (map (\<lambda>t. bt_weights t ! d) hits) \<le> int (length hits) * MAX_FIXED_TERM_WEIGHT"
    using w
  proof (induction hits)
    case (Cons t hits)
    have "0 \<le> bt_weights t ! d \<and> bt_weights t ! d \<le> MAX_FIXED_TERM_WEIGHT" using Cons.prems by simp
    moreover have "0 \<le> sum_list (map (\<lambda>t. bt_weights t ! d) hits) \<and>
      sum_list (map (\<lambda>t. bt_weights t ! d) hits) \<le> int (length hits) * MAX_FIXED_TERM_WEIGHT"
      using Cons by simp
    ultimately show ?case by (simp add: algebra_simps)
  qed simp
  moreover have "int (length hits) * MAX_FIXED_TERM_WEIGHT \<le> MAX_QUERY_TOKENS * MAX_FIXED_TERM_WEIGHT"
    using assms(2) by (intro mult_right_mono) (simp_all add: MAX_FIXED_TERM_WEIGHT_def MAX_FIXED_SCORE_def MAX_QUERY_TOKENS_def)
  moreover have "MAX_QUERY_TOKENS * MAX_FIXED_TERM_WEIGHT \<le> 2 ^ 63 - 1"
    by (simp add: MAX_FIXED_TERM_WEIGHT_def MAX_FIXED_SCORE_def MAX_QUERY_TOKENS_def)
  ultimately show ?thesis by linarith
qed


subsection \<open>Every registered token is a stem of a configured surface\<close>

definition tokens_from :: "ustr set \<Rightarrow> bm25_state \<Rightarrow> bool" where
  "tokens_from S st \<longleftrightarrow> (\<forall>k t. dict_get (b_tokens st) k = Some t \<longrightarrow> t \<in> S)"

lemma bm25_term_from:
  assumes "bm25_term L corpus tokens d (t, n) st = Inr st'" "tokens_from S st" "t \<in> S"
  shows "tokens_from S st'"
proof -
  obtain vecs vector where sd: "setdefault (b_vectors st) (token_hash t) (replicate MAX_DOCUMENTS 0) = (vecs, vector)"
    by (cases "setdefault (b_vectors st) (token_hash t) (replicate MAX_DOCUMENTS 0)")
  with assms(1) obtain toks where r: "register_token t (b_tokens st) = Inr toks" and b: "b_tokens st' = toks"
    by (auto simp: bm25_term_def res_simps)
  show ?thesis using tokens.nothing_else [OF r] assms(2,3) b by (auto simp: tokens_from_def)
qed

lemma bm25_document_from:
  assumes "bm25_document_step L corpus thr tokens st = Inr st'" "tokens_from S st" "set tokens \<subseteq> S"
  shows "tokens_from S st'"
  using assms(1) unfolding bm25_document_step_def
proof (rule fold_res_invariant)
  show "tokens_from S (st\<lparr>b_docs := b_docs st @ [\<lparr>bd_rule = length (b_rules st), bd_threshold = thr\<rparr>]\<rparr>)"
    using assms(2) by (simp add: tokens_from_def)
  fix item a b
  assume "item \<in> set (counter tokens)" "tokens_from S a"
    and r: "bm25_term L corpus tokens (length (b_docs st)) item a = Inr b"
  moreover obtain t n where item: "item = (t, n)" by (cases item)
  ultimately have "t \<in> S" using assms(3) by (auto simp: mem_counter_iff)
  from bm25_term_from [OF r [unfolded item] \<open>tokens_from S a\<close> this] show "tokens_from S b" .
qed

lemma bm25_signal_from:
  assumes inv: "tokens_from (fst ` set (b_surfaces st)) st" and ok: "bm25_ok st"
    and res: "bm25_signal U L dec signal st = Inr st'"
  shows "tokens_from (fst ` set (b_surfaces st')) st'"
proof (cases "st' = st")
  case True
  with inv show ?thesis by simp
next
  case False
  from bm25_signal_cases [OF res False] obtain s name rn opn v vs where
    kw: "bm25_keywords U L dec s name rn opn (v # vs) st = Inr st'" .
  from kw obtain thr corpus raw st1 rl where
      room: "\<not> (MAX_RULES \<le> length (b_rules st) \<or> MAX_DOCUMENTS < length (b_docs st) + length (v # vs))"
    and corpus: "map_res (\<lambda>value. tokenize U (py_str U value)) (v # vs) = Inr corpus"
    and raw: "map_res (\<lambda>value. ascii_words U (py_str U value)) (v # vs) = Inr raw"
    and docs: "fold_res (bm25_document_step L corpus thr) corpus
        (st\<lparr>b_surfaces := fold (fold add_surface) raw (b_surfaces st)\<rparr>) = Inr st1"
    and st': "st' = st1\<lparr>b_rules := b_rules st1 @ [rl]\<rparr>"
    unfolding bm25_keywords_def Let_def bind_res_Inr_iff ensure_iff by blast
  let ?st0 = "st\<lparr>b_surfaces := fold (fold add_surface) raw (b_surfaces st)\<rparr>"
  let ?S = "fst ` set (fold (fold add_surface) raw (b_surfaces st))"
  have S: "?S = fst ` set (b_surfaces st) \<union> stem_english ` set (concat raw)" by (rule add_surfaces_keys)
  have t0: "tables_ok ?st0" using ok by (simp add: bm25_ok_def tables_ok_def)
  have len: "length corpus = length (v # vs)" using map_res_length [OF corpus] .
  have room0: "length (b_docs ?st0) + length corpus \<le> MAX_DOCUMENTS" using room len by simp
  have sur: "b_surfaces st1 = fold (fold add_surface) raw (b_surfaces st)"
    using bm25_documents_ok [OF docs t0 room0] by simp
  have "tokens_from ?S st1"
    using docs
  proof (rule fold_res_invariant)
    show "tokens_from ?S ?st0" using inv S by (auto simp: tokens_from_def)
    fix tokens a b
    assume t: "tokens \<in> set corpus" and a: "tokens_from ?S a" and r: "bm25_document_step L corpus thr tokens a = Inr b"
    from t obtain ws where "ws \<in> set raw" "tokens = map stem_english ws"
      unfolding corpus_stems [OF corpus raw] by auto
    then have "set tokens \<subseteq> stem_english ` set (concat raw)" by (simp only: set_map set_concat) blast
    then have "set tokens \<subseteq> ?S" unfolding S by blast
    from bm25_document_from [OF r a this] show "tokens_from ?S b" .
  qed
  then show ?thesis unfolding st' using sur by (simp add: tokens_from_def)
qed

lemma bm25_signals_from:
  assumes "bm25_signals U L policy = Inr st"
  shows "tokens_from (fst ` set (b_surfaces st)) st"
proof -
  from assms obtain dec signals where f: "fold_res (bm25_signal U L dec) signals bm25_init = Inr st"
    by (auto simp: bm25_signals_def res_simps)
  have "bm25_ok st \<and> tokens_from (fst ` set (b_surfaces st)) st"
    using f
  proof (rule fold_res_invariant)
    show "bm25_ok bm25_init \<and> tokens_from (fst ` set (b_surfaces bm25_init)) bm25_init"
      using bm25_ok_init by (simp add: tokens_from_def bm25_init_def)
  qed (use bm25_signal_ok bm25_signal_from in blast)
  then show ?thesis ..
qed

text \<open>The tokens of the alias loop: those of the signals and the aliases that got a vector.\<close>

lemma bm25_stems_tokens:
  assumes "fold_res (bm25_stem index vectors) items acc = Inr acc'"
    and "\<forall>k t. dict_get (fst acc) k = Some t \<longrightarrow> t \<in> S \<or> k \<in> fst ` set (snd acc)"
  shows "\<forall>k t. dict_get (fst acc') k = Some t \<longrightarrow> t \<in> S \<or> k \<in> fst ` set (snd acc')"
  using assms
proof (rule fold_res_invariant [where P = "\<lambda>acc. \<forall>k t. dict_get (fst acc) k = Some t \<longrightarrow> t \<in> S \<or> k \<in> fst ` set (snd acc)"])
  fix item a b
  assume inv: "\<forall>k t. dict_get (fst a) k = Some t \<longrightarrow> t \<in> S \<or> k \<in> fst ` set (snd a)"
    and r: "bm25_stem index vectors item a = Inr b"
  from r obtain v as where "fold_res (bm25_alias v) as a = Inr b"
    by (auto simp: bm25_stem_def split: prod.splits option.splits)
  then show "\<forall>k t. dict_get (fst b) k = Some t \<longrightarrow> t \<in> S \<or> k \<in> fst ` set (snd b)"
    using inv
  proof (rule fold_res_invariant [where P = "\<lambda>acc. \<forall>k t. dict_get (fst acc) k = Some t \<longrightarrow> t \<in> S \<or> k \<in> fst ` set (snd acc)"])
    fix al x y
    assume inv: "\<forall>k t. dict_get (fst x) k = Some t \<longrightarrow> t \<in> S \<or> k \<in> fst ` set (snd x)"
      and r: "bm25_alias v al x = Inr y"
    from r obtain toks where t: "register_token al (fst x) = Inr toks"
      and y: "y = (toks, dict_set (token_hash al) v (snd x))"
      by (auto simp: bm25_alias_def res_simps)
    show "\<forall>k t. dict_get (fst y) k = Some t \<longrightarrow> t \<in> S \<or> k \<in> fst ` set (snd y)"
      unfolding y fst_conv snd_conv set_keys_dict_set using tokens.nothing_else [OF t] inv by blast
  qed
qed

text \<open>The table of a policy, with every registered token accounted for.\<close>

lemma bm25_parse_cases:
  assumes "bm25_parse U L V policy = Inr (rules, docs, terms)"
  obtains st toks avecs stops where "bm25_signals U L policy = Inr st" and "bm25_ok st"
    and "rules = b_rules st" and "docs = b_docs st"
    and "aliases_ok (toks, avecs)" and "fold_res (bm25_stopword toks) ENGLISH_STOP_WORDS [] = Inr stops"
    and "terms = sort_key bt_hash (map (alias_of toks) (sort_key fst avecs) @ map stopword_entry (sort_key fst stops))"
    and "\<forall>k t. dict_get toks k = Some t \<longrightarrow> k \<in> fst ` set avecs"
    and "\<forall>(stem, s) \<in> set (b_surfaces st). dict_get toks (token_hash stem) = Some stem"
proof -
  from assms obtain st index where st: "bm25_signals U L policy = Inr st" and t: "bm25_terms index st = Inr terms"
    and rd: "rules = b_rules st" "docs = b_docs st"
    by (auto simp: bm25_parse_def res_simps)
  have ok: "bm25_ok st" using bm25_signals_ok [OF st] ..
  from bm25_terms_cases [OF ok t] obtain toks avecs stops where
      f: "fold_res (bm25_stem index (b_vectors st)) (b_surfaces st) (b_tokens st, []) = Inr (toks, avecs)"
    and al: "aliases_ok (toks, avecs)"
    and g: "fold_res (bm25_stopword toks) ENGLISH_STOP_WORDS [] = Inr stops"
    and terms: "terms = sort_key bt_hash (map (alias_of toks) (sort_key fst avecs) @ map stopword_entry (sort_key fst stops))"
    by blast
  have ok0: "aliases_ok (b_tokens st, [])" using ok by (auto simp: aliases_ok_def bm25_ok_def tables_ok_def)
  have vec: "\<forall>k v. dict_get (b_vectors st) k = Some v \<longrightarrow> weights_ok v"
    using ok by (simp add: bm25_ok_def tables_ok_def)
  note stems = bm25_stems_ok [OF f ok0 vec, unfolded fst_conv snd_conv]
  note covered = conjunct1 [OF conjunct2 [OF conjunct2 [OF stems]]]
  let ?S = "fst ` set (b_surfaces st)"
  have self: "dict_get toks (token_hash stem) = Some stem \<and> token_hash stem \<in> fst ` set avecs"
    if "(stem, s) \<in> set (b_surfaces st)" for stem s
    using covered that stem_is_alias [of stem index s] by blast
  have "\<forall>k t. dict_get (fst (b_tokens st, [] :: (int, int list) dict)) k = Some t \<longrightarrow>
      t \<in> ?S \<or> k \<in> fst ` set (snd (b_tokens st, [] :: (int, int list) dict))"
    using bm25_signals_from [OF st] by (simp add: tokens_from_def)
  note toks = bm25_stems_tokens [OF f this, unfolded fst_conv snd_conv]
  have "\<forall>k t. dict_get toks k = Some t \<longrightarrow> k \<in> fst ` set avecs"
  proof (intro allI impI)
    fix k t assume k: "dict_get toks k = Some t"
    then have "token_hash t = k" using al by (simp add: aliases_ok_def)
    then show "k \<in> fst ` set avecs" using toks k self by force
  qed
  moreover have "\<forall>(stem, s) \<in> set (b_surfaces st). dict_get toks (token_hash stem) = Some stem"
    using self by blast
  ultimately show thesis by (rule that [OF st ok rd al g terms])
qed


lemma bm25_stopword_entry:
  assumes "bm25_parse U L V policy = Inr (rules, docs, terms)" and "w \<in> set ENGLISH_STOP_WORDS"
  shows "\<exists>!t. t \<in> set terms \<and> bt_token t = w"
proof -
  obtain st0 toks avecs stops where sg: "bm25_signals U L policy = Inr st0" and ok: "bm25_ok st0"
    and rd: "rules = b_rules st0" "docs = b_docs st0"
    and al: "aliases_ok (toks, avecs)" and g: "fold_res (bm25_stopword toks) ENGLISH_STOP_WORDS [] = Inr stops"
    and terms: "terms = sort_key bt_hash (map (alias_of toks) (sort_key fst avecs) @ map stopword_entry (sort_key fst stops))"
    and keyed: "\<forall>k t. dict_get toks k = Some t \<longrightarrow> k \<in> fst ` set avecs"
    and self: "\<forall>(stem, s) \<in> set (b_surfaces st0). dict_get toks (token_hash stem) = Some stem"
    by (rule bm25_parse_cases [OF assms(1)])
  have hs: "hashes_sound toks" using al by (simp add: aliases_ok_def hashes_sound_def)
  note sw = bm25_stopwords_result [OF g hs]
  have mem: "t \<in> set terms \<longleftrightarrow> (\<exists>k v. (k, v) \<in> set avecs \<and> t = alias_of toks (k, v)) \<or>
      (\<exists>k x. (k, x) \<in> set stops \<and> t = stopword_entry (k, x))" for t
    unfolding terms by auto
  have "\<exists>t. t \<in> set terms \<and> bt_token t = w"
  proof (cases "dict_get toks (token_hash w)")
    case None
    then have "(token_hash w, w) \<in> set stops" using sw(3) [OF assms(2)] by (auto dest: map_of_SomeD)
    then show ?thesis using mem [of "stopword_entry (token_hash w, w)"] by (auto simp: stopword_entry_def)
  next
    case (Some t)
    then have t: "t = w" using sw(3) [OF assms(2)] sw(2) by (fastforce dest: map_of_SomeD)
    from keyed Some obtain v where "(token_hash w, v) \<in> set avecs" by force
    then show ?thesis
      using mem [of "alias_of toks (token_hash w, v)"] Some t by (auto simp: alias_of_def get_default_def)
  qed
  moreover have "a = b" if "a \<in> set terms" "bt_token a = w" "b \<in> set terms" "bt_token b = w" for a b
  proof -
    have h: "bt_hash t = token_hash (bt_token t)" if "t \<in> set terms" for t
      using that mem [of t] al sw(2)
      by (auto simp: aliases_ok_def alias_of_def get_default_def stopword_entry_def split: option.splits)
    have "sorted_wrt (<) (map bt_hash terms)"
      using bm25_table_sorted [OF assms(1)] .
    then have "distinct (map bt_hash terms)" by (simp add: strict_sorted_iff)
    then show ?thesis using h that by (metis distinct_map inj_onD)
  qed
  ultimately show ?thesis by blast
qed

text \<open>Every stop word has exactly one entry of the table under its own token.\<close>

theorem bm25_stopwords_present:
  assumes "bm25_parse U L V policy = Inr (rules, docs, terms)" and "w \<in> set ENGLISH_STOP_WORDS"
  shows "\<exists>!t. t \<in> set terms \<and> bt_token t = w"
  using assms by (rule bm25_stopword_entry)

text \<open>C35. A stop word that is the stem of a configured keyword is not treated as a stop word: its entry
  of the table is a scored term. (The tokenizer of queries drops the word, see
  \<open>stopwords_never_scored\<close>.)\<close>

theorem stopword_stem_is_scored:
  assumes "bm25_parse U L V policy = Inr (rules, docs, terms)"
    and "bm25_signals U L policy = Inr st" and "(stem, s) \<in> set (b_surfaces st)" and "stem \<in> set ENGLISH_STOP_WORDS"
  shows "\<exists>t \<in> set terms. bt_token t = stem \<and> \<not> bt_stopword t"
proof -
  obtain st0 toks avecs stops where sg: "bm25_signals U L policy = Inr st0" and ok: "bm25_ok st0"
    and rd: "rules = b_rules st0" "docs = b_docs st0"
    and al: "aliases_ok (toks, avecs)" and g: "fold_res (bm25_stopword toks) ENGLISH_STOP_WORDS [] = Inr stops"
    and terms: "terms = sort_key bt_hash (map (alias_of toks) (sort_key fst avecs) @ map stopword_entry (sort_key fst stops))"
    and keyed: "\<forall>k t. dict_get toks k = Some t \<longrightarrow> k \<in> fst ` set avecs"
    and self: "\<forall>(stem, s) \<in> set (b_surfaces st0). dict_get toks (token_hash stem) = Some stem"
    by (rule bm25_parse_cases [OF assms(1)])
  have "st0 = st" using sg assms(2) by simp
  with self assms(3) have t: "dict_get toks (token_hash stem) = Some stem" by blast
  from keyed t obtain v where "(token_hash stem, v) \<in> set avecs" by force
  then have "alias_of toks (token_hash stem, v) \<in> set terms" unfolding terms by auto
  with t show ?thesis by (force simp: alias_of_def get_default_def)
qed

lemma stopwords_never_scored:
  "w \<notin> set (filter (\<lambda>t. t \<notin> set ENGLISH_STOP_WORDS) (find_words text))" if "w \<in> set ENGLISH_STOP_WORDS"
  using that by simp


subsection \<open>The document ranges\<close>

lemma rules_ok_start: "rules_ok rs \<Longrightarrow> i < length rs \<Longrightarrow> br_start (rs ! i) = sum_list (map br_count (take i rs))"
  by (simp add: rules_ok_def)

lemma range_end: "rules_ok rs \<Longrightarrow> i < length rs \<Longrightarrow>
    br_start (rs ! i) + br_count (rs ! i) = sum_list (map br_count (take (Suc i) rs))"
  by (simp add: rules_ok_start take_Suc_conv_app_nth)

lemma sum_take_mono: "i \<le> j \<Longrightarrow> sum_list (map f (take i xs)) \<le> (sum_list (map f (take j xs)) :: nat)"
proof -
  assume "i \<le> j"
  then have "take j xs = take i xs @ take (j - i) (drop i xs)"
    by (metis le_add_diff_inverse take_add)
  then show ?thesis by simp
qed

lemma ranges_ordered:
  "rules_ok rs \<Longrightarrow> i < j \<Longrightarrow> j < length rs \<Longrightarrow> br_start (rs ! i) + br_count (rs ! i) \<le> br_start (rs ! j)"
  using sum_take_mono [of "Suc i" j br_count rs] range_end [of rs i] rules_ok_start [of rs j] by simp

lemma rules_ok_butlast: "rules_ok (rs @ [r]) \<Longrightarrow> rules_ok rs \<and> br_start r = sum_list (map br_count rs)"
proof -
  assume h: "rules_ok (rs @ [r])"
  have "rules_ok rs"
    using h unfolding rules_ok_def by (auto simp: nth_append split: if_splits dest: less_SucI)
  moreover have "br_start r = sum_list (map br_count rs)"
    using rules_ok_start [OF h, of "length rs"] by simp
  ultimately show ?thesis ..
qed

lemma documents_of_nth:
  "rules_ok rs \<Longrightarrow> k < length (documents_of rs) \<Longrightarrow>
   \<exists>i < length rs. br_start (rs ! i) \<le> k \<and> k < br_start (rs ! i) + br_count (rs ! i) \<and>
     documents_of rs ! k = \<lparr>bd_rule = i, bd_threshold = br_threshold (rs ! i)\<rparr>"
proof (induction rs rule: rev_induct)
  case Nil
  then show ?case by (simp add: documents_of_def)
next
  case (snoc r rs)
  have rs: "rules_ok rs" and start: "br_start r = length (documents_of rs)"
    using rules_ok_butlast [OF snoc.prems(1)] by (simp_all add: length_documents_of)
  show ?case
  proof (cases "k < length (documents_of rs)")
    case True
    from snoc.IH [OF rs True] obtain i where i: "i < length rs" "br_start (rs ! i) \<le> k"
      "k < br_start (rs ! i) + br_count (rs ! i)"
      "documents_of rs ! k = \<lparr>bd_rule = i, bd_threshold = br_threshold (rs ! i)\<rparr>" by blast
    then show ?thesis using True by (intro exI [of _ i]) (simp add: documents_of_snoc nth_append)
  next
    case False
    then show ?thesis
      using snoc.prems(2) start
      by (intro exI [of _ "length rs"]) (auto simp: documents_of_snoc nth_append)
  qed
qed

lemma bit_range_mask: "bit ((2 ^ c - 1) * 2 ^ s :: int) k \<longleftrightarrow> s \<le> k \<and> k < s + c"
  by (auto simp: bit_push_bit_iff bit_mask_iff mask_eq_exp_minus_1 [symmetric] push_bit_eq_mult [symmetric])

text \<open>The documents of a policy and its rules: at most 8 rules and 16 documents; every document
  belongs to a rule and carries that rule's threshold; and the bit of a document is set in a rule's
  document mask exactly when the document belongs to the rule, so the masks are disjoint, cover all
  documents and nothing else.\<close>

theorem bm25_document_masks:
  assumes "bm25_parse U L V policy = Inr (rules, docs, terms)"
  shows "length rules \<le> MAX_RULES \<and> length docs \<le> MAX_DOCUMENTS \<and>
    (\<forall>k < length docs. bd_rule (docs ! k) < length rules \<and>
       bd_threshold (docs ! k) = br_threshold (rules ! bd_rule (docs ! k))) \<and>
    (\<forall>i < length rules. \<forall>k. bit (br_mask (rules ! i)) k \<longleftrightarrow> k < length docs \<and> bd_rule (docs ! k) = i)"
proof -
  from assms obtain st where "bm25_signals U L policy = Inr st" and rd: "rules = b_rules st" "docs = b_docs st"
    by (auto simp: bm25_parse_def res_simps)
  then have ok: "bm25_ok st" using bm25_signals_ok by blast
  then have r: "rules_ok rules" and d: "docs = documents_of rules"
    and lens: "length docs \<le> MAX_DOCUMENTS" "length rules \<le> MAX_RULES"
    unfolding bm25_ok_def rd by blast+
  have nth: "\<exists>i < length rules. br_start (rules ! i) \<le> k \<and> k < br_start (rules ! i) + br_count (rules ! i) \<and>
     docs ! k = \<lparr>bd_rule = i, bd_threshold = br_threshold (rules ! i)\<rparr>" if "k < length docs" for k
    using documents_of_nth [OF r] that d by simp
  have mask: "bit (br_mask (rules ! i)) k \<longleftrightarrow> br_start (rules ! i) \<le> k \<and> k < br_start (rules ! i) + br_count (rules ! i)"
    if "i < length rules" for i k
    using r that by (simp add: rules_ok_def bit_range_mask)
  have inside: "k < length docs" if "i < length rules" "k < br_start (rules ! i) + br_count (rules ! i)" for i k
    using that range_end [OF r that(1)] sum_take_mono [of "Suc i" "length rules" br_count rules]
    by (simp add: d length_documents_of)
  have same: "i = j" if "i < length rules" "j < length rules"
    "br_start (rules ! i) \<le> k" "k < br_start (rules ! i) + br_count (rules ! i)"
    "br_start (rules ! j) \<le> k" "k < br_start (rules ! j) + br_count (rules ! j)" for i j k
    using that ranges_ordered [OF r, of i j] ranges_ordered [OF r, of j i]
    by (cases i j rule: linorder_cases) auto
  have "bit (br_mask (rules ! i)) k \<longleftrightarrow> k < length docs \<and> bd_rule (docs ! k) = i" if i: "i < length rules" for i k
  proof (cases "k < length docs")
    case True
    from nth [OF True] obtain j where j: "j < length rules" "br_start (rules ! j) \<le> k"
      "k < br_start (rules ! j) + br_count (rules ! j)" "bd_rule (docs ! k) = j" by auto
    then show ?thesis using mask [OF i, of k] same [OF i j(1), of k] True by auto
  next
    case False
    then show ?thesis using mask [OF i, of k] inside [OF i, of k] by auto
  qed
  moreover have "bd_rule (docs ! k) < length rules \<and> bd_threshold (docs ! k) = br_threshold (rules ! bd_rule (docs ! k))"
    if "k < length docs" for k
    using nth [OF that] by auto
  ultimately show ?thesis using lens by blast
qed

subsection \<open>Errors\<close>

text \<open>The failures of a lookup or an index, which no path of the parser reaches.\<close>

definition internal_error :: "pyerr \<Rightarrow> bool" where
  "internal_error e \<longleftrightarrow> e = IndexErr \<or> (\<exists>k. e = KeyErr k)"


named_theorems not_internal \<open>computations that do not fail internally\<close>

lemma internal_bind:
  "bind_res m f = Inl e \<Longrightarrow> internal_error e \<Longrightarrow> (\<And>e. m = Inl e \<Longrightarrow> \<not> internal_error e) \<Longrightarrow>
   \<exists>x. m = Inr x \<and> f x = Inl e"
  by (auto simp: res_simps)

lemma internal_ensure: "ensure b e' = Inl e \<Longrightarrow> \<not> internal_error e' \<Longrightarrow> \<not> internal_error e"
  by (auto simp: res_simps)

lemma not_internal_errors [simp]:
  "\<not> internal_error (ValueError t a)" "\<not> internal_error (TypeErr t)" "\<not> internal_error (AttributeErr t)"
  "\<not> internal_error (OverflowErr t)" "\<not> internal_error InvalidOperation" "\<not> internal_error UnicodeEncodeErr"
  by (simp_all add: internal_error_def)

lemma not_internal_py_int [not_internal]: "py_int U v = Inl e \<Longrightarrow> \<not> internal_error e"
  by (cases v) (auto split: option.splits decimal.splits)

lemma not_internal_fixed [not_internal]: "decimal_fixed scale t = Inl e \<Longrightarrow> \<not> internal_error e"
  by (auto simp: decimal_fixed_def Let_def split: option.splits decimal.splits bool.splits if_splits)

lemma not_internal_threshold [not_internal]: "threshold_fixed U v = Inl e \<Longrightarrow> \<not> internal_error e"
  by (auto simp: threshold_fixed_def res_simps dest: not_internal_fixed)

lemma not_internal_route [not_internal]: "signal_route_name U s d = Inl e \<Longrightarrow> \<not> internal_error e"
  by (auto simp: signal_route_name_def Let_def split: if_splits option.splits)

lemma not_internal_words [not_internal]: "ascii_words U t = Inl e \<Longrightarrow> \<not> internal_error e"
  by (auto simp: ascii_words_def split: if_splits)

lemma not_internal_tokenize [not_internal]: "tokenize U t = Inl e \<Longrightarrow> \<not> internal_error e"
  by (auto simp: tokenize_def res_simps dest: not_internal_words)

lemma not_internal_map: "map_res f xs = Inl e \<Longrightarrow> (\<And>x e. f x = Inl e \<Longrightarrow> \<not> internal_error e) \<Longrightarrow> \<not> internal_error e"
  by (induction xs) (auto simp: bind_res_Inl_iff)

lemma not_internal_weight [not_internal]: "term_weight L corpus tokens t n = Inl e \<Longrightarrow> \<not> internal_error e"
  unfolding term_weight_def by (rule not_internal_fixed)

lemma not_internal_register [not_internal]: "register_token t d = Inl e \<Longrightarrow> \<not> internal_error e"
  by (auto simp: register_token_def collision_def split: prod.splits if_splits)

lemma not_internal_signals [not_internal]: "keyword_signals policy = Inl e \<Longrightarrow> \<not> internal_error e"
  by (auto simp: keyword_signals_def split: pyval.splits option.splits)

lemma not_internal_decisions [not_internal]: "decision_keyword_routes U policy = Inl e \<Longrightarrow> \<not> internal_error e"
proof -
  have inner: "(case v of PDict r \<Rightarrow> (case g r of PList l \<Rightarrow> Inr (h l) | _ \<Rightarrow> Inr a) | _ \<Rightarrow> Inr a) \<noteq> Inl e"
    for v and g :: "(ustr \<times> pyval) list \<Rightarrow> pyval" and h and a :: decisions
    by (cases v) (simp_all split: pyval.split)
  have step: "decision_step U d acc = Inl e \<Longrightarrow> \<not> internal_error e" for d acc
    by (cases d) (auto simp: decision_step_def Let_def bind_res_Inl_iff inner split: if_splits dest: not_internal_py_int)
  have "fold_res (decision_step U) ds acc = Inl e \<Longrightarrow> \<not> internal_error e" for ds acc
    by (erule fold_res_error [where P = "\<lambda>_. True"]) (auto dest: step)
  then show "decision_keyword_routes U policy = Inl e \<Longrightarrow> \<not> internal_error e"
    by (auto simp: decision_keyword_routes_def split: pyval.splits)
qed

lemma not_internal_term:
  assumes "tables_ok st" "d < MAX_DOCUMENTS" "bm25_term L corpus tokens d item st = Inl e"
  shows "\<not> internal_error e"
proof -
  obtain t n where item: "item = (t, n)" by (cases item)
  obtain vecs vector where sd: "setdefault (b_vectors st) (token_hash t) (replicate MAX_DOCUMENTS 0) = (vecs, vector)"
    by (cases "setdefault (b_vectors st) (token_hash t) (replicate MAX_DOCUMENTS 0)")
  have "length vector = MAX_DOCUMENTS"
    using sd assms(1) by (auto simp: setdefault_def tables_ok_def weights_ok_def split: option.splits)
  with assms(2,3) sd show ?thesis
    by (auto simp: item bm25_term_def res_simps dest: not_internal)
qed

lemma not_internal_document:
  assumes "tables_ok st" "length (b_docs st) < MAX_DOCUMENTS" "bm25_document_step L corpus thr tokens st = Inl e"
  shows "\<not> internal_error e"
  using assms(3) unfolding bm25_document_step_def
proof (rule fold_res_error [where P = tables_ok])
  show "tables_ok (st\<lparr>b_docs := b_docs st @ [\<lparr>bd_rule = length (b_rules st), bd_threshold = thr\<rparr>]\<rparr>)"
    using assms(1) by (simp add: tables_ok_def)
next
  fix item a b
  assume "tables_ok a" "bm25_term L corpus tokens (length (b_docs st)) item a = Inr b"
  then show "tables_ok b" using bm25_term_ok [OF _ assms(2)] by (cases item) blast
next
  fix item a
  assume "tables_ok a" "bm25_term L corpus tokens (length (b_docs st)) item a = Inl e"
  then show "\<not> internal_error e" using not_internal_term assms(2) by blast
qed

lemma not_internal_documents:
  "fold_res (bm25_document_step L corpus thr) docs st = Inl e \<Longrightarrow> tables_ok st \<Longrightarrow>
   length (b_docs st) + length docs \<le> MAX_DOCUMENTS \<Longrightarrow> \<not> internal_error e"
proof (induction docs arbitrary: st)
  case (Cons d docs)
  have room: "length (b_docs st) < MAX_DOCUMENTS" using Cons.prems(3) by simp
  show ?case
  proof (cases "bm25_document_step L corpus thr d st")
    case (Inl e')
    with Cons.prems show ?thesis using not_internal_document [OF Cons.prems(2) room] by simp
  next
    case (Inr st1)
    with Cons.prems(1) have rest: "fold_res (bm25_document_step L corpus thr) docs st1 = Inl e" by simp
    note one = bm25_document_step_ok [OF Inr Cons.prems(2) room]
    from one have "tables_ok st1" by blast
    moreover from one Cons.prems(3) have "length (b_docs st1) + length docs \<le> MAX_DOCUMENTS" by simp
    ultimately show ?thesis using Cons.IH [OF rest] by blast
  qed
qed simp

lemma not_internal_keywords:
  assumes "bm25_ok st" "bm25_keywords U L dec s name rn opn ks st = Inl e"
    and "rn \<in> set (dict_keys BM25_ROUTES)" "opn \<in> set (dict_keys BM25_OPERATORS)"
  shows "\<not> internal_error e"
proof -
  have docs: "\<not> internal_error e'" if "map_res (\<lambda>value. tokenize U (py_str U value)) ks = Inr corpus"
    "\<not> (MAX_RULES \<le> length (b_rules st) \<or> MAX_DOCUMENTS < length (b_docs st) + length ks)"
    "fold_res (bm25_document_step L corpus thr) corpus (st\<lparr>b_surfaces := f\<rparr>) = Inl e'" for corpus thr f e'
    using that(3)
  proof (rule not_internal_documents)
    show "tables_ok (st\<lparr>b_surfaces := f\<rparr>)" using assms(1) by (simp add: bm25_ok_def tables_ok_def)
    show "length (b_docs (st\<lparr>b_surfaces := f\<rparr>)) + length corpus \<le> MAX_DOCUMENTS"
      using that(2) map_res_length [OF that(1)] by simp
  qed
  have m1: "map_res (\<lambda>value. tokenize U (py_str U value)) ks = Inl e' \<Longrightarrow> \<not> internal_error e'" for e'
    by (erule not_internal_map) (rule not_internal_tokenize)
  have m2: "map_res (\<lambda>value. ascii_words U (py_str U value)) ks = Inl e' \<Longrightarrow> \<not> internal_error e'" for e'
    by (erule not_internal_map) (rule not_internal_words)
  have "dict_get BM25_ROUTES rn \<noteq> None" "dict_get BM25_OPERATORS opn \<noteq> None"
    using assms(3,4) by (simp_all add: map_of_eq_None_iff)
  then show ?thesis
    using assms(2) docs m1 m2 not_internal_threshold not_internal_py_int
    unfolding bm25_keywords_def Let_def bind_res_Inl_iff ensure_iff dict_index_iff
    by (elim disjE exE conjE) (simp_all)
qed


lemma not_internal_signal:
  assumes "bm25_ok st" "bm25_signal U L dec signal st = Inl e"
  shows "\<not> internal_error e"
proof (cases signal)
  case (PDict s)
  have kw: "\<not> internal_error e'" if "(case v of PList (x # xs) \<Rightarrow> bm25_keywords U L dec s name rn opn (x # xs) st
      | _ \<Rightarrow> Inl (ValueError t a)) = Inl e'" "rn \<in> set (dict_keys BM25_ROUTES)" "opn \<in> set (dict_keys BM25_OPERATORS)"
    for v name rn opn t a e'
    using that not_internal_keywords [OF assms(1)]
    by (cases v) (auto simp del: bind_res_simps split: list.splits)
  show ?thesis
    using assms(2) kw not_internal_route unfolding PDict bm25_signal_def Let_def pyval.case
    by (auto simp: bind_res_Inl_iff ensure_iff simp del: set_map split: if_splits)
qed (use assms(2) in \<open>simp_all add: bm25_signal_def\<close>)

lemma not_internal_stem:
  assumes "aliases_ok acc" "dict_get vectors (token_hash stem) \<noteq> None" "bm25_stem index vectors (stem, s) acc = Inl e"
  shows "\<not> internal_error e"
proof -
  from assms obtain v where "fold_res (bm25_alias v) (vocabulary_aliases index stem s) acc = Inl e"
    by (auto simp: bm25_stem_def)
  then show ?thesis
    by (rule fold_res_error [where P = "\<lambda>_. True"])
      (auto simp: bm25_alias_def res_simps dest: not_internal_register)
qed

lemma not_internal_all_signals:
  assumes "bm25_signals U L policy = Inl e" shows "\<not> internal_error e"
proof -
  have f: "\<not> internal_error e" if "fold_res (bm25_signal U L dec) sigs bm25_init = Inl e" for dec sigs
    using that
    by (rule fold_res_error [where P = bm25_ok]) (auto intro: bm25_ok_init bm25_signal_ok dest: not_internal_signal)
  show ?thesis
    using assms f not_internal_signals not_internal_decisions
    by (auto simp: bm25_signals_def bind_res_Inl_iff ensure_iff)
qed

lemma not_internal_stems:
  assumes "fold_res (bm25_stem index vectors) items acc = Inl e" "aliases_ok acc"
    and vec: "\<forall>k v. dict_get vectors k = Some v \<longrightarrow> weights_ok v"
    and known: "\<forall>(stem, s) \<in> set items. dict_get vectors (token_hash stem) \<noteq> None"
  shows "\<not> internal_error e"
  using assms(1,2)
proof (rule fold_res_error [where P = aliases_ok])
  fix item a b
  assume "aliases_ok a" "bm25_stem index vectors item a = Inr b"
  then show "aliases_ok b" using bm25_stem_ok [OF _ vec] by (cases item) blast
next
  fix item a
  assume i: "item \<in> set items" and a: "aliases_ok a" and r: "bm25_stem index vectors item a = Inl e"
  obtain stem s where item: "item = (stem, s)" by (cases item)
  from known i item have "dict_get vectors (token_hash stem) \<noteq> None" by blast
  from not_internal_stem [OF a this r [unfolded item]] show "\<not> internal_error e" .
qed

lemma surfaces_have_vectors:
  assumes "bm25_ok st"
  shows "\<forall>(stem, s) \<in> set (b_surfaces st). dict_get (b_vectors st) (token_hash stem) \<noteq> None"
proof
  fix item assume "item \<in> set (b_surfaces st)"
  moreover obtain stem s where item: "item = (stem, s)" by (cases item)
  ultimately have "stem \<in> fst ` set (b_surfaces st)" by force
  then obtain s' where "dict_get (b_surfaces st) stem = Some s'" by (metis dict_get_not_None not_None_eq)
  then have "dict_get (b_vectors st) (token_hash stem) \<noteq> None" using assms unfolding bm25_ok_def by blast
  then show "case item of (stem, s) \<Rightarrow> dict_get (b_vectors st) (token_hash stem) \<noteq> None"
    by (simp add: item)
qed

lemma not_internal_table:
  assumes ok: "bm25_ok st" and t: "bm25_terms index st = Inl e"
  shows "\<not> internal_error e"
proof -
  have ok0: "aliases_ok (b_tokens st, [])" using ok by (auto simp: aliases_ok_def bm25_ok_def tables_ok_def)
  have vec: "\<forall>k v. dict_get (b_vectors st) k = Some v \<longrightarrow> weights_ok v"
    using ok by (simp add: bm25_ok_def tables_ok_def)
  have stems: "\<not> internal_error e'" if "fold_res (bm25_stem index (b_vectors st)) (b_surfaces st) (b_tokens st, []) = Inl e'" for e'
    by (rule not_internal_stems [OF that ok0 vec surfaces_have_vectors [OF ok]])
  have stops: "\<not> internal_error e'" if "fold_res (bm25_stopword toks) ws d = Inl e'" for toks ws d e'
    using that by (rule fold_res_error [where P = "\<lambda>_. True"])
      (auto simp: bm25_stopword_def collision_def Let_def split: prod.splits if_splits)
  have bytes: "\<not> internal_error e'" if "map_res (\<lambda>t. token_bytes (bt_token t)) ts = Inl e'" for ts e'
    using that by (rule not_internal_map) (auto simp: token_bytes_def split: if_splits)
  have entries: "map_res (alias_entry (fst acc)) (sort_key fst (snd acc)) \<noteq> Inl e'"
    if "fold_res (bm25_stem index (b_vectors st)) (b_surfaces st) (b_tokens st, []) = Inr acc" for acc e'
  proof -
    have "aliases_ok acc" using conjunct1 [OF bm25_stems_ok [OF that ok0 vec]] .
    then have "\<forall>item \<in> set (sort_key fst (snd acc)). dict_get (fst acc) (fst item) \<noteq> None"
      by (auto simp: aliases_ok_def)
    from alias_entries [OF this] show ?thesis by simp
  qed
  show ?thesis
    using t stems stops bytes entries
    unfolding bm25_terms_def Let_def bind_res_Inl_iff ensure_iff
    by (elim disjE exE conjE) (simp_all)
qed

text \<open>C34. Every failure of the parser is one it reports: it raises no KeyError and no IndexError, so the guards
  admit only routes and operators the tables have, every stem has its vector, every alias its token, and
  no document index leaves the weight vector.\<close>

theorem bm25_parse_errors:
  assumes "bm25_parse U L V policy = Inl e"
  shows "\<not> internal_error e"
proof (cases "bm25_signals U L policy")
  case (Inl e')
  with assms not_internal_all_signals show ?thesis by (auto simp: bm25_parse_def)
next
  case (Inr st)
  then have ok: "bm25_ok st" using bm25_signals_ok by blast
  show ?thesis
  proof (cases "if b_surfaces st = [] then Inr [] else vocabulary_by_stem U V")
    case (Inl e')
    with assms \<open>bm25_signals U L policy = Inr st\<close> show ?thesis
      by (auto simp: bm25_parse_def vocabulary_by_stem_def split: if_splits)
  next
    case (Inr index)
    with assms \<open>bm25_signals U L policy = Inr st\<close> have "bm25_terms index st = Inl e"
      by (simp add: bm25_parse_def bind_res_Inl_iff)
    with not_internal_table [OF ok] show ?thesis .
  qed
qed


subsection \<open>When the table can be built\<close>

lemma bm25_terms_total:
  assumes st: "bm25_ok st"
    and f: "fold_res (bm25_stem index (b_vectors st)) (b_surfaces st) (b_tokens st, []) = Inr (toks, avecs)"
    and sw: "\<forall>w \<in> set ENGLISH_STOP_WORDS. dict_get toks (token_hash w) = None \<or> dict_get toks (token_hash w) = Some w"
    and tb: "\<forall>item \<in> set avecs. is_ascii (get_default toks (fst item) []) \<and> length (get_default toks (fst item) []) \<le> MAX_TOKEN_BYTES"
    and room: "length avecs + length ENGLISH_STOP_WORDS \<le> MAX_TERMS"
  shows "\<exists>terms. bm25_terms index st = Inr terms"
proof -
  have ok0: "aliases_ok (b_tokens st, [])" using st by (auto simp: aliases_ok_def bm25_ok_def tables_ok_def)
  have vec: "\<forall>k v. dict_get (b_vectors st) k = Some v \<longrightarrow> weights_ok v"
    using st by (simp add: bm25_ok_def tables_ok_def)
  have ok: "aliases_ok (toks, avecs)" using conjunct1 [OF bm25_stems_ok [OF f ok0 vec]] .
  then have hs: "hashes_sound toks" by (simp add: aliases_ok_def hashes_sound_def)
  let ?stops = "map (\<lambda>w. (token_hash w, w)) (filter (\<lambda>w. dict_get toks (token_hash w) = None) ENGLISH_STOP_WORDS)"
  have "\<forall>w \<in> set ENGLISH_STOP_WORDS. token_hash w \<notin> fst ` set ([] :: (int, ustr) dict)" by simp
  from bm25_stopwords_total [OF hs subset_refl stopword_hashes_distinct sw this]
  have g: "fold_res (bm25_stopword toks) ENGLISH_STOP_WORDS [] = Inr ?stops" by simp
  have "\<forall>item \<in> set (sort_key fst avecs). dict_get toks (fst item) \<noteq> None"
    using ok by (auto simp: aliases_ok_def)
  note as = alias_entries [OF this]
  let ?terms = "map (alias_of toks) (sort_key fst avecs) @ map stopword_entry (sort_key fst ?stops)"
  have "map_res (\<lambda>t. token_bytes (bt_token t)) ?terms = Inr (map bt_token ?terms)"
  proof (rule map_res_total)
    fix t assume "t \<in> set ?terms"
    then have "is_ascii (bt_token t) \<and> length (bt_token t) \<le> MAX_TOKEN_BYTES"
      using tb stopword_facts by (auto simp: alias_of_def stopword_entry_def list_all_iff)
    then show "token_bytes (bt_token t) = Inr (bt_token t)" by (simp add: token_bytes_def)
  qed
  moreover have "length avecs + length (filter (\<lambda>w. dict_get toks (token_hash w) = None) ENGLISH_STOP_WORDS) \<le> MAX_TERMS"
    using room length_filter_le [of "\<lambda>w. dict_get toks (token_hash w) = None" ENGLISH_STOP_WORDS] by linarith
  ultimately show ?thesis
    using f g as unfolding bm25_terms_def Let_def by simp
qed

subsection \<open>A policy, run\<close>

text \<open>
  A policy with one bm25 rule whose keyword stems to a stop word, run with a logarithm and a \<open>repr\<close>
  given by constants: any functions will do for an example.
\<close>

definition demo_lib :: floatlib where
  "demo_lib = \<lparr>f_log = (\<lambda>x. 1), f_repr = (\<lambda>x. u ''0.5'')\<rparr>"

definition demo_bm25 :: pyval where
  "demo_bm25 = PDict [(u ''routes'', PList [PDict [(u ''name'', PStr (u ''code_a'')),
     (u ''method'', PStr (u ''bm25'')), (u ''keywords'', PList [PStr (u ''Wills'')])]])]"

definition demo_vocabulary :: vocabulary where
  "demo_vocabulary = \<lparr>vo_digest = VOCABULARY_SHA256, vo_text = u ''will'' @ [10] @ u ''wills''\<rparr>"

definition demo_state :: bm25_state where
  "demo_state = \<lparr>b_rules = [\<lparr>br_threshold = 100000000, br_priority = 0, br_route = u ''XDP_ROUTE_CODING'',
       br_operator = u ''XDP_BM25_OR'', br_start = 0, br_count = 1, br_mask = 1\<rparr>],
     b_docs = [\<lparr>bd_rule = 0, bd_threshold = 100000000\<rparr>],
     b_vectors = [(269512077, 500000000 # replicate 15 0)], b_tokens = [(269512077, u ''will'')],
     b_surfaces = [(u ''will'', [u ''wills''])]\<rparr>"

definition demo_tokens :: "(int, ustr) dict" where
  "demo_tokens = [(269512077, u ''will''), (1205675738, u ''wills''), (3511974679, u ''will'' @ [39, 115]),
     (2806215132, u ''wills'' @ [39, 115])]"

lemma demo_signals: "bm25_signals ascii_db demo_lib demo_bm25 = Inr demo_state"
  by code_simp

lemma demo_index: "vocabulary_by_stem ascii_db demo_vocabulary = Inr [(u ''will'', [u ''will'', u ''wills''])]"
  by code_simp

lemma demo_stems:
  "fold_res (bm25_stem [(u ''will'', [u ''will'', u ''wills''])] (b_vectors demo_state)) (b_surfaces demo_state)
     (b_tokens demo_state, []) = Inr (demo_tokens, map (\<lambda>(k, t). (k, 500000000 # replicate 15 0)) demo_tokens)"
  by code_simp

lemma demo_stopwords: "list_all (\<lambda>w. dict_get demo_tokens (token_hash w) = None \<or>
    dict_get demo_tokens (token_hash w) = Some w) ENGLISH_STOP_WORDS"
  by code_simp


lemma demo_parses:
  "\<exists>terms. bm25_parse ascii_db demo_lib demo_vocabulary demo_bm25 = Inr (b_rules demo_state, b_docs demo_state, terms)"
proof -
  have ok: "bm25_ok demo_state" using bm25_signals_ok [OF demo_signals] ..
  have "\<exists>terms. bm25_terms [(u ''will'', [u ''will'', u ''wills''])] demo_state = Inr terms"
  proof (rule bm25_terms_total [OF ok demo_stems])
    show "\<forall>w \<in> set ENGLISH_STOP_WORDS. dict_get demo_tokens (token_hash w) = None \<or>
        dict_get demo_tokens (token_hash w) = Some w"
      using demo_stopwords by (simp only: list_all_iff)
    have "list_all (\<lambda>item. is_ascii (get_default demo_tokens (fst item) []) \<and>
        length (get_default demo_tokens (fst item) []) \<le> MAX_TOKEN_BYTES)
        (map (\<lambda>(k, t). (k, 500000000 # replicate 15 (0 :: int))) demo_tokens)"
      by code_simp
    then show "\<forall>item \<in> set (map (\<lambda>(k, t). (k, 500000000 # replicate 15 (0 :: int))) demo_tokens).
        is_ascii (get_default demo_tokens (fst item) []) \<and> length (get_default demo_tokens (fst item) []) \<le> MAX_TOKEN_BYTES"
      by (simp only: list_all_iff)
    show "length (map (\<lambda>(k, t). (k, 500000000 # replicate 15 (0 :: int))) demo_tokens) + length ENGLISH_STOP_WORDS \<le> MAX_TERMS"
      by code_simp
  qed
  then show ?thesis
    using demo_signals demo_index by (auto simp: bm25_parse_def demo_state_def)
qed

lemma bm25_term_table_witness:
  "\<exists>terms. bm25_parse ascii_db demo_lib demo_vocabulary demo_bm25 = Inr (b_rules demo_state, b_docs demo_state, terms) \<and>
     length terms \<le> 2048"
proof -
  from demo_parses obtain terms where
    p: "bm25_parse ascii_db demo_lib demo_vocabulary demo_bm25 = Inr (b_rules demo_state, b_docs demo_state, terms)" ..
  from bm25_term_table [OF p] p show ?thesis by (auto simp: MAX_TERMS_def)
qed

lemma bm25_stopwords_present_witness:
  "\<exists>terms. bm25_parse ascii_db demo_lib demo_vocabulary demo_bm25 = Inr (b_rules demo_state, b_docs demo_state, terms) \<and>
     (\<exists>!t. t \<in> set terms \<and> bt_token t = u ''the'')"
proof -
  have the: "u ''the'' \<in> set ENGLISH_STOP_WORDS" by code_simp
  from demo_parses obtain terms where
    p: "bm25_parse ascii_db demo_lib demo_vocabulary demo_bm25 = Inr (b_rules demo_state, b_docs demo_state, terms)" ..
  from bm25_stopwords_present [OF p the] p show ?thesis by blast
qed

lemma bm25_score_bound_witness:
  "\<exists>terms t. bm25_parse ascii_db demo_lib demo_vocabulary demo_bm25 = Inr (b_rules demo_state, b_docs demo_state, terms) \<and>
     t \<in> set terms \<and> 0 \<le> sum_list (map (\<lambda>t. bt_weights t ! 0) [t, t, t])"
proof -
  from demo_parses obtain terms where
    p: "bm25_parse ascii_db demo_lib demo_vocabulary demo_bm25 = Inr (b_rules demo_state, b_docs demo_state, terms)" ..
  have "u ''the'' \<in> set ENGLISH_STOP_WORDS" by code_simp
  from bm25_stopword_entry [OF p this] obtain t where t: "t \<in> set terms" by blast
  from bm25_score_bound [OF p, of "[t, t, t]" 0] t p show ?thesis
    by (auto simp: MAX_QUERY_TOKENS_def MAX_DOCUMENTS_def)
qed

lemma stopword_stem_is_scored_witness:
  "\<exists>terms. bm25_parse ascii_db demo_lib demo_vocabulary demo_bm25 = Inr (b_rules demo_state, b_docs demo_state, terms) \<and>
     (\<exists>t \<in> set terms. bt_token t = u ''will'' \<and> \<not> bt_stopword t) \<and> tokenize_query ascii_db (u ''will'') = []"
proof -
  from demo_parses obtain terms where
    p: "bm25_parse ascii_db demo_lib demo_vocabulary demo_bm25 = Inr (b_rules demo_state, b_docs demo_state, terms)" ..
  have will: "u ''will'' \<in> set ENGLISH_STOP_WORDS" by code_simp
  have s: "(u ''will'', [u ''wills'']) \<in> set (b_surfaces demo_state)" by (simp add: demo_state_def)
  have q: "tokenize_query ascii_db (u ''will'') = []" by code_simp
  from stopword_stem_is_scored [OF p demo_signals s will] p q show ?thesis by blast
qed

lemma bm25_document_masks_witness:
  "bit (br_mask (b_rules demo_state ! 0)) 0 \<longleftrightarrow> 0 < length (b_docs demo_state) \<and> bd_rule (b_docs demo_state ! 0) = 0"
proof -
  from demo_parses obtain terms where
    p: "bm25_parse ascii_db demo_lib demo_vocabulary demo_bm25 = Inr (b_rules demo_state, b_docs demo_state, terms)" ..
  show ?thesis using bm25_document_masks [OF p] by (simp add: demo_state_def)
qed

lemma bm25_parse_errors_witness:
  "bm25_parse ascii_db demo_lib demo_vocabulary (PDict []) = Inl (ValueError ''policy must define routing.signals.keywords'' []) \<and>
   \<not> internal_error (ValueError ''policy must define routing.signals.keywords'' [])"
proof -
  have "bm25_parse ascii_db demo_lib demo_vocabulary (PDict []) = Inl (ValueError ''policy must define routing.signals.keywords'' [])"
    by code_simp
  from bm25_parse_errors [OF this] this show ?thesis by blast
qed

end
