(* ===== verification/Bm25Reference.thy ===== *)
theory Bm25Reference
  imports Bm25Policy
begin

section \<open>The BM25 reference\<close>

text \<open>
  benchmarks/policy/bm25_reference.py: the float scores of a query against the keywords of a rule
  (\<open>keyword_scores\<close>), the fixed-point scores the kernel accumulates (\<open>fixed_scores\<close>) and the verdict
  of a rule (\<open>rule_matches\<close>), here \<open>bm25_rule_matches\<close>. The threshold is given as the float the code
  converts it to.
\<close>

subsection \<open>Scores\<close>

definition float_term :: "floatlib \<Rightarrow> ustr list list \<Rightarrow> ustr list \<Rightarrow> ustr \<Rightarrow> rat" where
  "float_term L corpus document token =
     fmul (inverse_frequency L (length corpus) (get_default (document_frequency corpus) token 0))
       (term_frequency (get_default (counter document) token 0) (length document) (average_length corpus))"

definition document_score :: "floatlib \<Rightarrow> ustr list list \<Rightarrow> ustr list \<Rightarrow> ustr list \<Rightarrow> rat" where
  "document_score L corpus query_tokens document =
     fold (\<lambda>token score. if get_default (counter document) token 0 = 0 then score
       else fadd score (float_term L corpus document token)) query_tokens 0"

definition keyword_scores :: "unidb \<Rightarrow> floatlib \<Rightarrow> ustr \<Rightarrow> ustr list \<Rightarrow> rat list res" where
  "keyword_scores U L query keywords = bind_res (map_res (tokenize U) keywords) (\<lambda>corpus.
     if corpus = [] then Inr []
     else Inr (map (document_score L corpus (tokenize_query U query)) corpus))"

definition fixed_term :: "floatlib \<Rightarrow> ustr list list \<Rightarrow> ustr list \<Rightarrow> ustr \<Rightarrow> int" where
  "fixed_term L corpus document token =
     round_half_even (fmul (float_term L corpus document token) (of_int SCORE_SCALE))"

definition fixed_scores :: "unidb \<Rightarrow> floatlib \<Rightarrow> ustr \<Rightarrow> ustr list \<Rightarrow> int list res" where
  "fixed_scores U L query keywords = bind_res (map_res (tokenize U) keywords) (\<lambda>corpus.
     if corpus = [] then Inl ZeroDivisionErr
     else let query_counts = counter (tokenize_query U query) in
       Inr (map (\<lambda>document. fold (\<lambda>(token, occurrences) total.
         if get_default (counter document) token 0 = 0 then total
         else total + fixed_term L corpus document token * int occurrences) query_counts 0) corpus))"

subsection \<open>The verdict of a rule\<close>

definition operator_verdict :: "ustr \<Rightarrow> nat \<Rightarrow> nat \<Rightarrow> bool" where
  "operator_verdict operator matched available =
     (if operator = u ''OR'' then 0 < matched
      else if operator = u ''AND'' then matched = available
      else if operator = u ''NOR'' then matched = 0 else False)"

definition bm25_rule_matches :: "unidb \<Rightarrow> floatlib \<Rightarrow> ustr \<Rightarrow> ustr list \<Rightarrow> ustr \<Rightarrow> rat \<Rightarrow> bool res" where
  "bm25_rule_matches U L query keywords operator threshold_value =
     bind_res (keyword_scores U L query keywords) (\<lambda>scores.
       let matched = filter (\<lambda>score. 0 < score \<and> threshold_value \<le> score) scores in
       Inr (operator_verdict (u_upper U operator) (length matched) (length keywords)))"

text \<open>
  The contract both references share: a rule sees how many of its keywords match. The laws of the
  three operators are stated once.
\<close>

locale keyword_rule =
  fixes verdict :: "ustr \<Rightarrow> bool" and matched available :: nat
  assumes or_iff: "verdict (u ''OR'') \<longleftrightarrow> 0 < matched"
    and and_iff: "verdict (u ''AND'') \<longleftrightarrow> matched = available"
    and nor_iff: "verdict (u ''NOR'') \<longleftrightarrow> matched = 0"
    and bounded: "matched \<le> available"
begin

lemma nor_not_or: "verdict (u ''NOR'') \<longleftrightarrow> \<not> verdict (u ''OR'')"
  by (simp add: or_iff nor_iff)

lemma and_or: "0 < available \<Longrightarrow> verdict (u ''AND'') \<Longrightarrow> verdict (u ''OR'')"
  by (simp add: or_iff and_iff)

end

lemma keyword_rule_verdict: "matched \<le> available \<Longrightarrow> keyword_rule (\<lambda>op. operator_verdict op matched available) matched available"
  by unfold_locales (simp_all add: operator_verdict_def)

lemma length_keyword_scores: "keyword_scores U L query keywords = Inr scores \<Longrightarrow> length scores = length keywords"
  by (auto simp: keyword_scores_def bind_res_Inr_iff dest!: map_res_length split: if_splits)

interpretation bm25_verdict:
  keyword_rule "\<lambda>op. operator_verdict op (length (filter P scores)) (length scores)"
    "length (filter P scores)" "length scores" for P :: "rat \<Rightarrow> bool" and scores
  by (rule keyword_rule_verdict) simp

text \<open>The operators of a BM25 rule: with the same query, keywords and threshold, NOR is the
  negation of OR, and AND implies OR when the rule has a keyword; the verdict is computed for any
  spelling of the operator that upper-cases to it, and raises only when a keyword is not ASCII.\<close>

theorem bm25_rule_operators:
  assumes "unicode_case (u_lower U) (u_upper U)" and "list_all is_ascii keywords"
  shows "\<exists>some every. bm25_rule_matches U L query keywords (u ''or'') t = Inr some \<and>
    bm25_rule_matches U L query keywords (u ''And'') t = Inr every \<and>
    bm25_rule_matches U L query keywords (u ''nor'') t = Inr (\<not> some) \<and> (keywords \<noteq> [] \<and> every \<longrightarrow> some)"
proof -
  have "map_res (tokenize U) keywords = Inr (map (tokenize_query U) keywords)"
    using assms(2) by (intro map_res_total) (auto simp: tokenize_ascii list_all_iff)
  then have "\<exists>scores. keyword_scores U L query keywords = Inr scores"
    by (simp add: keyword_scores_def)
  then obtain scores where s: "keyword_scores U L query keywords = Inr scores" ..
  have len: "length scores = length keywords" using length_keyword_scores [OF s] .
  let ?P = "\<lambda>score. 0 < score \<and> t \<le> score"
  have up: "u_upper U (u ''or'') = u ''OR''" "u_upper U (u ''And'') = u ''AND''" "u_upper U (u ''nor'') = u ''NOR''"
    using unicode_case.upper_ascii [OF assms(1)] by (simp_all add: u_def ascii_upper_def char_defs)
  have run: "bm25_rule_matches U L query keywords op t = Inr (operator_verdict (u_upper U op) (length (filter ?P scores)) (length scores))" for op
    by (simp add: bm25_rule_matches_def s len)
  show ?thesis
    unfolding run up using bm25_verdict.nor_not_or [of ?P scores] bm25_verdict.and_or [of scores ?P] len by auto
qed

lemma bm25_rule_operators_witness:
  "\<exists>some every. bm25_rule_matches ascii_db \<lparr>f_log = (\<lambda>x. x), f_repr = (\<lambda>x. [])\<rparr> (u ''alpha'') [u ''alpha'', u ''beta''] (u ''or'') 0 = Inr some \<and>
    bm25_rule_matches ascii_db \<lparr>f_log = (\<lambda>x. x), f_repr = (\<lambda>x. [])\<rparr> (u ''alpha'') [u ''alpha'', u ''beta''] (u ''And'') 0 = Inr every"
proof -
  have "list_all is_ascii [u ''alpha'', u ''beta'']" by code_simp
  from bm25_rule_operators [OF ascii_db_case this] show ?thesis by blast
qed

subsection \<open>The kernel's accumulation\<close>

lemma fold_add_cond: "fold (\<lambda>x (t :: int). if P x then t else t + f x) xs a = a + sum_list (map (\<lambda>x. if P x then 0 else f x) xs)"
  by (induction xs arbitrary: a) simp_all

text \<open>A sum over distinct keys weighted by their counts is the sum over all occurrences.\<close>

lemma sum_counter:
  fixes f :: "'a \<Rightarrow> int"
  shows "sum_list (map (\<lambda>(k, n). f k * int n) (counter xs)) = sum_list (map f xs)"
proof -
  have "distinct (counter xs)" using distinct_keys_counter [of xs] unfolding distinct_map by blast
  then have "sum_list (map (\<lambda>(k, n). f k * int n) (counter xs)) = (\<Sum>(k, n) \<in> set (counter xs). f k * int n)"
    by (simp add: sum_list_distinct_conv_sum_set)
  also have "\<dots> = (\<Sum>k \<in> set xs. f k * int (count_list xs k))"
    by (rule sum.reindex_bij_witness [of _ "\<lambda>k. (k, count_list xs k)" fst]) (auto simp: mem_counter_iff)
  also have "\<dots> = sum_list (map f xs)"
  proof (induction xs)
    case (Cons x xs)
    have "(\<Sum>k \<in> set (x # xs). f k * int (count_list (x # xs) k)) =
        (\<Sum>k \<in> insert x (set xs). f k * int (count_list xs k) + (if k = x then f k else 0))"
      by (rule sum.cong) (auto simp: algebra_simps)
    also have "\<dots> = (\<Sum>k \<in> insert x (set xs). f k * int (count_list xs k)) +
        (\<Sum>k \<in> insert x (set xs). if k = x then f k else 0)"
      by (rule sum.distrib)
    also have "(\<Sum>k \<in> insert x (set xs). f k * int (count_list xs k)) = (\<Sum>k \<in> set xs. f k * int (count_list xs k))"
      by (rule sum.mono_neutral_right) (auto simp: count_list_0_iff)
    also have "(\<Sum>k \<in> insert x (set xs). if k = x then f k else 0) = f x"
      by (simp add: sum.delta)
    finally show ?case using Cons by simp
  qed simp
  finally show ?thesis .
qed

text \<open>The fixed-point scores are the kernel's: grouping the query's tokens by their number of
  occurrences gives the same total as adding the rounded weight of each occurrence in turn, and the
  reference divides by zero on a rule without keywords.\<close>

theorem fixed_scores_per_token:
  "fixed_scores U L query keywords = bind_res (map_res (tokenize U) keywords) (\<lambda>corpus.
     if corpus = [] then Inl ZeroDivisionErr
     else Inr (map (\<lambda>document. fold (\<lambda>token total.
       if token \<in> set document then total + fixed_term L corpus document token else total)
       (tokenize_query U query) 0) corpus))"
proof -
  have one: "fold (\<lambda>(token, occurrences) total.
         if get_default (counter document) token 0 = 0 then total
         else total + fixed_term L corpus document token * int occurrences) (counter qs) 0 =
       fold (\<lambda>token total. if token \<in> set document then total + fixed_term L corpus document token else total) qs 0"
    for corpus document qs
  proof -
    let ?w = "\<lambda>t. if t \<in> set document then fixed_term L corpus document t else 0"
    have "fold (\<lambda>(token, occurrences) total.
         if get_default (counter document) token 0 = 0 then total
         else total + fixed_term L corpus document token * int occurrences) (counter qs) 0 =
       sum_list (map (\<lambda>p. if fst p \<notin> set document then 0 else fixed_term L corpus document (fst p) * int (snd p)) (counter qs))"
      using fold_add_cond [of "\<lambda>p. fst p \<notin> set document"
        "\<lambda>p. fixed_term L corpus document (fst p) * int (snd p)" "counter qs" 0]
      by (simp only: get_default_counter count_list_0_iff case_prod_unfold add_0)
    also have "\<dots> = sum_list (map (\<lambda>(k, n). ?w k * int n) (counter qs))"
      by (intro arg_cong [where f = sum_list] map_cong) auto
    also have "\<dots> = sum_list (map ?w qs)" by (rule sum_counter)
    also have "\<dots> = fold (\<lambda>token total. if token \<in> set document then total + fixed_term L corpus document token else total) qs 0"
      by (induction qs rule: rev_induct) simp_all
    finally show ?thesis .
  qed
  show ?thesis by (simp add: fixed_scores_def Let_def one cong: if_cong)
qed

end
