(* ===== verification/JaccardPolicy.thy ===== *)
theory JaccardPolicy
  imports KeywordPolicy
begin

section \<open>The n-gram policy\<close>

text \<open>
  benchmarks/policy/generate_jaccard_policy_header.py: thresholds in thousandths, case folding,
  the packed character trigrams of each keyword with their multiplicities, the table that maps
  upper-case code points to lower case, the policy parser and the generated C.

  Names that clash with the BM25 policy have the prefix \<open>jaccard\<close>. \<open>maxunicode\<close> stands for the
  interpreter's \<open>sys.maxunicode\<close>.
\<close>

definition MAX_KEYWORDS :: nat where "MAX_KEYWORDS = 16"
definition JACCARD_MAX_RULES :: nat where "JACCARD_MAX_RULES = 8"
definition MAX_GRAMS :: nat where "MAX_GRAMS = 32"
definition MAX_ARITY :: nat where "MAX_ARITY = 3"

lemmas jaccard_limits = MAX_KEYWORDS_def JACCARD_MAX_RULES_def MAX_GRAMS_def MAX_ARITY_def

definition JACCARD_ROUTES :: "(ustr \<times> ustr) list" where
  "JACCARD_ROUTES = [(u ''coding'', u ''XDP_ROUTE_CODING''), (u ''math'', u ''XDP_ROUTE_MATH''),
     (u ''qa'', u ''XDP_ROUTE_QA''), (u ''writing'', u ''XDP_ROUTE_WRITING'')]"

definition JACCARD_OPERATORS :: "(ustr \<times> ustr) list" where
  "JACCARD_OPERATORS = [(u ''OR'', u ''XDP_JACCARD_OR''), (u ''AND'', u ''XDP_JACCARD_AND''),
     (u ''NOR'', u ''XDP_JACCARD_NOR'')]"

subsection \<open>Thresholds\<close>

definition threshold_milli :: "unidb \<Rightarrow> pyval \<Rightarrow> int res" where
  "threshold_milli U v = (case decimal_text U (py_str U v) of
     None \<Rightarrow> Inl InvalidOperation
   | Some (DNaN _) \<Rightarrow> Inl InvalidOperation
   | Some (DInf _) \<Rightarrow> Inl (ValueError ''ngram_threshold must be between 0 and 1'' [])
   | Some (DFin threshold) \<Rightarrow>
       if \<not> (0 \<le> threshold \<and> threshold \<le> 1) then Inl (ValueError ''ngram_threshold must be between 0 and 1'' [])
       else let scaled = dec28 (threshold * 1000) in
         if scaled \<noteq> of_int \<lfloor>scaled\<rfloor>
         then Inl (ValueError ''ngram_threshold must be representable to thousandth precision'' [])
         else Inr \<lfloor>scaled\<rfloor>)"

subsection \<open>Case folding\<close>

definition scalar_lower_char :: "unidb \<Rightarrow> ustr \<Rightarrow> int \<Rightarrow> int res" where
  "scalar_lower_char U keyword char = (case u_lower U [char] of
     [c] \<Rightarrow> Inr c
   | _ \<Rightarrow> Inl (ValueError ''keyword {!r} requires expanding Unicode case folding'' [keyword]))"

definition scalar_lower :: "unidb \<Rightarrow> ustr \<Rightarrow> ustr \<Rightarrow> ustr res" where
  "scalar_lower U text keyword = map_res (scalar_lower_char U keyword) text"

definition normalize :: "unidb \<Rightarrow> ustr \<Rightarrow> bool \<Rightarrow> ustr res" where
  "normalize U text case_sensitive = (if case_sensitive then Inr text
     else let lowered = u_lower U text in
       bind_res (scalar_lower U text text) (\<lambda>_.
       let uppercase = u_upper U text in
       bind_res (scalar_lower U uppercase text) (\<lambda>scalar.
       if u_lower U uppercase \<noteq> scalar
       then Inl (ValueError ''keyword {!r} requires context-sensitive Unicode lowercasing'' [text])
       else Inr lowered)))"

subsection \<open>Grams\<close>

definition pad_word :: "nat \<Rightarrow> ustr \<Rightarrow> ustr" where
  "pad_word arity word = replicate (arity - 1) 32 @ word @ replicate (arity - 1) 32"

text \<open>The windows \<open>padded[i : i + arity]\<close>, for \<open>i\<close> in \<open>range(len(padded) - arity + 1)\<close>.\<close>

definition windows :: "nat \<Rightarrow> ustr \<Rightarrow> ustr list" where
  "windows arity padded = map (\<lambda>i. take arity (drop i padded)) [0 ..< length padded + 1 - arity]"

definition unique_counts :: "ustr list \<Rightarrow> ustr list \<times> nat list" where
  "unique_counts all_grams = fold (\<lambda>g (result, multiplicities).
     if g \<in> set result then (result, multiplicities)
     else (result @ [g], multiplicities @ [get_default (counter all_grams) g 0])) all_grams ([], [])"

definition gram_counts :: "unidb \<Rightarrow> ustr \<Rightarrow> nat \<Rightarrow> bool \<Rightarrow> (ustr list \<times> nat list \<times> nat) res" where
  "gram_counts U keyword arity case_sensitive =
     bind_res (normalize U keyword case_sensitive) (\<lambda>normalized.
     let all_grams = windows arity (pad_word arity normalized) in
     bind_res (ensure (length all_grams \<le> MAX_GRAMS)
       (ValueError ''keyword {!r} produces {} trigrams; max is 32'' [keyword, show_nat (length all_grams)])) (\<lambda>_.
     case unique_counts all_grams of (result, multiplicities) \<Rightarrow>
     bind_res (ensure (length result \<le> MAX_GRAMS)
       (ValueError ''keyword {!r} produces {} unique grams; max is 32'' [keyword, show_nat (length result)])) (\<lambda>_.
     Inr (result, multiplicities, length all_grams))))"

definition grams :: "unidb \<Rightarrow> ustr \<Rightarrow> nat \<Rightarrow> bool \<Rightarrow> ustr list res" where
  "grams U keyword arity case_sensitive = bind_res (gram_counts U keyword arity case_sensitive) (\<lambda>r. Inr (fst r))"

subsection \<open>The case-fold table\<close>

definition casefold_entries :: "unidb \<Rightarrow> nat \<Rightarrow> ustr list \<Rightarrow> (int \<times> int) list res" where
  "casefold_entries U maxunicode texts =
     (let targets = concat (map (u_lower U) texts);
          entries = concat (map (\<lambda>codepoint. case u_lower U [codepoint] of
              [c] \<Rightarrow> if c \<in> set targets \<and> codepoint \<noteq> c then [(codepoint, c)] else []
            | _ \<Rightarrow> []) (map int [0 ..< maxunicode + 1]))
      in if 128 < length entries
         then Inl (ValueError ''Unicode case-fold policy requires more than 128 bounded mappings'' [])
         else Inr entries)"

subsection \<open>Parsing\<close>

record jaccard_rule =
  jr_threshold :: int
  jr_priority :: int
  jr_route :: ustr
  jr_operator :: ustr
  jr_arity :: int
  jr_case_sensitive :: bool
  jr_keyword_count :: nat

record jaccard_keyword =
  jk_rule :: nat
  jk_grams :: "ustr list"
  jk_counts :: "nat list"
  jk_total :: nat

record jaccard_state =
  j_rules :: "jaccard_rule list"
  j_keywords :: "jaccard_keyword list"
  j_texts :: "ustr list"
  j_case :: "bool option"

definition jaccard_init :: jaccard_state where
  "jaccard_init = \<lparr>j_rules = [], j_keywords = [], j_texts = [], j_case = None\<rparr>"

definition jaccard_value :: "unidb \<Rightarrow> ustr \<Rightarrow> nat \<Rightarrow> bool \<Rightarrow> pyval \<Rightarrow> jaccard_state \<Rightarrow> jaccard_state res" where
  "jaccard_value U name rule_id case_sensitive v st =
     bind_res (ensure (length (j_keywords st) < MAX_KEYWORDS) (ValueError ''at most 16 keywords are supported'' [])) (\<lambda>_.
     let text = py_str U v in
     bind_res (ensure (text \<noteq> []) (ValueError ''{}: empty keywords are not supported'' [name])) (\<lambda>_.
     bind_res (gram_counts U text MAX_ARITY case_sensitive) (\<lambda>(gram_values, counts, n).
     Inr (st\<lparr>j_keywords := j_keywords st @ [\<lparr>jk_rule = rule_id, jk_grams = gram_values, jk_counts = counts, jk_total = n\<rparr>],
             j_texts := (if case_sensitive then j_texts st else j_texts st @ [text])\<rparr>))))"

text \<open>The part of the loop body after the checks of the route, the operator, the arity and the keyword list.\<close>

definition jaccard_values :: "unidb \<Rightarrow> decisions \<Rightarrow> (ustr \<times> pyval) list \<Rightarrow> ustr \<Rightarrow> ustr \<Rightarrow> ustr \<Rightarrow>
    pyval list \<Rightarrow> jaccard_state \<Rightarrow> jaccard_state res" where
  "jaccard_values U dec s name route_name operator values st =
     bind_res (ensure (length (j_rules st) < JACCARD_MAX_RULES) (ValueError ''at most 8 keyword rules are supported'' [])) (\<lambda>_.
     let case_sensitive = py_truthy (dget_or s ''case_sensitive'' (PBool False)) in
     bind_res (ensure (j_case st = None \<or> j_case st = Some case_sensitive)
       (ValueError ''XDP requires the same case_sensitive value for every ngram rule'' [])) (\<lambda>_.
     let rule_id = length (j_rules st) in
     bind_res (threshold_milli U (dget_or s ''ngram_threshold'' (PFloat (u ''0.4'')))) (\<lambda>milli.
     bind_res (py_int U (dget_or s ''priority'' (PInt 0))) (\<lambda>own_priority.
     bind_res (dict_index JACCARD_ROUTES route_name) (\<lambda>route_text.
     bind_res (dict_index JACCARD_OPERATORS operator) (\<lambda>operator_text.
     fold_res (jaccard_value U name rule_id case_sensitive) values
       (st\<lparr>j_rules := j_rules st @ [\<lparr>jr_threshold = milli,
           jr_priority = get_default (snd dec) name own_priority,
           jr_route = route_text, jr_operator = operator_text,
           jr_arity = int MAX_ARITY, jr_case_sensitive = case_sensitive,
           jr_keyword_count = length values\<rparr>],
         j_case := Some case_sensitive\<rparr>)))))))"

definition jaccard_signal :: "unidb \<Rightarrow> bool \<Rightarrow> decisions \<Rightarrow> pyval \<Rightarrow> jaccard_state \<Rightarrow> jaccard_state res" where
  "jaccard_signal U allow_other_methods dec signal st = (case signal of
     PDict s \<Rightarrow>
      (if u_lower U (py_str U (dget_or s ''method'' (PStr []))) \<noteq> u ''ngram''
       then (if allow_other_methods then Inr st
             else Inl (ValueError ''XDP Jaccard policies must contain only method: ngram keyword signals'' []))
       else let name = py_str U (dget_or s ''name'' (PStr [])) in
       bind_res (signal_route_name U s (fst dec)) (\<lambda>route_name.
       bind_res (ensure (route_name \<in> set (dict_keys JACCARD_ROUTES))
         (ValueError ''{}: route must be coding, math, qa, or writing'' [name])) (\<lambda>_.
       let operator = u_upper U (py_str U (dget_or s ''operator'' (PStr (u ''OR'')))) in
       bind_res (ensure (operator \<in> set (dict_keys JACCARD_OPERATORS))
         (ValueError ''{}: operator must be OR, AND, or NOR'' [name])) (\<lambda>_.
       bind_res (py_int U (dget_or s ''ngram_arity'' (PInt 3))) (\<lambda>arity.
       bind_res (ensure (arity = int MAX_ARITY)
         (ValueError ''{}: XDP's verifier-bounded implementation currently supports ngram_arity: 3'' [name])) (\<lambda>_.
       case dget s ''keywords'' of
         PList (v # vs) \<Rightarrow> jaccard_values U dec s name route_name operator (v # vs) st
       | _ \<Rightarrow> Inl (ValueError ''{}: keywords must be a non-empty list'' [name])))))))
   | _ \<Rightarrow> Inl (ValueError ''keyword signals must be objects'' []))"

definition jaccard_parse :: "unidb \<Rightarrow> nat \<Rightarrow> bool \<Rightarrow> pyval \<Rightarrow>
    (jaccard_rule list \<times> jaccard_keyword list \<times> (int \<times> int) list) res" where
  "jaccard_parse U maxunicode allow_other_methods policy =
     bind_res (keyword_signals policy) (\<lambda>signals.
     bind_res (decision_keyword_routes U policy) (\<lambda>dec.
     bind_res (fold_res (jaccard_signal U allow_other_methods dec) signals jaccard_init) (\<lambda>st.
     bind_res (casefold_entries U maxunicode (j_texts st)) (\<lambda>casefolds.
     Inr (j_rules st, j_keywords st, casefolds)))))"

subsection \<open>The generated header\<close>

definition jaccard_rule_line :: "jaccard_rule \<Rightarrow> ustr" where
  "jaccard_rule_line r = u ''  {.threshold_milli = '' @ show_int (jr_threshold r) @ u '', .priority = '' @
     show_int (jr_priority r) @ u '', .route = '' @ jr_route r @ u '', .operator = '' @ jr_operator r @
     u '', .arity = '' @ show_int (jr_arity r) @ u '', .case_sensitive = '' @
     (if jr_case_sensitive r then u ''1'' else u ''0'') @ u '', .keyword_count = '' @ show_nat (jr_keyword_count r) @ u ''},''"

definition gram_text :: "ustr \<Rightarrow> ustr" where
  "gram_text g = (case g of [a, b, c] \<Rightarrow> u ''{.a = '' @ show_int a @ u '', .b = '' @ show_int b @ u '', .c = '' @ show_int c @ u ''}''
     | _ \<Rightarrow> [])"

definition jaccard_keyword_line :: "jaccard_keyword \<Rightarrow> ustr" where
  "jaccard_keyword_line k =
     (let vs = jk_grams k @ replicate (MAX_GRAMS - length (jk_grams k)) [0, 0, 0];
          counts = jk_counts k @ replicate (MAX_GRAMS - length (jk_counts k)) 0
      in u ''  {.count = '' @ show_nat (length (jk_grams k)) @ u '', .total_grams = '' @ show_nat (jk_total k) @
         u '', .grams = {'' @ join (u '', '') (map gram_text vs) @ u ''}, .gram_counts = {'' @
         join (u '', '') (map show_nat counts) @ u ''}, .rule_id = '' @ show_nat (jk_rule k) @ u ''},'')"

definition jaccard_emit :: "ustr \<Rightarrow> jaccard_rule list \<Rightarrow> jaccard_keyword list \<Rightarrow> (int \<times> int) list \<Rightarrow> ustr" where
  \<open>jaccard_emit source rules keywords casefolds = join [10] ([
     u ''/* Generated by benchmarks/policy/generate_jaccard_policy_header.py. Do not edit. */'',
     u ''/* Source: '' @ source @ u ''; Pad::Auto-compatible Unicode preprocessing. */'',
     u ''#ifndef XDP_JACCARD_POLICY_GENERATED_H'',
     u ''#define XDP_JACCARD_POLICY_GENERATED_H'',
     [],
     u ''#define XDP_JACCARD_GENERATED_RULE_COUNT '' @ show_nat (length rules),
     u ''#define XDP_JACCARD_GENERATED_KEYWORD_COUNT '' @ show_nat (length keywords),
     [],
     u ''#define XDP_JACCARD_GENERATED_CASEFOLD_COUNT '' @ show_nat (length casefolds),
     [],
     u ''#ifndef __BPF__'',
     u ''static const struct xdp_jaccard_policy_config xdp_jaccard_generated_config = {'',
     u ''  .keyword_count = '' @ show_nat (length keywords) @ u '', .rule_count = '' @ show_nat (length rules) @
       u '', .case_sensitive = '' @ (case rules of r # _ \<Rightarrow> if jr_case_sensitive r then u ''1'' else u ''0'' | [] \<Rightarrow> u ''0'') @ u '','',
     u ''};'',
     u ''static const struct xdp_jaccard_rule xdp_jaccard_generated_rules[] = {'']
     @ map jaccard_rule_line rules
     @ [u ''};'', u ''static const struct xdp_jaccard_keyword xdp_jaccard_generated_keywords[] = {'']
     @ map jaccard_keyword_line keywords
     @ [u ''};'', u ''static const struct xdp_jaccard_casefold xdp_jaccard_generated_casefolds[] = {'']
     @ map (\<lambda>(a, b). u ''  {.from = '' @ show_int a @ u '', .to = '' @ show_int b @ u ''},'') casefolds
     @ (if casefolds = [] then [u ''  {.from = 0, .to = 0},''] else [])
     @ [u ''};'', u ''#endif'', [], u ''#endif'', []])\<close>

subsection \<open>Thresholds and grams\<close>

lemma threshold_milli_range: "threshold_milli U v = Inr n \<Longrightarrow> 0 \<le> n \<and> n \<le> 1000"
proof -
  assume "threshold_milli U v = Inr n"
  then obtain t where t: "0 \<le> t" "t \<le> 1" and n: "n = \<lfloor>dec28 (t * 1000)\<rfloor>"
    by (auto simp: threshold_milli_def Let_def split: option.splits decimal.splits if_splits)
  have "0 \<le> dec28 (t * 1000)" using t by (simp add: dec28_facts)
  moreover have "dec28 (t * 1000) \<le> of_nat 1000" using t by (intro dec28_facts) simp_all
  ultimately show ?thesis unfolding n by (simp add: floor_le_iff le_floor_iff)
qed

lemma length_windows: "length (windows n p) = length p + 1 - n"
  by (simp add: windows_def)

lemma windows_lengths: "g \<in> set (windows n p) \<Longrightarrow> length g = n"
  by (auto simp: windows_def)

text \<open>The loop keeps the first occurrences, with their counts, in order.\<close>

lemma unique_loop:
  "fold (\<lambda>g (r, m). if g \<in> set r then (r, m) else (r @ [g], m @ [f g])) xs (rs, map f rs) =
     (rev (remdups (rev xs @ rev rs)), map f (rev (remdups (rev xs @ rev rs))))" if "distinct rs"
  using that
proof (induction xs arbitrary: rs)
  case Nil
  then have e: "remdups (rev rs) = rev rs" by (intro distinct_remdups_id) simp
  show ?case unfolding fold.simps id_apply rev.simps append_Nil e rev_rev_ident by simp
next
  case (Cons x xs)
  show ?case
  proof (cases "x \<in> set rs")
    case True
    have "remdups (rev xs @ x # rev rs) = remdups (rev xs @ rev rs)"
      using True by (induction xs rule: rev_induct) auto
    with Cons True show ?thesis by simp
  next
    case False
    with Cons.prems have "distinct (rs @ [x])" by simp
    from Cons.IH [OF this] False show ?thesis by simp
  qed
qed

definition firsts :: "'a list \<Rightarrow> 'a list" where
  "firsts xs = rev (remdups (rev xs))"

lemma firsts_facts [simp]: "set (firsts xs) = set xs" "distinct (firsts xs)" "length (firsts xs) \<le> length xs"
  using length_remdups_leq [of "rev xs"] by (simp_all add: firsts_def)

lemma unique_counts_eq: "unique_counts xs = (firsts xs, map (count_list xs) (firsts xs))"
  using unique_loop [of "[]" "count_list xs" xs]
  unfolding unique_counts_def get_default_counter firsts_def by simp

lemma sum_counts_firsts: "sum_list (map (count_list xs) (firsts xs)) = length xs"
proof -
  have "sum_list (map (count_list xs) (firsts xs)) = (\<Sum>x \<in> set xs. count_list xs x)"
    by (simp add: sum_list_distinct_conv_sum_set)
  then show ?thesis by (simp add: sum_count_set)
qed


text \<open>What \<open>gram_counts\<close> returns when it does not raise.\<close>

lemma gram_counts_Inr:
  "gram_counts U k n cs = Inr (g, c, t) \<longleftrightarrow> (\<exists>w. normalize U k cs = Inr w \<and>
     t = length (windows n (pad_word n w)) \<and> t \<le> MAX_GRAMS \<and>
     g = firsts (windows n (pad_word n w)) \<and> c = map (count_list (windows n (pad_word n w))) g)"
proof -
  have "length (firsts xs) \<le> MAX_GRAMS" if "length xs \<le> MAX_GRAMS" for xs :: "ustr list"
    using that firsts_facts(3) [of xs] by (rule order_trans [rotated])
  then show ?thesis
    by (auto simp: gram_counts_def Let_def unique_counts_eq res_simps)
qed

definition jkeyword_ok :: "jaccard_keyword \<Rightarrow> bool" where
  "jkeyword_ok k \<longleftrightarrow> jk_total k \<le> MAX_GRAMS \<and> sum_list (jk_counts k) = jk_total k \<and>
     length (jk_counts k) = length (jk_grams k) \<and> distinct (jk_grams k) \<and>
     list_all (\<lambda>g. length g = MAX_ARITY) (jk_grams k) \<and> list_all (\<lambda>n. 0 < n) (jk_counts k)"

lemma gram_counts_ok:
  assumes "gram_counts U k MAX_ARITY cs = Inr (g, c, t)"
  shows "jkeyword_ok \<lparr>jk_rule = i, jk_grams = g, jk_counts = c, jk_total = t\<rparr>"
proof -
  from assms obtain w where h: "t = length (windows MAX_ARITY (pad_word MAX_ARITY w))" "t \<le> MAX_GRAMS"
    "g = firsts (windows MAX_ARITY (pad_word MAX_ARITY w))" "c = map (count_list (windows MAX_ARITY (pad_word MAX_ARITY w))) g"
    by (auto simp: gram_counts_Inr)
  have "0 < count_list xs x" if "x \<in> set xs" for x and xs :: "ustr list"
    using that count_list_0_iff [of xs x] by simp
  then show ?thesis
    using h(2) unfolding jkeyword_ok_def h(1,3,4) by (auto simp: sum_counts_firsts list_all_iff dest: windows_lengths)
qed

definition rule_ids :: "jaccard_rule list \<Rightarrow> nat list" where
  "rule_ids rules = concat (map (\<lambda>(i, r). replicate (jr_keyword_count r) i) (enumerate 0 rules))"

definition jaccard_ok :: "jaccard_state \<Rightarrow> bool" where
  "jaccard_ok st \<longleftrightarrow> length (j_rules st) \<le> JACCARD_MAX_RULES \<and> length (j_keywords st) \<le> MAX_KEYWORDS \<and>
     list_all (\<lambda>r. 0 \<le> jr_threshold r \<and> jr_threshold r \<le> 1000 \<and> jr_arity r = 3 \<and> 0 < jr_keyword_count r \<and>
       j_case st = Some (jr_case_sensitive r)) (j_rules st) \<and>
     list_all jkeyword_ok (j_keywords st) \<and> map jk_rule (j_keywords st) = rule_ids (j_rules st)"

text \<open>The inner loop appends one well-formed keyword per value, all with the rule's number.\<close>

lemma jaccard_values_loop:
  assumes "fold_res (jaccard_value U name i cs) vs st = Inr st'" and "list_all jkeyword_ok (j_keywords st)"
    and "length (j_keywords st) \<le> MAX_KEYWORDS"
  shows "list_all jkeyword_ok (j_keywords st') \<and> length (j_keywords st') \<le> MAX_KEYWORDS \<and>
    map jk_rule (j_keywords st') = map jk_rule (j_keywords st) @ replicate (length vs) i \<and>
    j_rules st' = j_rules st \<and> j_case st' = j_case st"
  using assms
proof (induction vs arbitrary: st)
  case (Cons v vs)
  from Cons.prems(1) obtain st1 where one: "jaccard_value U name i cs v st = Inr st1"
    and rest: "fold_res (jaccard_value U name i cs) vs st1 = Inr st'"
    by (auto simp: res_simps)
  from one obtain g c t where g: "gram_counts U (py_str U v) MAX_ARITY cs = Inr (g, c, t)"
    and room: "length (j_keywords st) < MAX_KEYWORDS"
    and st1: "st1 = st\<lparr>j_keywords := j_keywords st @ [\<lparr>jk_rule = i, jk_grams = g, jk_counts = c, jk_total = t\<rparr>],
             j_texts := (if cs then j_texts st else j_texts st @ [py_str U v])\<rparr>"
    by (auto simp: jaccard_value_def Let_def bind_res_Inr_iff ensure_iff)
  have "list_all jkeyword_ok (j_keywords st1)" "length (j_keywords st1) \<le> MAX_KEYWORDS"
    using st1 Cons.prems(2) gram_counts_ok [OF g, of i] room by simp_all
  from Cons.IH [OF rest this] st1 show ?case by simp
qed simp

lemma jaccard_signal_cases:
  assumes "jaccard_signal U allow dec signal st = Inr st'" and "st' \<noteq> st"
  obtains s name rn opn v vs where "jaccard_values U dec s name rn opn (v # vs) st = Inr st'"
proof -
  from assms obtain s where s: "signal = PDict s"
    by (auto simp: jaccard_signal_def split: pyval.splits)
  obtain name rn opn where kw: "(case dget s ''keywords'' of
       PList (v # vs) \<Rightarrow> jaccard_values U dec s name rn opn (v # vs) st
     | _ \<Rightarrow> Inl (ValueError ''{}: keywords must be a non-empty list'' [name])) = Inr st'"
    using assms unfolding s jaccard_signal_def Let_def
    by (simp add: bind_res_Inr_iff ensure_iff split: if_splits) blast
  then obtain ks where "dget s ''keywords'' = PList ks" by (cases "dget s ''keywords''") simp_all
  with kw obtain v vs where "jaccard_values U dec s name rn opn (v # vs) st = Inr st'"
    by (cases ks) simp_all
  then show thesis by (rule that)
qed

lemma jaccard_signal_ok:
  assumes inv: "jaccard_ok st" and res: "jaccard_signal U allow dec signal st = Inr st'"
  shows "jaccard_ok st'"
proof (cases "st' = st")
  case True
  with inv show ?thesis by simp
next
  case False
  from jaccard_signal_cases [OF res False] obtain s name rn opn v vs where
    kw: "jaccard_values U dec s name rn opn (v # vs) st = Inr st'" .
  let ?cs = "py_truthy (dget_or s ''case_sensitive'' (PBool False))"
  from kw obtain milli prio route_text operator_text where room: "length (j_rules st) < JACCARD_MAX_RULES"
    and cs: "j_case st = None \<or> j_case st = Some ?cs"
    and milli: "threshold_milli U (dget_or s ''ngram_threshold'' (PFloat (u ''0.4''))) = Inr milli"
    and loop: "fold_res (jaccard_value U name (length (j_rules st)) ?cs) (v # vs)
      (st\<lparr>j_rules := j_rules st @ [\<lparr>jr_threshold = milli, jr_priority = get_default (snd dec) name prio,
           jr_route = route_text, jr_operator = operator_text,
           jr_arity = int MAX_ARITY, jr_case_sensitive = ?cs, jr_keyword_count = length (v # vs)\<rparr>],
         j_case := Some ?cs\<rparr>) = Inr st'"
    unfolding jaccard_values_def Let_def bind_res_Inr_iff ensure_iff by blast
  from inv have old: "list_all jkeyword_ok (j_keywords st)" "length (j_keywords st) \<le> MAX_KEYWORDS"
    and ids: "map jk_rule (j_keywords st) = rule_ids (j_rules st)"
    and rules: "list_all (\<lambda>r. 0 \<le> jr_threshold r \<and> jr_threshold r \<le> 1000 \<and> jr_arity r = 3 \<and> 0 < jr_keyword_count r \<and>
       j_case st = Some (jr_case_sensitive r)) (j_rules st)"
    unfolding jaccard_ok_def by blast+
  have keep: "list_all (\<lambda>r. 0 \<le> jr_threshold r \<and> jr_threshold r \<le> 1000 \<and> jr_arity r = 3 \<and> 0 < jr_keyword_count r \<and>
       ?cs = jr_case_sensitive r) (j_rules st)"
    using rules cs by (auto simp: list_all_iff)
  note loop' = jaccard_values_loop [OF loop, unfolded jaccard_state.simps jaccard_state.select_convs jaccard_state.update_convs]
  show ?thesis
    using loop' old ids keep room threshold_milli_range [OF milli]
    unfolding jaccard_ok_def by (simp add: rule_ids_def enumerate_append_eq MAX_ARITY_def)
qed

lemma jaccard_ok_init: "jaccard_ok jaccard_init"
  by (simp add: jaccard_ok_def jaccard_init_def rule_ids_def)


subsection \<open>The case-fold table\<close>

lemma one_char_case: "(case s of [c] \<Rightarrow> g c | _ \<Rightarrow> z) = (if length s = 1 then g (hd s) else z)"
  by (cases s; cases "tl s") auto

lemma length_one: "length s = 1 \<longleftrightarrow> s = [hd s]"
  by (cases s; cases "tl s") auto

lemma casefold_entries_Inr:
  assumes "casefold_entries U n texts = Inr entries"
  shows "length entries \<le> 128 \<and> sorted_wrt (<) (map fst entries) \<and>
    (\<forall>a b. (a, b) \<in> set entries \<longleftrightarrow> 0 \<le> a \<and> a \<le> int n \<and> u_lower U [a] = [b] \<and> a \<noteq> b \<and>
      (\<exists>t \<in> set texts. b \<in> set (u_lower U t)))"
proof -
  let ?T = "set (concat (map (u_lower U) texts))"
  define f where "f codepoint = (case u_lower U [codepoint] of
              [c] \<Rightarrow> if c \<in> ?T \<and> codepoint \<noteq> c then [(codepoint, c)] else []
            | _ \<Rightarrow> [])" for codepoint
  from assms have e: "entries = concat (map f (map int [0 ..< n + 1]))" and l: "length entries \<le> 128"
    unfolding casefold_entries_def Let_def f_def by (auto split: if_splits)
  have mem: "(a, b) \<in> set (f x) \<longleftrightarrow> a = x \<and> u_lower U [a] = [b] \<and> a \<noteq> b \<and> b \<in> ?T" for a b x
    unfolding f_def one_char_case length_one by (auto split: if_splits)
  have single: "f a = [] \<or> (\<exists>b. f a = [(a, b)])" for a
    unfolding f_def one_char_case by simp
  have sub: "set (map fst (concat (map f xs))) \<subseteq> set xs" for xs
    using mem by auto
  have sorted: "sorted_wrt (<) (map fst (concat (map f xs)))" if "sorted_wrt (<) xs" for xs :: "int list"
    using that
  proof (induction xs)
    case (Cons x xs)
    have less: "x < y" if "y \<in> set (map fst (concat (map f xs)))" for y
      using Cons.prems sub [of xs] that by auto
    have IH: "sorted_wrt (<) (map fst (concat (map f xs)))" using Cons by simp
    from single [of x] show ?case
    proof
      assume "f x = []"
      then show ?thesis using IH by simp
    next
      assume "\<exists>b. f x = [(x, b)]"
      then obtain b where "map fst (concat (map f (x # xs))) = x # map fst (concat (map f xs))" by auto
      then show ?thesis using IH less by (simp only: sorted_wrt.simps) blast
    qed
  qed simp
  have "sorted_wrt (<) (map int [0 ..< n + 1])" by (simp add: sorted_wrt_map del: upt_Suc)
  then have "sorted_wrt (<) (map fst entries)" unfolding e by (rule sorted)
  moreover have range: "x \<in> set (map int [0 ..< n + 1]) \<longleftrightarrow> 0 \<le> x \<and> x \<le> int n" for x
  proof
    assume x: "0 \<le> x \<and> x \<le> int n"
    then have "int (nat x) \<in> int ` {0 ..< n + 1}" by (intro imageI) (simp, linarith)
    with x show "x \<in> set (map int [0 ..< n + 1])" by (simp del: upt_Suc)
  qed auto
  have "(a, b) \<in> set entries \<longleftrightarrow> 0 \<le> a \<and> a \<le> int n \<and> (a, b) \<in> set (f a)" for a b
  proof -
    have "(a, b) \<in> set entries \<longleftrightarrow> (\<exists>x \<in> set (map int [0 ..< n + 1]). (a, b) \<in> set (f x))"
      unfolding e by (simp only: set_concat set_map Union_iff bex_simps)
    also have "\<dots> \<longleftrightarrow> a \<in> set (map int [0 ..< n + 1]) \<and> (a, b) \<in> set (f a)"
    proof
      assume "\<exists>x \<in> set (map int [0 ..< n + 1]). (a, b) \<in> set (f x)"
      then obtain x where x: "x \<in> set (map int [0 ..< n + 1])" "(a, b) \<in> set (f x)" by (elim bexE)
      from x(2) have "x = a" using mem [of a b x] by simp
      with x show "a \<in> set (map int [0 ..< n + 1]) \<and> (a, b) \<in> set (f a)" by simp
    qed (elim conjE, rule bexI)
    finally show ?thesis unfolding range by (simp only: conj_assoc)
  qed
  then have "\<forall>a b. (a, b) \<in> set entries \<longleftrightarrow> 0 \<le> a \<and> a \<le> int n \<and> u_lower U [a] = [b] \<and> a \<noteq> b \<and>
      (\<exists>t \<in> set texts. b \<in> set (u_lower U t))"
    unfolding mem by auto
  ultimately show ?thesis using l by blast
qed

text \<open>C36. What the kernel maps get: at most 8 rules with thresholds between 0 and 1000 thousandths, arity
  3 and one common case mode; at most 16 keywords, each with at most 32 distinct trigrams whose
  multiplicities are positive and add up to its number of grams, numbered rule by rule with the
  counts the rules announce.\<close>

theorem jaccard_parse_sound:
  assumes "jaccard_parse U maxu allow policy = Inr (rules, keywords, casefolds)"
  shows "length rules \<le> 8 \<and> length keywords \<le> 16 \<and> length casefolds \<le> 128 \<and>
    (\<exists>cs. list_all (\<lambda>r. 0 \<le> jr_threshold r \<and> jr_threshold r \<le> 1000 \<and> jr_arity r = 3 \<and>
       jr_case_sensitive r = cs) rules) \<and>
    list_all jkeyword_ok keywords \<and> map jk_rule keywords = rule_ids rules"
proof -
  from assms obtain dec signals st where f: "fold_res (jaccard_signal U allow dec) signals jaccard_init = Inr st"
    and cf: "casefold_entries U maxu (j_texts st) = Inr casefolds"
    and st: "rules = j_rules st" "keywords = j_keywords st"
    by (auto simp: jaccard_parse_def res_simps)
  from f have "jaccard_ok st"
    by (rule fold_res_invariant) (auto simp: jaccard_ok_init intro: jaccard_signal_ok)
  then have ok: "length rules \<le> 8" "length keywords \<le> 16" "list_all jkeyword_ok keywords" "map jk_rule keywords = rule_ids rules"
    and r: "list_all (\<lambda>r. 0 \<le> jr_threshold r \<and> jr_threshold r \<le> 1000 \<and> jr_arity r = 3 \<and> 0 < jr_keyword_count r \<and>
       j_case st = Some (jr_case_sensitive r)) rules"
    unfolding st jaccard_ok_def jaccard_limits by blast+
  have "list_all (\<lambda>r. 0 \<le> jr_threshold r \<and> jr_threshold r \<le> 1000 \<and> jr_arity r = 3 \<and>
       jr_case_sensitive r = the (j_case st)) rules"
    using r by (auto simp: list_all_iff)
  with ok conjunct1 [OF casefold_entries_Inr [OF cf]] show ?thesis by blast
qed

definition demo_ngram :: pyval where
  "demo_ngram = PDict [(u ''routes'', PList [PDict [(u ''name'', PStr (u ''math_a'')), (u ''method'', PStr (u ''ngram'')),
     (u ''keywords'', PList [PStr (u ''Sum'')])]])]"

lemma jaccard_parse_sound_witness:
  "\<exists>rules keywords casefolds. jaccard_parse ascii_db 90 False demo_ngram = Inr (rules, keywords, casefolds) \<and>
     length rules \<le> 8 \<and> casefolds = [(77, 109), (83, 115), (85, 117)]"
proof -
  have "jaccard_parse ascii_db 90 False demo_ngram = Inr
     ([\<lparr>jr_threshold = 400, jr_priority = 0, jr_route = u ''XDP_ROUTE_MATH'', jr_operator = u ''XDP_JACCARD_OR'',
        jr_arity = 3, jr_case_sensitive = False, jr_keyword_count = 1\<rparr>],
      [\<lparr>jk_rule = 0, jk_grams = map u [''  s'', '' su'', ''sum'', ''um '', ''m  ''], jk_counts = [1, 1, 1, 1, 1], jk_total = 5\<rparr>],
      [(77, 109), (83, 115), (85, 117)])"
    by code_simp
  from jaccard_parse_sound [OF this] this show ?thesis by blast
qed

text \<open>The case-fold table is exact: it lists, in increasing order, exactly the code points other than
  their own lowercase form whose one-character lowercase form occurs in a lowercased keyword.\<close>

theorem casefold_entries_exact:
  assumes "casefold_entries U n texts = Inr entries"
  shows "sorted_wrt (<) (map fst entries) \<and>
    (\<forall>a b. (a, b) \<in> set entries \<longleftrightarrow> 0 \<le> a \<and> a \<le> int n \<and> u_lower U [a] = [b] \<and> a \<noteq> b \<and>
      (\<exists>t \<in> set texts. b \<in> set (u_lower U t)))"
  using casefold_entries_Inr [OF assms] by blast

lemma casefold_entries_exact_witness: "sorted_wrt (<) (map fst [(65 :: int, 97 :: int)])"
proof -
  have "casefold_entries ascii_db 70 [u ''a''] = Inr [(65, 97)]" by code_simp
  from casefold_entries_exact [OF this] show ?thesis by blast
qed

end
