(* ===== verification/JaccardReference.thy ===== *)
theory JaccardReference
  imports JaccardPolicy Bm25Reference
begin

section \<open>The n-gram reference matcher\<close>

text \<open>
  benchmarks/policy/jaccard_reference.py: the words of a prompt, their grams with multiplicities, the
  similarity as a fraction of integers and the verdict of a rule. The names have the prefix \<open>ref\<close>
  where the generator has the same one. The similarity is that of multisets, and the grams are the
  ones the generator puts into the kernel maps.
\<close>

definition ref_threshold_milli :: "unidb \<Rightarrow> pyval \<Rightarrow> int res" where
  "ref_threshold_milli U v = decimal_fixed 1000 (map (ascii_digit U) (py_str U v))"

definition word_grams :: "unidb \<Rightarrow> ustr \<Rightarrow> nat \<Rightarrow> bool \<Rightarrow> (ustr, nat) dict" where
  "word_grams U word arity case_sensitive = counter (windows arity (pad_word arity (if case_sensitive then word else u_lower U word)))"

definition ref_word_char :: "unidb \<Rightarrow> int \<Rightarrow> bool" where
  "ref_word_char U c \<longleftrightarrow> u_alnum U c \<or> c = 95 \<or> c = 45"

definition ref_words :: "unidb \<Rightarrow> ustr \<Rightarrow> ustr list" where
  "ref_words U text = filter (\<lambda>w. w \<noteq> []) (split_on (\<lambda>c. \<not> ref_word_char U c) text)"

definition similarity_counts :: "(ustr, nat) dict \<Rightarrow> (ustr, nat) dict \<Rightarrow> int \<times> int \<times> int" where
  "similarity_counts left right =
     (let same = int (sum_list (map (\<lambda>(gram, n). min n (get_default right gram 0)) left));
          all_grams = int (sum_list (map snd left)) + int (sum_list (map snd right)) - same
      in (same, all_grams, all_grams * all_grams - (all_grams - same) * (all_grams - same)))"

definition ref_matches :: "unidb \<Rightarrow> nat \<Rightarrow> pyval \<Rightarrow> bool \<Rightarrow> ustr \<Rightarrow> ustr \<Rightarrow> bool res" where
  "ref_matches U arity threshold case_sensitive word keyword =
     (case similarity_counts (word_grams U word arity case_sensitive) (word_grams U keyword arity case_sensitive) of
        (same, all_grams, numerator) \<Rightarrow>
          if same = 0 \<or> all_grams = 0 then Inr False
          else bind_res (ref_threshold_milli U threshold) (\<lambda>t. Inr (all_grams * all_grams * t \<le> numerator * 1000)))"

text \<open>\<open>any(...)\<close>, which stops at the first match, and a filter that can raise.\<close>

fun any_res :: "('a \<Rightarrow> 'e + bool) \<Rightarrow> 'a list \<Rightarrow> 'e + bool" where
  "any_res P [] = Inr False"
| "any_res P (x # xs) = bind_res (P x) (\<lambda>b. if b then Inr True else any_res P xs)"

fun filter_res :: "('a \<Rightarrow> 'e + bool) \<Rightarrow> 'a list \<Rightarrow> 'e + 'a list" where
  "filter_res P [] = Inr []"
| "filter_res P (x # xs) = bind_res (P x) (\<lambda>b. bind_res (filter_res P xs) (\<lambda>ys. Inr (if b then x # ys else ys)))"

text \<open>The set of the keywords that match, without duplicates.\<close>

definition ref_matched :: "unidb \<Rightarrow> nat \<Rightarrow> pyval \<Rightarrow> bool \<Rightarrow> ustr \<Rightarrow> ustr list \<Rightarrow> ustr list res" where
  "ref_matched U arity threshold case_sensitive text keywords =
     bind_res (filter_res (\<lambda>keyword. any_res (\<lambda>word. ref_matches U arity threshold case_sensitive word keyword) (ref_words U text)) keywords) (\<lambda>ms.
     let matched = remdups ms in
     if length matched < length keywords
     then bind_res (filter_res (\<lambda>keyword. if keyword \<in> set matched then Inr False
            else ref_matches U arity threshold case_sensitive text keyword) keywords) (\<lambda>phrases. Inr (remdups (matched @ phrases)))
     else Inr matched)"

definition ref_rule_matches :: "unidb \<Rightarrow> ustr \<Rightarrow> ustr list \<Rightarrow> ustr \<Rightarrow> nat \<Rightarrow> pyval \<Rightarrow> bool \<Rightarrow> bool res" where
  "ref_rule_matches U text keywords operator arity threshold case_sensitive =
     bind_res (ref_matched U arity threshold case_sensitive text keywords) (\<lambda>matched.
       let operator = u_upper U operator in
       Inr (operator = u ''OR'' \<and> matched \<noteq> [] \<or> operator = u ''AND'' \<and> length matched = length keywords \<or>
            operator = u ''NOR'' \<and> matched = []))"

subsection \<open>The grams are those of the kernel maps\<close>

lemma counter_snoc: "counter (xs @ [x]) = dict_set x (Suc (count_list xs x)) (counter xs)"
  by (simp add: counter_def count_all_def get_default_counter [unfolded counter_def count_all_def])

lemma firsts_snoc: "firsts (xs @ [x]) = (if x \<in> set xs then firsts xs else firsts xs @ [x])"
  by (simp add: firsts_def)

lemma counter_firsts: "counter xs = map (\<lambda>x. (x, count_list xs x)) (firsts xs)"
proof (induction xs rule: rev_induct)
  case Nil
  show ?case by (simp add: counter_def count_all_def firsts_def)
next
  case (snoc x xs)
  show ?case
  proof (cases "x \<in> set xs")
    case True
    have "counter (xs @ [x]) = map (\<lambda>y. (y, if y = x then Suc (count_list xs x) else count_list xs y)) (firsts xs)"
      unfolding counter_snoc snoc.IH using True by (intro dict_set_map) simp_all
    with True show ?thesis by (auto simp: firsts_snoc)
  next
    case False
    then have "x \<notin> fst ` set (counter xs)" using set_keys_counter [of xs] by simp
    with False show ?thesis
      unfolding counter_snoc by (auto simp: dict_set_new firsts_snoc snoc.IH count_list_0_iff [THEN iffD2])
  qed
qed

lemma sum_firsts: "sum_list (map f (firsts xs)) = (\<Sum>x \<in> set xs. f x)" for f :: "'a \<Rightarrow> nat"
  by (simp add: sum_list_distinct_conv_sum_set)

lemma size_common: "size (mset xs \<inter># mset ys) = (\<Sum>x \<in> set xs. min (count_list xs x) (count_list ys x))"
proof -
  have "size (mset xs \<inter># mset ys) = (\<Sum>x \<in> set xs \<inter> set ys. min (count_list xs x) (count_list ys x))"
    by (simp add: size_multiset_overloaded_eq count_mset)
  also have "\<dots> = (\<Sum>x \<in> set xs. min (count_list xs x) (count_list ys x))"
    by (rule sum.mono_neutral_left) (auto simp: count_list_0_iff)
  finally show ?thesis .
qed

lemma similarity_multisets:
  "similarity_counts (counter xs) (counter ys) =
    (let same = int (size (mset xs \<inter># mset ys)); all_grams = int (size (mset xs \<union># mset ys))
     in (same, all_grams, all_grams * all_grams - (all_grams - same) * (all_grams - same)))"
proof -
  have "sum_list (map (\<lambda>(gram, n). min n (get_default (counter ys) gram 0)) (counter xs)) = size (mset xs \<inter># mset ys)"
    unfolding counter_firsts [of xs] size_common by (simp add: comp_def get_default_counter sum_firsts)
  moreover have "sum_list (map snd (counter zs)) = size (mset zs)" for zs :: "ustr list"
    unfolding counter_firsts [of zs] by (simp add: comp_def sum_counts_firsts)
  moreover have "int (size (mset xs)) + int (size (mset ys)) - int (size (mset xs \<inter># mset ys)) = int (size (mset xs \<union># mset ys))"
    using size_Un_Int [of "mset xs" "mset ys"] by simp
  ultimately show ?thesis unfolding similarity_counts_def Let_def by (simp only:)
qed

text \<open>The grams of a text, with their multiplicities.\<close>

definition gram_bag :: "unidb \<Rightarrow> nat \<Rightarrow> bool \<Rightarrow> ustr \<Rightarrow> ustr multiset" where
  "gram_bag U arity case_sensitive s = mset (windows arity (pad_word arity (if case_sensitive then s else u_lower U s)))"

lemma similarity_grams:
  "similarity_counts (word_grams U word arity cs) (word_grams U keyword arity cs) =
    (let same = int (size (gram_bag U arity cs word \<inter># gram_bag U arity cs keyword));
         all_grams = int (size (gram_bag U arity cs word \<union># gram_bag U arity cs keyword))
     in (same, all_grams, all_grams * all_grams - (all_grams - same) * (all_grams - same)))"
  unfolding word_grams_def similarity_multisets gram_bag_def ..

lemma fraction_test:
  assumes "0 < n"
  shows "n * n * t \<le> (n * n - (n - k) * (n - k)) * 1000 \<longleftrightarrow>
    of_int t / 1000 \<le> 1 - (1 - of_int k / (of_int n :: rat)) ^ 2"
proof -
  have n: "(0 :: rat) < of_int n" using assms by simp
  have cross: "t / 1000 \<le> m / d \<longleftrightarrow> t * d \<le> m * 1000" if "0 < d" for t m d :: rat
    using that by (simp add: field_simps)
  have e: "1 - of_int k / (of_int n :: rat) = (of_int n - of_int k) / of_int n"
    using n by (simp add: diff_divide_distrib)
  have "1 - (x / y) ^ 2 = (y * y - x * x) / (y * y)" if "0 < y" for x y :: rat
    using that by (simp add: power_divide power2_eq_square diff_divide_distrib [of "y * y"])
  from this [OF n] have "1 - (1 - of_int k / (of_int n :: rat)) ^ 2 = of_int (n * n - (n - k) * (n - k)) / of_int (n * n)"
    unfolding e by simp
  also have "of_int t / 1000 \<le> \<dots> \<longleftrightarrow> of_int t * of_int (n * n) \<le> of_int (n * n - (n - k) * (n - k)) * (1000 :: rat)"
    by (rule cross) (use n in simp)
  also have "\<dots> \<longleftrightarrow> (of_int (n * n * t) :: rat) \<le> of_int ((n * n - (n - k) * (n - k)) * 1000)"
    by (simp add: ac_simps)
  finally show ?thesis by (simp only: of_int_le_iff)
qed

lemma ref_matches_similarity_lemma:
  assumes "ref_threshold_milli U threshold = Inr t"
  shows "ref_matches U arity threshold cs word keyword =
    Inr (gram_bag U arity cs word \<inter># gram_bag U arity cs keyword \<noteq> {#} \<and>
      of_int t / 1000 \<le> 1 - (1 - of_nat (size (gram_bag U arity cs word \<inter># gram_bag U arity cs keyword)) /
        (of_nat (size (gram_bag U arity cs word \<union># gram_bag U arity cs keyword)) :: rat)) ^ 2)"
proof -
  let ?A = "gram_bag U arity cs word" and ?B = "gram_bag U arity cs keyword"
  show ?thesis
  proof (cases "?A \<inter># ?B = {#}")
    case True
    then show ?thesis by (simp add: ref_matches_def similarity_grams Let_def)
  next
    case False
    then have "?A \<union># ?B \<noteq> {#}" by auto
    then have n: "0 < int (size (?A \<union># ?B))" using nonempty_has_size [of "?A \<union># ?B"] by linarith
    have "int (size (?A \<inter># ?B)) \<noteq> 0" "?A \<noteq> {#}" using False by auto
    with n False show ?thesis
      unfolding ref_matches_def similarity_grams Let_def prod.case assms bind_res_simps fraction_test [OF n] of_int_of_nat_eq
      by simp
  qed
qed

text \<open>C37. The reference computes the similarity of multisets exactly: with a threshold of \<open>t\<close> thousandths, a word
  matches a keyword if and only if their multisets of grams share a gram and, for the Jaccard
  index \<open>J\<close> of the multisets, \<open>1 - (1 - J)\<^sup>2\<close> is at least \<open>t / 1000\<close>.\<close>

theorem ref_matches_similarity:
  assumes "ref_threshold_milli U threshold = Inr t"
  shows "ref_matches U arity threshold cs word keyword =
    Inr (gram_bag U arity cs word \<inter># gram_bag U arity cs keyword \<noteq> {#} \<and>
      of_int t / 1000 \<le> 1 - (1 - of_nat (size (gram_bag U arity cs word \<inter># gram_bag U arity cs keyword)) /
        (of_nat (size (gram_bag U arity cs word \<union># gram_bag U arity cs keyword)) :: rat)) ^ 2)"
  by (rule ref_matches_similarity_lemma [OF assms])

text \<open>The table of the generator decides the reference: for a keyword it accepts, the grams, multiplicities and
  number of grams it writes for the kernel determine the counts, and so the verdict, of the reference
  for every word.\<close>

theorem reference_decided_by_table:
  assumes "gram_counts U keyword arity cs = Inr (gs, ms, n)"
  shows "similarity_counts (word_grams U word arity cs) (word_grams U keyword arity cs) =
    (let total_word = int (sum_list (map snd (word_grams U word arity cs)));
         same = int (sum_list (map (\<lambda>(g, m). min m (get_default (word_grams U word arity cs) g 0)) (zip gs ms)));
         all_grams = total_word + int n - same
     in (same, all_grams, all_grams * all_grams - (all_grams - same) * (all_grams - same)))"
proof -
  let ?W = "windows arity (pad_word arity (if cs then word else u_lower U word))"
    and ?K = "windows arity (pad_word arity (if cs then keyword else u_lower U keyword))"
  from assms obtain w where w: "normalize U keyword cs = Inr w" and t: "n = length (windows arity (pad_word arity w))"
    and g: "gs = firsts (windows arity (pad_word arity w))" "ms = map (count_list (windows arity (pad_word arity w))) gs"
    unfolding gram_counts_Inr by blast
  from w have "w = (if cs then keyword else u_lower U keyword)"
    by (auto simp: normalize_def Let_def bind_res_Inr_iff split: if_splits)
  then have z: "zip gs ms = counter ?K" "n = length ?K"
    using t g by (simp_all add: counter_firsts zip_map2 zip_same_conv_map)
  have "size (mset ?W \<inter># mset ?K) = size (mset ?K \<inter># mset ?W)" by (simp only: subset_mset.inf_commute)
  moreover have common: "sum_list (map (\<lambda>(g, m). min m (get_default (counter ys) g 0)) (counter xs)) = size (mset xs \<inter># mset ys)"
    for xs ys :: "ustr list"
    unfolding counter_firsts [of xs] size_common by (simp add: comp_def get_default_counter sum_firsts)
  moreover have "sum_list (map snd (counter ?K)) = length ?K"
    unfolding counter_firsts [of ?K] by (simp add: comp_def sum_counts_firsts)
  ultimately show ?thesis
    unfolding z word_grams_def similarity_counts_def Let_def common by simp
qed

subsection \<open>The verdict of a rule\<close>

lemma any_res_total: "(\<And>x. x \<in> set xs \<Longrightarrow> P x = Inr (f x)) \<Longrightarrow> any_res P xs = Inr (list_ex f xs)"
  by (induction xs) auto

lemma filter_res_total: "(\<And>x. x \<in> set xs \<Longrightarrow> P x = Inr (f x)) \<Longrightarrow> filter_res P xs = Inr (filter f xs)"
  by (induction xs) auto

text \<open>The keyword matches a word of the text or the whole text.\<close>

definition found_in :: "unidb \<Rightarrow> nat \<Rightarrow> int \<Rightarrow> bool \<Rightarrow> ustr \<Rightarrow> ustr \<Rightarrow> bool" where
  "found_in U arity t cs text keyword \<longleftrightarrow> list_ex (\<lambda>s. gram_bag U arity cs s \<inter># gram_bag U arity cs keyword \<noteq> {#} \<and>
      of_int t / 1000 \<le> 1 - (1 - of_nat (size (gram_bag U arity cs s \<inter># gram_bag U arity cs keyword)) /
        (of_nat (size (gram_bag U arity cs s \<union># gram_bag U arity cs keyword)) :: rat)) ^ 2) (text # ref_words U text)"

lemma ref_matched_set:
  assumes "ref_threshold_milli U threshold = Inr t"
  shows "\<exists>matched. ref_matched U arity threshold cs text keywords = Inr matched \<and> distinct matched \<and>
    set matched = {k \<in> set keywords. found_in U arity t cs text k}"
proof -
  define m where "m = (\<lambda>s k. gram_bag U arity cs s \<inter># gram_bag U arity cs k \<noteq> {#} \<and>
      of_int t / 1000 \<le> 1 - (1 - of_nat (size (gram_bag U arity cs s \<inter># gram_bag U arity cs k)) /
        (of_nat (size (gram_bag U arity cs s \<union># gram_bag U arity cs k)) :: rat)) ^ 2)"
  have m: "ref_matches U arity threshold cs s k = Inr (m s k)" for s k
    unfolding m_def by (rule ref_matches_similarity_lemma [OF assms])
  have f: "found_in U arity t cs text k \<longleftrightarrow> m text k \<or> list_ex (\<lambda>w. m w k) (ref_words U text)" for k
    by (simp add: found_in_def m_def)
  define ms where "ms = remdups (filter (\<lambda>k. list_ex (\<lambda>w. m w k) (ref_words U text)) keywords)"
  have "filter_res (\<lambda>k. any_res (\<lambda>w. ref_matches U arity threshold cs w k) (ref_words U text)) keywords =
      Inr (filter (\<lambda>k. list_ex (\<lambda>w. m w k) (ref_words U text)) keywords)"
    by (intro filter_res_total any_res_total m)
  moreover have "filter_res (\<lambda>k. if k \<in> set ms then Inr False else ref_matches U arity threshold cs text k) keywords =
      Inr (filter (\<lambda>k. k \<notin> set ms \<and> m text k) keywords)"
    by (intro filter_res_total) (simp add: m)
  ultimately have r: "ref_matched U arity threshold cs text keywords =
      Inr (if length ms < length keywords then remdups (ms @ filter (\<lambda>k. k \<notin> set ms \<and> m text k) keywords) else ms)"
    by (simp add: ref_matched_def Let_def ms_def)
  have all: "set keywords \<subseteq> set ms" if "\<not> length ms < length keywords"
  proof -
    have "card (set ms) = length ms" unfolding ms_def by (rule distinct_card [OF distinct_remdups])
    moreover have "set ms \<subseteq> set keywords" by (auto simp: ms_def)
    ultimately have "card (set keywords) \<le> card (set ms)" using that card_length [of "keywords"] by linarith
    with \<open>set ms \<subseteq> set keywords\<close> have "set ms = set keywords" by (intro card_seteq) simp_all
    then show ?thesis by simp
  qed
  have "set ms = {k \<in> set keywords. list_ex (\<lambda>w. m w k) (ref_words U text)}" by (auto simp: ms_def)
  with all r show ?thesis by (auto simp: f ms_def [symmetric]) (auto simp: ms_def)
qed

text \<open>C38. The verdict of a rule: a keyword counts when it matches some word of the text or the text as a whole; an OR
  rule fires when a keyword counts, an AND rule when as many distinct keywords count as are listed, and
  a NOR rule when none does, for any spelling of the operator that upper-cases to it.\<close>

theorem ref_rule_verdict:
  assumes "ref_threshold_milli U threshold = Inr t"
  shows "ref_rule_matches U text keywords operator arity threshold cs =
    Inr (operator_verdict (u_upper U operator) (card {k \<in> set keywords. found_in U arity t cs text k}) (length keywords))"
proof -
  from ref_matched_set [OF assms] obtain matched where
    r: "ref_matched U arity threshold cs text keywords = Inr matched" and d: "distinct matched"
    and s: "set matched = {k \<in> set keywords. found_in U arity t cs text k}" by blast
  have "card {k \<in> set keywords. found_in U arity t cs text k} = length matched"
    using distinct_card [OF d] s by simp
  then show ?thesis by (auto simp: ref_rule_matches_def r Let_def operator_verdict_def)
qed

subsection \<open>Concrete inputs\<close>

lemma demo_threshold: "ref_threshold_milli ascii_db (PStr (u ''0.4'')) = Inr 400" by code_simp

lemma ref_matches_similarity_witness:
  "ref_matches ascii_db 3 (PStr (u ''0.4'')) False (u ''Sums'') (u ''sum'') =
    Inr (gram_bag ascii_db 3 False (u ''Sums'') \<inter># gram_bag ascii_db 3 False (u ''sum'') \<noteq> {#} \<and>
      of_int 400 / 1000 \<le> 1 - (1 - of_nat (size (gram_bag ascii_db 3 False (u ''Sums'') \<inter># gram_bag ascii_db 3 False (u ''sum''))) /
        (of_nat (size (gram_bag ascii_db 3 False (u ''Sums'') \<union># gram_bag ascii_db 3 False (u ''sum''))) :: rat)) ^ 2)"
  by (rule ref_matches_similarity [OF demo_threshold])

lemma reference_decided_by_table_witness:
  "\<exists>gs ms n. gram_counts ascii_db (u ''sum'') 3 False = Inr (gs, ms, n) \<and>
    similarity_counts (word_grams ascii_db (u ''sums'') 3 False) (word_grams ascii_db (u ''sum'') 3 False) =
    (let total_word = int (sum_list (map snd (word_grams ascii_db (u ''sums'') 3 False)));
         same = int (sum_list (map (\<lambda>(g, m). min m (get_default (word_grams ascii_db (u ''sums'') 3 False) g 0)) (zip gs ms)));
         all_grams = total_word + int n - same
     in (same, all_grams, all_grams * all_grams - (all_grams - same) * (all_grams - same)))"
proof -
  have "gram_counts ascii_db (u ''sum'') 3 False = Inr (map u [''  s'', '' su'', ''sum'', ''um '', ''m  ''], [1, 1, 1, 1, 1], 5)"
    by code_simp
  from this reference_decided_by_table [OF this] show ?thesis by blast
qed

lemma ref_rule_verdict_witness:
  "ref_rule_matches ascii_db (u ''the sums'') [u ''sum''] (u ''or'') 3 (PStr (u ''0.4'')) False =
    Inr (operator_verdict (u_upper ascii_db (u ''or''))
      (card {k \<in> set [u ''sum'']. found_in ascii_db 3 400 False (u ''the sums'') k}) (length [u ''sum''])) \<and>
   ref_rule_matches ascii_db (u ''the sums'') [u ''sum''] (u ''or'') 3 (PStr (u ''0.4'')) False = Inr True"
  by (rule conjI [OF ref_rule_verdict [OF demo_threshold]]) code_simp

end
