(* ===== verification/UnicodeWords.thy ===== *)
theory UnicodeWords
  imports JaccardReference "HOL-Library.Word"
begin

unbundle bit_operations_syntax

section \<open>The table of word characters\<close>

text \<open>
  benchmarks/policy/generate_unicode_word_header.py: the ranges of the alphanumeric code points, the search in
  them, and the bitmap it writes for the kernel, with the function of xdp_jaccard_classifier.bpf.h that reads
  the bitmap. \<open>sys.maxunicode\<close> and the version of the database are parameters. The table is exact:
  the kernel takes the same characters for word characters as the reference matcher.
\<close>

subsection \<open>The generator\<close>

text \<open>One code point: the ranges so far, and the start of the one that is open.\<close>

definition range_step :: "unidb \<Rightarrow> nat \<Rightarrow> (nat \<times> nat) list \<times> nat option \<Rightarrow> (nat \<times> nat) list \<times> nat option" where
  "range_step U codepoint st = (case st of (ranges, start) \<Rightarrow>
     if u_alnum U (int codepoint) then (ranges, Some (case start of None \<Rightarrow> codepoint | Some first \<Rightarrow> first))
     else (case start of None \<Rightarrow> (ranges, None) | Some first \<Rightarrow> (ranges @ [(first, codepoint - 1)], None)))"

definition word_ranges :: "unidb \<Rightarrow> nat \<Rightarrow> (nat \<times> nat) list" where
  "word_ranges U maxunicode = (case fold (range_step U) [0 ..< maxunicode + 1] ([], None) of
     (ranges, start) \<Rightarrow> ranges @ (case start of None \<Rightarrow> [] | Some first \<Rightarrow> [(first, maxunicode)]))"

function search :: "(nat \<times> nat) list \<Rightarrow> nat \<Rightarrow> nat \<Rightarrow> nat \<Rightarrow> bool" where
  "search ranges codepoint left right =
     (if left < right then
        (let middle = (left + right) div 2 in
         case ranges ! middle of (first, final) \<Rightarrow>
           if codepoint < first then search ranges codepoint left middle
           else if final < codepoint then search ranges codepoint (middle + 1) right
           else True)
      else False)"
  by auto
termination by (relation "measure (\<lambda>(_, _, left, right). right - left)") auto

declare search.simps [simp del]

definition contains_range :: "(nat \<times> nat) list \<Rightarrow> nat \<Rightarrow> bool" where
  "contains_range ranges codepoint = search ranges codepoint 0 (length ranges)"

definition mark_word :: "nat \<Rightarrow> nat list \<Rightarrow> nat list res" where
  "mark_word codepoint ws = (let i = drop_bit 6 codepoint in
     if i < length ws then Inr (ws[i := (ws ! i) OR push_bit (codepoint AND 63) 1]) else Inl IndexErr)"

definition word_bitmap :: "nat \<Rightarrow> (nat \<times> nat) list \<Rightarrow> nat list res" where
  "word_bitmap maxunicode ranges =
     fold_res (\<lambda>(first, final). fold_res mark_word [first ..< final + 1]) ranges (replicate ((maxunicode + 1 + 63) div 64) 0)"

text \<open>\<open>f"0x{word:016x}ULL"\<close>.\<close>

fun hex_digits :: "nat \<Rightarrow> ustr" where
  "hex_digits n = (if n < 16 then [if n < 10 then 48 + int n else 87 + int n]
     else hex_digits (n div 16) @ hex_digits (n mod 16))"

declare hex_digits.simps [simp del]

definition word_literal :: "nat \<Rightarrow> ustr" where
  "word_literal w = u ''0x'' @ replicate (16 - length (hex_digits w)) 48 @ hex_digits w @ u ''ULL''"

text \<open>\<open>words[offset : offset + 8]\<close> for \<open>offset\<close> in \<open>range(0, len(words), 8)\<close>.\<close>

fun rows_of_eight :: "'a list \<Rightarrow> 'a list list" where
  "rows_of_eight [] = []"
| "rows_of_eight (w # ws) = take 8 (w # ws) # rows_of_eight (drop 8 (w # ws))"

definition word_line :: "nat list \<Rightarrow> ustr" where
  "word_line row = u ''  '' @ join (u '', '') (map word_literal row) @ u '',''"

definition unicode_emit :: "nat \<Rightarrow> ustr \<Rightarrow> (nat \<times> nat) list \<Rightarrow> ustr res" where
  "unicode_emit maxunicode version ranges = bind_res (word_bitmap maxunicode ranges) (\<lambda>ws. Inr (join [10]
     ([u ''/* Generated by benchmarks/policy/generate_unicode_word_header.py. Do not edit. */'',
       u ''/* Python Unicode database: '' @ version @ u ''. */'',
       u ''#ifndef XDP_UNICODE_WORD_GENERATED_H'',
       u ''#define XDP_UNICODE_WORD_GENERATED_H'',
       [],
       u ''#define XDP_UNICODE_WORD_MAX '' @ show_nat maxunicode @ u ''U'',
       u ''#define XDP_UNICODE_WORD_BITMAP_WORDS '' @ show_nat (length ws),
       u ''static const __u64 xdp_unicode_word_bitmap[XDP_UNICODE_WORD_BITMAP_WORDS] = {''] @
      map word_line (rows_of_eight ws) @
      [u ''};'', [], u ''#endif'', []])))"

subsection \<open>The kernel\<close>

text \<open>\<open>xdp_jaccard_word_char\<close>, on the bitmap and the two macros of the header.\<close>

definition kernel_word_char :: "64 word list \<Rightarrow> 32 word \<Rightarrow> 32 word \<Rightarrow> bool" where
  "kernel_word_char bitmap max_char c =
     (if c < 128 then 97 \<le> c \<and> c \<le> 122 \<or> 65 \<le> c \<and> c \<le> 90 \<or> 48 \<le> c \<and> c \<le> 57 \<or> c = 95 \<or> c = 45
      else if max_char < c then False
      else (let i = unat (drop_bit 6 c) in
        if length bitmap \<le> i then False else drop_bit (unat (c AND 63)) (bitmap ! i) AND 1 \<noteq> 0))"

subsection \<open>The ranges are exact\<close>

definition covered :: "(nat \<times> nat) list \<Rightarrow> nat \<Rightarrow> bool" where
  "covered ranges c \<longleftrightarrow> (\<exists>(first, final) \<in> set ranges. first \<le> c \<and> c \<le> final)"

lemma covered_simps [simp]:
  "covered [] c \<longleftrightarrow> False" "covered (r # rs) c \<longleftrightarrow> fst r \<le> c \<and> c \<le> snd r \<or> covered rs c"
  "covered (rs @ rs') c \<longleftrightarrow> covered rs c \<or> covered rs' c"
  by (auto simp: covered_def split: prod.splits)

text \<open>Ranges in ascending order, non-empty and with a gap between neighbours.\<close>

definition separate :: "(nat \<times> nat) list \<Rightarrow> bool" where
  "separate ranges \<longleftrightarrow> list_all (\<lambda>(first, final). first \<le> final) ranges \<and>
     sorted_wrt (\<lambda>r r'. Suc (snd r) < fst r') ranges"

text \<open>The state of the loop after the code points below \<open>n\<close>.\<close>

definition scanned :: "unidb \<Rightarrow> nat \<Rightarrow> (nat \<times> nat) list \<times> nat option \<Rightarrow> bool" where
  "scanned U n st \<longleftrightarrow> (case st of (ranges, start) \<Rightarrow>
     let open_at = (case start of None \<Rightarrow> n | Some first \<Rightarrow> first) in
     separate ranges \<and> list_all (\<lambda>r. Suc (snd r) < open_at) ranges \<and> open_at \<le> n \<and> (start \<noteq> None \<longrightarrow> open_at < n) \<and>
     (start = None \<longrightarrow> n = 0 \<or> \<not> u_alnum U (int (n - 1))) \<and>
     (\<forall>c < n. u_alnum U (int c) \<longleftrightarrow> covered ranges c \<or> open_at \<le> c))"

lemma separate_snoc:
  "separate (ranges @ [r]) \<longleftrightarrow> separate ranges \<and> fst r \<le> snd r \<and> list_all (\<lambda>r'. Suc (snd r') < fst r) ranges"
  by (auto simp: separate_def sorted_wrt_append list_all_iff split: prod.splits)

lemma covered_bound: "list_all (\<lambda>r. Suc (snd r) < n) ranges \<Longrightarrow> covered ranges c \<Longrightarrow> Suc c < n"
  by (fastforce simp: covered_def list_all_iff)

lemma scanned_step:
  assumes "scanned U n (ranges, start)"
  shows "scanned U (Suc n) (range_step U n (ranges, start))"
proof (cases start)
  case None
  with assms have s: "separate ranges" "list_all (\<lambda>r. Suc (snd r) < n) ranges"
    and c: "c < n \<Longrightarrow> u_alnum U (int c) \<longleftrightarrow> covered ranges c" for c
    by (auto simp: scanned_def Let_def)
  have "list_all (\<lambda>r. Suc (snd r) < Suc n) ranges" using s(2) by (rule list.pred_mono_strong) simp
  moreover have "\<not> covered ranges n" using covered_bound [OF s(2), of n] by auto
  ultimately show ?thesis using None s c by (auto simp: scanned_def range_step_def less_Suc_eq)
next
  case (Some first)
  with assms have s: "separate ranges" "list_all (\<lambda>r. Suc (snd r) < first) ranges" "first < n"
    and c: "c < n \<Longrightarrow> u_alnum U (int c) \<longleftrightarrow> covered ranges c \<or> first \<le> c" for c
    by (auto simp: scanned_def Let_def)
  have "list_all (\<lambda>r. Suc (snd r) < Suc n) ranges" using s(2) by (rule list.pred_mono_strong) (use s(3) in simp)
  moreover have "covered ranges n \<Longrightarrow> False" using covered_bound [OF s(2), of n] s(3) by simp
  ultimately show ?thesis using Some s c
    by (auto simp: scanned_def range_step_def less_Suc_eq separate_snoc)
qed

lemma scanned_ranges: "scanned U n (fold (range_step U) [0 ..< n] ([], None))"
proof (induction n)
  case 0
  show ?case by (simp add: scanned_def separate_def)
next
  case (Suc n)
  then show ?case using scanned_step by (cases "fold (range_step U) [0 ..< n] ([], None)") simp
qed

lemma word_ranges_exact:
  "separate (word_ranges U m)" "covered (word_ranges U m) c \<longleftrightarrow> c \<le> m \<and> u_alnum U (int c)"
proof -
  obtain ranges start where f: "fold (range_step U) [0 ..< m + 1] ([], None) = (ranges, start)" by fastforce
  from scanned_ranges [of U "m + 1", unfolded f] have s: "scanned U (Suc m) (ranges, start)" by simp
  have w: "word_ranges U m = ranges @ (case start of None \<Rightarrow> [] | Some first \<Rightarrow> [(first, m)])"
    unfolding word_ranges_def f by simp
  show "separate (word_ranges U m)"
    using s by (auto simp: w scanned_def separate_snoc split: option.splits)
  show "covered (word_ranges U m) c \<longleftrightarrow> c \<le> m \<and> u_alnum U (int c)"
  proof (cases "c \<le> m")
    case True
    with s show ?thesis by (auto simp: w scanned_def Let_def less_Suc_eq_le split: option.splits)
  next
    case False
    have "\<not> covered ranges c"
      using s False covered_bound [of "case start of None \<Rightarrow> Suc m | Some first \<Rightarrow> first" ranges c]
      by (auto simp: scanned_def Let_def split: option.splits)
    with False show ?thesis by (auto simp: w split: option.splits)
  qed
qed

subsection \<open>The search is exact\<close>

lemma separate_nth:
  "separate ranges \<Longrightarrow> i < j \<Longrightarrow> j < length ranges \<Longrightarrow> Suc (snd (ranges ! i)) < fst (ranges ! j)"
  by (auto simp: separate_def sorted_wrt_iff_nth_less)

lemma separate_range: "separate ranges \<Longrightarrow> i < length ranges \<Longrightarrow> fst (ranges ! i) \<le> snd (ranges ! i)"
  by (auto simp: separate_def list_all_length split: prod.splits)

lemma search_exact:
  assumes "separate ranges" "right \<le> length ranges"
  shows "search ranges c left right \<longleftrightarrow> (\<exists>i. left \<le> i \<and> i < right \<and> fst (ranges ! i) \<le> c \<and> c \<le> snd (ranges ! i))"
  using assms
proof (induction ranges c left right rule: search.induct)
  case (1 ranges c left right)
  let ?m = "(left + right) div 2"
  let ?in = "\<lambda>i. fst (ranges ! i) \<le> c \<and> c \<le> snd (ranges ! i)"
  show ?case
  proof (cases "left < right")
    case True
    then have m: "left \<le> ?m" "?m < right" by auto
    obtain first final where r: "ranges ! ?m = (first, final)" by fastforce
    have below: "\<not> ?in i" if "c < first" "?m \<le> i" "i < right" for i
      using separate_nth [OF 1(3), of ?m i] separate_range [OF 1(3), of ?m] that r 1(4) m by (cases "i = ?m") auto
    have over: "\<not> ?in i" if "final < c" "i \<le> ?m" for i
      using separate_nth [OF 1(3), of i ?m] separate_range [OF 1(3), of ?m] that r 1(4) m by (cases "i = ?m") auto
    consider (low) "c < first" | (high) "\<not> c < first" "final < c" | (inside) "first \<le> c" "c \<le> final" by linarith
    then show ?thesis
    proof cases
      case low
      have "search ranges c left ?m \<longleftrightarrow> (\<exists>i. left \<le> i \<and> i < ?m \<and> ?in i)"
        by (rule 1(1) [OF True refl r [symmetric] low 1(3)]) (use m 1(4) in simp)
      moreover have "search ranges c left right = search ranges c left ?m"
        using True r low by (subst search.simps) (simp add: Let_def)
      ultimately show ?thesis using below [OF low] m by (meson leI less_trans)
    next
      case high
      have "search ranges c (?m + 1) right \<longleftrightarrow> (\<exists>i. ?m + 1 \<le> i \<and> i < right \<and> ?in i)"
        by (rule 1(2) [OF True refl r [symmetric] high 1(3,4)])
      moreover have "search ranges c left right = search ranges c (?m + 1) right"
        using True r high by (subst search.simps) (simp add: Let_def)
      moreover have "left \<le> i \<and> i < right \<and> ?in i \<longleftrightarrow> ?m + 1 \<le> i \<and> i < right \<and> ?in i" for i
        using over [OF high(2), of i] m by (cases "i \<le> ?m") auto
      ultimately show ?thesis by (simp only:)
    next
      case inside
      with True r m show ?thesis by (subst search.simps) (auto simp: Let_def intro!: exI [of _ ?m])
    qed
  qed (subst search.simps, simp)
qed

lemma covered_nth: "covered ranges c \<longleftrightarrow> (\<exists>i < length ranges. fst (ranges ! i) \<le> c \<and> c \<le> snd (ranges ! i))"
  unfolding covered_def list_ex_iff [symmetric] list_ex_length by (simp add: case_prod_beta)

lemma contains_exact_lemma: "separate ranges \<Longrightarrow> contains_range ranges c \<longleftrightarrow> covered ranges c"
  by (simp add: contains_range_def search_exact covered_nth)

subsection \<open>The bitmap is exact\<close>

text \<open>The bit of a code point.\<close>

definition bit_at :: "nat list \<Rightarrow> nat \<Rightarrow> bool" where
  "bit_at ws c \<longleftrightarrow> bit (ws ! (c div 64)) (c mod 64)"

definition marked :: "nat \<Rightarrow> nat list \<Rightarrow> nat list" where
  "marked c ws = ws[c div 64 := (ws ! (c div 64)) OR push_bit (c mod 64) 1]"

definition words_fit :: "nat list \<Rightarrow> bool" where
  "words_fit ws \<longleftrightarrow> list_all (\<lambda>w. take_bit 64 w = w) ws"

lemma length_marked [simp]: "length (marked c ws) = length ws"
  by (simp add: marked_def)

lemma mark_word_iff: "mark_word c ws = (if c div 64 < length ws then Inr (marked c ws) else Inl IndexErr)"
proof -
  have "drop_bit 6 c = c div 64" by (simp add: drop_bit_eq_div)
  moreover have "c AND 63 = c mod 64" using take_bit_eq_mask [of 6 c] by (simp add: take_bit_eq_mod mask_eq_exp_minus_1)
  ultimately show ?thesis unfolding mark_word_def marked_def Let_def by (simp only:)
qed

lemma bit_at_marked: "c div 64 < length ws \<Longrightarrow> bit_at (marked c ws) d \<longleftrightarrow> d = c \<or> bit_at ws d"
proof (cases "d div 64 = c div 64")
  case True
  have "d = c \<longleftrightarrow> d mod 64 = c mod 64" using True by (metis div_mult_mod_eq)
  moreover assume "c div 64 < length ws"
  ultimately show ?thesis using True by (auto simp: bit_at_def marked_def bit_simps)
qed (auto simp: bit_at_def marked_def)

lemma words_fit_marked: "words_fit ws \<Longrightarrow> c div 64 < length ws \<Longrightarrow> words_fit (marked c ws)"
proof -
  have "take_bit 64 (push_bit (c mod 64) 1) = push_bit (c mod 64) (1 :: nat)"
    by (rule bit_eqI) (auto simp: bit_simps)
  then have "take_bit 64 (w OR push_bit (c mod 64) 1) = w OR push_bit (c mod 64) 1" if "take_bit 64 w = w" for w :: nat
    unfolding take_bit_or that by (rule arg_cong)
  then show "words_fit ws \<Longrightarrow> c div 64 < length ws \<Longrightarrow> words_fit (marked c ws)"
    by (auto simp: words_fit_def marked_def list_all_length nth_list_update simp del: push_bit_of_1)
qed

lemma mark_words:
  assumes "list_all (\<lambda>c. c div 64 < length ws) cs" "words_fit ws"
  shows "\<exists>ws'. fold_res mark_word cs ws = Inr ws' \<and> length ws' = length ws \<and> words_fit ws' \<and>
    (\<forall>d. bit_at ws' d \<longleftrightarrow> d \<in> set cs \<or> bit_at ws d)"
  using assms
proof (induction cs arbitrary: ws)
  case (Cons c cs)
  then have c: "c div 64 < length ws" by simp
  with Cons.IH [of "marked c ws"] Cons.prems words_fit_marked [of ws c]
  show ?case by (auto simp: mark_word_iff bit_at_marked)
qed simp

lemma mark_ranges:
  assumes "list_all (\<lambda>(first, final). final div 64 < length ws) ranges" "words_fit ws"
  shows "\<exists>ws'. fold_res (\<lambda>(first, final). fold_res mark_word [first ..< final + 1]) ranges ws = Inr ws' \<and>
    length ws' = length ws \<and> words_fit ws' \<and> (\<forall>d. bit_at ws' d \<longleftrightarrow> covered ranges d \<or> bit_at ws d)"
  using assms
proof (induction ranges arbitrary: ws)
  case (Cons r ranges)
  obtain first final where r: "r = (first, final)" by fastforce
  with Cons.prems have "final div 64 < length ws" by simp
  then have "c div 64 < length ws" if "c \<le> final" for c using div_le_mono [OF that, of 64] by simp
  then have "list_all (\<lambda>c. c div 64 < length ws) [first ..< final + 1]" by (auto simp: list_all_iff)
  from mark_words [OF this Cons.prems(2)] obtain ws1 where
    "fold_res mark_word [first ..< final + 1] ws = Inr ws1" "length ws1 = length ws" "words_fit ws1"
    and b: "\<And>d. bit_at ws1 d \<longleftrightarrow> d \<in> set [first ..< final + 1] \<or> bit_at ws d" by blast
  moreover have "d \<in> set [first ..< final + 1] \<longleftrightarrow> first \<le> d \<and> d \<le> final" for d by auto
  ultimately show ?case using Cons.IH [of ws1] Cons.prems by (auto simp: r simp del: upt_Suc set_upt)
qed simp

lemma word_bitmap_exact:
  "\<exists>ws. word_bitmap m (word_ranges U m) = Inr ws \<and> length ws = (m + 64) div 64 \<and> words_fit ws \<and>
    (\<forall>c \<le> m. bit_at ws c \<longleftrightarrow> u_alnum U (int c))"
proof -
  let ?ws = "replicate ((m + 1 + 63) div 64) (0 :: nat)"
  have "final \<le> m" if "(first, final) \<in> set (word_ranges U m)" for first final
  proof -
    have "first \<le> final" using that word_ranges_exact(1) [of U m] by (auto simp: separate_def list_all_iff)
    then have "covered (word_ranges U m) final" using that by (auto simp: covered_def)
    then show ?thesis by (simp add: word_ranges_exact)
  qed
  then have "final div 64 < length ?ws" if "(first, final) \<in> set (word_ranges U m)" for first final
    using that div_le_mono [of final m 64] by fastforce
  then have "list_all (\<lambda>(first, final). final div 64 < length ?ws) (word_ranges U m)" by (auto simp: list_all_iff)
  moreover have "words_fit ?ws" by (simp add: words_fit_def list_all_iff)
  moreover have "\<not> bit_at ?ws c" if "c \<le> m" for c
  proof -
    have "c div 64 < (m + 1 + 63) div 64" using div_le_mono [OF that, of 64] by simp
    then show ?thesis unfolding bit_at_def by (simp only: nth_replicate) simp
  qed
  ultimately show ?thesis unfolding word_bitmap_def
    using mark_ranges [of ?ws "word_ranges U m"] by (fastforce simp: word_ranges_exact)
qed

text \<open>The search is exact: after any number of halvings it finds a code point in the ranges the generator has computed if
  and only if the code point is alphanumeric.\<close>

theorem contains_exact: "contains_range (word_ranges U maxunicode) c \<longleftrightarrow> c \<le> maxunicode \<and> u_alnum U (int c)"
  by (simp add: contains_exact_lemma word_ranges_exact)

lemma kernel_bit:
  assumes "\<not> c < 128" "\<not> max_char < c" "unat c div 64 < length ws"
  shows "kernel_word_char (map of_nat ws) max_char c \<longleftrightarrow> bit_at ws (unat c)"
proof -
  have i: "unat (drop_bit 6 c) = unat c div 64" by (simp only: unat_drop_bit_eq) (simp add: drop_bit_eq_div)
  have "unat (c AND 63) = unat c mod 64"
    using take_bit_eq_mask [of 6 c] unsigned_take_bit_eq [of 6 c] by (simp add: mask_eq_exp_minus_1 take_bit_eq_mod)
  with assms i show ?thesis
    by (simp add: kernel_word_char_def bit_at_def and_one_eq odd_iff_mod_2_eq_one [symmetric] bit_iff_odd_drop_bit [symmetric] bit_simps)
qed

text \<open>C40. The kernel and the reference take the same characters for parts of words: the bitmap the generator
  writes has one 64-bit word for every 64 code points, none of them is cut off by its literal, and reading it as
  the kernel does gives, for every code point, the verdict of the reference, if \<open>isalnum\<close> is as
  usual on ASCII.\<close>

theorem kernel_words_are_reference_words:
  assumes "list_all (\<lambda>c. u_alnum U c \<longleftrightarrow> is_ascii_alnum c) [0..127]" and "maxunicode < 2 ^ 32"
  shows "\<exists>ws. word_bitmap maxunicode (word_ranges U maxunicode) = Inr ws \<and> length ws = (maxunicode + 64) div 64 \<and>
    list_all (\<lambda>w. w < 2 ^ 64) ws \<and>
    (\<forall>c. unat c \<le> maxunicode \<longrightarrow>
      (kernel_word_char (map of_nat ws) (of_nat maxunicode) c \<longleftrightarrow> ref_word_char U (uint c)))"
proof -
  from word_bitmap_exact [of maxunicode U] obtain ws where
    ws: "word_bitmap maxunicode (word_ranges U maxunicode) = Inr ws" "length ws = (maxunicode + 64) div 64" "words_fit ws"
    and bits: "\<And>c. c \<le> maxunicode \<Longrightarrow> bit_at ws c \<longleftrightarrow> u_alnum U (int c)" by blast
  have "kernel_word_char (map of_nat ws) (of_nat maxunicode) c \<longleftrightarrow> ref_word_char U (uint c)" if c: "unat c \<le> maxunicode" for c
  proof (cases "c < 128")
    case True
    then have "uint c \<in> set [0..127]" by (simp add: word_less_def)
    with assms(1) have "u_alnum U (uint c) \<longleftrightarrow> is_ascii_alnum (uint c)" by (simp add: list_all_iff)
    with True show ?thesis
      by (simp add: kernel_word_char_def ref_word_char_def char_defs word_le_def word_uint_eq_iff conj_commute disj_ac)
  next
    case False
    have "\<not> of_nat maxunicode < c" using c assms(2) by (simp add: word_less_nat_alt unsigned_of_nat take_bit_nat_eq_self)
    moreover have "unat c div 64 < length ws" using div_le_mono [OF c, of 64] ws(2) by simp
    ultimately have "kernel_word_char (map of_nat ws) (of_nat maxunicode) c \<longleftrightarrow> bit_at ws (unat c)"
      using False by (intro kernel_bit)
    moreover have "uint c \<noteq> 95" "uint c \<noteq> 45" using False by (auto simp: word_less_def)
    ultimately show ?thesis using bits [OF c] by (simp add: ref_word_char_def)
  qed
  moreover have "list_all (\<lambda>w. w < 2 ^ 64) ws"
    using ws(3) by (auto simp: words_fit_def list_all_iff take_bit_nat_eq_self_iff)
  ultimately show ?thesis using ws(1,2) by blast
qed

lemma kernel_words_are_reference_words_witness:
  "\<exists>ws. word_bitmap 1114111 (word_ranges ascii_db 1114111) = Inr ws \<and> length ws = 17408 \<and>
    list_all (\<lambda>w. w < 2 ^ 64) ws \<and>
    (\<forall>c. unat c \<le> 1114111 \<longrightarrow>
      (kernel_word_char (map of_nat ws) (of_nat 1114111) c \<longleftrightarrow> ref_word_char ascii_db (uint c)))"
proof -
  have "list_all (\<lambda>c. u_alnum ascii_db c \<longleftrightarrow> is_ascii_alnum c) [0..127]" by (simp add: ascii_db_def list_all_iff)
  from kernel_words_are_reference_words [OF this, of 1114111] show ?thesis by simp
qed

subsection \<open>The literals\<close>

definition hex_value :: "ustr \<Rightarrow> nat" where
  "hex_value s = foldl (\<lambda>a c. 16 * a + nat (if c < 58 then c - 48 else c - 87)) 0 s"

lemma hex_value_append: "hex_value (s @ [c]) = 16 * hex_value s + nat (if c < 58 then c - 48 else c - 87)"
  by (simp add: hex_value_def)

lemma hex_digits_rec: "\<not> n < 16 \<Longrightarrow> hex_digits n = hex_digits (n div 16) @ [if n mod 16 < 10 then 48 + int (n mod 16) else 87 + int (n mod 16)]"
  by (subst hex_digits.simps, subst (2) hex_digits.simps) simp

lemma hex_value_digits: "hex_value (hex_digits n) = n"
proof (induction n rule: less_induct)
  case (less n)
  show ?case
  proof (cases "n < 16")
    case True
    then show ?thesis by (simp add: hex_digits.simps hex_value_def)
  next
    case False
    then show ?thesis using less [of "n div 16"] by (auto simp: hex_digits_rec hex_value_append)
  qed
qed

lemma length_hex_digits: "n < 16 ^ k \<Longrightarrow> 0 < k \<Longrightarrow> length (hex_digits n) \<le> k"
proof (induction k arbitrary: n)
  case (Suc k)
  show ?case
  proof (cases "n < 16")
    case True
    then show ?thesis by (simp add: hex_digits.simps)
  next
    case False
    then have "0 < k" using Suc.prems by (cases k) auto
    moreover have "n div 16 < 16 ^ k" using Suc.prems(1) by (simp add: less_mult_imp_div_less mult.commute)
    ultimately show ?thesis using Suc.IH [of "n div 16"] False by (simp add: hex_digits_rec)
  qed
qed simp

lemma hex_value_zeros: "hex_value (replicate k 48 @ s) = hex_value s"
  by (induction k) (auto simp: hex_value_def)

text \<open>A literal of the header has 16 digits and denotes its word.\<close>

theorem word_literal_read:
  assumes "w < 2 ^ 64"
  shows "\<exists>ds. word_literal w = u ''0x'' @ ds @ u ''ULL'' \<and> length ds = 16 \<and> hex_value ds = w"
proof -
  have "length (hex_digits w) \<le> 16" by (rule length_hex_digits) (use assms in simp_all)
  then show ?thesis
    unfolding word_literal_def
    by (intro exI [of _ "replicate (16 - length (hex_digits w)) 48 @ hex_digits w"]) (simp add: hex_value_zeros hex_value_digits)
qed

end
