(* ===== verification/PolicyModules.thy ===== *)
theory PolicyModules
  imports UnicodeWords Bm25Policy ProfileBase
begin

section \<open>Selecting and generating the policy modules\<close>

text \<open>
  benchmarks/policy/generate_policy_modules.py: which keyword methods a policy uses, the signal profile
  the eBPF program is built with, the selection header, and \<open>main\<close>, which runs the generators of the
  selected modules. A loaded policy is an argument, as the file does not change between its loads; a set of methods is a
  list without duplicates; the files are the contents written, in order, and creating them does not fail.
\<close>

subsection \<open>The methods of a policy\<close>

definition SUPPORTED :: "ustr list" where
  "SUPPORTED = map u [''ngram'', ''bm25'']"

definition PROFILES :: "ustr list" where
  "PROFILES = map u [''auto'', ''ngram'', ''bm25'', ''intent'', ''mixed'']"

definition signal_method :: "unidb \<Rightarrow> (ustr \<times> pyval) list \<Rightarrow> ustr" where
  "signal_method U s = u_lower U (py_str U (dget_or s ''method'' (PStr [])))"

fun method_of :: "unidb \<Rightarrow> pyval \<Rightarrow> ustr list" where
  "method_of U (PDict s) = [signal_method U s]"
| "method_of U _ = []"

definition signal_priority :: "unidb \<Rightarrow> decisions \<Rightarrow> (ustr \<times> pyval) list \<Rightarrow> int res" where
  "signal_priority U dec s = bind_res (py_int U (dget_or s ''priority'' (PInt 0))) (\<lambda>own_priority.
     Inr (get_default (snd dec) (py_str U (dget_or s ''name'' (PStr []))) own_priority))"

text \<open>One signal of the loop that collects the method of every priority.\<close>

definition priority_step :: "unidb \<Rightarrow> decisions \<Rightarrow> pyval \<Rightarrow> (int, ustr) dict \<Rightarrow> (int, ustr) dict res" where
  "priority_step U dec signal priority_methods = (case signal of
     PDict s \<Rightarrow> bind_res (signal_priority U dec s) (\<lambda>priority.
       case setdefault priority_methods priority (signal_method U s) of (priority_methods', previous_method) \<Rightarrow>
       bind_res (ensure (previous_method = signal_method U s)
         (ValueError ''priority {} is shared by {} and {} rules; mixed keyword methods require distinct priorities''
           [show_int priority, previous_method, signal_method U s])) (\<lambda>_. Inr priority_methods'))
   | _ \<Rightarrow> Inr priority_methods)"

definition policy_methods :: "unidb \<Rightarrow> pyval \<Rightarrow> ustr list res" where
  "policy_methods U policy =
     bind_res (keyword_signals policy) (\<lambda>signals.
     let selected = remdups (concat (map (method_of U) signals));
         unknown = filter (\<lambda>m. m \<notin> set SUPPORTED) selected in
     bind_res (ensure (unknown = []) (ValueError ''eBPF keyword modules do not support: {}'' [join (u '', '') (sort unknown)])) (\<lambda>_.
     bind_res (ensure (selected \<noteq> []) (ValueError ''policy must select at least one keyword method'' [])) (\<lambda>_.
     bind_res (decision_keyword_routes U policy) (\<lambda>dec.
     bind_res (fold_res (priority_step U dec) signals []) (\<lambda>_. Inr selected)))))"

subsection \<open>The profile\<close>

definition resolve_profile :: "unidb \<Rightarrow> pyval res \<Rightarrow> ustr \<Rightarrow> (ustr \<times> ustr list) res" where
  "resolve_profile U policy requested =
     bind_res (ensure (requested \<in> set PROFILES)
       (ValueError ''signal profile must be one of: {}'' [join (u '', '') (sort PROFILES)])) (\<lambda>_.
     if requested = u ''intent'' then Inr (requested, [])
     else bind_res policy (\<lambda>p. bind_res (policy_methods U p) (\<lambda>selected.
       let inferred = (if length selected = 1 then hd selected else u ''mixed'');
           effective = (if requested = u ''auto'' then inferred else requested) in
       bind_res (ensure (\<not> (effective \<in> set SUPPORTED \<and> set selected \<noteq> {effective}))
         (ValueError ''signal profile {!r} contradicts policy methods {!r}'' [effective, join (u '', '') (sort selected)])) (\<lambda>_.
       bind_res (ensure (\<not> (effective = u ''mixed'' \<and> selected = []))
         (ValueError ''mixed signal profile requires at least one keyword method'' [])) (\<lambda>_.
       Inr (effective, selected))))))"

subsection \<open>The selection header\<close>

text \<open>The profile argument, which older callers give as the set of the methods.\<close>

datatype profile_arg = Profile ustr | Methods "ustr list"

definition flag :: "bool \<Rightarrow> ustr" where
  "flag b = (if b then u ''1'' else u ''0'')"

definition enables :: "ustr \<Rightarrow> ustr list \<Rightarrow> string \<Rightarrow> bool" where
  "enables profile selected m \<longleftrightarrow> profile \<in> {u m, u ''mixed''} \<and> u m \<in> set selected"

definition selection_header :: "ustr \<Rightarrow> profile_arg \<Rightarrow> ustr list option \<Rightarrow> bool \<Rightarrow> bool option \<Rightarrow> ustr res" where
  "selection_header source profile selected parity_debug enable_distill =
     (case (case profile of Profile p \<Rightarrow> (p, selected)
        | Methods ms \<Rightarrow> (if length ms = 1 then hd ms else u ''mixed'', Some ms)) of
        (p, None) \<Rightarrow> Inl AssertionErr
      | (p, Some ms) \<Rightarrow>
        bind_res (ensure (\<not> (parity_debug \<and> p \<notin> {u ''intent'', u ''mixed''}))
          (ValueError ''distill parity diagnostics require an intent or mixed signal profile'' [])) (\<lambda>_.
        let distill = (case enable_distill of None \<Rightarrow> p \<in> {u ''intent'', u ''mixed''} | Some b \<Rightarrow> b) in
        Inr (join [10]
          [u ''/* Generated by generate_policy_modules.py. Do not edit. */'',
           u ''/* Source: '' @ source @ u '' */'',
           u ''#ifndef XDP_KEYWORD_MODULES_GENERATED_H'',
           u ''#define XDP_KEYWORD_MODULES_GENERATED_H'',
           u ''#define XDP_SIGNAL_PROFILE_NAME '' @ [34] @ p @ [34],
           u ''#define XDP_SIGNAL_ENABLE_NGRAM '' @ flag (enables p ms ''ngram''),
           u ''#define XDP_SIGNAL_ENABLE_BM25 '' @ flag (enables p ms ''bm25''),
           u ''#define XDP_SIGNAL_ENABLE_DISTILL '' @ flag distill,
           u ''#define XSR_DISTILL_PARITY_DEBUG '' @ flag parity_debug,
           u ''#define XDP_KEYWORD_ENABLE_NGRAM '' @ flag (enables p ms ''ngram''),
           u ''#define XDP_KEYWORD_ENABLE_BM25 '' @ flag (enables p ms ''bm25''),
           u ''#endif'',
           []])))"

subsection \<open>The program\<close>

text \<open>What the generators read from the interpreter and from their data files, and the parsed command line.\<close>

record tool_data =
  td_unicode :: unidb
  td_floats :: floatlib
  td_vocabulary :: vocabulary
  td_maxunicode :: nat
  td_version :: ustr

record modules_args =
  ma_policy :: ustr
  ma_output :: "ustr option"
  ma_profile :: ustr
  ma_parity :: bool
  ma_resolve_only :: bool

definition ngram_header :: "tool_data \<Rightarrow> pyval res \<Rightarrow> ustr \<Rightarrow> ustr res" where
  "ngram_header D policy source = bind_res policy (\<lambda>p.
     bind_res (jaccard_parse (td_unicode D) (td_maxunicode D) True p) (\<lambda>(rules, keywords, casefolds).
     Inr (jaccard_emit source rules keywords casefolds)))"

definition bm25_header :: "tool_data \<Rightarrow> pyval res \<Rightarrow> ustr \<Rightarrow> ustr res" where
  "bm25_header D policy source = bind_res policy (\<lambda>p.
     bind_res (bm25_parse (td_unicode D) (td_floats D) (td_vocabulary D) p) (\<lambda>(rules, documents, terms).
     bm25_emit source rules documents terms))"

definition module_files :: "tool_data \<Rightarrow> pyval res \<Rightarrow> modules_args \<Rightarrow> ustr \<Rightarrow> ustr list \<Rightarrow> (ustr \<times> ustr res) list" where
  "module_files D policy args profile selected =
     [(u ''xdp_keyword_modules.generated.h'',
       selection_header (ma_policy args) (Profile profile) (Some selected) (ma_parity args)
         (Some (profile \<in> {u ''intent'', u ''mixed''})))] @
     (if u ''ngram'' \<in> set selected then
        [(u ''xdp_jaccard_policy.generated.h'', ngram_header D policy (ma_policy args)),
         (u ''xdp_unicode_word.generated.h'',
          unicode_emit (td_maxunicode D) (td_version D) (word_ranges (td_unicode D) (td_maxunicode D)))] else []) @
     (if u ''bm25'' \<in> set selected then [(u ''xdp_bm25_policy.generated.h'', bm25_header D policy (ma_policy args))] else [])"

text \<open>\<open>str(directory / name)\<close> for a normalized directory.\<close>

definition path_join :: "ustr \<Rightarrow> ustr \<Rightarrow> ustr" where
  "path_join dir name = (if dir = [46] then name else if last dir = 47 then dir @ name else dir @ [47] @ name)"

text \<open>The files are written one after the other, until a generator raises.\<close>

fun write_files :: "(ustr \<times> ustr res) list \<Rightarrow> (ustr \<times> ustr) list \<times> unit res" where
  "write_files [] = ([], Inr ())"
| "write_files ((path, Inl e) # files) = ([], Inl e)"
| "write_files ((path, Inr content) # files) = (case write_files files of (fs, r) \<Rightarrow> ((path, content) # fs, r))"

definition modules_main :: "tool_data \<Rightarrow> pyval res \<Rightarrow> modules_args \<Rightarrow> (ustr \<times> ustr) list \<times> outcome" where
  "modules_main D policy args = (case resolve_profile (td_unicode D) policy (ma_profile args) of
     Inl e \<Rightarrow> ([], Raised e)
   | Inr (profile, selected) \<Rightarrow>
       if ma_resolve_only args then ([], Exit 0 (profile @ [10]))
       else (case ma_output args of
         None \<Rightarrow> ([], UsageError (ValueError ''output_dir is required unless --resolve-only is used'' []))
       | Some dir \<Rightarrow>
           (case write_files (map (\<lambda>(name, r). (path_join dir name, r)) (module_files D policy args profile selected)) of
              (fs, Inl e) \<Rightarrow> (fs, Raised e)
            | (fs, Inr _) \<Rightarrow> (fs, Exit 0 (u ''signal profile: '' @ profile @ u ''; keyword modules: '' @
                (if selected = [] then u ''none'' else join (u '', '') (sort selected)) @ [10])))))"

subsection \<open>The profile fits the methods\<close>

lemma policy_methods_sound:
  assumes "policy_methods U policy = Inr selected"
  shows "selected \<noteq> [] \<and> distinct selected \<and> set selected \<subseteq> set SUPPORTED \<and>
    (\<exists>signals dec pm. keyword_signals policy = Inr signals \<and> decision_keyword_routes U policy = Inr dec \<and>
      fold_res (priority_step U dec) signals [] = Inr pm \<and> set selected = {signal_method U s |s. PDict s \<in> set signals})"
proof -
  from assms obtain signals dec pm where s: "keyword_signals policy = Inr signals" "decision_keyword_routes U policy = Inr dec"
    "fold_res (priority_step U dec) signals [] = Inr pm"
    and sel: "selected = remdups (concat (map (method_of U) signals))" "selected \<noteq> []"
    "filter (\<lambda>m. m \<notin> set SUPPORTED) selected = []"
    unfolding policy_methods_def Let_def bind_res_Inr_iff ensure_iff by blast
  have "m \<in> set (method_of U v) \<longleftrightarrow> (\<exists>s. v = PDict s \<and> m = signal_method U s)" for v m by (cases v) auto
  then have "set selected = {signal_method U s |s. PDict s \<in> set signals}" unfolding sel(1) by auto
  moreover have "set selected \<subseteq> set SUPPORTED" using sel(3) by (auto simp: filter_empty_conv)
  ultimately show ?thesis using s sel(1,2) by auto
qed

lemma resolve_profile_cases:
  assumes "resolve_profile U policy requested = Inr (profile, selected)"
  shows "requested = u ''intent'' \<and> profile = requested \<and> selected = [] \<or>
    (\<exists>p. policy = Inr p \<and> policy_methods U p = Inr selected \<and> requested \<noteq> u ''intent'' \<and> requested \<in> set PROFILES \<and>
      profile = (if requested = u ''auto'' then if length selected = 1 then hd selected else u ''mixed'' else requested) \<and>
      (profile \<in> set SUPPORTED \<longrightarrow> set selected = {profile}))"
  using assms unfolding resolve_profile_def Let_def by (auto simp: bind_res_Inr_iff ensure_iff split: if_splits)

lemma distinct_two: "distinct xs \<Longrightarrow> set xs \<subseteq> {a, b} \<Longrightarrow> xs \<noteq> [] \<Longrightarrow> length xs \<noteq> 1 \<Longrightarrow> set xs = {a, b}"
  by (cases xs; cases "tl xs") auto

text \<open>The profile the program resolves to is never \<open>auto\<close> and agrees with the methods of the policy: the profile of
  one method means that every signal has this method, an inferred mixed profile that both occur, and the
  profile \<open>intent\<close> selects none. The selection header enables exactly the selected methods.\<close>

theorem resolve_profile_sound:
  assumes "resolve_profile U policy requested = Inr (profile, selected)"
  shows "profile \<in> set PROFILES - {u ''auto''} \<and> set selected \<subseteq> set SUPPORTED \<and>
    (selected = [] \<longleftrightarrow> profile = u ''intent'') \<and> (profile \<in> set SUPPORTED \<longrightarrow> set selected = {profile}) \<and>
    (requested = u ''auto'' \<and> profile = u ''mixed'' \<longrightarrow> set selected = set SUPPORTED) \<and>
    list_all (\<lambda>m. enables profile selected m \<longleftrightarrow> u m \<in> set selected) [''ngram'', ''bm25'']"
proof (cases "requested = u ''intent''")
  case True
  with resolve_profile_cases [OF assms] show ?thesis by (auto simp: PROFILES_def SUPPORTED_def enables_def)
next
  case False
  with resolve_profile_cases [OF assms] obtain p where p: "policy_methods U p = Inr selected" "requested \<in> set PROFILES"
    and profile: "profile = (if requested = u ''auto'' then if length selected = 1 then hd selected else u ''mixed'' else requested)"
    and one: "profile \<in> set SUPPORTED \<longrightarrow> set selected = {profile}" by auto
  from policy_methods_sound [OF p(1)] have sel: "selected \<noteq> []" "distinct selected" "set selected \<subseteq> {u ''ngram'', u ''bm25''}"
    by (auto simp: SUPPORTED_def)
  from sel have subsets: "set selected = {u ''ngram''} \<or> set selected = {u ''bm25''} \<or> set selected = {u ''ngram'', u ''bm25''}"
    by (cases selected) auto
  from p(2) False consider "requested = u ''auto''" "length selected = 1" | "requested = u ''auto''" "length selected \<noteq> 1"
    | "requested \<in> {u ''ngram'', u ''bm25'', u ''mixed''}" by (auto simp: PROFILES_def)
  then show ?thesis
  proof cases
    case 1
    then obtain m where "selected = [m]" by (cases selected) auto
    with 1 sel one profile show ?thesis by (auto simp: PROFILES_def SUPPORTED_def enables_def)
  next
    case 2
    from distinct_two [OF sel(2,3,1) 2(2)] 2 sel one profile show ?thesis
      by (auto simp: PROFILES_def SUPPORTED_def enables_def)
  next
    case 3
    then have r: "profile = requested" "requested \<noteq> u ''auto''" using profile by auto
    from 3 subsets one sel(1) show ?thesis unfolding r
      by (elim insertE emptyE disjE; simp add: r PROFILES_def SUPPORTED_def enables_def)
  qed
qed

subsection \<open>Priorities of the two tables\<close>

text \<open>The priority of a rule is the priority of a signal of its method.\<close>

definition signal_prio :: "unidb \<Rightarrow> decisions \<Rightarrow> pyval list \<Rightarrow> string \<Rightarrow> int \<Rightarrow> bool" where
  "signal_prio U dec signals m priority \<longleftrightarrow>
     (\<exists>s. PDict s \<in> set signals \<and> signal_method U s = u m \<and> signal_priority U dec s = Inr priority)"

lemma jaccard_value_rules: "jaccard_value U name i cs v st = Inr st' \<Longrightarrow> j_rules st' = j_rules st"
  by (auto simp: jaccard_value_def Let_def bind_res_Inr_iff)

lemma nonempty_list_case: "(case v of PList (w # ws) \<Rightarrow> f w ws | _ \<Rightarrow> Inl e) = Inr y \<Longrightarrow> \<exists>w ws. v = PList (w # ws) \<and> f w ws = Inr y"
  by (auto split: pyval.splits list.splits)

lemma signal_prio_intro:
  "PDict s \<in> set signals \<Longrightarrow> signal_method U s = u m \<Longrightarrow> py_int U (dget_or s ''priority'' (PInt 0)) = Inr own \<Longrightarrow>
    signal_prio U dec signals m (get_default (snd dec) (py_str U (dget_or s ''name'' (PStr []))) own)"
  by (auto simp: signal_prio_def signal_priority_def)

lemma jaccard_values_rules:
  assumes "jaccard_values U dec s name rn opn vs st = Inr st'"
  shows "\<exists>own r. py_int U (dget_or s ''priority'' (PInt 0)) = Inr own \<and> j_rules st' = j_rules st @ [r] \<and>
    jr_priority r = get_default (snd dec) name own"
proof -
  have keep: "j_rules st' = j_rules st1" if "fold_res (jaccard_value U name i cs) vs st1 = Inr st'" for i cs st1
    using that by (rule fold_res_invariant [where P = "\<lambda>x. j_rules x = j_rules st1"]) (simp_all add: jaccard_value_rules)
  from assms show ?thesis
    unfolding jaccard_values_def Let_def by (auto simp: bind_res_Inr_iff ensure_iff dest!: keep)
qed

lemma jaccard_signal_priorities:
  assumes "jaccard_signal U allow dec signal st = Inr st'" "signal \<in> set signals"
    and "\<forall>p \<in> jr_priority ` set (j_rules st). signal_prio U dec signals ''ngram'' p"
  shows "\<forall>p \<in> jr_priority ` set (j_rules st'). signal_prio U dec signals ''ngram'' p"
proof (cases "st' = st")
  case False
  with assms(1) obtain s where s: "signal = PDict s" "signal_method U s = u ''ngram''"
    by (auto simp: jaccard_signal_def signal_method_def split: pyval.splits if_splits)
  let ?name = "py_str U (dget_or s ''name'' (PStr []))"
  from assms(1) s obtain rn opn where "(case dget s ''keywords'' of
      PList (v # vs) \<Rightarrow> jaccard_values U dec s ?name rn opn (v # vs) st
    | _ \<Rightarrow> Inl (ValueError ''{}: keywords must be a non-empty list'' [?name])) = Inr st'"
    unfolding s(1) jaccard_signal_def Let_def signal_method_def by (auto simp: bind_res_Inr_iff ensure_iff)
  from nonempty_list_case [OF this] obtain v vs where "jaccard_values U dec s ?name rn opn (v # vs) st = Inr st'" by blast
  from jaccard_values_rules [OF this] obtain own r where own: "py_int U (dget_or s ''priority'' (PInt 0)) = Inr own"
    and st': "j_rules st' = j_rules st @ [r]" "jr_priority r = get_default (snd dec) ?name own" by blast
  have "signal_prio U dec signals ''ngram'' (jr_priority r)"
    unfolding st'(2) using assms(2) s own by (intro signal_prio_intro) simp_all
  then show ?thesis using assms(3) st'(1) by auto
qed (use assms(3) in simp)

lemma bm25_keywords_rules:
  assumes "bm25_keywords U L dec s name rn opn vs st = Inr st'"
  shows "\<exists>own r. py_int U (dget_or s ''priority'' (PInt 0)) = Inr own \<and> b_rules st' = b_rules st @ [r] \<and>
    br_priority r = get_default (snd dec) name own"
proof -
  have bm25_term: "b_rules y = b_rules x" if "bm25_term L corpus tokens n item x = Inr y" for corpus tokens n item x y
  proof -
    obtain token tf where item: "item = (token, tf)" by fastforce
    obtain vecs vector where "setdefault (b_vectors x) (token_hash token) (replicate MAX_DOCUMENTS 0) = (vecs, vector)" by fastforce
    with that show ?thesis by (auto simp: item bm25_term_def bind_res_Inr_iff)
  qed
  have doc: "b_rules y = b_rules x" if "bm25_document_step L corpus thr tokens x = Inr y" for corpus thr tokens x y
    using fold_res_invariant [OF that [unfolded bm25_document_step_def], of "\<lambda>z. b_rules z = b_rules x"] bm25_term by auto
  have keep: "b_rules y = b_rules x" if "fold_res (bm25_document_step L corpus thr) docs x = Inr y" for corpus thr docs x y
    using fold_res_invariant [OF that, of "\<lambda>z. b_rules z = b_rules x"] doc by auto
  from assms show ?thesis
    unfolding bm25_keywords_def Let_def by (auto simp: bind_res_Inr_iff ensure_iff dest!: keep)
qed

lemma bm25_signal_priorities:
  assumes "bm25_signal U L dec signal st = Inr st'" "signal \<in> set signals"
    and "\<forall>p \<in> br_priority ` set (b_rules st). signal_prio U dec signals ''bm25'' p"
  shows "\<forall>p \<in> br_priority ` set (b_rules st'). signal_prio U dec signals ''bm25'' p"
proof (cases "st' = st")
  case False
  with assms(1) obtain s where s: "signal = PDict s" "signal_method U s = u ''bm25''"
    by (auto simp: bm25_signal_def signal_method_def split: pyval.splits if_splits)
  let ?name = "py_str U (dget_or s ''name'' (PStr []))"
  from assms(1) s obtain rn opn where "(case dget s ''keywords'' of
      PList (v # vs) \<Rightarrow> bm25_keywords U L dec s ?name rn opn (v # vs) st
    | _ \<Rightarrow> Inl (ValueError ''{}: keywords must be a non-empty list'' [?name])) = Inr st'"
    unfolding s(1) bm25_signal_def Let_def signal_method_def by (auto simp: bind_res_Inr_iff ensure_iff)
  from nonempty_list_case [OF this] obtain v vs where "bm25_keywords U L dec s ?name rn opn (v # vs) st = Inr st'" by blast
  from bm25_keywords_rules [OF this] obtain own r where own: "py_int U (dget_or s ''priority'' (PInt 0)) = Inr own"
    and st': "b_rules st' = b_rules st @ [r]" "br_priority r = get_default (snd dec) ?name own" by blast
  have "signal_prio U dec signals ''bm25'' (br_priority r)"
    unfolding st'(2) using assms(2) s own by (intro signal_prio_intro) simp_all
  then show ?thesis using assms(3) st'(1) by auto
qed (use assms(3) in simp)

text \<open>After the check, a priority determines the method.\<close>

lemma priority_step_keeps:
  assumes "priority_step U dec signal pm = Inr pm'"
  shows "dict_get pm p = Some m \<Longrightarrow> dict_get pm' p = Some m"
    and "signal = PDict s \<Longrightarrow> signal_priority U dec s = Inr p \<Longrightarrow> dict_get pm' p = Some (signal_method U s)"
proof -
  have dict: "\<exists>q. signal_priority U dec s = Inr q \<and> fst (setdefault pm q (signal_method U s)) = pm' \<and>
      snd (setdefault pm q (signal_method U s)) = signal_method U s" if "signal = PDict s" for s
    using assms unfolding that priority_step_def by (auto simp: bind_res_Inr_iff ensure_iff case_prod_beta)
  show "dict_get pm' p = Some m" if "dict_get pm p = Some m"
  proof (cases "\<exists>s. signal = PDict s")
    case True
    with dict setdefault_keeps [OF that] show ?thesis by metis
  next
    case False
    with assms have "pm' = pm" by (cases signal) (auto simp: priority_step_def)
    with that show ?thesis by simp
  qed
  show "dict_get pm' p = Some (signal_method U s)" if "signal = PDict s" "signal_priority U dec s = Inr p"
    using dict [OF that(1)] that(2) setdefault_get [of pm p "signal_method U s"] by auto
qed

lemma priority_methods_complete:
  assumes "fold_res (priority_step U dec) signals pm = Inr pm'"
  shows "(\<forall>p m. dict_get pm p = Some m \<longrightarrow> dict_get pm' p = Some m) \<and>
    (\<forall>s p. PDict s \<in> set signals \<longrightarrow> signal_priority U dec s = Inr p \<longrightarrow> dict_get pm' p = Some (signal_method U s))"
  using assms
proof (induction signals arbitrary: pm)
  case (Cons signal signals)
  from Cons.prems obtain pm1 where pm1: "priority_step U dec signal pm = Inr pm1" "fold_res (priority_step U dec) signals pm1 = Inr pm'"
    by (auto simp: bind_res_Inr_iff)
  from Cons.IH [OF pm1(2)] priority_step_keeps [OF pm1(1)] show ?case by auto
qed simp

text \<open>C39. Rules of different methods never tie: when the program has resolved a profile other than \<open>intent\<close> and both
  generators accept the policy, no rule of the n-gram table has the priority of a rule of the BM25 table, whether
  the priorities are their own or come from the decisions.\<close>

theorem modules_priorities_disjoint:
  assumes "resolve_profile U (Inr policy) requested = Inr (profile, selected)" and "profile \<noteq> u ''intent''"
    and "jaccard_parse U maxunicode allow policy = Inr (ngram_rules, keywords, casefolds)"
    and "bm25_parse U L V policy = Inr (bm25_rules, documents, terms)"
  shows "jr_priority ` set ngram_rules \<inter> br_priority ` set bm25_rules = {}"
proof -
  from resolve_profile_cases [OF assms(1)] assms(2) have "policy_methods U policy = Inr selected" by auto
  from policy_methods_sound [OF this] obtain signals dec pm where sig: "keyword_signals policy = Inr signals"
    "decision_keyword_routes U policy = Inr dec" and pm: "fold_res (priority_step U dec) signals [] = Inr pm" by blast
  from assms(3) sig obtain jst where j: "fold_res (jaccard_signal U allow dec) signals jaccard_init = Inr jst" "ngram_rules = j_rules jst"
    unfolding jaccard_parse_def sig bind_res_simps by (auto simp: bind_res_Inr_iff)
  from assms(4) sig obtain bst where b: "fold_res (bm25_signal U L dec) signals bm25_init = Inr bst" "bm25_rules = b_rules bst"
    unfolding bm25_parse_def bm25_signals_def sig bind_res_simps by (auto simp: bind_res_Inr_iff)
  have "\<forall>p \<in> jr_priority ` set (j_rules jst). signal_prio U dec signals ''ngram'' p"
    using j(1) by (rule fold_res_invariant) (simp add: jaccard_init_def, (rule jaccard_signal_priorities; assumption))
  moreover have "\<forall>p \<in> br_priority ` set (b_rules bst). signal_prio U dec signals ''bm25'' p"
    using b(1) by (rule fold_res_invariant) (simp add: bm25_init_def, (rule bm25_signal_priorities; assumption))
  moreover have "\<not> (signal_prio U dec signals ''ngram'' p \<and> signal_prio U dec signals ''bm25'' p)" for p
  proof
    assume "signal_prio U dec signals ''ngram'' p \<and> signal_prio U dec signals ''bm25'' p"
    with conjunct2 [OF priority_methods_complete [OF pm]]
    have "dict_get pm p = Some (u ''ngram'')" "dict_get pm p = Some (u ''bm25'')" unfolding signal_prio_def by metis+
    then show False by simp
  qed
  ultimately show ?thesis unfolding j(2) b(2) by blast
qed

end
