(* ===== verification/ModuleExamples.thy ===== *)
theory ModuleExamples
  imports PolicyModules Bm25Table
begin

section \<open>A policy with both keyword methods\<close>

text \<open>Concrete inputs for the theorems about the policy modules.\<close>

definition demo_mixed :: pyval where
  "demo_mixed = PDict [(u ''routes'', PList [
     PDict [(u ''name'', PStr (u ''math_a'')), (u ''method'', PStr (u ''ngram'')), (u ''priority'', PInt 1),
       (u ''keywords'', PList [PStr (u ''Sum'')])],
     PDict [(u ''name'', PStr (u ''code_a'')), (u ''method'', PStr (u ''bm25'')), (u ''keywords'', PList [PStr (u ''Wills'')])]])]"

lemma demo_mixed_profile:
  "resolve_profile ascii_db (Inr demo_mixed) (u ''auto'') = Inr (u ''mixed'', [u ''ngram'', u ''bm25''])"
  by code_simp

lemma demo_mixed_signals: "bm25_signals ascii_db demo_lib demo_mixed = Inr demo_state"
  by code_simp

lemma resolve_profile_sound_witness:
  "resolve_profile ascii_db (Inr demo_mixed) (u ''auto'') = Inr (u ''mixed'', [u ''ngram'', u ''bm25'']) \<and>
   list_all (\<lambda>m. enables (u ''mixed'') [u ''ngram'', u ''bm25''] m) [''ngram'', ''bm25'']"
  using resolve_profile_sound [OF demo_mixed_profile] demo_mixed_profile by auto

lemma modules_priorities_disjoint_witness:
  "\<exists>ngram_rules keywords casefolds bm25_rules documents terms.
     jaccard_parse ascii_db 90 True demo_mixed = Inr (ngram_rules, keywords, casefolds) \<and>
     bm25_parse ascii_db demo_lib demo_vocabulary demo_mixed = Inr (bm25_rules, documents, terms) \<and>
     ngram_rules \<noteq> [] \<and> bm25_rules \<noteq> [] \<and> jr_priority ` set ngram_rules \<inter> br_priority ` set bm25_rules = {}"
proof -
  have "case jaccard_parse ascii_db 90 True demo_mixed of Inl _ \<Rightarrow> False | Inr (rules, _, _) \<Rightarrow> rules \<noteq> []" by code_simp
  then obtain rules ks cfs where j: "jaccard_parse ascii_db 90 True demo_mixed = Inr (rules, ks, cfs)" "rules \<noteq> []"
    by (auto split: sum.splits)
  have "bm25_parse ascii_db demo_lib demo_vocabulary demo_mixed = bm25_parse ascii_db demo_lib demo_vocabulary demo_bm25"
    by (simp add: bm25_parse_def demo_signals demo_mixed_signals)
  with demo_parses obtain terms where
    b: "bm25_parse ascii_db demo_lib demo_vocabulary demo_mixed = Inr (b_rules demo_state, b_docs demo_state, terms)" by auto
  have "u ''mixed'' \<noteq> u ''intent''" "b_rules demo_state \<noteq> []" by (simp_all add: demo_state_def)
  with modules_priorities_disjoint [OF demo_mixed_profile _ j(1) b] j b show ?thesis by blast
qed

end
