(* ===== verification/WrkOutput.thy ===== *)
theory WrkOutput
  imports Arguments
begin

section \<open>The validity of a load run\<close>

text \<open>
  benchmarks/routing_wrk/validate_output.py: the regular expressions that read the report of \<open>wrk\<close>, and
  \<open>invalid_reasons\<close>. An expression is a sequence of pieces. In those of the repository every repetition is
  followed by something it cannot match itself, so that matching needs no backtracking: a piece
  takes as much as it can. The decoded report is an argument.
\<close>

subsection \<open>Regular expressions\<close>

text \<open>
  A literal, exact or regardless of case; \<open>\s*\<close> and \<open>\s+\<close>; \<open>\d+\<close>, captured or not; \<open>s?\<close> for a literal; \<open>\b\<close>; and
  \<open>\S+\<close>, \<open>[0-9.]+\<close> (both captured) and \<open>^\<close> in multi-line mode.
\<close>

datatype piece =
    Exact string
  | Fold string
  | Blanks
  | Spaces
  | Number
  | Digits
  | Perhaps string
  | Boundary
  | NonSpaces
  | Decimal
  | LineStart

text \<open>What \<open>re.IGNORECASE\<close> matches with an ASCII character: the four characters besides the two cases.\<close>

definition same_letter :: "int \<Rightarrow> int \<Rightarrow> bool" where
  "same_letter p c \<longleftrightarrow> lower_cp p = lower_cp c \<or>
     (lower_cp p, c) \<in> set [(105, 304), (105, 305), (107, 8490), (115, 383)]"

definition folded :: "ustr \<Rightarrow> ustr \<Rightarrow> bool" where
  "folded t s \<longleftrightarrow> length t \<le> length s \<and> list_all2 same_letter t (take (length t) s)"

definition word_class :: "unidb \<Rightarrow> int \<Rightarrow> bool" where
  "word_class U c \<longleftrightarrow> u_alnum U c \<or> c = 95"

definition decimal_class :: "int \<Rightarrow> bool" where
  "decimal_class c \<longleftrightarrow> is_digit c \<or> c = 46"

definition taking :: "bool \<Rightarrow> (int \<Rightarrow> bool) \<Rightarrow> ustr \<Rightarrow> (ustr list \<times> nat) option" where
  "taking captured P s = (case takeWhile P s of [] \<Rightarrow> None
     | t \<Rightarrow> Some (if captured then [t] else [], length t))"

text \<open>The captured text and the number of characters a piece takes, after the character before them.\<close>

fun match_piece :: "unidb \<Rightarrow> piece \<Rightarrow> int option \<Rightarrow> ustr \<Rightarrow> (ustr list \<times> nat) option" where
  "match_piece U (Exact t) before_char s = (if starts_with s (u t) then Some ([], length t) else None)"
| "match_piece U (Fold t) before_char s = (if folded (u t) s then Some ([], length t) else None)"
| "match_piece U Blanks before_char s = Some ([], length (takeWhile is_space s))"
| "match_piece U Spaces before_char s = taking False is_space s"
| "match_piece U Number before_char s = taking True (decimal_char U) s"
| "match_piece U Digits before_char s = taking False (decimal_char U) s"
| "match_piece U (Perhaps t) before_char s = Some ([], if folded (u t) s then length t else 0)"
| "match_piece U Boundary before_char s =
     (if (case before_char of None \<Rightarrow> False | Some c \<Rightarrow> word_class U c) \<noteq> (s \<noteq> [] \<and> word_class U (hd s))
      then Some ([], 0) else None)"
| "match_piece U NonSpaces before_char s = taking True (\<lambda>c. \<not> is_space c) s"
| "match_piece U Decimal before_char s = taking True decimal_class s"
| "match_piece U LineStart before_char s = (if before_char = None \<or> before_char = Some 10 then Some ([], 0) else None)"

definition char_before :: "int option \<Rightarrow> nat \<Rightarrow> ustr \<Rightarrow> int option" where
  "char_before before_char n s = (if n = 0 then before_char else Some (s ! (n - 1)))"

fun match_pieces :: "unidb \<Rightarrow> piece list \<Rightarrow> int option \<Rightarrow> ustr \<Rightarrow> (ustr list \<times> nat) option" where
  "match_pieces U [] before_char s = Some ([], 0)"
| "match_pieces U (p # ps) before_char s = (case match_piece U p before_char s of
     None \<Rightarrow> None
   | Some (captures, n) \<Rightarrow> (case match_pieces U ps (char_before before_char n s) (drop n s) of
       None \<Rightarrow> None | Some (captures', m) \<Rightarrow> Some (captures @ captures', n + m)))"

text \<open>\<open>finditer\<close>, with the groups of every match; no expression of the repository matches the empty text.\<close>

function find_all :: "unidb \<Rightarrow> piece list \<Rightarrow> int option \<Rightarrow> ustr \<Rightarrow> ustr list list" where
  "find_all U ps before_char s = (case match_pieces U ps before_char s of
     Some (captures, n) \<Rightarrow>
       if s \<noteq> [] \<and> 0 < n then captures # find_all U ps (char_before before_char n s) (drop n s) else [captures]
   | None \<Rightarrow> (case s of [] \<Rightarrow> [] | c # t \<Rightarrow> find_all U ps (Some c) t))"
  by pat_completeness auto
termination by (relation "measure (\<lambda>(_, _, _, s). length s)") (auto simp: neq_Nil_conv)

declare find_all.simps [simp del]

definition find_first :: "unidb \<Rightarrow> piece list \<Rightarrow> ustr \<Rightarrow> ustr list option" where
  "find_first U ps s = (case find_all U ps None s of [] \<Rightarrow> None | captures # _ \<Rightarrow> Some captures)"

subsection \<open>The reasons\<close>

definition ERROR_RE :: "piece list" where
  "ERROR_RE = [Fold ''Socket errors:'', Blanks, Fold ''connect'', Spaces, Number, Fold '','', Blanks, Fold ''read'', Spaces, Number,
     Fold '','', Blanks, Fold ''write'', Spaces, Number, Fold '','', Blanks, Fold ''timeout'', Spaces, Number]"

definition HTTP_ERROR_RE :: "piece list" where
  "HTTP_ERROR_RE = [Fold ''Non-2xx or 3xx responses:'', Blanks, Number]"

definition REQUESTS_RE :: "piece list" where
  "REQUESTS_RE = [Number, Spaces, Fold ''request'', Perhaps ''s'', Spaces, Fold ''in'', Spaces]"

definition CONNECTIONS_RE :: "piece list" where
  "CONNECTIONS_RE = [Boundary, Digits, Spaces, Fold ''thread'', Perhaps ''s'', Spaces, Fold ''and'', Spaces, Number, Spaces,
     Fold ''connection'', Perhaps ''s'', Boundary]"

definition ERROR_GROUPS :: "string list" where
  "ERROR_GROUPS = [''connect'', ''read'', ''write'', ''timeout'']"

definition count_of :: "unidb \<Rightarrow> ustr \<Rightarrow> int res" where
  "count_of U s = (case int_text U s of Some n \<Rightarrow> Inr n | None \<Rightarrow> Inl (ValueError ''invalid literal for int() with base 10: {!r}'' [s]))"

text \<open>A counter that is not zero is a reason.\<close>

definition nonzero_reason :: "unidb \<Rightarrow> ustr \<times> ustr \<Rightarrow> ustr list res" where
  "nonzero_reason U item = bind_res (count_of U (snd item)) (\<lambda>n. Inr (if n \<noteq> 0 then [fst item @ snd item] else []))"

definition error_items :: "ustr list \<Rightarrow> (ustr \<times> ustr) list" where
  "error_items captures = zip (map (\<lambda>name. u name @ u '' errors='') ERROR_GROUPS) captures"

definition http_items :: "ustr list \<Rightarrow> (ustr \<times> ustr) list" where
  "http_items captures = map (Pair (u ''non-2xx/3xx responses='')) captures"

definition connection_reasons :: "unidb \<Rightarrow> ustr \<Rightarrow> int list \<Rightarrow> ustr list res" where
  "connection_reasons U output requests = (case rev (concat (find_all U CONNECTIONS_RE None output)) of
     [] \<Rightarrow> Inr []
   | c # _ \<Rightarrow> bind_res (count_of U c) (\<lambda>connections. let completed = last requests in
       Inr (if completed < connections
         then [u ''completed requests='' @ show_int completed @ u '' below connection count='' @ show_int connections] else [])))"

definition request_reasons :: "unidb \<Rightarrow> ustr \<Rightarrow> ustr list res" where
  "request_reasons U output = bind_res (map_res (count_of U) (concat (find_all U REQUESTS_RE None output))) (\<lambda>requests.
     if requests = [] then Inr [u ''completed-request count was not reported'']
     else if list_all (\<lambda>n. n = 0) requests then Inr [u ''zero completed requests'']
     else connection_reasons U output requests)"

definition invalid_reasons :: "unidb \<Rightarrow> ustr \<Rightarrow> ustr list res" where
  "invalid_reasons U output =
     bind_res (map_res (nonzero_reason U) (concat (map error_items (find_all U ERROR_RE None output)))) (\<lambda>errors.
     bind_res (map_res (nonzero_reason U) (concat (map http_items (find_all U HTTP_ERROR_RE None output)))) (\<lambda>responses.
     bind_res (request_reasons U output) (\<lambda>requests. Inr (concat errors @ concat responses @ requests))))"

end
