(* ===== verification/WrkTheorems.thy ===== *)
theory WrkTheorems
  imports WrkOutput
begin

section \<open>No failure of a run is overlooked\<close>

text \<open>
  Matches cannot overlap, so that \<open>finditer\<close> finds every line in which \<open>wrk\<close> reports failures, wherever it
  stands in the output, and every counter in it that is not zero becomes a reason.
\<close>

subsection \<open>Digits\<close>

text \<open>What the Unicode database says about the characters the expressions spell out.\<close>

definition decimals_ok :: "unidb \<Rightarrow> bool" where
  "decimals_ok U \<longleftrightarrow> (\<forall>c d. u_decimal U c = Some d \<longrightarrow> 0 \<le> d \<and> d \<le> 9) \<and>
     (\<forall>c. 0 \<le> c \<and> c < 128 \<longrightarrow> u_decimal U c = (if is_digit c then Some (c - 48) else None)) \<and>
     (\<forall>c. c < 0 \<or> c \<in> {304, 305, 383, 8490} \<longrightarrow> u_decimal U c = None)"

lemma decimals_ok_ascii: "decimals_ok ascii_db"
  by (auto simp: decimals_ok_def ascii_db_def is_digit_def)

lemma ascii_digit_class: "decimals_ok U \<Longrightarrow> decimal_char U c \<Longrightarrow> is_digit (ascii_digit U c)"
  by (cases "0 \<le> c \<and> c < 128") (auto simp: decimals_ok_def decimal_char_def ascii_digit_def is_digit_def split: option.splits if_splits)

lemma int_text_digits:
  assumes "decimals_ok U" "v \<noteq> []" "list_all (decimal_char U) v"
  shows "\<exists>n \<ge> 0. int_text U v = Some n"
proof -
  let ?v = "map (ascii_digit U) v"
  have d: "list_all is_digit ?v" using assms by (auto simp: list_all_iff ascii_digit_class)
  have "strip_by is_number_space ?v = ?v"
  proof (intro strip_by_id disjI2 conjI)
    have "c \<in> set ?v \<Longrightarrow> \<not> is_number_space c" for c
      using d digit_not_space by (auto simp: list_all_iff is_number_space_def)
    moreover have "hd ?v \<in> set ?v" "last ?v \<in> set ?v" using assms(2) by (simp_all only: hd_in_set last_in_set map_is_Nil_conv not_False_eq_True)
    ultimately show "\<not> is_number_space (hd ?v)" "\<not> is_number_space (last ?v)" by blast+
  qed
  moreover obtain c t where ct: "?v = c # t" using assms(2) by (cases v) auto
  moreover have "c \<noteq> 45" "c \<noteq> 43" using d ct by (auto simp: is_digit_def)
  ultimately have "int_text U v = Some (digits_value (filter is_digit ?v))"
    using digit_groups_digits [of ?v] d assms(2) by (simp add: int_text_def int_of_str_def parse_unsigned_def)
  moreover have "0 \<le> digits_value (filter is_digit ?v)" by (intro digits_value_nonneg) (simp add: list_all_iff)
  ultimately show ?thesis by blast
qed

lemma show_nat_decimal: "decimals_ok U \<Longrightarrow> list_all (decimal_char U) (show_nat n)"
  by (auto simp: list_all_iff decimals_ok_def decimal_char_def is_digit_def dest!: show_nat_digits)

lemma int_text_show_nat: "int_text U (show_nat n) = Some (int n)"
  using int_text_show_int [of U "int n"] by (simp add: show_int_def)

subsection \<open>Captures\<close>

lemma taking_iff: "taking b P s = Some (cs, n) \<longleftrightarrow>
    takeWhile P s \<noteq> [] \<and> n = length (takeWhile P s) \<and> cs = (if b then [takeWhile P s] else [])"
  by (auto simp: taking_def split: list.splits)

lemma take_takeWhile_length [simp]: "take (length (takeWhile P s)) s = takeWhile P s"
  by (metis takeWhile_eq_take)

lemma match_piece_bound: "match_piece U p b s = Some (cs, n) \<Longrightarrow> n \<le> length s"
  by (cases p) (auto simp: taking_iff length_takeWhile_le starts_with_def folded_def split: if_splits dest: prefix_length_le)

lemma match_pieces_bound: "match_pieces U ps b s = Some (cs, n) \<Longrightarrow> n \<le> length s"
proof (induction ps arbitrary: b s cs n)
  case (Cons p ps)
  then show ?case by (fastforce split: option.splits prod.splits dest: match_piece_bound)
qed simp

subsection \<open>Letters\<close>

lemma same_letter_cases: "same_letter q c \<Longrightarrow> 97 \<le> q \<Longrightarrow> q \<le> 122 \<Longrightarrow> c = q \<or> c = q - 32 \<or> c \<in> {304, 305, 383, 8490}"
  by (auto simp: same_letter_def lower_cp_def is_upper_def split: if_splits)

lemma is_space_char:
  assumes "is_space c" "97 \<le> q" "q \<le> 122" shows "\<not> same_letter q c"
proof
  assume "same_letter q c"
  from same_letter_cases [OF this assms(2,3)] have "c = q \<or> c = q - 32 \<or> c \<in> {304, 305, 383, 8490}" .
  then show False
  proof (elim disjE)
    assume "c = q" then show False using assms by (simp add: is_space_def)
  next
    assume "c = q - 32" then show False using assms by (simp add: is_space_def)
  qed (use assms(1) in \<open>auto simp: is_space_def\<close>)
qed

lemma decimal_not_letter:
  assumes ok: "decimals_ok U" and c: "decimal_char U c" and q: "97 \<le> q" "q \<le> 122"
  shows "\<not> same_letter q c"
proof
  assume "same_letter q c"
  from same_letter_cases [OF this q] have "0 \<le> c \<and> c < 128 \<and> \<not> is_digit c \<or> c \<in> {304, 305, 383, 8490}"
    using q by (auto simp: is_digit_def)
  with ok have "u_decimal U c = None" by (auto simp: decimals_ok_def)
  with c show False by (simp add: decimal_char_def)
qed

lemma same_letter_unique:
  assumes "same_letter p c" "p < 128" "97 \<le> q" "q \<le> 122" "same_letter q c"
  shows "lower_cp p = q"
proof -
  have q: "lower_cp q = q" using assms(3,4) by (simp add: lower_cp_def is_upper_def)
  have p: "lower_cp p < 160" using assms(2) by (simp add: lower_cp_def is_upper_def)
  have "lower_cp c = c" if "c \<in> {304, 305, 383, 8490}" using that by (auto simp: lower_cp_def is_upper_def)
  with assms(1,5) p q assms(4) show ?thesis by (auto simp: same_letter_def)
qed

text \<open>A piece that does not match the letter \<open>q\<close> anywhere.\<close>

fun piece_free :: "int \<Rightarrow> piece \<Rightarrow> bool" where
  "piece_free q (Fold t) = list_all (\<lambda>p. p < 128 \<and> lower_cp p \<noteq> q) (u t)"
| "piece_free q Blanks = True"
| "piece_free q Spaces = True"
| "piece_free q Number = True"
| "piece_free q _ = False"

lemma piece_free_match:
  assumes "decimals_ok U" "97 \<le> q" "q \<le> 122" "piece_free q p" "match_piece U p b s = Some (cs, n)"
  shows "list_all (\<lambda>c. \<not> same_letter q c) (take n s)"
proof (cases p)
  case (Fold t)
  with assms(5) have "list_all2 same_letter (u t) (take n s)" by (auto simp: folded_def split: if_splits)
  then have "\<exists>p \<in> set (u t). same_letter p c" if "c \<in> set (take n s)" for c
    using that by (metis in_set_conv_nth list_all2_conv_all_nth)
  then show ?thesis using assms(2-4) Fold same_letter_unique by (fastforce simp: list_all_iff)
next
  case Number
  with assms show ?thesis by (auto simp: taking_iff list_all_iff dest: set_takeWhileD decimal_not_letter)
qed (use assms is_space_char [OF _ assms(2,3)] in \<open>auto simp: taking_iff list_all_iff dest!: set_takeWhileD\<close>)

lemma pieces_free_match:
  assumes "decimals_ok U" "97 \<le> q" "q \<le> 122"
  shows "list_all (piece_free q) ps \<Longrightarrow> match_pieces U ps b s = Some (cs, n) \<Longrightarrow> list_all (\<lambda>c. \<not> same_letter q c) (take n s)"
proof (induction ps arbitrary: b s cs n)
  case (Cons p ps)
  from Cons.prems(2) obtain cs1 n1 cs2 n2 where m: "match_piece U p b s = Some (cs1, n1)"
    "match_pieces U ps (char_before b n1 s) (drop n1 s) = Some (cs2, n2)" "n = n1 + n2"
    by (auto split: option.splits)
  from Cons.IH [OF _ m(2)] Cons.prems(1) piece_free_match [OF assms _ m(1)] show ?case
    by (simp add: m(3) take_add)
qed simp

fun plain_piece :: "piece \<Rightarrow> bool" where
  "plain_piece Boundary = False"
| "plain_piece LineStart = False"
| "plain_piece _ = True"

lemma match_plain: "list_all plain_piece ps \<Longrightarrow> match_pieces U ps b s = match_pieces U ps b' s"
proof (induction ps arbitrary: b b' s)
  case (Cons p ps)
  then have "match_piece U p b s = match_piece U p b' s" by (cases p) auto
  moreover have "match_pieces U ps b1 s1 = match_pieces U ps b2 s1" for b1 b2 s1 using Cons by auto
  then have "match_pieces U ps (char_before b n s) (drop n s) = match_pieces U ps (char_before b' n s) (drop n s)" for n by blast
  ultimately show ?case by (simp split: option.split prod.split)
qed simp

subsection \<open>Every match is found\<close>

text \<open>An expression whose matches are not empty and do not overlap.\<close>

definition apart :: "unidb \<Rightarrow> piece list \<Rightarrow> bool" where
  "apart U ps \<longleftrightarrow> (\<forall>b s cs n. match_pieces U ps b s = Some (cs, n) \<longrightarrow>
     0 < n \<and> (\<forall>k b'. 0 < k \<longrightarrow> k < n \<longrightarrow> match_pieces U ps b' (drop k s) = None))"

lemma find_all_complete:
  assumes "list_all plain_piece ps" "apart U ps" "match_pieces U ps b' (drop i s) = Some (cs, n)"
  shows "cs \<in> set (find_all U ps b s)"
  using assms
proof (induction U ps b s arbitrary: i rule: find_all.induct)
  case (1 U ps b s)
  note plain = 1(3) and apart = 1(4) and m = 1(5)
  show ?case
  proof (cases "match_pieces U ps b s")
    case None
    show ?thesis
    proof (cases "i = 0")
      case True
      with m None match_plain [OF plain, of U b' "drop i s" b] show ?thesis by simp
    next
      case False
      show ?thesis
      proof (cases s)
        case Nil
        with m None match_plain [OF plain, of U b' "drop i s" b] show ?thesis by simp
      next
        case (Cons c t)
        with False m have "match_pieces U ps b' (drop (i - 1) t) = Some (cs, n)" by (simp add: drop_Cons')
        from 1(1) [OF None Cons plain apart this] show ?thesis
          unfolding find_all.simps [of U ps b s] using None Cons by simp
      qed
    qed
  next
    case (Some r)
    then obtain cs1 n1 where r: "match_pieces U ps b s = Some (cs1, n1)" by (cases r) auto
    from apart r have n1: "0 < n1" and no: "\<And>k b'. 0 < k \<Longrightarrow> k < n1 \<Longrightarrow> match_pieces U ps b' (drop k s) = None"
      unfolding apart_def by blast+
    from match_pieces_bound [OF r] n1 have s: "s \<noteq> []" by auto
    then have f: "find_all U ps b s = cs1 # find_all U ps (char_before b n1 s) (drop n1 s)"
      unfolding find_all.simps [of U ps b s] using r n1 by simp
    consider "i = 0" | "0 < i" "i < n1" | "n1 \<le> i" by linarith
    then show ?thesis
    proof cases
      case 1
      with m r match_plain [OF plain, of U b' s b] show ?thesis by (simp add: f)
    next
      case 2
      with no m show ?thesis by simp
    next
      case 3
      then have "match_pieces U ps b' (drop (i - n1) (drop n1 s)) = Some (cs, n)" using m by simp
      from 1(2) [OF r refl _ plain apart this] s n1 show ?thesis by (simp add: f)
    qed
  qed
qed

text \<open>An expression that begins with a literal whose first letter does not occur in what follows.\<close>

lemma same_letter_lower: "same_letter (lower_cp p) c \<longleftrightarrow> same_letter p c"
  by (simp add: same_letter_def lower_cp_idem)

lemma folded_nth: "folded t s \<Longrightarrow> i < length t \<Longrightarrow> same_letter (t ! i) (s ! i)"
  by (auto simp: folded_def list_all2_conv_all_nth)

text \<open>The literal, its first two letters \<open>q\<close> and \<open>r\<close>, which do not follow each other in it again.\<close>

definition starts_once :: "ustr \<Rightarrow> bool" where
  "starts_once t \<longleftrightarrow> 1 < length t \<and> is_lower (lower_cp (t ! 0)) \<and> is_lower (lower_cp (t ! 1)) \<and> list_all (\<lambda>p. p < 128) t \<and>
     lower_cp (last t) \<noteq> lower_cp (t ! 0) \<and>
     list_all (\<lambda>k. \<not> (lower_cp (t ! k) = lower_cp (t ! 0) \<and> lower_cp (t ! (k + 1)) = lower_cp (t ! 1))) [1 ..< length t - 1]"

lemma literal_apart:
  assumes ok: "decimals_ok U" and t: "starts_once (u t)" and free: "list_all (piece_free (lower_cp (u t ! 0))) ps"
  shows "apart U (Fold t # ps)"
  unfolding apart_def
proof (intro allI impI)
  let ?L = "length t" and ?q = "lower_cp (u t ! 0)"
  have L: "1 < ?L" and q: "97 \<le> ?q" "?q \<le> 122" and r: "97 \<le> lower_cp (u t ! 1)" "lower_cp (u t ! 1) \<le> 122"
    using t by (auto simp: starts_once_def is_lower_def)
  have ascii: "u t ! i < 128" if "i < ?L" for i using t that by (auto simp: starts_once_def list_all_length)
  have uniq: "lower_cp p = lower_cp p'" if "same_letter p c" "same_letter p' c" "p < 128" "97 \<le> lower_cp p'" "lower_cp p' \<le> 122" for p p' c
    using same_letter_unique [of p c "lower_cp p'"] that by (simp add: same_letter_lower)
  fix b s cs n
  assume "match_pieces U (Fold t # ps) b s = Some (cs, n)"
  then obtain m where lit: "folded (u t) s" and m: "match_pieces U ps (char_before b ?L s) (drop ?L s) = Some (cs, m)" and n: "n = ?L + m"
    by (auto split: option.splits if_splits)
  have no_q: "\<not> same_letter (u t ! 0) (s ! k)" if "?L \<le> k" "k < n" for k
  proof -
    have "k - ?L < length (take m (drop ?L s))" using that n match_pieces_bound [OF m] by auto
    then have "take m (drop ?L s) ! (k - ?L) \<in> set (take m (drop ?L s))" by (rule nth_mem)
    moreover have "take m (drop ?L s) ! (k - ?L) = s ! k" using that n match_pieces_bound [OF m] by simp
    ultimately show ?thesis using pieces_free_match [OF ok q free m] by (metis list_all_iff same_letter_lower)
  qed
  have "match_pieces U (Fold t # ps) b' (drop k s) = None" if k: "0 < k" "k < n" for k b'
  proof (rule ccontr)
    assume "match_pieces U (Fold t # ps) b' (drop k s) \<noteq> None"
    then have f: "folded (u t) (drop k s)" by (auto split: option.splits if_splits)
    then have bound: "k + ?L \<le> length s" using L by (auto simp: folded_def)
    have "t \<noteq> []" using L by auto
    then have c0: "same_letter (u t ! 0) (s ! k)" and c1: "same_letter (u t ! 1) (s ! (k + 1))"
      using folded_nth [OF f, of 0] folded_nth [OF f, of 1] L bound by auto
    then have kL: "k < ?L" using no_q [of k] k by linarith
    have e0: "lower_cp (u t ! k) = ?q"
      using uniq [OF folded_nth [OF lit] c0] kL ascii [OF kL] q by simp
    show False
    proof (cases "k + 1 < ?L")
      case True
      then have "lower_cp (u t ! (k + 1)) = lower_cp (u t ! 1)"
        using uniq [OF folded_nth [OF lit] c1] ascii [of "k + 1"] r by simp
      with e0 True k(1) t show False by (auto simp: starts_once_def list_all_iff)
    next
      case False
      then have "k = ?L - 1" using kL by simp
      then have "lower_cp (last (u t)) = ?q" using e0 L last_conv_nth [of "u t"] by (cases "t = []") simp_all
      with t show False by (simp add: starts_once_def)
    qed
  qed
  with n L show "0 < n \<and> (\<forall>k b'. 0 < k \<longrightarrow> k < n \<longrightarrow> match_pieces U (Fold t # ps) b' (drop k s) = None)" by auto
qed

lemma literals_ok:
  "starts_once (u ''Socket errors:'')" "starts_once (u ''Non-2xx or 3xx responses:'')"
  "list_all (piece_free (lower_cp (u ''Socket errors:'' ! 0))) (tl ERROR_RE)"
  "list_all (piece_free (lower_cp (u ''Non-2xx or 3xx responses:'' ! 0))) (tl HTTP_ERROR_RE)"
  by code_simp+

lemma errors_apart: "decimals_ok U \<Longrightarrow> apart U ERROR_RE" "decimals_ok U \<Longrightarrow> apart U HTTP_ERROR_RE"
  using literal_apart [OF _ literals_ok(1,3)] literal_apart [OF _ literals_ok(2,4)]
  by (simp_all add: ERROR_RE_def HTTP_ERROR_RE_def)

lemma errors_plain: "list_all plain_piece ERROR_RE" "list_all plain_piece HTTP_ERROR_RE"
  by (simp_all add: ERROR_RE_def HTTP_ERROR_RE_def)

subsection \<open>Counting never fails\<close>

lemma number_captures:
  assumes "match_piece U p b s = Some (cs, n)" "p \<noteq> NonSpaces" "p \<noteq> Decimal"
  shows "list_all (\<lambda>v. v \<noteq> [] \<and> list_all (decimal_char U) v) cs"
  using assms by (cases p) (auto simp: taking_iff list_all_iff dest!: set_takeWhileD split: if_splits)

lemma numbers_captures:
  assumes "match_pieces U ps b s = Some (cs, n)" "NonSpaces \<notin> set ps" "Decimal \<notin> set ps"
  shows "list_all (\<lambda>v. v \<noteq> [] \<and> list_all (decimal_char U) v) cs"
  using assms
proof (induction ps arbitrary: b s cs n)
  case (Cons p ps)
  from Cons.prems(1) obtain cs1 n1 cs2 n2 where m: "match_piece U p b s = Some (cs1, n1)"
    "match_pieces U ps (char_before b n1 s) (drop n1 s) = Some (cs2, n2)" "cs = cs1 @ cs2"
    by (auto split: option.splits)
  with Cons.IH [OF m(2)] Cons.prems(2,3) number_captures [OF m(1)] show ?case by auto
qed simp

lemma find_all_matches: "cs \<in> set (find_all U ps b s) \<Longrightarrow> \<exists>b' s' n. match_pieces U ps b' s' = Some (cs, n)"
proof (induction U ps b s rule: find_all.induct)
  case (1 U ps b s)
  show ?case
  proof (cases "match_pieces U ps b s")
    case None
    with 1(3) obtain c t where "s = c # t" "cs \<in> set (find_all U ps (Some c) t)"
      by (subst (asm) find_all.simps) (auto split: list.splits)
    with 1(1) [OF None] show ?thesis by blast
  next
    case (Some r)
    then obtain cs1 n1 where r: "match_pieces U ps b s = Some (cs1, n1)" by (cases r) auto
    with 1(3) have "cs = cs1 \<or> (s \<noteq> [] \<and> 0 < n1) \<and> cs \<in> set (find_all U ps (char_before b n1 s) (drop n1 s))"
      by (subst (asm) find_all.simps) (auto split: if_splits)
    with 1(2) [OF r refl] r show ?thesis by blast
  qed
qed

lemma found_count:
  assumes "decimals_ok U" "cs \<in> set (find_all U ps b s)" "NonSpaces \<notin> set ps" "Decimal \<notin> set ps" "v \<in> set cs"
  shows "\<exists>n \<ge> 0. int_text U v = Some n"
proof -
  from find_all_matches [OF assms(2)] obtain b' s' n where "match_pieces U ps b' s' = Some (cs, n)" by blast
  from numbers_captures [OF this assms(3,4)] assms(5) int_text_digits [OF assms(1)] show ?thesis by (auto simp: list_all_iff)
qed

lemma only_numbers: "NonSpaces \<notin> set ERROR_RE" "Decimal \<notin> set ERROR_RE" "NonSpaces \<notin> set HTTP_ERROR_RE" "Decimal \<notin> set HTTP_ERROR_RE"
  "NonSpaces \<notin> set REQUESTS_RE" "Decimal \<notin> set REQUESTS_RE" "NonSpaces \<notin> set CONNECTIONS_RE" "Decimal \<notin> set CONNECTIONS_RE"
  by (simp_all add: ERROR_RE_def HTTP_ERROR_RE_def REQUESTS_RE_def CONNECTIONS_RE_def)

lemma nonzero_reasons_total:
  assumes "list_all (\<lambda>item. \<exists>n. int_text U (snd item) = Some n) items"
  shows "map_res (nonzero_reason U) items =
    Inr (map (\<lambda>item. if int_text U (snd item) = Some 0 then [] else [fst item @ snd item]) items)"
  using assms by (induction items) (auto simp: nonzero_reason_def count_of_def)

subsection \<open>The lines of \<open>wrk\<close>\<close>

text \<open>How \<open>wrk\<close> reports failures, and the reasons these are.\<close>

datatype failure = Sockets nat nat nat nat | Responses nat

fun failure_text :: "failure \<Rightarrow> ustr" where
  "failure_text (Sockets a b c d) = u ''Socket errors:'' @ [32] @ u ''connect'' @ [32] @ show_nat a @ u '','' @ [32] @
     u ''read'' @ [32] @ show_nat b @ u '','' @ [32] @ u ''write'' @ [32] @ show_nat c @ u '','' @ [32] @
     u ''timeout'' @ [32] @ show_nat d"
| "failure_text (Responses n) = u ''Non-2xx or 3xx responses:'' @ [32] @ show_nat n"

fun failure_counts :: "failure \<Rightarrow> (string \<times> nat) list" where
  "failure_counts (Sockets a b c d) = [(''connect errors='', a), (''read errors='', b), (''write errors='', c), (''timeout errors='', d)]"
| "failure_counts (Responses n) = [(''non-2xx/3xx responses='', n)]"

abbreviation plus_matched :: "nat \<Rightarrow> ustr list \<Rightarrow> (ustr list \<times> nat) option \<Rightarrow> (ustr list \<times> nat) option" where
  "plus_matched n cs r \<equiv> map_option (\<lambda>(cs', m). (cs @ cs', n + m)) r"

lemma step_plain:
  assumes "list_all plain_piece ps" "match_piece U p b (t @ s) = Some (cs, length t)"
  shows "match_pieces U (p # ps) b (t @ s) = plus_matched (length t) cs (match_pieces U ps None s)"
  using assms(2) match_plain [OF assms(1), of U "char_before b (length t) (t @ s)" s None]
  by (simp split: option.split)

lemma step_fold: "list_all plain_piece ps \<Longrightarrow> match_pieces U (Fold t # ps) b (u t @ s) = plus_matched (length t) [] (match_pieces U ps None s)"
  using step_plain [of ps U "Fold t" b "u t" s "[]"] by (simp add: folded_def list_all2_refl same_letter_def)

lemma step_space:
  assumes "list_all plain_piece ps" "s \<noteq> []" "\<not> is_space (hd s)" "p = Blanks \<or> p = Spaces"
  shows "match_pieces U (p # ps) b ([32] @ s) = plus_matched 1 [] (match_pieces U ps None s)"
proof -
  have "takeWhile is_space ([32] @ s) = [32]" using assms(2,3) by (cases s) (auto simp: is_space_def)
  with assms(4) have "match_piece U p b ([32] @ s) = Some ([], length [32 :: int])" by (auto simp: taking_iff)
  from step_plain [OF assms(1) this] show ?thesis by simp
qed

lemma step_number:
  assumes "decimals_ok U" "list_all plain_piece ps" "s = [] \<or> \<not> decimal_char U (hd s)"
  shows "match_pieces U (Number # ps) b (show_nat n @ s) = plus_matched (length (show_nat n)) [show_nat n] (match_pieces U ps None s)"
proof -
  have "takeWhile (decimal_char U) (show_nat n @ s) = show_nat n"
    using show_nat_decimal [OF assms(1), of n] assms(3)
    by (cases s) (auto simp: takeWhile_append list_all_iff takeWhile_eq_all_conv)
  then have "match_piece U Number b (show_nat n @ s) = Some ([show_nat n], length (show_nat n))"
    by (simp add: taking_iff show_nat_nonempty)
  from step_plain [OF assms(2) this] show ?thesis .
qed

lemma comma: "decimals_ok U \<Longrightarrow> \<not> decimal_char U 44"
  by (auto simp: decimals_ok_def decimal_char_def is_digit_def)

lemma digit_head: "show_nat n @ s \<noteq> []" "\<not> is_space (hd (show_nat n @ s))"
  using show_nat_nonempty [of n] show_nat_digits [of "hd (show_nat n)" n] digit_not_space by auto

lemma word_head: "\<not> is_space c \<Longrightarrow> \<not> is_space (hd (c # s))"
  by simp

lemma failure_matches:
  assumes ok: "decimals_ok U" and post: "post = [] \<or> \<not> decimal_char U (hd post)"
  shows "\<exists>n. match_pieces U ERROR_RE b (failure_text (Sockets a1 a2 a3 a4) @ post) = Some (map show_nat [a1, a2, a3, a4], n)"
    and "\<exists>n. match_pieces U HTTP_ERROR_RE b (failure_text (Responses a1) @ post) = Some ([show_nat a1], n)"
proof -
  have heads: "u ''connect'' @ s \<noteq> []" "\<not> is_space (hd (u ''connect'' @ s))" "u ''read'' @ s \<noteq> []" "\<not> is_space (hd (u ''read'' @ s))"
    "u ''write'' @ s \<noteq> []" "\<not> is_space (hd (u ''write'' @ s))" "u ''timeout'' @ s \<noteq> []" "\<not> is_space (hd (u ''timeout'' @ s))"
    "u '','' @ s = [] \<or> \<not> decimal_char U (hd (u '','' @ s))" for s
    using comma [OF ok] by (simp_all add: u_def is_space_def)
  note steps = step_fold step_space step_number [OF ok] digit_head heads
  show "\<exists>n. match_pieces U ERROR_RE b (failure_text (Sockets a1 a2 a3 a4) @ post) = Some (map show_nat [a1, a2, a3, a4], n)"
    unfolding ERROR_RE_def failure_text.simps append_assoc by (simp only: steps post plain_piece.simps list.pred_inject HOL.simp_thms) simp
  show "\<exists>n. match_pieces U HTTP_ERROR_RE b (failure_text (Responses a1) @ post) = Some ([show_nat a1], n)"
    unfolding HTTP_ERROR_RE_def failure_text.simps append_assoc by (simp only: steps post plain_piece.simps list.pred_inject HOL.simp_thms) simp
qed

lemma counts_total: "list_all (\<lambda>v. \<exists>n. int_text U v = Some n) vs \<Longrightarrow> map_res (count_of U) vs = Inr (map (\<lambda>v. the (int_text U v)) vs)"
  by (induction vs) (auto simp: count_of_def)

lemma request_reasons_total: assumes "decimals_ok U" shows "\<exists>rs. request_reasons U output = Inr rs"
proof -
  have "list_all (\<lambda>v. \<exists>n. int_text U v = Some n) (concat (find_all U REQUESTS_RE None output))"
    using found_count [OF assms _ only_numbers(5,6)] by (fastforce simp: list_all_iff)
  moreover have "\<exists>rs. connection_reasons U output ns = Inr rs" for ns
  proof (cases "rev (concat (find_all U CONNECTIONS_RE None output))")
    case (Cons c cs)
    then have "c \<in> set (concat (find_all U CONNECTIONS_RE None output))" by (metis list.set_intros(1) set_rev)
    then obtain found where "found \<in> set (find_all U CONNECTIONS_RE None output)" "c \<in> set found" by auto
    from found_count [OF assms this(1) only_numbers(7,8) this(2)] obtain n where "int_text U c = Some n" by blast
    with Cons show ?thesis by (simp add: connection_reasons_def count_of_def Let_def)
  next
    case Nil
    then show ?thesis unfolding connection_reasons_def by (simp only: list.case) blast
  qed
  ultimately show ?thesis by (simp add: request_reasons_def counts_total)
qed

lemma invalid_reasons_total:
  assumes "decimals_ok U"
  shows "\<exists>rs. invalid_reasons U output = Inr rs \<and>
    (\<forall>cs \<in> set (find_all U ERROR_RE None output). \<forall>item \<in> set (error_items cs). int_text U (snd item) \<noteq> Some 0 \<longrightarrow> fst item @ snd item \<in> set rs) \<and>
    (\<forall>cs \<in> set (find_all U HTTP_ERROR_RE None output). \<forall>item \<in> set (http_items cs). int_text U (snd item) \<noteq> Some 0 \<longrightarrow> fst item @ snd item \<in> set rs)"
proof -
  let ?errors = "concat (map error_items (find_all U ERROR_RE None output))"
  let ?responses = "concat (map http_items (find_all U HTTP_ERROR_RE None output))"
  have "list_all (\<lambda>item. \<exists>n. int_text U (snd item) = Some n) ?errors"
    using found_count [OF assms _ only_numbers(1,2)] by (fastforce simp: list_all_iff error_items_def dest: set_zip_rightD)
  moreover have "list_all (\<lambda>item. \<exists>n. int_text U (snd item) = Some n) ?responses"
    using found_count [OF assms _ only_numbers(3,4)] by (fastforce simp: list_all_iff http_items_def)
  moreover obtain rs where "request_reasons U output = Inr rs" using request_reasons_total [OF assms] by blast
  ultimately show ?thesis
    by (simp add: invalid_reasons_def nonzero_reasons_total) blast
qed

text \<open>C24. No failure that \<open>wrk\<close> reports is overlooked: wherever the line stands in the output, validation ends with a
  list of reasons that has one for every counter of the line that is not zero, with its value.\<close>

theorem no_failure_overlooked:
  assumes "decimals_ok U" and "output = pre @ failure_text f @ post" and "post = [] \<or> \<not> decimal_char U (hd post)"
  shows "\<exists>reasons. invalid_reasons U output = Inr reasons \<and>
    list_all (\<lambda>(what, n). n = 0 \<or> u what @ show_nat n \<in> set reasons) (failure_counts f)"
proof -
  from invalid_reasons_total [OF assms(1), of "output"] obtain rs where rs: "invalid_reasons U output = Inr rs"
    and e: "\<And>cs item. cs \<in> set (find_all U ERROR_RE None output) \<Longrightarrow> item \<in> set (error_items cs) \<Longrightarrow>
      int_text U (snd item) \<noteq> Some 0 \<Longrightarrow> fst item @ snd item \<in> set rs"
    and h: "\<And>cs item. cs \<in> set (find_all U HTTP_ERROR_RE None output) \<Longrightarrow> item \<in> set (http_items cs) \<Longrightarrow>
      int_text U (snd item) \<noteq> Some 0 \<Longrightarrow> fst item @ snd item \<in> set rs" by blast
  have at: "drop (length pre) output = failure_text f @ post" by (simp add: assms(2))
  have reason: "list_all (\<lambda>(what, n). n = 0 \<or> u what @ show_nat n \<in> set rs) counts"
    if "\<And>item. item \<in> set (map (\<lambda>(what, n). (u what, show_nat n)) counts) \<Longrightarrow> int_text U (snd item) \<noteq> Some 0 \<Longrightarrow>
      fst item @ snd item \<in> set rs" for counts
    using that by (fastforce simp: list_all_iff int_text_show_nat)
  have "list_all (\<lambda>(what, n). n = 0 \<or> u what @ show_nat n \<in> set rs) (failure_counts f)"
  proof (cases f)
    case (Sockets a b c d)
    from failure_matches(1) [OF assms(1,3), of None a b c d] obtain n where
      "match_pieces U ERROR_RE None (drop (length pre) output) = Some (map show_nat [a, b, c, d], n)" by (auto simp: at Sockets)
    note found = e [OF find_all_complete [OF errors_plain(1) errors_apart(1) [OF assms(1)] this]]
    have "error_items (map show_nat [a, b, c, d]) = map (\<lambda>(what, n). (u what, show_nat n)) (failure_counts f)"
      by (simp add: Sockets error_items_def ERROR_GROUPS_def u_append [symmetric])
    from found [unfolded this] show ?thesis by (rule reason)
  next
    case (Responses k)
    from failure_matches(2) [OF assms(1,3), of None k] obtain n where
      "match_pieces U HTTP_ERROR_RE None (drop (length pre) output) = Some ([show_nat k], n)" by (auto simp: at Responses)
    note found = h [OF find_all_complete [OF errors_plain(2) errors_apart(2) [OF assms(1)] this]]
    have "http_items [show_nat k] = map (\<lambda>(what, n). (u what, show_nat n)) (failure_counts f)"
      by (simp add: Responses http_items_def)
    from found [unfolded this] show ?thesis by (rule reason)
  qed
  with rs show ?thesis by blast
qed

end
