(* ===== verification/TrialRecord.thy ===== *)
theory TrialRecord
  imports WrkTheorems CommandLines
begin

section \<open>The record of a trial\<close>

text \<open>
  benchmarks/routing_wrk/record_result.py: the metrics of a report of \<open>wrk\<close> and the record of a trial, which holds
  either the metrics or the reasons why the trial does not count. The two command lines, of this script
  and of validate_output.py, take a function that reads and decodes a file.
\<close>

subsection \<open>Metrics\<close>

text \<open>\<open>float()\<close> of a text of digits and points, which is never negative nor NaN.\<close>

definition float_error :: "ustr \<Rightarrow> pyerr" where
  "float_error s = ValueError ''could not convert string to float: {!r}'' [s]"

definition finite_float :: "rat \<Rightarrow> pyfloat" where
  "finite_float q = (if float_limit \<le> double q then Inf else Fin (double q))"

definition plain_float :: "ustr \<Rightarrow> pyfloat res" where
  "plain_float s = (case float_literal s of None \<Rightarrow> Inl (float_error s) | Some q \<Rightarrow> Inr (finite_float q))"

fun scaled :: "pyfloat \<Rightarrow> rat \<Rightarrow> pyfloat" where
  "scaled (Fin q) k = finite_float (q * k)"
| "scaled Inf k = Inf"

definition unit_scale :: "(ustr \<times> rat) list" where
  "unit_scale = [(u ''us'', 1), (u ''ms'', 1000), (u ''s'', 1000000)]"

definition latency_us :: "ustr \<Rightarrow> pyfloat res" where
  "latency_us s = (case (takeWhile decimal_class s, dict_get unit_scale (dropWhile decimal_class s)) of
     (d # ds, Some k) \<Rightarrow> bind_res (plain_float (d # ds)) (\<lambda>amount. Inr (scaled amount k))
   | _ \<Rightarrow> Inl (ValueError ''unsupported latency value: {}'' [s]))"

definition AVERAGE_RE :: "piece list" where
  "AVERAGE_RE = [LineStart, Blanks, Exact ''Latency'', Spaces, NonSpaces]"

definition PERCENTILES_RE :: "piece list" where
  "PERCENTILES_RE = [LineStart, Exact ''[Lua] latency percentiles: p50='', NonSpaces, Exact '' p95='', NonSpaces, Exact '' p99='', NonSpaces]"

definition RATE_RE :: "piece list" where
  "RATE_RE = [LineStart, Exact ''Requests/sec:'', Blanks, Decimal]"

text \<open>The expressions have as many groups as the code reads, so that the last branches are not taken.\<close>

definition metric :: "unidb \<Rightarrow> ustr \<Rightarrow> piece list \<Rightarrow> string \<Rightarrow> pyfloat res" where
  "metric U output pattern name = (case find_first U pattern output of
     Some (s # _) \<Rightarrow> plain_float s | _ \<Rightarrow> Inl (ValueError ''missing {}'' [u name]))"

definition TRIAL_METRICS :: "ustr list" where
  "TRIAL_METRICS = map u [''throughput_rps'', ''average_latency_us'', ''p50_latency_us'', ''p95_latency_us'', ''p99_latency_us'']"

definition parse_metrics :: "unidb \<Rightarrow> ustr \<Rightarrow> (ustr, pyfloat) dict res" where
  "parse_metrics U output = (case (find_first U AVERAGE_RE output, find_first U PERCENTILES_RE output) of
     (Some [average], Some [p50, p95, p99]) \<Rightarrow>
       bind_res (metric U output RATE_RE ''requests/sec'') (\<lambda>rate.
       bind_res (map_res latency_us [average, p50, p95, p99]) (\<lambda>latencies. Inr (zip TRIAL_METRICS (rate # latencies))))
   | _ \<Rightarrow> Inl (ValueError ''missing latency metrics'' []))"

subsection \<open>The text of an exception\<close>

text \<open>The template with its values put in, one after the other: \<open>{!r}\<close> is the \<open>repr\<close> of the value, \<open>{}\<close> the value.\<close>

primrec fill :: "unidb \<Rightarrow> ustr list \<Rightarrow> ustr \<Rightarrow> ustr" where
  "fill U [] t = t"
| "fill U (a # args) t = (let rest = dropWhile (\<lambda>c. c \<noteq> 123) t in takeWhile (\<lambda>c. c \<noteq> 123) t @
     (if starts_with rest (u ''{!r}'') then repr_str U a @ fill U args (drop 4 rest) else a @ fill U args (drop 2 rest)))"

subsection \<open>The record\<close>

record trial =
  tr_system :: ustr
  tr_topology :: ustr
  tr_mode :: ustr
  tr_configuration :: ustr
  tr_trial :: int
  tr_tool :: ustr
  tr_raw_output :: ustr
  tr_valid :: bool
  tr_failure_reasons :: "ustr list"
  tr_metrics :: "(ustr, pyfloat) dict option"

record trial_args =
  ta_raw :: ustr
  ta_output :: ustr
  ta_system :: ustr
  ta_topology :: ustr
  ta_mode :: ustr
  ta_configuration :: ustr
  ta_trial :: int
  ta_tool :: ustr
  ta_exit_status :: int

definition run_reasons :: "unidb \<Rightarrow> int \<Rightarrow> ustr \<Rightarrow> ustr list res" where
  "run_reasons U exit_status output = bind_res (invalid_reasons U output) (\<lambda>reasons.
     Inr (if exit_status \<noteq> 0 then (u ''tool exit status='' @ show_int exit_status) # reasons else reasons))"

definition trial_of :: "trial_args \<Rightarrow> ustr list \<Rightarrow> (ustr, pyfloat) dict option \<Rightarrow> trial" where
  "trial_of args reasons metrics = \<lparr>tr_system = ta_system args, tr_topology = ta_topology args, tr_mode = ta_mode args,
     tr_configuration = ta_configuration args, tr_trial = ta_trial args, tr_tool = ta_tool args, tr_raw_output = ta_raw args,
     tr_valid = (reasons = []), tr_failure_reasons = reasons, tr_metrics = metrics\<rparr>"

definition record_trial :: "unidb \<Rightarrow> trial_args \<Rightarrow> ustr \<Rightarrow> trial res" where
  "record_trial U args output = bind_res (run_reasons U (ta_exit_status args) output) (\<lambda>reasons.
     if reasons \<noteq> [] then Inr (trial_of args reasons None)
     else case parse_metrics U output of
       Inr metrics \<Rightarrow> Inr (trial_of args [] (Some metrics))
     | Inl (ValueError template values_in) \<Rightarrow> Inr (trial_of args [fill U values_in (u template)] None)
     | Inl e \<Rightarrow> Inl e)"

definition trial_value :: "interp \<Rightarrow> trial \<Rightarrow> pyval" where
  "trial_value I r = PDict ([(u ''system'', PStr (tr_system r)), (u ''topology'', PStr (tr_topology r)), (u ''mode'', PStr (tr_mode r)),
     (u ''configuration'', PStr (tr_configuration r)), (u ''trial'', PInt (tr_trial r)), (u ''tool'', PStr (tr_tool r)),
     (u ''raw_output'', PStr (tr_raw_output r)), (u ''valid'', PBool (tr_valid r)),
     (u ''failure_reasons'', PList (map PStr (tr_failure_reasons r)))] @
     (case tr_metrics r of None \<Rightarrow> []
      | Some metrics \<Rightarrow> [(u ''metrics'', PDict (map (\<lambda>(name, v). (name, float_value I v)) metrics))]))"

subsection \<open>The programs\<close>

definition record_parser :: parser where
  "record_parser = \<lparr>ps_positional = None,
     ps_options = [required_option ''--raw'' File, required_option ''--output'' File, required_option ''--system'' Text,
       required_option ''--topology'' Text, required_option ''--mode'' Text, required_option ''--configuration'' Text,
       required_option ''--trial'' Whole, required_option ''--tool'' Text, required_option ''--exit-status'' Whole]\<rparr>"

definition record_args_of :: "(ustr, arg_value) dict \<Rightarrow> trial_args option" where
  "record_args_of ns = (case (map (\<lambda>s. dict_get ns (u s)) [''raw'', ''output''],
       map (\<lambda>s. dict_get ns (u s)) [''system'', ''topology'', ''mode'', ''configuration'', ''tool''],
       map (\<lambda>s. dict_get ns (u s)) [''trial'', ''exit_status'']) of
     ([Some (FileV raw), Some (FileV target)],
      [Some (TextV system), Some (TextV topology), Some (TextV mode), Some (TextV configuration), Some (TextV tool)],
      [Some (IntV number), Some (IntV status)]) \<Rightarrow>
       Some \<lparr>ta_raw = raw, ta_output = target, ta_system = system, ta_topology = topology, ta_mode = mode,
         ta_configuration = configuration, ta_trial = number, ta_tool = tool, ta_exit_status = status\<rparr>
   | _ \<Rightarrow> None)"

text \<open>The file written last and its content.\<close>

definition record_main :: "interp \<Rightarrow> (ustr \<Rightarrow> ustr res) \<Rightarrow> trial_args \<Rightarrow> (ustr \<times> ustr) res" where
  "record_main I read_report args = bind_res (read_report (ta_raw args)) (\<lambda>output.
     bind_res (record_trial (i_unicode I) args output) (\<lambda>r.
     Inr (ta_output args, json_dump 0 (trial_value I r) @ [10])))"

definition record_program :: "interp \<Rightarrow> (ustr \<Rightarrow> ustr res) \<Rightarrow> ustr list \<Rightarrow> stop + (ustr \<times> ustr) res" where
  "record_program I read_report argv = bind_res (parse_args (i_unicode I) record_parser argv) (\<lambda>ns.
     Inr (case record_args_of ns of None \<Rightarrow> Inl bad_attribute | Some args \<Rightarrow> record_main I read_report args))"

definition validate_parser :: parser where
  "validate_parser = \<lparr>ps_positional = None, ps_options = [required_option ''--input'' File]\<rparr>"

definition validate_main :: "unidb \<Rightarrow> (ustr \<Rightarrow> ustr res) \<Rightarrow> ustr \<Rightarrow> outcome" where
  "validate_main U read_report path = (case bind_res (read_report path) (invalid_reasons U) of
     Inl e \<Rightarrow> Raised e
   | Inr reasons \<Rightarrow> if reasons = [] then Exit 0 [] else Exit 1 (join (u ''; '') reasons @ [10]))"

definition validate_program :: "unidb \<Rightarrow> (ustr \<Rightarrow> ustr res) \<Rightarrow> ustr list \<Rightarrow> stop + outcome" where
  "validate_program U read_report argv = bind_res (parse_args U validate_parser argv) (\<lambda>ns.
     Inr (case dict_get ns (u ''input'') of
       Some (FileV path) \<Rightarrow> validate_main U read_report path | _ \<Rightarrow> Raised bad_attribute))"

end
