(* ===== verification/TrialSummary.thy ===== *)
theory TrialSummary
  imports TrialRecord "HOL-Library.Log_Nat" "HOL-Library.Product_Lexorder"
begin

section \<open>The summary of the trials\<close>

text \<open>
  benchmarks/routing_wrk/aggregate_results.py: \<open>statistics_for\<close>, with what it uses of the \<open>statistics\<close> module of
  CPython 3.11, and \<open>aggregate\<close>. The module computes with exact fractions and rounds once, at the end;
  the square root of a fraction is that of an integer of at least 55 bits, rounded to odd, which is
  then rounded to a double. The trials are the records that TrialRecord describes, as \<open>json.load\<close> reads
  them back; their metrics are finite or infinite and never negative.
\<close>

subsection \<open>Order\<close>

instantiation pyfloat :: linorder
begin

fun less_eq_pyfloat :: "pyfloat \<Rightarrow> pyfloat \<Rightarrow> bool" where
  "less_eq_pyfloat (Fin a) (Fin b) = (a \<le> b)"
| "less_eq_pyfloat x Inf = True"
| "less_eq_pyfloat Inf (Fin b) = False"

definition less_pyfloat :: "pyfloat \<Rightarrow> pyfloat \<Rightarrow> bool" where
  "less_pyfloat x y \<longleftrightarrow> \<not> y \<le> x"

instance
proof
  fix x y z :: pyfloat
  show "x < y \<longleftrightarrow> x \<le> y \<and> \<not> y \<le> x" by (cases x; cases y) (auto simp: less_pyfloat_def)
  show "x \<le> x" by (cases x) auto
  show "x \<le> y \<Longrightarrow> y \<le> z \<Longrightarrow> x \<le> z" by (cases x; cases y; cases z) auto
  show "x \<le> y \<Longrightarrow> y \<le> x \<Longrightarrow> x = y" by (cases x; cases y) auto
  show "x \<le> y \<or> y \<le> x" by (cases x; cases y) auto
qed

end

subsection \<open>Statistics\<close>

fun finite_values :: "pyfloat list \<Rightarrow> rat list option" where
  "finite_values [] = Some []"
| "finite_values (Fin q # vs) = map_option ((#) q) (finite_values vs)"
| "finite_values (Inf # vs) = None"

text \<open>\<open>float(Fraction)\<close> divides the numerator by the denominator.\<close>

definition float_of_fraction :: "rat \<Rightarrow> rat res" where
  "float_of_fraction x = (case quotient_of x of (n, m) \<Rightarrow> true_div n m)"

definition mean_of :: "pyfloat list \<Rightarrow> pyfloat res" where
  "mean_of values_in = (case finite_values values_in of
     None \<Rightarrow> Inr Inf
   | Some qs \<Rightarrow> bind_res (float_of_fraction (sum_list qs / of_nat (length qs))) (\<lambda>q. Inr (Fin q)))"

definition exact_variance :: "rat list \<Rightarrow> rat" where
  "exact_variance qs = (let count = of_nat (length qs); sx = sum_list qs; sxx = sum_list (map (\<lambda>q. q * q) qs) in
     (count * sxx - sx * sx) / count / (count - 1))"

text \<open>\<open>math.isqrt\<close>, the integer square root; \<open>n\<close> is never negative here.\<close>

function isqrt :: "int \<Rightarrow> int" where
  "isqrt n = (if n \<le> 0 then 0 else let r = 2 * isqrt (n div 4) in if (r + 1) * (r + 1) \<le> n then r + 1 else r)"
  by auto
termination by (relation "measure nat") auto

declare isqrt.simps [simp del]

definition sqrt_to_odd :: "int \<Rightarrow> int \<Rightarrow> int" where
  "sqrt_to_odd n m = (let a = isqrt (n div m) in if a * a * m \<noteq> n \<and> even a then a + 1 else a)"

definition float_sqrt_of_frac :: "int \<Rightarrow> int \<Rightarrow> rat res" where
  "float_sqrt_of_frac n m = (let q = (bitlen n - bitlen m - 109) div 2 in
     if 0 \<le> q then true_div (sqrt_to_odd n (m * 4 ^ nat q) * 2 ^ nat q) 1
     else true_div (sqrt_to_odd (n * 4 ^ nat (- q)) m) (2 ^ nat (- q)))"

text \<open>The deviation of at least two values; a sum that is infinite has no numerator.\<close>

definition stdev_of :: "pyfloat list \<Rightarrow> rat res" where
  "stdev_of values_in = (case finite_values values_in of
     None \<Rightarrow> Inl (AttributeErr ''numerator'')
   | Some qs \<Rightarrow> (case quotient_of (exact_variance qs) of (n, m) \<Rightarrow> float_sqrt_of_frac n m))"

definition float_sum :: "pyfloat \<Rightarrow> pyfloat \<Rightarrow> pyfloat" where
  "float_sum x y = (case (x, y) of (Fin a, Fin b) \<Rightarrow> finite_float (a + b) | _ \<Rightarrow> Inf)"

definition divided :: "pyfloat \<Rightarrow> rat \<Rightarrow> pyfloat" where
  "divided x k = (case x of Fin a \<Rightarrow> finite_float (a / k) | Inf \<Rightarrow> Inf)"

definition median_of :: "pyfloat list \<Rightarrow> pyfloat" where
  "median_of values_in = (let data = sort values_in; n = length data in
     if odd n then data ! (n div 2) else divided (float_sum (data ! (n div 2 - 1)) (data ! (n div 2))) 2)"

record figures =
  fg_mean :: pyfloat
  fg_stdev :: pyfloat
  fg_median :: pyfloat
  fg_minimum :: pyfloat
  fg_maximum :: pyfloat
  fg_ci95 :: pyfloat

definition confidence :: "nat \<Rightarrow> rat \<Rightarrow> pyfloat res" where
  "confidence n stdev = bind_res (float_sqrt_of_frac (int n) 1) (\<lambda>root.
     Inr (divided (scaled (Fin stdev) (double (if n = 5 then 2776 / 1000 else 196 / 100))) root))"

text \<open>\<open>None\<close> stands for the dictionary whose values are all \<open>None\<close>.\<close>

definition statistics_for :: "pyfloat list \<Rightarrow> figures option res" where
  "statistics_for values_in = (case values_in of [] \<Rightarrow> Inr None
   | v # vs \<Rightarrow>
       bind_res (if vs \<noteq> [] then stdev_of values_in else Inr 0) (\<lambda>stdev.
       bind_res (mean_of values_in) (\<lambda>mean.
       bind_res (if vs \<noteq> [] then confidence (length values_in) stdev else Inr (Fin 0)) (\<lambda>ci95.
       Inr (Some \<lparr>fg_mean = mean, fg_stdev = Fin stdev, fg_median = median_of values_in, fg_minimum = fold min vs v,
         fg_maximum = fold max vs v, fg_ci95 = ci95\<rparr>)))))"

subsection \<open>Aggregation\<close>

type_synonym trial_key = "ustr \<times> ustr \<times> ustr \<times> ustr"

definition key_of :: "trial \<Rightarrow> trial_key" where
  "key_of r = (tr_mode r, tr_configuration r, tr_system r, tr_topology r)"

definition group_trial :: "trial \<Rightarrow> (trial_key, trial list) dict \<Rightarrow> (trial_key, trial list) dict" where
  "group_trial r grouped = dict_set (key_of r) (get_default grouped (key_of r) [] @ [r]) grouped"

record summary_row =
  row_key :: trial_key
  row_valid_count :: nat
  row_failed_count :: nat
  row_raw_results :: "ustr list"
  row_metrics :: "(ustr, figures option) dict"

definition metric_of :: "ustr \<Rightarrow> trial \<Rightarrow> pyfloat res" where
  "metric_of name item = (case tr_metrics item of None \<Rightarrow> Inl (KeyErr (u ''metrics'')) | Some metrics \<Rightarrow> dict_index metrics name)"

definition metric_figures :: "trial list \<Rightarrow> ustr \<Rightarrow> (ustr \<times> figures option) res" where
  "metric_figures valid name = bind_res (map_res (metric_of name) valid) (\<lambda>values_in.
     bind_res (statistics_for values_in) (\<lambda>figures. Inr (name, figures)))"

definition row_of :: "trial_key \<times> trial list \<Rightarrow> summary_row res" where
  "row_of item = (case item of (key, members) \<Rightarrow> let valid = filter tr_valid members in
     bind_res (map_res (metric_figures valid) TRIAL_METRICS) (\<lambda>metrics.
     Inr \<lparr>row_key = key, row_valid_count = length valid, row_failed_count = length members - length valid,
       row_raw_results = map tr_raw_output members, row_metrics = metrics\<rparr>))"

definition aggregate :: "trial list \<Rightarrow> summary_row list res" where
  "aggregate records = map_res row_of (sort_key fst (fold group_trial records []))"

end
