(* ===== verification/Deviation.thy ===== *)
theory Deviation
  imports TrialSummary Doubles
begin

section \<open>The accuracy of the deviation\<close>

text \<open>
  The square root of a fraction, computed on integers and rounded to odd, has a relative error of less
  than two units in the last place of a double, and so has the deviation with respect to the square
  root of the exact variance. Squares are compared, so that everything stays rational.
\<close>

subsection \<open>The integer square root\<close>

lemma isqrt_bounds: "0 \<le> n \<Longrightarrow> 0 \<le> isqrt n \<and> isqrt n * isqrt n \<le> n \<and> n < (isqrt n + 1) * (isqrt n + 1)"
proof (induction n rule: isqrt.induct)
  case (1 n)
  show ?case
  proof (cases "n \<le> 0")
    case True
    with 1(2) show ?thesis by (simp add: isqrt.simps [of 0])
  next
    case False
    define s where "s = isqrt (n div 4)"
    have s: "0 \<le> s" "s * s \<le> n div 4" "n div 4 < (s + 1) * (s + 1)" using 1(1) [OF False] 1(2) by (simp_all add: s_def)
    then have "4 * (s * s) \<le> n" "n < 4 * ((s + 1) * (s + 1))" by linarith+
    then have "2 * s * (2 * s) \<le> n" "n < (2 * s + 1 + 1) * (2 * s + 1 + 1)" by (simp_all add: algebra_simps)
    with s(1) False show ?thesis by (simp add: isqrt.simps [of n] Let_def s_def [symmetric])
  qed
qed

lemma sqrt_to_odd_bounds:
  assumes "0 \<le> n" "0 < m"
  shows "\<exists>a \<ge> 0. of_int a * of_int a \<le> (of_int n / of_int m :: rat) \<and> of_int n / of_int m < (of_int (a + 1) * of_int (a + 1) :: rat) \<and>
    (sqrt_to_odd n m = a \<or> sqrt_to_odd n m = a + 1)"
proof -
  let ?a = "isqrt (n div m)"
  have d: "0 \<le> n div m" using assms by (simp add: pos_imp_zdiv_nonneg_iff)
  from isqrt_bounds [OF d] have a: "0 \<le> ?a" "?a * ?a \<le> n div m" "n div m < (?a + 1) * (?a + 1)" by auto
  have fl: "\<lfloor>of_int n / of_int m :: rat\<rfloor> = n div m" by (rule floor_divide_of_int_eq)
  from a(2) have "of_int (?a * ?a) \<le> (of_int n / of_int m :: rat)" by (simp only: le_floor_iff [symmetric] fl)
  moreover from a(3) have "(of_int n / of_int m :: rat) < of_int ((?a + 1) * (?a + 1))" by (simp only: floor_less_iff [symmetric] fl)
  ultimately show ?thesis using a(1) by (intro exI [of _ ?a]) (auto simp: sqrt_to_odd_def Let_def)
qed

subsection \<open>The scaled root\<close>

text \<open>With at least 55 bits the neighbours of an integer square root are close to the root.\<close>

lemma square_mono: "0 \<le> a \<Longrightarrow> a \<le> b \<Longrightarrow> a * a \<le> b * b" for a b :: rat
  by (intro mult_mono) auto

definition close_square :: "rat \<Rightarrow> rat \<Rightarrow> bool" where
  "close_square y v \<longleftrightarrow> y * y * 2 ^ 108 \<le> v * (2 ^ 54 + 1) ^ 2 \<and> v * 2 ^ 108 \<le> y * y * (2 ^ 54 + 1) ^ 2"

lemma close_square_scale: "0 < k \<Longrightarrow> close_square (y * k) (v * (k * k)) \<longleftrightarrow> close_square y v"
proof -
  assume k: "0 < k"
  then have "0 < k * k" by simp
  have "y * k * (y * k) * 2 ^ 108 \<le> v * (k * k) * (2 ^ 54 + 1) ^ 2 \<longleftrightarrow> y * y * 2 ^ 108 * (k * k) \<le> v * (2 ^ 54 + 1) ^ 2 * (k * k)"
    "v * (k * k) * 2 ^ 108 \<le> y * k * (y * k) * (2 ^ 54 + 1) ^ 2 \<longleftrightarrow> v * 2 ^ 108 * (k * k) \<le> y * y * (2 ^ 54 + 1) ^ 2 * (k * k)"
    by (simp_all only: mult_ac)
  with \<open>0 < k * k\<close> show ?thesis unfolding close_square_def by (simp only: mult_le_cancel_right_pos)
qed

lemma sqrt_to_odd_close:
  assumes "0 \<le> n" "0 < m" and large: "2 ^ 108 \<le> (of_int n / of_int m :: rat)"
  shows "0 \<le> sqrt_to_odd n m \<and> close_square (of_int (sqrt_to_odd n m)) (of_int n / of_int m)"
proof -
  define x where "x = (of_int n / of_int m :: rat)"
  from sqrt_to_odd_bounds [OF assms(1,2)] obtain a where a: "0 \<le> a" "of_int a * of_int a \<le> x" "x < of_int (a + 1) * of_int (a + 1)"
    "sqrt_to_odd n m = a \<or> sqrt_to_odd n m = a + 1" unfolding x_def by blast
  define r where "r = (of_int (sqrt_to_odd n m) :: rat)"
  define A where "A = (of_int a :: rat)"
  have A: "0 \<le> A" "A * A \<le> x" "x < (A + 1) * (A + 1)" "A \<le> r" "r \<le> A + 1" using a by (auto simp: A_def r_def)
  have "2 ^ 54 < A + 1"
  proof (rule ccontr)
    assume "\<not> 2 ^ 54 < A + 1"
    then have "(A + 1) * (A + 1) \<le> 2 ^ 54 * 2 ^ 54" using A(1) by (intro mult_mono) auto
    with A(3) large show False by (simp add: x_def)
  qed
  then have "(of_int (2 ^ 54) :: rat) < of_int (a + 1)" by (simp add: A_def)
  then have "2 ^ 54 \<le> a" by (simp only: of_int_less_iff)
  then have "(of_int (2 ^ 54) :: rat) \<le> of_int a" by (simp only: of_int_le_iff)
  then have big: "2 ^ 54 \<le> A" by (simp add: A_def)
  then have "(A + 1) * 2 ^ 54 \<le> A * (2 ^ 54 + 1)" by (simp add: algebra_simps)
  then have "((A + 1) * 2 ^ 54) * ((A + 1) * 2 ^ 54) \<le> (A * (2 ^ 54 + 1)) * (A * (2 ^ 54 + 1))" using A(1) by (intro square_mono) auto
  then have step: "(A + 1) * (A + 1) * 2 ^ 108 \<le> A * A * (2 ^ 54 + 1) ^ 2" by (simp add: algebra_simps power2_eq_square)
  have r2: "A * A \<le> r * r" "r * r \<le> (A + 1) * (A + 1)" using A by (intro mult_mono; simp)+
  have "r * r * 2 ^ 108 \<le> (A + 1) * (A + 1) * 2 ^ 108" using r2(2) by (intro mult_right_mono) auto
  also note step
  also have "A * A * (2 ^ 54 + 1) ^ 2 \<le> x * (2 ^ 54 + 1) ^ 2" using A(2) by (intro mult_right_mono) auto
  finally have 1: "r * r * 2 ^ 108 \<le> x * (2 ^ 54 + 1) ^ 2" .
  have "x * 2 ^ 108 \<le> (A + 1) * (A + 1) * 2 ^ 108" using A(3) by (intro mult_right_mono) auto
  also note step
  also have "A * A * (2 ^ 54 + 1) ^ 2 \<le> r * r * (2 ^ 54 + 1) ^ 2" using r2(1) by (intro mult_right_mono) auto
  finally have "x * 2 ^ 108 \<le> r * r * (2 ^ 54 + 1) ^ 2" .
  with 1 a(1,4) show ?thesis unfolding close_square_def r_def x_def by auto
qed

lemma ratio_bits:
  assumes "0 < n" "0 < m" shows "2 powi (bitlen n - bitlen m - 1) \<le> (of_int n / of_int m :: rat)"
proof -
  have n: "1 \<le> bitlen n" "2 ^ nat (bitlen n - 1) \<le> n" and m: "0 \<le> bitlen m" "m < 2 ^ nat (bitlen m)"
    using assms bitlen_bounds [of n] bitlen_bounds [of m] bitlen_nonneg [of n] bitlen_nonneg [of m] bitlen_eq_zero_iff [of n]
    by (auto simp: order_le_less)
  have "of_int (2 ^ nat (bitlen n - 1)) \<le> (of_int n :: rat)" "(of_int m :: rat) \<le> of_int (2 ^ nat (bitlen m))"
    using n m by (simp_all only: of_int_le_iff)
  then have "2 powi (bitlen n - 1) \<le> (of_int n :: rat)" "(of_int m :: rat) \<le> 2 powi bitlen m"
    using n m by (simp_all add: power_int_def)
  then have "2 powi (bitlen n - 1) / 2 powi bitlen m \<le> (of_int n / of_int m :: rat)"
    using assms by (intro frac_le) auto
  then show ?thesis by (simp add: power_int_diff)
qed

definition rounded_quotient :: "rat \<Rightarrow> rat res" where
  "rounded_quotient x = (if float_limit \<le> double x then Inl (OverflowErr ''integer division result too large for a float'') else Inr (double x))"

lemma true_div_rounded: "0 \<le> a \<Longrightarrow> 0 < b \<Longrightarrow> true_div a b = rounded_quotient (of_int a / of_int b)"
  using double_nonneg [of "of_int a / of_int b"] by (simp add: true_div_def rounded_quotient_def Let_def)

lemma float_sqrt_scaled:
  assumes "0 < n" "0 < m"
  shows "\<exists>y. 0 \<le> y \<and> close_square y (of_int n / of_int m) \<and>
    float_sqrt_of_frac n m = rounded_quotient y"
proof -
  define q where "q = (bitlen n - bitlen m - 109) div 2"
  define v where "v = (of_int n / of_int m :: rat)"
  have large: "2 ^ 108 \<le> v / 4 powi q"
  proof -
    have "(4 :: rat) powi q = 2 powi (2 * q)" by (simp add: power_int_mult)
    also have "\<dots> \<le> 2 powi (bitlen n - bitlen m - 109)" by (intro power_int_increasing) (auto simp: q_def)
    finally have "2 ^ 108 * 4 powi q \<le> (2 ^ 108 * 2 powi (bitlen n - bitlen m - 109) :: rat)" by (rule mult_left_mono) simp
    also have "\<dots> = 2 powi (108 + (bitlen n - bitlen m - 109))" by (subst power_int_add) simp_all
    also have "\<dots> = 2 powi (bitlen n - bitlen m - 1)" by simp
    also have "\<dots> \<le> v" unfolding v_def by (rule ratio_bits [OF assms])
    finally show ?thesis by (simp add: pos_le_divide_eq)
  qed
  have four: "(4 :: rat) powi q = 2 powi q * 2 powi q" by (simp flip: power_int_mult_distrib)
  have root: "\<exists>y \<ge> 0. close_square y v \<and> rounded_quotient (of_int r * 2 powi q) = rounded_quotient y"
    if "0 \<le> r \<and> close_square (of_int r) (v / 4 powi q)" for r
  proof -
    from that have "close_square (of_int r * 2 powi q) v"
      using close_square_scale [of "2 powi q" "of_int r" "v / 4 powi q"] four by simp
    moreover have "0 \<le> (of_int r * 2 powi q :: rat)" using that by simp
    ultimately show ?thesis by blast
  qed
  have "\<exists>r. (0 \<le> r \<and> close_square (of_int r) (v / 4 powi q)) \<and> float_sqrt_of_frac n m = rounded_quotient (of_int r * 2 powi q)"
  proof (cases "0 \<le> q")
    case True
    define r where "r = sqrt_to_odd n (m * 4 ^ nat q)"
    have eq: "of_int n / of_int (m * 4 ^ nat q) = v / 4 powi q" using True by (simp add: v_def power_int_def)
    have r: "0 \<le> r \<and> close_square (of_int r) (v / 4 powi q)"
      using sqrt_to_odd_close [of n "m * 4 ^ nat q"] large assms unfolding eq r_def by simp
    have "float_sqrt_of_frac n m = true_div (r * 2 ^ nat q) 1" using True by (simp add: float_sqrt_of_frac_def q_def r_def Let_def)
    also have "\<dots> = rounded_quotient (of_int (r * 2 ^ nat q) / of_int 1)" using r by (intro true_div_rounded) auto
    also have "of_int (r * 2 ^ nat q) / of_int 1 = of_int r * (2 powi q :: rat)" using True by (simp add: power_int_def)
    finally show ?thesis using r by blast
  next
    case False
    define r where "r = sqrt_to_odd (n * 4 ^ nat (- q)) m"
    have p: "b powi q = inverse (b ^ nat (- q))" for b :: rat using False by (simp add: power_int_def power_inverse)
    have eq: "of_int (n * 4 ^ nat (- q)) / of_int m = v / 4 powi q" unfolding v_def p by (simp add: divide_inverse)
    have r: "0 \<le> r \<and> close_square (of_int r) (v / 4 powi q)"
      using sqrt_to_odd_close [of "n * 4 ^ nat (- q)" m] large assms unfolding eq r_def by simp
    have "float_sqrt_of_frac n m = true_div r (2 ^ nat (- q))" using False by (simp add: float_sqrt_of_frac_def q_def r_def Let_def)
    also have "\<dots> = rounded_quotient (of_int r / of_int (2 ^ nat (- q)))" using r by (intro true_div_rounded) auto
    also have "of_int r / of_int (2 ^ nat (- q)) = of_int r * (2 powi q :: rat)" unfolding p by (simp add: divide_inverse)
    finally show ?thesis using r by blast
  qed
  then obtain r where r: "0 \<le> r \<and> close_square (of_int r) (v / 4 powi q)" "float_sqrt_of_frac n m = rounded_quotient (of_int r * 2 powi q)"
    by blast
  from root [OF r(1)] r(2) show ?thesis unfolding v_def by auto
qed

subsection \<open>The rounded root\<close>

lemma normal_scale_4: "4 \<le> normal_scale"
  by (simp add: normal_scale_def)

lemma close_le:
  assumes "close_square y v" "0 \<le> v" shows "y * y * 2 ^ 52 \<le> v * (2 ^ 52 + 1)" "v * 2 ^ 52 \<le> y * y * (2 ^ 52 + 1)"
proof -
  have "y * y * 2 ^ 52 * 2 ^ 56 \<le> v * (2 ^ 54 + 1) ^ 2" "v * 2 ^ 52 * 2 ^ 56 \<le> y * y * (2 ^ 54 + 1) ^ 2"
    using assms(1) by (simp_all add: close_square_def)
  moreover have "w * (2 ^ 54 + 1) ^ 2 \<le> w * (2 ^ 52 + 1) * 2 ^ 56" if "0 \<le> w" for w :: rat
    using that by (simp add: mult_left_mono)
  ultimately have "y * y * 2 ^ 52 * 2 ^ 56 \<le> v * (2 ^ 52 + 1) * 2 ^ 56" "v * 2 ^ 52 * 2 ^ 56 \<le> y * y * (2 ^ 52 + 1) * 2 ^ 56"
    using assms(2) zero_le_square [of y] order_trans by blast+
  then show "y * y * 2 ^ 52 \<le> v * (2 ^ 52 + 1)" "v * 2 ^ 52 \<le> y * y * (2 ^ 52 + 1)"
    by (simp_all only: mult_le_cancel_right_pos zero_less_power zero_less_numeral)
qed

lemma root_below_limit:
  assumes y: "0 \<le> y" "close_square y v" and v: "0 \<le> v" "v * 2 \<le> float_limit * float_limit"
  shows "double y < float_limit"
proof -
  have L: "0 < float_limit" using scale_facts(1,4) by simp
  have "y * y * 2 ^ 53 \<le> v * 2 * (2 ^ 52 + 1)" using close_le(1) [OF y(2) v(1)] by simp
  also have "\<dots> \<le> float_limit * float_limit * (2 ^ 52 + 1)" using v(2) by (intro mult_right_mono) auto
  also have "\<dots> \<le> float_limit * float_limit * (9 / 16 * 2 ^ 53)" using L by (intro mult_left_mono) auto
  finally have "y * y * 2 ^ 53 \<le> (3 / 4 * float_limit) * (3 / 4 * float_limit) * 2 ^ 53" by (simp add: algebra_simps)
  then have "y * y \<le> (3 / 4 * float_limit) * (3 / 4 * float_limit)"
    by (simp only: mult_le_cancel_right_pos zero_less_power zero_less_numeral)
  then have "y ^ 2 \<le> (3 / 4 * float_limit) ^ 2" by (simp only: power2_eq_square)
  then have le: "y \<le> 3 / 4 * float_limit" by (rule power2_le_imp_le) (use L in simp)
  show ?thesis
  proof (cases "y * normal_scale < 1")
    case True
    with double_tiny [OF y(1) True] scale_facts(1,4) show ?thesis by linarith
  next
    case False
    then have "\<bar>double y - y\<bar> * 2 ^ 53 \<le> y" by (intro double_error) simp
    moreover have "\<bar>double y - y\<bar> * 8 \<le> \<bar>double y - y\<bar> * 2 ^ 53" by (intro mult_left_mono) auto
    ultimately have "\<bar>double y - y\<bar> * 8 \<le> y" by (rule order_trans [rotated])
    moreover note abs_ge_self [of "double y - y"]
    ultimately have "double y \<le> y * (9 / 8)" by (simp add: algebra_simps)
    with le L show ?thesis by linarith
  qed
qed

lemma root_normal:
  assumes y: "0 \<le> y" "close_square y v" and v: "1 \<le> v * normal_scale"
  shows "1 \<le> y * normal_scale"
proof (rule ccontr)
  assume small: "\<not> 1 \<le> y * normal_scale"
  have v0: "0 < v" using v by (rule pos_of_scaled)
  have "v * 2 ^ 52 \<le> y * y * (2 ^ 52 + 1)" using close_le(2) [OF y(2)] v0 by simp
  also have "\<dots> \<le> y * y * (2 * 2 ^ 52)" by (intro mult_left_mono) auto
  finally have "v * 2 ^ 52 \<le> (2 * (y * y)) * 2 ^ 52" by simp
  then have "v \<le> 2 * (y * y)" by (simp only: mult_le_cancel_right_pos zero_less_power zero_less_numeral)
  then have "v * normal_scale \<le> 2 * (y * y) * normal_scale" using scale_facts(1) by (intro mult_right_mono) auto
  also have "\<dots> = 2 * y * (y * normal_scale)" by simp
  also have "\<dots> \<le> 2 * y * 1" using small y(1) by (intro mult_left_mono) auto
  finally have "1 \<le> 2 * y" using v by simp
  moreover have "4 * y \<le> y * normal_scale" using normal_scale_4 y(1) mult_left_mono [of 4 normal_scale y] by (simp add: mult.commute)
  ultimately show False using small by linarith
qed

lemma root_accurate:
  assumes y: "0 \<le> y" "close_square y v" and v: "1 \<le> v * normal_scale"
  shows "\<bar>double y * double y - v\<bar> * 2 ^ 51 \<le> v"
proof -
  define s where "s = double y"
  have v0: "0 < v" using v by (rule pos_of_scaled)
  have s0: "0 \<le> s" using y(1) by (simp add: s_def double_nonneg)
  have "\<bar>s - y\<bar> * 2 ^ 53 \<le> y" unfolding s_def by (rule double_error [OF root_normal [OF assms]])
  moreover have "(s - y) * 2 ^ 53 \<le> \<bar>s - y\<bar> * 2 ^ 53" "(y - s) * 2 ^ 53 \<le> \<bar>s - y\<bar> * 2 ^ 53" by (intro mult_right_mono; simp)+
  ultimately have lin: "s * 2 ^ 53 \<le> y * (2 ^ 53 + 1)" "y * (2 ^ 53 - 1) \<le> s * 2 ^ 53" by (simp_all add: algebra_simps)
  have "(s * 2 ^ 53) * (s * 2 ^ 53) \<le> (y * (2 ^ 53 + 1)) * (y * (2 ^ 53 + 1))" using lin(1) s0 by (intro square_mono) auto
  then have up: "s * s * 2 ^ 106 \<le> y * y * (2 ^ 53 + 1) ^ 2" by (simp add: power2_eq_square algebra_simps)
  have "(y * (2 ^ 53 - 1)) * (y * (2 ^ 53 - 1)) \<le> (s * 2 ^ 53) * (s * 2 ^ 53)" using lin(2) y(1) by (intro square_mono) auto
  then have low: "y * y * (2 ^ 53 - 1) ^ 2 \<le> s * s * 2 ^ 106" by (simp add: power2_eq_square algebra_simps)
  have c: "y * y * 2 ^ 108 \<le> v * (2 ^ 54 + 1) ^ 2" "v * 2 ^ 108 \<le> y * y * (2 ^ 54 + 1) ^ 2" using y(2) by (auto simp: close_square_def)
  have "s * s * 2 ^ 51 \<le> v * (2 ^ 51 + 1)"
  proof -
    have "s * s * 2 ^ 106 * 2 ^ 108 \<le> y * y * (2 ^ 53 + 1) ^ 2 * 2 ^ 108" using up by (rule mult_right_mono) simp
    also have "\<dots> = y * y * 2 ^ 108 * (2 ^ 53 + 1) ^ 2" by (simp only: mult_ac)
    also have "\<dots> \<le> v * (2 ^ 54 + 1) ^ 2 * (2 ^ 53 + 1) ^ 2" using c(1) by (rule mult_right_mono) simp
    also have "\<dots> = v * ((2 ^ 54 + 1) ^ 2 * (2 ^ 53 + 1) ^ 2)" by (simp only: mult_ac)
    also have "\<dots> \<le> v * ((2 ^ 51 + 1) * 2 ^ 163)" by (rule mult_left_mono) (use v0 in simp_all)
    finally have "s * s * 2 ^ 51 * 2 ^ 163 \<le> v * (2 ^ 51 + 1) * 2 ^ 163" by simp
    then show ?thesis by (simp only: mult_le_cancel_right_pos zero_less_power zero_less_numeral)
  qed
  moreover have "v * (2 ^ 51 - 1) \<le> s * s * 2 ^ 51"
  proof -
    have "v * (2 ^ 51 - 1) * 2 ^ 106 * (2 ^ 54 + 1) ^ 2 = v * ((2 ^ 51 - 1) * 2 ^ 106 * (2 ^ 54 + 1) ^ 2)" by (simp only: mult_ac)
    also have "\<dots> \<le> v * (2 ^ 108 * (2 ^ 53 - 1) ^ 2 * 2 ^ 51)" by (rule mult_left_mono) (use v0 in simp_all)
    also have "\<dots> = v * 2 ^ 108 * ((2 ^ 53 - 1) ^ 2 * 2 ^ 51)" by (simp only: mult_ac)
    also have "\<dots> \<le> y * y * (2 ^ 54 + 1) ^ 2 * ((2 ^ 53 - 1) ^ 2 * 2 ^ 51)" using c(2) by (rule mult_right_mono) simp
    also have "\<dots> = y * y * (2 ^ 53 - 1) ^ 2 * ((2 ^ 54 + 1) ^ 2 * 2 ^ 51)" by (simp only: mult_ac)
    also have "\<dots> \<le> s * s * 2 ^ 106 * ((2 ^ 54 + 1) ^ 2 * 2 ^ 51)" using low by (rule mult_right_mono) simp
    also have "\<dots> = s * s * 2 ^ 51 * 2 ^ 106 * (2 ^ 54 + 1) ^ 2" by (simp only: mult_ac)
    finally have "v * (2 ^ 51 - 1) * 2 ^ 106 * (2 ^ 54 + 1) ^ 2 \<le> s * s * 2 ^ 51 * 2 ^ 106 * (2 ^ 54 + 1) ^ 2" .
    then show ?thesis by simp
  qed
  ultimately show ?thesis unfolding s_def [symmetric] by (simp add: abs_le_iff abs_if algebra_simps)
qed

lemma float_sqrt_accurate:
  assumes "0 \<le> n" "0 < m" and "of_int n / of_int m * 2 \<le> float_limit * float_limit"
  shows "\<exists>s \<ge> 0. float_sqrt_of_frac n m = Inr s \<and> (n = 0 \<longrightarrow> s = 0) \<and>
    (1 \<le> of_int n / of_int m * normal_scale \<longrightarrow> \<bar>s * s - of_int n / of_int m\<bar> * 2 ^ 51 \<le> of_int n / of_int m)"
proof (cases "n = 0")
  case True
  have b: "1 \<le> bitlen m" using assms(2) bitlen_nonneg [of m] bitlen_eq_zero_iff [of m] by linarith
  have "sqrt_to_odd 0 m = 0" by (simp add: sqrt_to_odd_def isqrt.simps [of 0])
  moreover have "(bitlen 0 - bitlen m - 109) div 2 < 0" using b by simp
  ultimately have "float_sqrt_of_frac 0 m = Inr 0"
    using scale_facts(1,4) by (simp add: float_sqrt_of_frac_def Let_def true_div_def)
  with True show ?thesis by auto
next
  case False
  with assms(1) have n: "0 < n" by simp
  from float_sqrt_scaled [OF n assms(2)] obtain y where y: "0 \<le> y" "close_square y (of_int n / of_int m)"
    "float_sqrt_of_frac n m = rounded_quotient y" by blast
  have "0 \<le> (of_int n / of_int m :: rat)" using n assms(2) by simp
  with root_below_limit [OF y(1,2) _ assms(3)] have "float_sqrt_of_frac n m = Inr (double y)" using y(3) by (simp add: rounded_quotient_def)
  with root_accurate [OF y(1,2)] double_nonneg [OF y(1)] n show ?thesis by auto
qed

end
