(* ===== verification/TrialTheorems.thy ===== *)
theory TrialTheorems
  imports TrialRecord Doubles
begin

section \<open>The verdict on a trial\<close>

text \<open>
  A trial is recorded whatever its report says. It is valid exactly when the load generator
  succeeded, validation found nothing and all five metrics could be read; it then has the metrics
  and no reason, and otherwise reasons and no metrics. The recorder turns every accepted command
  line into one file.
\<close>

subsection \<open>Reading the metrics\<close>

definition is_value_error :: "pyerr \<Rightarrow> bool" where
  "is_value_error e = (case e of ValueError _ _ \<Rightarrow> True | _ \<Rightarrow> False)"

lemma plain_float_error: "plain_float s = Inl e \<Longrightarrow> is_value_error e"
  by (auto simp: plain_float_def float_error_def is_value_error_def split: option.splits)

lemma latency_error: "latency_us s = Inl e \<Longrightarrow> is_value_error e"
  by (auto simp: latency_us_def is_value_error_def bind_res_Inl_iff split: list.splits option.splits dest!: plain_float_error)

lemma metric_error: "metric U output pattern name = Inl e \<Longrightarrow> is_value_error e"
  by (auto simp: metric_def is_value_error_def split: list.splits option.splits dest!: plain_float_error)

lemma parse_metrics_cases:
  "(\<exists>e. parse_metrics U output = Inl e \<and> is_value_error e) \<or>
   (\<exists>rate latencies. parse_metrics U output = Inr (zip TRIAL_METRICS (rate # latencies)) \<and> length latencies = 4 \<and>
      metric U output RATE_RE ''requests/sec'' = Inr rate \<and> list_all (\<lambda>v. \<exists>s. latency_us s = Inr v) latencies)"
proof -
  have "(\<exists>e. parse_metrics U output = Inl e \<and> is_value_error e) \<or>
      (\<exists>average p50 p95 p99. find_first U AVERAGE_RE output = Some [average] \<and> find_first U PERCENTILES_RE output = Some [p50, p95, p99])"
    unfolding parse_metrics_def by (auto simp: is_value_error_def split: list.split option.split)
  then show ?thesis
  proof (elim disjE exE conjE)
    fix average p50 p95 p99
    assume found: "find_first U AVERAGE_RE output = Some [average]" "find_first U PERCENTILES_RE output = Some [p50, p95, p99]"
    let ?ss = "[average, p50, p95, p99]"
    have eq: "parse_metrics U output = bind_res (metric U output RATE_RE ''requests/sec'') (\<lambda>rate.
        bind_res (map_res latency_us ?ss) (\<lambda>latencies. Inr (zip TRIAL_METRICS (rate # latencies))))"
      unfolding parse_metrics_def found by simp
    show ?thesis
    proof (cases "metric U output RATE_RE ''requests/sec''")
      case (Inl e)
      with eq metric_error [OF Inl] show ?thesis by simp
    next
      case (Inr rate)
      show ?thesis
      proof (cases "map_res latency_us ?ss")
        case (Inl e)
        with eq Inr map_res_error [OF Inl] show ?thesis by (auto dest: latency_error)
      next
        case 2: (Inr latencies)
        with map_res_mem [OF 2] have "list_all (\<lambda>v. \<exists>s. latency_us s = Inr v) latencies" by (fastforce simp: list_all_iff)
        moreover have "length latencies = 4" using map_res_length [OF 2] by simp
        moreover have "parse_metrics U output = Inr (zip TRIAL_METRICS (rate # latencies))" unfolding eq Inr 2 by simp
        ultimately show ?thesis using Inr by blast
      qed
    qed
  qed auto
qed

lemma length_metrics: "length TRIAL_METRICS = 5"
  by (simp add: TRIAL_METRICS_def)

lemma metrics_keys: "parse_metrics U output = Inr metrics \<Longrightarrow> dict_keys metrics = TRIAL_METRICS"
  using parse_metrics_cases [of U "output"] by (auto simp: map_fst_zip length_metrics)

subsection \<open>Amounts\<close>

text \<open>What a metric can be: a double that is not negative, or the infinity.\<close>

definition amount :: "pyfloat \<Rightarrow> bool" where
  "amount v = (case v of Fin q \<Rightarrow> 0 \<le> q \<and> q < float_limit \<and> double q = q | Inf \<Rightarrow> True)"

lemma finite_float_amount: "0 \<le> q \<Longrightarrow> amount (finite_float q)"
  by (simp add: amount_def finite_float_def double_nonneg)

lemma float_literal_nonneg: "float_literal s = Some q \<Longrightarrow> 0 \<le> q"
  by (auto simp: float_literal_def decimal_value_def dest!: parse_mantissa_nonneg split: option.splits list.splits)

lemma plain_float_amount: "plain_float s = Inr v \<Longrightarrow> amount v"
  by (auto simp: plain_float_def finite_float_amount dest: float_literal_nonneg split: option.splits)

lemma scaled_amount: "amount v \<Longrightarrow> 0 \<le> k \<Longrightarrow> amount (scaled v k)"
proof (cases v)
  case (Fin q)
  assume "amount v" "0 \<le> k"
  with Fin have "0 \<le> q * k" by (simp add: amount_def)
  with Fin show ?thesis by (simp add: finite_float_amount)
qed (simp add: amount_def)

lemma latency_amount: "latency_us s = Inr v \<Longrightarrow> amount v"
  by (auto simp: latency_us_def bind_res_Inr_iff unit_scale_def split: list.splits option.splits if_splits
      dest!: plain_float_amount intro!: scaled_amount)

lemma metric_amount: "metric U output pattern name = Inr v \<Longrightarrow> amount v"
  by (auto simp: metric_def dest: plain_float_amount split: list.splits option.splits)

lemma metrics_amounts:
  assumes "parse_metrics U output = Inr metrics" shows "list_all (\<lambda>(_, v). amount v) metrics"
proof -
  from parse_metrics_cases [of U "output"] assms obtain rate latencies where z: "metrics = zip TRIAL_METRICS (rate # latencies)"
    and a: "amount rate" "list_all amount latencies"
    by (auto simp: list_all_iff dest: metric_amount latency_amount)
  from a have "list_all amount (rate # latencies)" by simp
  then show ?thesis unfolding z list_all_iff by (auto dest!: set_zip_rightD)
qed

text \<open>On a text of digits and points \<open>plain_float\<close> is \<open>float()\<close>.\<close>

lemma plain_float_is_float:
  assumes "list_all decimal_class s" "decimals_ok U"
  shows "plain_float s = (case float_text U s of
    Some (Finite q) \<Rightarrow> Inr (Fin q) | Some (Infinite False) \<Rightarrow> Inr Inf | _ \<Rightarrow> Inl (float_error s))"
proof (cases "s = []")
  case True
  then show ?thesis
    by (simp add: plain_float_def float_text_def float_literal_def parse_mantissa_def split_sign_def strip_by_def ascii_lower_def u_def)
next
  case False
  have c: "c \<in> set s \<Longrightarrow> is_digit c \<or> c = 46" for c using assms(1) by (auto simp: list_all_iff decimal_class_def)
  have "c \<in> set s \<Longrightarrow> ascii_digit U c = c" for c
    using c [of c] assms(2) by (auto simp: decimals_ok_def ascii_digit_def is_digit_def split: option.splits)
  then have m: "map (ascii_digit U) s = s" by (simp add: map_idI)
  have space: "c \<in> set s \<Longrightarrow> \<not> is_number_space c" for c
    using c [of c] digit_not_space [of c] by (auto simp: is_number_space_def is_space_def is_digit_def)
  with False have t: "strip_by is_number_space s = s" by (intro strip_by_id) auto
  have n95: "c \<in> set s \<Longrightarrow> c \<noteq> 95" for c using c [of c] by (auto simp: is_digit_def)
  then have f: "filter (\<lambda>c. c \<noteq> 95) s = s" by (simp add: filter_id_conv)
  have under: "underscores_ok p s'" if "set s' \<subseteq> set s" "p \<noteq> 95" for p s'
    using that by (induction s' arbitrary: p) (auto dest: n95)
  have "hd s \<in> set s" using False by simp
  then have "split_sign s = (False, s)" using c [of "hd s"] False by (cases s) (auto simp: split_sign_def is_digit_def)
  moreover have low: "ascii_lower s = s"
  proof -
    have "c \<in> set s \<Longrightarrow> lower_cp c = c" for c using c [of c] by (auto simp: lower_cp_def is_upper_def is_digit_def)
    then show ?thesis by (simp add: ascii_lower_def map_idI)
  qed
  moreover have "s \<noteq> u ''inf''" "s \<noteq> u ''infinity''" "s \<noteq> u ''nan''"
    using c [of "hd s"] False by (auto simp: u_def is_digit_def)
  moreover have "underscores_ok 0 s" by (intro under) auto
  ultimately show ?thesis
    by (simp add: plain_float_def finite_float_def float_text_def m t f Let_def split: option.split)
qed

subsection \<open>The verdict\<close>

lemma record_trial_cases:
  assumes "run_reasons U (ta_exit_status args) output = Inr reasons"
  shows "reasons \<noteq> [] \<and> record_trial U args output = Inr (trial_of args reasons None) \<or>
    reasons = [] \<and> (\<exists>metrics. parse_metrics U output = Inr metrics \<and> record_trial U args output = Inr (trial_of args [] (Some metrics))) \<or>
    reasons = [] \<and> (\<exists>e reason. parse_metrics U output = Inl e \<and> record_trial U args output = Inr (trial_of args [reason] None))"
proof (cases "reasons = []")
  case True
  from parse_metrics_cases [of U "output"] show ?thesis
  proof (elim disjE exE conjE)
    fix e assume e: "parse_metrics U output = Inl e" "is_value_error e"
    then obtain template values_in where "e = ValueError template values_in" by (auto simp: is_value_error_def split: pyerr.splits)
    with e True assms show ?thesis by (auto simp: record_trial_def)
  qed (use True assms in \<open>simp add: record_trial_def\<close>)
qed (use assms in \<open>simp add: record_trial_def\<close>)

lemma run_reasons_total:
  assumes "decimals_ok U"
  shows "\<exists>reasons. run_reasons U status output = Inr reasons \<and> (reasons = [] \<longleftrightarrow> status = 0 \<and> invalid_reasons U output = Inr [])"
  using invalid_reasons_total [OF assms, of "output"] by (auto simp: run_reasons_def)

lemma record_trial_total: "decimals_ok U \<Longrightarrow> \<exists>t. record_trial U args output = Inr t"
  using run_reasons_total [of U "ta_exit_status args" "output"] record_trial_cases by blast

lemma trial_of_simps [simp]:
  "tr_valid (trial_of args reasons metrics) = (reasons = [])" "tr_failure_reasons (trial_of args reasons metrics) = reasons"
  "tr_metrics (trial_of args reasons metrics) = metrics"
  by (simp_all add: trial_of_def)

lemma trial_verdict:
  assumes "decimals_ok U"
  shows "\<exists>t. record_trial U args output = Inr t \<and>
    (tr_valid t \<longleftrightarrow> ta_exit_status args = 0 \<and> invalid_reasons U output = Inr [] \<and> (\<exists>metrics. parse_metrics U output = Inr metrics)) \<and>
    (tr_valid t \<longleftrightarrow> tr_failure_reasons t = []) \<and>
    (case tr_metrics t of None \<Rightarrow> \<not> tr_valid t
     | Some metrics \<Rightarrow> tr_valid t \<and> parse_metrics U output = Inr metrics \<and> dict_keys metrics = TRIAL_METRICS \<and>
         list_all (\<lambda>(_, v). amount v) metrics)"
proof -
  obtain reasons where r: "run_reasons U (ta_exit_status args) output = Inr reasons"
    "reasons = [] \<longleftrightarrow> ta_exit_status args = 0 \<and> invalid_reasons U output = Inr []"
    using run_reasons_total [OF assms] by blast
  from record_trial_cases [OF r(1)] r(2) show ?thesis by (fastforce dest: metrics_keys metrics_amounts)
qed

text \<open>C25. Every report is recorded, and the verdict is right: a trial is valid exactly when the load generator ended with status
  zero, validation found no failure and all five metrics could be read. A valid trial has no failure reason and
  holds just the five metrics of the report, each of them non-negative; an invalid one has reasons and no metrics.\<close>

theorem record_trial_verdict:
  assumes "decimals_ok U"
  shows "\<exists>t. record_trial U args output = Inr t \<and>
    (tr_valid t \<longleftrightarrow> ta_exit_status args = 0 \<and> invalid_reasons U output = Inr [] \<and> (\<exists>metrics. parse_metrics U output = Inr metrics)) \<and>
    (tr_valid t \<longleftrightarrow> tr_failure_reasons t = []) \<and>
    (case tr_metrics t of None \<Rightarrow> \<not> tr_valid t
     | Some metrics \<Rightarrow> tr_valid t \<and> parse_metrics U output = Inr metrics \<and> dict_keys metrics = TRIAL_METRICS \<and>
         list_all (\<lambda>(_, v). amount v) metrics)"
  by (rule trial_verdict [OF assms])

subsection \<open>The program\<close>

lemma record_dests [simp]:
  "dest (required_option ''--raw'' t) = u ''raw''" "dest (required_option ''--system'' t) = u ''system''"
  "dest (required_option ''--topology'' t) = u ''topology''" "dest (required_option ''--mode'' t) = u ''mode''"
  "dest (required_option ''--configuration'' t) = u ''configuration''" "dest (required_option ''--trial'' t) = u ''trial''"
  "dest (required_option ''--tool'' t) = u ''tool''" "dest (required_option ''--exit-status'' t) = u ''exit_status''"
  by code_simp+

lemma record_parser_wf: "wf_parser record_parser"
  by code_simp

lemma record_args_exist: "complete U record_parser ns \<Longrightarrow> record_args_of ns \<noteq> None"
proof -
  assume "complete U record_parser ns"
  then have h: "has_option U ns (required_option ''--raw'' File)" "has_option U ns (required_option ''--output'' File)"
    "has_option U ns (required_option ''--system'' Text)" "has_option U ns (required_option ''--topology'' Text)"
    "has_option U ns (required_option ''--mode'' Text)" "has_option U ns (required_option ''--configuration'' Text)"
    "has_option U ns (required_option ''--tool'' Text)" "has_option U ns (required_option ''--trial'' Whole)"
    "has_option U ns (required_option ''--exit-status'' Whole)"
    by (auto simp: complete_def record_parser_def)
  from has_path [OF h(1)] has_path [OF h(2)] has_text [OF h(3)] has_text [OF h(4)] has_text [OF h(5)] has_text [OF h(6)]
    has_text [OF h(7)] has_int [OF h(8)] has_int [OF h(9)]
  show ?thesis by (auto simp: record_args_of_def)
qed

text \<open>On every command line the recorder ends in one of three ways: the help or a usage error, with nothing
  written; the exception of reading the report; or one file, that of the output option, whose content is the JSON text
  of a trial with the fields of the command line. No report makes it fail.\<close>

theorem record_program_result:
  assumes "decimals_ok (i_unicode I)" and "record_program I read_report argv = Inr r"
  shows "\<exists>ns args. parse_args (i_unicode I) record_parser argv = Inr ns \<and> record_args_of ns = Some args \<and>
    (case read_report (ta_raw args) of
       Inl e \<Rightarrow> r = Inl e
     | Inr output \<Rightarrow> \<exists>t. record_trial (i_unicode I) args output = Inr t \<and>
         [tr_system t, tr_topology t, tr_mode t, tr_configuration t, tr_tool t, tr_raw_output t] =
           [ta_system args, ta_topology args, ta_mode args, ta_configuration args, ta_tool args, ta_raw args] \<and>
         tr_trial t = ta_trial args \<and>
         r = Inr (ta_output args, json_dump 0 (trial_value I t) @ [10]))"
proof -
  from assms(2) obtain ns where ns: "parse_args (i_unicode I) record_parser argv = Inr ns"
    by (auto simp: record_program_def bind_res_Inr_iff)
  from record_args_exist [OF parse_args_complete_lemma [OF record_parser_wf ns]] obtain args where a: "record_args_of ns = Some args" by blast
  with ns assms(2) have r: "r = record_main I read_report args" by (simp add: record_program_def)
  have fields: "\<exists>reasons metrics. t = trial_of args reasons metrics" if "record_trial (i_unicode I) args output = Inr t" for t "output"
    using that run_reasons_total [OF assms(1), of "ta_exit_status args" "output"] record_trial_cases [of "i_unicode I" args "output"] by fastforce
  show ?thesis
  proof (cases "read_report (ta_raw args)")
    case (Inr report)
    from record_trial_total [OF assms(1)] obtain t where t: "record_trial (i_unicode I) args report = Inr t" by blast
    with fields [OF t] Inr r ns a show ?thesis by (auto simp: record_main_def trial_of_def)
  qed (use r ns a in \<open>simp add: record_main_def\<close>)
qed

end
