(* ===== verification/SummaryTheorems.thy ===== *)
theory SummaryTheorems
  imports Deviation TrialTheorems
begin

section \<open>The summary is sound\<close>

text \<open>
  The figures of a metric: mean and median lie between the extremes, the deviation is accurate; and
  the aggregation: every trial is counted in exactly one row, and only the valid ones enter the figures.
\<close>

subsection \<open>The sample variance\<close>

definition sample_variance :: "rat list \<Rightarrow> rat" where
  "sample_variance qs = (let mean = sum_list qs / of_nat (length qs) in
     (\<Sum>q \<leftarrow> qs. (q - mean) * (q - mean)) / (of_nat (length qs) - 1))"

lemma sum_shifted: "(\<Sum>q \<leftarrow> qs. (q - c) * (q - c)) = (\<Sum>q \<leftarrow> qs. q * q) - 2 * c * sum_list qs + of_nat (length qs) * c * c" for c :: rat
  by (induction qs) (simp_all add: algebra_simps)

lemma exact_variance_sample: "qs \<noteq> [] \<Longrightarrow> exact_variance qs = sample_variance qs"
proof -
  assume "qs \<noteq> []"
  then have n: "(0 :: rat) < of_nat (length qs)" by simp
  define c where "c = sum_list qs / of_nat (length qs)"
  have s: "sum_list qs = of_nat (length qs) * c" using n by (simp add: c_def)
  have "(of_nat (length qs) * (\<Sum>q \<leftarrow> qs. q * q) - sum_list qs * sum_list qs) / of_nat (length qs) = (\<Sum>q \<leftarrow> qs. (q - c) * (q - c))"
    unfolding sum_shifted s using n by (simp add: field_simps)
  then show ?thesis unfolding exact_variance_def sample_variance_def Let_def c_def by (simp only:)
qed

lemma sample_variance_nonneg: "qs \<noteq> [] \<Longrightarrow> 0 \<le> sample_variance qs"
  by (cases qs) (auto simp: sample_variance_def Let_def intro!: divide_nonneg_nonneg sum_list_nonneg add_nonneg_nonneg)

lemma sum_squares_le:
  fixes M :: rat
  assumes "list_all (\<lambda>q. 0 \<le> q \<and> q \<le> M) qs" shows "(\<Sum>q \<leftarrow> qs. q * q) \<le> M * sum_list qs"
  using assms by (induction qs) (auto simp: distrib_left intro!: add_mono mult_right_mono)

lemma sample_variance_bound:
  assumes "list_all (\<lambda>q. 0 \<le> q \<and> q \<le> M) qs" "2 \<le> length qs" shows "sample_variance qs * 2 \<le> M * M"
proof -
  define n where "n = (of_nat (length qs) :: rat)"
  define s where "s = sum_list qs"
  have n: "2 \<le> n" using assms(2) unfolding n_def by (metis of_nat_le_iff of_nat_numeral)
  have "0 \<le> (s - n * M / 2) * (s - n * M / 2)" by simp
  then have "n * (M * s) - s * s \<le> n * n * (M * M) / 4" by (simp add: algebra_simps)
  moreover have "n * (\<Sum>q \<leftarrow> qs. q * q) \<le> n * (M * s)"
    using sum_squares_le [OF assms(1)] n by (intro mult_left_mono) (auto simp: s_def)
  ultimately have "(n * (\<Sum>q \<leftarrow> qs. q * q) - s * s) * 2 \<le> n * n * (M * M) / 2" by (simp add: algebra_simps)
  also have "\<dots> = M * M * (n * (n / 2))" by simp
  also have "\<dots> \<le> M * M * (n * (n - 1))" using n by (intro mult_left_mono) auto
  finally have le: "(n * (\<Sum>q \<leftarrow> qs. q * q) - s * s) * 2 \<le> M * M * (n * (n - 1))" .
  have "qs \<noteq> []" using assms(2) by auto
  then have "sample_variance qs = (n * (\<Sum>q \<leftarrow> qs. q * q) - s * s) / (n * (n - 1))"
    using exact_variance_sample [of qs] by (simp add: exact_variance_def Let_def n_def s_def)
  with le n show ?thesis by (simp add: pos_divide_le_eq)
qed

subsection \<open>The deviation\<close>

lemma finite_values_Fin [simp]: "finite_values (map Fin qs) = Some qs"
  by (induction qs) simp_all

lemma fraction_parts:
  assumes "quotient_of x = (n, m)" shows "x = of_int n / of_int m" "0 < m" "0 \<le> x \<Longrightarrow> 0 \<le> n"
  using quotient_of_div [OF assms] quotient_of_denom_pos [OF assms] by (auto simp: zero_le_divide_iff)

lemma stdev_accurate:
  assumes "2 \<le> length qs" "list_all (\<lambda>q. 0 \<le> q \<and> q \<le> float_limit) qs"
  shows "\<exists>s \<ge> 0. stdev_of (map Fin qs) = Inr s \<and> (sample_variance qs = 0 \<longrightarrow> s = 0) \<and>
    (1 \<le> sample_variance qs * normal_scale \<longrightarrow> \<bar>s * s - sample_variance qs\<bar> * 2 ^ 51 \<le> sample_variance qs)"
proof -
  have ne: "qs \<noteq> []" using assms(1) by auto
  obtain n m where q: "quotient_of (sample_variance qs) = (n, m)" by (cases "quotient_of (sample_variance qs)")
  from fraction_parts [OF q] sample_variance_nonneg [OF ne] have v: "sample_variance qs = of_int n / of_int m" "0 < m" "0 \<le> n" by auto
  have z: "sample_variance qs = 0 \<longleftrightarrow> n = 0" using v by auto
  have "stdev_of (map Fin qs) = float_sqrt_of_frac n m" by (simp add: stdev_of_def exact_variance_sample [OF ne] q)
  with float_sqrt_accurate [OF v(3,2)] sample_variance_bound [OF assms(2,1)] show ?thesis unfolding z unfolding v(1) by simp
qed

lemma root_of_nat: "n < 2 ^ 64 \<Longrightarrow> \<exists>root \<ge> 0. float_sqrt_of_frac (int n) 1 = Inr root"
proof -
  assume "n < 2 ^ 64"
  then have "(of_nat n :: rat) < of_nat (2 ^ 64)" by (simp only: of_nat_less_iff)
  then have "(of_int (int n) / of_int 1 * 2 :: rat) \<le> 2 ^ 65" by simp
  also have "\<dots> \<le> float_limit * float_limit" by (simp add: float_limit_def)
  finally show ?thesis using float_sqrt_accurate [of "int n" 1] by auto
qed

subsection \<open>Mean and median\<close>

lemma sum_between:
  fixes lo hi :: rat
  assumes "list_all (\<lambda>q. lo \<le> q \<and> q \<le> hi) qs"
  shows "of_nat (length qs) * lo \<le> sum_list qs \<and> sum_list qs \<le> of_nat (length qs) * hi"
  using assms by (induction qs) (auto simp: algebra_simps)

definition plain_double :: "rat \<Rightarrow> bool" where
  "plain_double q \<longleftrightarrow> 0 \<le> q \<and> 2 * q < float_limit \<and> double q = q"

lemma min_max_plain:
  assumes "list_all plain_double qs" "qs \<noteq> []"
  shows "plain_double (Min (set qs))" "plain_double (Max (set qs))" "list_all (\<lambda>q. Min (set qs) \<le> q \<and> q \<le> Max (set qs)) qs"
  using assms Min_in [of "set qs"] Max_in [of "set qs"] by (auto simp: list_all_iff)

lemma mean_between:
  assumes "list_all plain_double qs" "qs \<noteq> []"
  shows "\<exists>mean. mean_of (map Fin qs) = Inr (Fin mean) \<and> mean = double (sum_list qs / of_nat (length qs)) \<and>
    Min (set qs) \<le> mean \<and> mean \<le> Max (set qs)"
proof -
  note mm = min_max_plain [OF assms]
  define x where "x = sum_list qs / of_nat (length qs)"
  have len: "(0 :: rat) < of_nat (length qs)" using assms(2) by simp
  have x: "Min (set qs) \<le> x" "x \<le> Max (set qs)"
    using sum_between [OF mm(3)] len by (simp_all add: x_def pos_le_divide_eq pos_divide_le_eq mult.commute)
  have lo: "double (Min (set qs)) = Min (set qs)" "0 \<le> Min (set qs)" and hi: "double (Max (set qs)) = Max (set qs)" "2 * Max (set qs) < float_limit"
    using mm by (auto simp: plain_double_def)
  note between = double_between [OF lo(1) hi(1) lo(2) x]
  have x0: "0 \<le> x" using x lo by linarith
  obtain n m where q: "quotient_of x = (n, m)" by (cases "quotient_of x")
  from fraction_parts [OF q] x0 have v: "x = of_int n / of_int m" "0 < m" "0 \<le> n" by auto
  have "double x < float_limit" using between hi lo by linarith
  then have "float_of_fraction x = Inr (double x)"
    using true_div_rounded [OF v(3,2)] unfolding v(1) [symmetric] float_of_fraction_def q by (simp add: rounded_quotient_def)
  with between show ?thesis by (simp add: mean_of_def x_def)
qed

lemma sort_Fin: "sort (map Fin qs) = map Fin (sort qs)"
proof (rule properties_for_sort)
  show "mset (map Fin (sort qs)) = mset (map Fin qs)" by simp
  have "sorted (map Fin xs)" if "sorted xs" for xs using that by (induction xs) auto
  then show "sorted (map Fin (sort qs))" by simp
qed

lemma middle_between:
  assumes "plain_double a" "plain_double b" "a \<le> b"
  shows "\<exists>c. divided (float_sum (Fin a) (Fin b)) 2 = Fin c \<and> a \<le> c \<and> c \<le> b"
proof -
  have ab: "0 \<le> a" "double a = a" "double b = b" "2 * b < float_limit" using assms by (auto simp: plain_double_def)
  have s: "2 * a \<le> double (a + b)" "double (a + b) \<le> 2 * b"
    using double_between [OF double_twice [OF ab(2)] double_twice [OF ab(3)], of "a + b"] assms(3) ab(1) by auto
  then have h: "a \<le> double (double (a + b) / 2) \<and> double (double (a + b) / 2) \<le> b"
    using ab by (intro double_between) auto
  with s ab assms(3) show ?thesis by (simp add: float_sum_def divided_def finite_float_def)
qed

lemma median_between:
  assumes "list_all plain_double qs" "qs \<noteq> []"
  shows "\<exists>median. median_of (map Fin qs) = Fin median \<and> Min (set qs) \<le> median \<and> median \<le> Max (set qs)"
proof -
  let ?d = "sort qs" and ?n = "length qs"
  have at: "?d ! i \<in> set qs" if "i < ?n" for i using that by (metis length_sort nth_mem set_sort)
  have ends: "Min (set qs) \<le> q \<and> q \<le> Max (set qs) \<and> plain_double q" if "q \<in> set qs" for q
    using that assms(1) by (auto simp: list_all_iff)
  have n: "0 < ?n" using assms(2) by simp
  then have i: "?n div 2 < ?n" by (intro div_less_dividend) simp_all
  then have i': "?n div 2 - 1 < ?n" by linarith
  show ?thesis
  proof (cases "odd ?n")
    case True
    with ends [OF at [OF i]] i show ?thesis by (simp add: median_of_def sort_Fin Let_def)
  next
    case False
    have "?d ! (?n div 2 - 1) \<le> ?d ! (?n div 2)" using i by (intro sorted_nth_mono) auto
    from middle_between [OF _ _ this] ends [OF at [OF i]] ends [OF at [OF i']] obtain c where
      c: "divided (float_sum (Fin (?d ! (?n div 2 - 1))) (Fin (?d ! (?n div 2)))) 2 = Fin c"
      "?d ! (?n div 2 - 1) \<le> c" "c \<le> ?d ! (?n div 2)" by blast
    with False i i' ends [OF at [OF i]] ends [OF at [OF i']] show ?thesis by (simp add: median_of_def sort_Fin Let_def)
  qed
qed

lemma fold_min_Fin: "fold min (map Fin qs) (Fin q) = Fin (Min (set (q # qs)))"
  and fold_max_Fin: "fold max (map Fin qs) (Fin q) = Fin (Max (set (q # qs)))"
proof -
  have 1: "min (Fin a) (Fin b) = Fin (min a b)" "max (Fin a) (Fin b) = Fin (max a b)" for a b by (simp_all add: min_def max_def)
  have "fold min (map Fin qs) (Fin q) = Fin (fold min qs q)" "fold max (map Fin qs) (Fin q) = Fin (fold max qs q)"
    by (induction qs arbitrary: q) (simp_all add: 1)
  then show "fold min (map Fin qs) (Fin q) = Fin (Min (set (q # qs)))" "fold max (map Fin qs) (Fin q) = Fin (Max (set (q # qs)))"
    by (simp_all only: Min.set_eq_fold Max.set_eq_fold)
qed

subsection \<open>The figures of a metric\<close>

lemma statistics_cases:
  assumes "list_all plain_double qs" "qs \<noteq> []" "length qs < 2 ^ 64"
  shows "\<exists>mean s median ci95. statistics_for (map Fin qs) = Inr (Some \<lparr>fg_mean = Fin mean, fg_stdev = Fin s, fg_median = Fin median,
      fg_minimum = Fin (Min (set qs)), fg_maximum = Fin (Max (set qs)), fg_ci95 = ci95\<rparr>) \<and>
    mean = double (sum_list qs / of_nat (length qs)) \<and> Min (set qs) \<le> mean \<and> mean \<le> Max (set qs) \<and>
    Min (set qs) \<le> median \<and> median \<le> Max (set qs) \<and> 0 \<le> s \<and> (sample_variance qs = 0 \<longrightarrow> s = 0) \<and>
    (1 \<le> sample_variance qs * normal_scale \<longrightarrow> \<bar>s * s - sample_variance qs\<bar> * 2 ^ 51 \<le> sample_variance qs)"
proof -
  obtain q rest where qs: "qs = q # rest" using assms(2) by (cases qs) auto
  from mean_between [OF assms(1,2)] obtain mean where mean: "mean_of (map Fin qs) = Inr (Fin mean)"
    "mean = double (sum_list qs / of_nat (length qs))" "Min (set qs) \<le> mean" "mean \<le> Max (set qs)" by blast
  from median_between [OF assms(1,2)] obtain median where median: "median_of (map Fin qs) = Fin median"
    "Min (set qs) \<le> median" "median \<le> Max (set qs)" by blast
  have ends: "fold min (map Fin rest) (Fin q) = Fin (Min (set qs))" "fold max (map Fin rest) (Fin q) = Fin (Max (set qs))"
    unfolding qs by (rule fold_min_Fin fold_max_Fin)+
  have "list_all (\<lambda>q. 0 \<le> q \<and> q \<le> float_limit) qs" using assms(1) by (auto simp: list_all_iff plain_double_def)
  note stdev = stdev_accurate [OF _ this]
  show ?thesis
  proof (cases "rest = []")
    case True
    then have "sample_variance qs = 0" by (simp add: qs sample_variance_def)
    then show ?thesis using True mean median ends
      by (intro exI [of _ mean] exI [of _ 0] exI [of _ median] exI [of _ "Fin 0"]) (simp add: qs statistics_for_def)
  next
    case False
    then have two: "2 \<le> length qs" using qs by (cases rest) auto
    from stdev [OF two] obtain s where s: "0 \<le> s" "stdev_of (map Fin qs) = Inr s" "sample_variance qs = 0 \<longrightarrow> s = 0"
      "1 \<le> sample_variance qs * normal_scale \<longrightarrow> \<bar>s * s - sample_variance qs\<bar> * 2 ^ 51 \<le> sample_variance qs" by blast
    from root_of_nat [OF assms(3)] obtain root where "float_sqrt_of_frac (int (length qs)) 1 = Inr root" by blast
    then obtain ci95 where ci95: "confidence (length qs) s = Inr ci95" unfolding confidence_def by simp
    have "statistics_for (map Fin qs) = Inr (Some \<lparr>fg_mean = Fin mean, fg_stdev = Fin s, fg_median = Fin median,
        fg_minimum = Fin (Min (set qs)), fg_maximum = Fin (Max (set qs)), fg_ci95 = ci95\<rparr>)"
      using mean(1) median(1) ends s(2) ci95 False unfolding qs by (simp add: statistics_for_def)
    with mean median s show ?thesis by blast
  qed
qed

text \<open>C27. The figures of a metric are right: for non-negative doubles below half of the largest magnitude, in any number and
  order, \<open>statistics_for\<close> raises nothing; minimum and maximum are those of the values, the mean is the exact mean rounded
  once, mean and median lie between the extremes, and the deviation is accurate to the last two bits: its square differs
  from the sample variance by at most one part in \<open>2 ^ 51\<close>, unless the variance is too small to be normal.\<close>

theorem statistics_sound:
  assumes "list_all plain_double qs" and "qs \<noteq> []" and "length qs < 2 ^ 64"
  shows "\<exists>mean s median ci95. statistics_for (map Fin qs) = Inr (Some \<lparr>fg_mean = Fin mean, fg_stdev = Fin s, fg_median = Fin median,
      fg_minimum = Fin (Min (set qs)), fg_maximum = Fin (Max (set qs)), fg_ci95 = ci95\<rparr>) \<and>
    mean = double (sum_list qs / of_nat (length qs)) \<and> Min (set qs) \<le> mean \<and> mean \<le> Max (set qs) \<and>
    Min (set qs) \<le> median \<and> median \<le> Max (set qs) \<and> 0 \<le> s \<and>
    (if sample_variance qs * normal_scale < 1 then sample_variance qs \<noteq> 0 \<or> s = 0
     else \<bar>s * s - sample_variance qs\<bar> * 2 ^ 51 \<le> sample_variance qs)"
  using statistics_cases [OF assms] by (metis not_le)

subsection \<open>The groups\<close>

lemma no_members: "k \<notin> key_of ` set rs \<Longrightarrow> filter (\<lambda>r. key_of r = k) rs = []"
  by (induction rs) auto

lemma fold_group:
  "dict_get (fold group_trial rs []) k = (if k \<in> key_of ` set rs then Some (filter (\<lambda>r. key_of r = k) rs) else None) \<and>
   distinct (dict_keys (fold group_trial rs []))"
proof (induction rs arbitrary: k rule: rev_induct)
  case (snoc r rs)
  define d where "d = fold group_trial rs []"
  have "fold group_trial (rs @ [r]) [] = dict_set (key_of r) (get_default d (key_of r) [] @ [r]) d"
    by (simp add: group_trial_def d_def)
  moreover have "get_default d (key_of r) [] = filter (\<lambda>r'. key_of r' = key_of r) rs"
  proof (cases "key_of r \<in> key_of ` set rs")
    case False
    with snoc.IH [of "key_of r"] no_members [OF False] show ?thesis by (simp add: get_default_def d_def)
  qed (use snoc.IH [of "key_of r"] in \<open>simp add: get_default_def d_def\<close>)
  moreover note no_members [of k rs]
  ultimately show ?case using snoc.IH [of k] distinct_update [of d] by (auto simp: d_def)
qed simp

lemma groups_of:
  "sorted_wrt (<) (dict_keys (sort_key fst (fold group_trial rs [])))"
  "set (dict_keys (sort_key fst (fold group_trial rs []))) = key_of ` set rs"
  "item \<in> set (sort_key fst (fold group_trial rs [])) \<Longrightarrow> snd item = filter (\<lambda>r. key_of r = fst item) rs"
proof -
  let ?d = "fold group_trial rs []"
  have d: "distinct (dict_keys ?d)" using fold_group [of rs] by blast
  show "sorted_wrt (<) (dict_keys (sort_key fst ?d))" using d by (rule sort_key_strict)
  have "k \<in> set (dict_keys ?d) \<longleftrightarrow> k \<in> key_of ` set rs" for k
  proof -
    have "k \<in> set (dict_keys ?d) \<longleftrightarrow> dict_get ?d k \<noteq> None" by (simp add: map_of_eq_None_iff)
    with fold_group [of rs k] show ?thesis by simp
  qed
  then have "set (dict_keys ?d) = key_of ` set rs" by (rule set_eqI)
  then show "set (dict_keys (sort_key fst ?d)) = key_of ` set rs" by simp
  assume "item \<in> set (sort_key fst ?d)"
  then have "dict_get ?d (fst item) = Some (snd item)" using d by (simp add: map_of_is_SomeI)
  with fold_group [of rs "fst item"] show "snd item = filter (\<lambda>r. key_of r = fst item) rs" by (auto split: if_splits)
qed

subsection \<open>Aggregation\<close>

text \<open>A valid trial has the five metrics, which are plain doubles; what the recorder writes is of this kind unless a number is huge.\<close>

definition metric_value :: "ustr \<Rightarrow> trial \<Rightarrow> rat" where
  "metric_value name r = (case metric_of name r of Inr (Fin q) \<Rightarrow> q | _ \<Rightarrow> 0)"

definition plain_trial :: "trial \<Rightarrow> bool" where
  "plain_trial r \<longleftrightarrow> \<not> tr_valid r \<or>
     list_all (\<lambda>name. metric_of name r = Inr (Fin (metric_value name r)) \<and> plain_double (metric_value name r)) TRIAL_METRICS"

lemma recorded_plain:
  assumes "decimals_ok U" "record_trial U args output = Inr r"
    and "\<And>metrics. tr_metrics r = Some metrics \<Longrightarrow> list_all (\<lambda>(_, v). v < Fin (float_limit / 2)) metrics"
  shows "plain_trial r"
proof (cases "tr_metrics r")
  case None
  with trial_verdict [OF assms(1), of args "output"] assms(2) have "\<not> tr_valid r" by auto
  then show ?thesis by (simp add: plain_trial_def)
next
  case (Some metrics)
  with trial_verdict [OF assms(1), of args "output"] assms(2) have k: "dict_keys metrics = TRIAL_METRICS" "list_all (\<lambda>(_, v). amount v) metrics"
    by auto
  have "metric_of name r = Inr (Fin (metric_value name r)) \<and> plain_double (metric_value name r)" if "name \<in> set TRIAL_METRICS" for name
  proof -
    from that k(1) obtain v where v: "dict_get metrics name = Some v" by (metis domIff dom_map_of_conv_image_fst list.set_map option.exhaust)
    then have "(name, v) \<in> set metrics" by (rule map_of_SomeD)
    with k(2) assms(3) [OF Some] have "amount v" "v < Fin (float_limit / 2)" by (auto simp: list_all_iff)
    then obtain q where "v = Fin q" "plain_double q" by (cases v) (auto simp: less_pyfloat_def amount_def plain_double_def)
    with v Some show ?thesis by (simp add: metric_value_def metric_of_def)
  qed
  then show ?thesis by (simp add: plain_trial_def list_all_iff)
qed

text \<open>What a row must say of the trials of its key: their number by validity, their raw results and, for every metric, the statistics of the valid ones.\<close>

definition row_sound :: "trial list \<Rightarrow> summary_row \<Rightarrow> bool" where
  "row_sound rs row \<longleftrightarrow> (let members = filter (\<lambda>r. key_of r = row_key row) rs; valid = filter tr_valid members in
     row_valid_count row = length valid \<and> row_failed_count row = length (filter (\<lambda>r. \<not> tr_valid r) members) \<and>
     row_raw_results row = map tr_raw_output members \<and> dict_keys (row_metrics row) = TRIAL_METRICS \<and>
     list_all (\<lambda>(name, figures). statistics_for (map (Fin \<circ> metric_value name) valid) = Inr figures) (row_metrics row))"

lemma metric_figures_plain:
  assumes "list_all plain_trial valid" "list_all tr_valid valid" "name \<in> set TRIAL_METRICS" "length valid < 2 ^ 64"
  shows "\<exists>figures. metric_figures valid name = Inr (name, figures) \<and> statistics_for (map (Fin \<circ> metric_value name) valid) = Inr figures"
proof -
  let ?qs = "map (metric_value name) valid"
  have m: "metric_of name r = Inr (Fin (metric_value name r))" "plain_double (metric_value name r)" if "r \<in> set valid" for r
    using that assms(1-3) by (auto simp: list_all_iff plain_trial_def)
  have "map_res (metric_of name) valid = Inr (map (Fin \<circ> metric_value name) valid)"
    using map_res_total [of valid "metric_of name" "Fin \<circ> metric_value name"] m(1) by simp
  moreover have "\<exists>figures. statistics_for (map Fin ?qs) = Inr figures"
  proof (cases "valid = []")
    case True
    then show ?thesis by (simp add: statistics_for_def)
  next
    case False
    from statistics_cases [of ?qs] m(2) False assms(4) show ?thesis by (fastforce simp: list_all_iff)
  qed
  ultimately show ?thesis by (auto simp: metric_figures_def)
qed

lemma row_of_plain:
  assumes "list_all plain_trial rs" "length rs < 2 ^ 64" "members = filter (\<lambda>r. key_of r = key) rs"
  shows "\<exists>row. row_of (key, members) = Inr row \<and> row_key row = key \<and> row_sound rs row"
proof -
  let ?valid = "filter tr_valid members"
  have p: "list_all plain_trial ?valid" "list_all tr_valid ?valid" using assms(1) by (auto simp: list_all_iff assms(3))
  have "length ?valid \<le> length rs" unfolding assms(3) by (rule order_trans [OF length_filter_le length_filter_le])
  then have len: "length ?valid < 2 ^ 64" using assms(2) by simp
  define figs where "figs name = (case statistics_for (map (Fin \<circ> metric_value name) ?valid) of Inr figures \<Rightarrow> figures | _ \<Rightarrow> None)" for name
  have f: "metric_figures ?valid name = Inr (name, figs name)"
    "statistics_for (map (Fin \<circ> metric_value name) ?valid) = Inr (figs name)" if "name \<in> set TRIAL_METRICS" for name
    using metric_figures_plain [OF p that len] by (auto simp: figs_def)
  have "map_res (metric_figures ?valid) TRIAL_METRICS = Inr (map (\<lambda>name. (name, figs name)) TRIAL_METRICS)"
    by (intro map_res_total f(1))
  moreover have "length members - length ?valid = length (filter (\<lambda>r. \<not> tr_valid r) members)"
    using sum_length_filter_compl [of tr_valid members] by simp
  moreover have "dict_keys (map (\<lambda>name. (name, figs name)) TRIAL_METRICS) = TRIAL_METRICS" by (simp add: o_def)
  moreover have "list_all (\<lambda>(name, figures). statistics_for (map (Fin \<circ> metric_value name) ?valid) = Inr figures)
      (map (\<lambda>name. (name, figs name)) TRIAL_METRICS)" using f(2) by (auto simp: list_all_iff)
  ultimately show ?thesis unfolding row_sound_def row_of_def Let_def by (simp add: assms(3) del: map_map list.pred_map)
qed

lemma row_sound_count: "row_sound rs row \<Longrightarrow>
    row_valid_count row + row_failed_count row = length (filter (\<lambda>r. key_of r = row_key row) rs)"
  using sum_length_filter_compl [of tr_valid "filter (\<lambda>r. key_of r = row_key row) rs"]
  by (simp add: row_sound_def Let_def del: filter_filter)

lemma map_res_exists:
  assumes "\<And>x. x \<in> set xs \<Longrightarrow> \<exists>y. f x = Inr y \<and> P x y" shows "\<exists>ys. map_res f xs = Inr ys \<and> list_all2 P xs ys"
  using assms by (induction xs) fastforce+

text \<open>C26. The aggregation loses nothing and mixes nothing: trials with plain metrics, in any order, give a summary; its rows are
  strictly sorted by mode, configuration, system and topology, one for each combination that occurs, and each row has the
  numbers of valid and of failed trials of its combination, all their raw results in order, and for each of the five
  metrics the statistics of the valid trials alone. The counts of all rows add up to the number of trials.\<close>

theorem aggregate_sound:
  assumes "list_all plain_trial rs" and "length rs < 2 ^ 64"
  shows "\<exists>rows. aggregate rs = Inr rows \<and> sorted_wrt (<) (map row_key rows) \<and> set (map row_key rows) = key_of ` set rs \<and>
    list_all (row_sound rs) rows \<and> (\<Sum>row \<leftarrow> rows. row_valid_count row + row_failed_count row) = length rs"
proof -
  let ?groups = "sort_key fst (fold group_trial rs [])"
  have "\<exists>row. row_of item = Inr row \<and> row_key row = fst item \<and> row_sound rs row" if "item \<in> set ?groups" for item
    using row_of_plain [OF assms groups_of(3) [OF that]] by (cases item) auto
  from map_res_exists [of ?groups row_of "\<lambda>item row. row_key row = fst item \<and> row_sound rs row", OF this] obtain rows where rows: "aggregate rs = Inr rows"
    "list_all2 (\<lambda>item row. row_key row = fst item \<and> row_sound rs row) ?groups rows" unfolding aggregate_def by blast
  then have keys: "map row_key rows = dict_keys ?groups" and sound: "list_all (row_sound rs) rows"
    by (auto simp: list_all2_conv_all_nth list_all_length intro!: nth_equalityI)
  have "(\<Sum>row \<leftarrow> rows. row_valid_count row + row_failed_count row) =
      (\<Sum>row \<leftarrow> rows. length (filter (\<lambda>r. key_of r = row_key row) rs))"
    using sound by (intro arg_cong [of _ _ sum_list] map_cong) (auto simp: list_all_iff row_sound_count)
  also have "\<dots> = (\<Sum>k \<leftarrow> map row_key rows. length (filter (\<lambda>r. key_of r = k) rs))" by (simp add: o_def)
  also have "\<dots> = length rs"
  proof -
    have dist: "distinct (map row_key rows)" unfolding keys using groups_of(1) by (simp add: strict_sorted_iff)
    have "(\<Sum>k \<leftarrow> ks. length (filter (\<lambda>r. key_of r = k) xs)) = length xs" if "distinct ks" "key_of ` set xs \<subseteq> set ks" for ks xs
      using that(2)
    proof (induction xs)
      case (Cons x xs)
      have "(\<Sum>k \<leftarrow> ks. if key_of x = k then 1 else 0 :: nat) = (if key_of x \<in> set ks then 1 else 0)"
        using that(1) by (induction ks) auto
      then have "(\<Sum>k \<leftarrow> ks. if key_of x = k then 1 else 0 :: nat) = 1" using Cons.prems by simp
      moreover have "(\<Sum>k \<leftarrow> ks. length (filter (\<lambda>r. key_of r = k) (x # xs))) =
          (\<Sum>k \<leftarrow> ks. if key_of x = k then 1 else 0) + (\<Sum>k \<leftarrow> ks. length (filter (\<lambda>r. key_of r = k) xs))"
        unfolding sum_list_addf [symmetric] by (intro arg_cong [of _ _ sum_list] map_cong) auto
      ultimately show ?case using Cons by simp
    qed simp
    with dist groups_of(2) [of rs] show ?thesis unfolding keys [symmetric] by blast
  qed
  finally show ?thesis using rows(1) sound groups_of(1,2) [of rs] unfolding keys [symmetric] by blast
qed

end
