(* ===== verification/FixedRate.thy ===== *)
theory FixedRate
  imports TrialSummary
begin

section \<open>Trials at a fixed rate\<close>

text \<open>
  The second source of trials: the summary that the latency client writes (\<open>summarize_requests\<close> of
  benchmarks/python_latency/latency.py, with its \<open>percentile\<close> and \<open>mean\<close>, and the largest delay that client.py adds) and the
  record that aggregate_results.py makes of it (\<open>fixed_rate_record\<close>). Of the summary only the fields this record
  reads are modelled; \<open>json\<close> keeps them as they are. Latencies are finite and not negative.
\<close>

subsection \<open>The summary of the client\<close>

record request_result =
  rr_requested_rate :: rat
  rr_busy_when_scheduled :: bool
  rr_response_complete_ns :: "int option"
  rr_actual_latency_us :: "rat option"
  rr_scheduling_delay_us :: rat
  rr_http_status :: "int option"
  rr_error_type :: "ustr option"

definition item_at :: "rat list \<Rightarrow> int \<Rightarrow> rat res" where
  "item_at data i = (if 0 \<le> i \<and> i < int (length data) then Inr (data ! nat i) else Inl IndexErr)"

definition percentile :: "rat list \<Rightarrow> int \<Rightarrow> rat option res" where
  "percentile values_in quantile = (let data = sort values_in in
     if data = [] then Inr None
     else bind_res (ensure (0 \<le> quantile \<and> quantile \<le> 100) (ValueError ''quantile must be between 0 and 100'' [])) (\<lambda>_.
       bind_res (true_div ((int (length data) - 1) * quantile) 100) (\<lambda>position. let lower = \<lfloor>position\<rfloor>; upper = \<lceil>position\<rceil> in
       bind_res (item_at data lower) (\<lambda>a.
       if lower = upper then Inr (Some a)
       else bind_res (item_at data upper) (\<lambda>b.
         Inr (Some (double (a + double (double (b - a) * double (position - of_int lower))))))))))"

definition mean_float :: "interp \<Rightarrow> rat list \<Rightarrow> pyfloat option" where
  "mean_float I data = (if data = [] then None else Some (divided (py_sum I data) (of_nat (length data))))"

record run_summary =
  rs_system :: ustr
  rs_requested_rps :: "rat option"
  rs_achieved_rps :: pyfloat
  rs_scheduled_requests :: nat
  rs_completed_requests :: nat
  rs_latency_mean :: "pyfloat option"
  rs_latency_p50 :: "rat option"
  rs_latency_p95 :: "rat option"
  rs_latency_p99 :: "rat option"
  rs_while_worker_busy :: nat
  rs_http_errors :: nat
  rs_connection_errors :: nat
  rs_timeout_errors :: nat
  rs_other_errors :: nat
  rs_max_scheduling_error_us :: "rat option"

definition completed_request :: "request_result \<Rightarrow> bool" where
  "completed_request row \<longleftrightarrow> rr_response_complete_ns row \<noteq> None \<and> rr_error_type row = None"

definition count_where :: "('a \<Rightarrow> bool) \<Rightarrow> 'a list \<Rightarrow> nat" where
  "count_where P xs = length (filter P xs)"

definition summarize_requests :: "interp \<Rightarrow> ustr \<Rightarrow> rat \<Rightarrow> request_result list \<Rightarrow> run_summary res" where
  "summarize_requests I system duration results = (let completed = filter completed_request results;
       latencies = map the (filter (\<lambda>v. v \<noteq> None) (map rr_actual_latency_us completed)) in
     bind_res (ensure (duration \<noteq> 0) ZeroDivisionErr) (\<lambda>_.
     bind_res (map_res (percentile latencies) [50, 95, 99]) (\<lambda>ps.
     Inr \<lparr>rs_system = system, rs_requested_rps = (case results of [] \<Rightarrow> None | r # _ \<Rightarrow> Some (rr_requested_rate r)),
       rs_achieved_rps = finite_float (of_nat (length completed) / duration),
       rs_scheduled_requests = length results, rs_completed_requests = length completed,
       rs_latency_mean = mean_float I latencies, rs_latency_p50 = ps ! 0, rs_latency_p95 = ps ! 1, rs_latency_p99 = ps ! 2,
       rs_while_worker_busy = count_where rr_busy_when_scheduled results,
       rs_http_errors = count_where (\<lambda>r. case rr_http_status r of None \<Rightarrow> False | Some status \<Rightarrow> 400 \<le> status) results,
       rs_connection_errors = count_where (\<lambda>r. rr_error_type r = Some (u ''connection'')) results,
       rs_timeout_errors = count_where (\<lambda>r. rr_error_type r = Some (u ''timeout'')) results,
       rs_other_errors = count_where (\<lambda>r. rr_error_type r = Some (u ''other'')) results,
       rs_max_scheduling_error_us = (case map (\<lambda>r. \<bar>rr_scheduling_delay_us r\<bar>) results of [] \<Rightarrow> None | d # ds \<Rightarrow> Some (fold max ds d))\<rparr>)))"

subsection \<open>The record of the trial\<close>

definition float_of :: "'a option \<Rightarrow> 'a res" where
  "float_of v = (case v of None \<Rightarrow> Inl (TypeErr ''float() argument must be a string or a real number'') | Some x \<Rightarrow> Inr x)"

definition bad_path :: "ustr list \<Rightarrow> pyerr" where
  "bad_path parts = ValueError ''unexpected fixed-rate summary path: {}'' [join [47] parts]"

definition request_errors :: "run_summary \<Rightarrow> nat" where
  "request_errors s = sum_list [rs_http_errors s, rs_connection_errors s, rs_timeout_errors s, rs_other_errors s]"

definition fixed_rate_reasons :: "run_summary \<Rightarrow> pyfloat \<Rightarrow> rat \<Rightarrow> ustr list" where
  "fixed_rate_reasons s interval delay =
     (if request_errors s \<noteq> 0 then [u ''request errors='' @ show_nat (request_errors s)] else []) @
     (if rs_completed_requests s \<noteq> rs_scheduled_requests s then [u ''incomplete requests''] else []) @
     (if rs_while_worker_busy s \<noteq> 0 then [u ''client worker backlog''] else []) @
     (if interval < Fin delay then [u ''dispatch delay exceeded one target interval''] else [])"

definition fixed_rate_interval :: "run_summary \<Rightarrow> pyfloat res" where
  "fixed_rate_interval s = bind_res (float_of (rs_requested_rps s)) (\<lambda>rps.
     bind_res (ensure (rps \<noteq> 0) ZeroDivisionErr) (\<lambda>_. Inr (finite_float (1000000 / rps))))"

definition fixed_rate_metrics :: "run_summary \<Rightarrow> (ustr, pyfloat) dict res" where
  "fixed_rate_metrics s = bind_res (float_of (rs_latency_mean s)) (\<lambda>mean.
     bind_res (map_res float_of [rs_latency_p50 s, rs_latency_p95 s, rs_latency_p99 s]) (\<lambda>ps.
     Inr (zip TRIAL_METRICS (rs_achieved_rps s # mean # map Fin ps))))"

text \<open>The path relative to the directory of the raw results, as its parts, and the path of the requests beside it.\<close>

definition fixed_rate_record :: "unidb \<Rightarrow> ustr list \<Rightarrow> ustr \<Rightarrow> run_summary \<Rightarrow> trial res" where
  "fixed_rate_record U parts requests_path s = (case parts of
     mode # configuration # trial_dir # system # _ # _ \<Rightarrow>
       bind_res (ensure (mode = u ''fixed-rate'' \<and> starts_with trial_dir (u ''trial-'')) (bad_path parts)) (\<lambda>_.
       bind_res (fixed_rate_interval s) (\<lambda>interval.
       bind_res (float_of (rs_max_scheduling_error_us s)) (\<lambda>delay.
       let reasons = fixed_rate_reasons s interval delay in
       bind_res (count_of U (drop 6 trial_dir)) (\<lambda>number.
       bind_res (fixed_rate_metrics s) (\<lambda>metrics.
       Inr \<lparr>tr_system = rs_system s,
         tr_topology = (if system \<in> set (map u [''envoy-only'', ''vsr'', ''extproc-student'']) then u ''docker-bridge'' else u ''host-veth''),
         tr_mode = mode, tr_configuration = configuration, tr_trial = number, tr_tool = u ''python fixed-rate client'',
         tr_raw_output = requests_path, tr_valid = (reasons = []), tr_failure_reasons = reasons, tr_metrics = Some metrics\<rparr>)))))
   | _ \<Rightarrow> Inl (bad_path parts))"

end
