(* ===== verification/FixedRateTheorems.thy ===== *)
theory FixedRateTheorems
  imports FixedRate TrialTheorems
begin

section \<open>A run that completes nothing stops the summary\<close>

text \<open>
  The client writes a summary of every run, and percentiles never fail. A run of which some request
  completed becomes a trial with its five metrics, valid or not. A run of which none completed has no latency,
  and then the record is not made: \<open>float(None)\<close> raises, instead of the trial being counted as failed.
\<close>

lemma item_at_total: "0 \<le> i \<Longrightarrow> i \<le> int (length data) - 1 \<Longrightarrow> data \<noteq> [] \<Longrightarrow> \<exists>v. item_at data i = Inr v"
  by (simp add: item_at_def)

lemma percentile_total:
  assumes "length vs \<le> 2 ^ 53" "0 \<le> q" "q \<le> 100"
  shows "\<exists>p. percentile vs q = Inr p \<and> (p = None \<longleftrightarrow> vs = [])"
proof (cases "vs = []")
  case True
  then show ?thesis by (simp add: percentile_def Let_def)
next
  case False
  define n where "n = int (length vs) - 1"
  define x where "x = (of_int (n * q) / of_int 100 :: rat)"
  have n: "0 \<le> n" "n \<le> 2 ^ 53" using False assms(1) by (cases vs; simp add: n_def)+
  have "n * q \<le> n * 100" using n(1) assms(3) by (rule mult_left_mono [rotated])
  then have nq: "0 \<le> n * q" "n * q \<le> n * 100" using n(1) assms(2) by simp_all
  then have "(of_int (n * q) :: rat) \<le> of_int (n * 100)" by (simp only: of_int_le_iff)
  moreover have "(0 :: rat) \<le> of_int (n * q)" using nq(1) by (simp only: of_int_0_le_iff)
  ultimately have x: "0 \<le> x" "x \<le> of_int n" by (simp_all add: x_def pos_divide_le_eq)
  have "(of_int n :: rat) = of_nat (nat n)" "nat n \<le> 2 ^ 53" using n by (simp_all add: nat_le_iff)
  then have "double (of_int n) = of_int n" using double_exact [OF is_double_nat] by metis
  with x have d: "0 \<le> double x" "double x \<le> of_int n" using double_between [of 0 "of_int n" x] by simp_all
  have "n * q < 2 ^ 1023"
  proof -
    have "n * q \<le> 2 ^ 53 * 100" using nq(2) n(2) by simp
    also have "(2 ^ 53 * 100 :: int) < 2 ^ 1023" by simp
    finally show ?thesis .
  qed
  then have p: "true_div (n * q) 100 = Inr (double x)" unfolding x_def using nq(1) by (intro true_div_small) auto
  have len: "int (length (sort vs)) - 1 = n" "sort vs \<noteq> []" using False by (simp_all add: n_def) (metis length_0_conv length_sort)
  have "0 \<le> \<lfloor>double x\<rfloor>" "\<lfloor>double x\<rfloor> \<le> n" "0 \<le> \<lceil>double x\<rceil>" "\<lceil>double x\<rceil> \<le> n"
    using d floor_mono [OF d(2)] by (simp_all add: ceiling_le_iff) 
  then obtain a b where "item_at (sort vs) \<lfloor>double x\<rfloor> = Inr a" "item_at (sort vs) \<lceil>double x\<rceil> = Inr b"
    using item_at_total [of _ "sort vs"] len by metis
  with False len p assms(2,3) show ?thesis by (simp add: percentile_def Let_def)
qed

lemma percentiles_total:
  assumes "length vs \<le> 2 ^ 53"
  shows "\<exists>p50 p95 p99. map_res (percentile vs) [50, 95, 99] = Inr [p50, p95, p99] \<and> list_all (\<lambda>p. p = None \<longleftrightarrow> vs = []) [p50, p95, p99]"
  using percentile_total [OF assms, of 50] percentile_total [OF assms, of 95] percentile_total [OF assms, of 99] by auto

definition latencies_of :: "request_result list \<Rightarrow> rat list" where
  "latencies_of results = map the (filter (\<lambda>v. v \<noteq> None) (map rr_actual_latency_us (filter completed_request results)))"

lemma latencies_length: "length (latencies_of results) \<le> length results"
  unfolding latencies_of_def by (simp add: order_trans [OF length_filter_le length_filter_le] filter_map)

lemma run_summary_exists:
  assumes "length results \<le> 2 ^ 53" "duration \<noteq> 0"
  shows "\<exists>s. summarize_requests I system duration results = Inr s \<and>
    rs_requested_rps s = (case results of [] \<Rightarrow> None | r # _ \<Rightarrow> Some (rr_requested_rate r)) \<and>
    (rs_max_scheduling_error_us s = None \<longleftrightarrow> results = []) \<and> rs_latency_mean s = mean_float I (latencies_of results) \<and>
    list_all (\<lambda>p. p = None \<longleftrightarrow> latencies_of results = []) [rs_latency_p50 s, rs_latency_p95 s, rs_latency_p99 s]"
proof -
  have "length (latencies_of results) \<le> 2 ^ 53" using latencies_length [of results] assms(1) by (rule order_trans)
  from percentiles_total [OF this] obtain p50 p95 p99 where
    p: "map_res (percentile (latencies_of results)) [50, 95, 99] = Inr [p50, p95, p99]"
      "list_all (\<lambda>p. p = None \<longleftrightarrow> latencies_of results = []) [p50, p95, p99]" by blast
  with assms(2) show ?thesis
    unfolding summarize_requests_def Let_def latencies_of_def [symmetric]
    by (auto simp del: map_res.simps split: list.split)
qed

lemma latencies_exist:
  assumes "list_all (\<lambda>r. \<not> completed_request r \<or> rr_actual_latency_us r \<noteq> None) results"
  shows "latencies_of results = [] \<longleftrightarrow> \<not> list_ex completed_request results"
  using assms by (auto simp: latencies_of_def filter_empty_conv list_all_iff list_ex_iff)

text \<open>C28. A fixed-rate run becomes a trial only if one of its requests completed: the client summarizes every run with at least one
  request, and the record that is made of the summary has the five metrics, its failure reasons and its verdict; but when
  no request completed there is no latency, and the aggregation ends with a TypeError where it should count a failed trial.\<close>

theorem fixed_rate_recorded:
  assumes "results \<noteq> []" and "length results \<le> 2 ^ 53" and "duration \<noteq> 0"
    and "list_all (\<lambda>r. rr_requested_rate r \<noteq> 0 \<and> (\<not> completed_request r \<or> rr_actual_latency_us r \<noteq> None)) results"
    and "parts = [u ''fixed-rate'', configuration, u ''trial-'' @ number, directory] @ rest" and "rest \<noteq> []" and "int_text U number = Some k"
  shows "\<exists>s. summarize_requests I system duration results = Inr s \<and>
    (if list_ex completed_request results
     then \<exists>t metrics. fixed_rate_record U parts path s = Inr t \<and> tr_metrics t = Some metrics \<and> dict_keys metrics = TRIAL_METRICS \<and>
       tr_trial t = k \<and> (tr_valid t \<longleftrightarrow> tr_failure_reasons t = [])
     else fixed_rate_record U parts path s = Inl (TypeErr ''float() argument must be a string or a real number''))"
proof -
  from run_summary_exists [OF assms(2,3), of I system] obtain s where s: "summarize_requests I system duration results = Inr s"
    "rs_requested_rps s = (case results of [] \<Rightarrow> None | r # _ \<Rightarrow> Some (rr_requested_rate r))"
    "rs_max_scheduling_error_us s = None \<longleftrightarrow> results = []" "rs_latency_mean s = mean_float I (latencies_of results)"
    "list_all (\<lambda>p. p = None \<longleftrightarrow> latencies_of results = []) [rs_latency_p50 s, rs_latency_p95 s, rs_latency_p99 s]"
    by (elim exE conjE) (rule that)
  have l: "latencies_of results = [] \<longleftrightarrow> \<not> list_ex completed_request results"
    using assms(4) by (intro latencies_exist) (auto simp: list_all_iff)
  obtain interval where i: "fixed_rate_interval s = Inr interval"
  proof -
    from assms(1) obtain r0 rs0 where r0: "results = r0 # rs0" by (cases results) auto
    with assms(4) have "rr_requested_rate r0 \<noteq> 0" by simp
    with s(2) that show ?thesis by (simp add: r0 fixed_rate_interval_def float_of_def)
  qed
  obtain delay where d: "rs_max_scheduling_error_us s = Some delay" using s(3) assms(1) by auto
  have count: "count_of U number = Inr k" by (simp add: count_of_def assms(7))
  have start: "starts_with (u ''trial-'' @ number) (u ''trial-'')" "drop 6 (u ''trial-'' @ number) = number" by (simp_all add: starts_with_def)
  obtain r rs where rest: "rest = r # rs" using assms(6) by (cases rest) auto
  have recorded: "fixed_rate_record U parts path s = bind_res (fixed_rate_metrics s) (\<lambda>metrics.
      Inr \<lparr>tr_system = rs_system s,
         tr_topology = (if directory \<in> set (map u [''envoy-only'', ''vsr'', ''extproc-student'']) then u ''docker-bridge'' else u ''host-veth''),
         tr_mode = u ''fixed-rate'', tr_configuration = configuration, tr_trial = k, tr_tool = u ''python fixed-rate client'',
         tr_raw_output = path, tr_valid = (fixed_rate_reasons s interval delay = []),
         tr_failure_reasons = fixed_rate_reasons s interval delay, tr_metrics = Some metrics\<rparr>)"
    unfolding assms(5) rest fixed_rate_record_def by (simp add: start count i d float_of_def Let_def)
  show ?thesis
  proof (cases "list_ex completed_request results")
    case True
    with l s(4,5) obtain mean p50 p95 p99 where "rs_latency_mean s = Some mean" "rs_latency_p50 s = Some p50" "rs_latency_p95 s = Some p95"
      "rs_latency_p99 s = Some p99" by (auto simp: mean_float_def)
    then have "\<exists>metrics. fixed_rate_metrics s = Inr metrics \<and> dict_keys metrics = TRIAL_METRICS"
      by (simp add: fixed_rate_metrics_def float_of_def map_fst_zip length_metrics)
    with True s(1) recorded show ?thesis by auto
  next
    case False
    with l s(4) have "fixed_rate_metrics s = Inl (TypeErr ''float() argument must be a string or a real number'')"
      by (simp add: fixed_rate_metrics_def float_of_def mean_float_def)
    with False s(1) recorded show ?thesis by simp
  qed
qed

end
