(* ===== verification/TrialWriters.thy ===== *)
theory TrialWriters
  imports SummaryTheorems FixedRateTheorems
begin

section \<open>What the aggregation relies on\<close>

text \<open>
  The aggregation indexes the metrics of a valid trial by name. The contract with the programs that
  write trials is a locale: a valid trial has just the five metrics. Under it no index fails, and the only
  exceptions left are those of the arithmetic. The recorder and the fixed-rate trials are its interpretations.
\<close>

definition is_key_error :: "pyerr \<Rightarrow> bool" where
  "is_key_error e = (case e of KeyErr _ \<Rightarrow> True | _ \<Rightarrow> False)"

lemma true_div_key: "true_div a b = Inl e \<Longrightarrow> \<not> is_key_error e"
  by (auto simp: true_div_def is_key_error_def Let_def split: if_splits)

lemma sqrt_key: "float_sqrt_of_frac n m = Inl e \<Longrightarrow> \<not> is_key_error e"
  by (auto simp: float_sqrt_of_frac_def Let_def dest: true_div_key split: if_splits)

lemma stdev_key: "stdev_of vs = Inl e \<Longrightarrow> \<not> is_key_error e"
  by (auto simp: stdev_of_def is_key_error_def [of "AttributeErr _"] dest: sqrt_key split: option.splits prod.splits)

lemma mean_key: "mean_of vs = Inl e \<Longrightarrow> \<not> is_key_error e"
  by (auto simp: mean_of_def float_of_fraction_def bind_res_Inl_iff dest: true_div_key split: option.splits prod.splits)

lemma confidence_key: "confidence n s = Inl e \<Longrightarrow> \<not> is_key_error e"
  by (auto simp: confidence_def bind_res_Inl_iff dest: sqrt_key)

lemma statistics_key: "statistics_for vs = Inl e \<Longrightarrow> \<not> is_key_error e"
  by (auto simp: statistics_for_def bind_res_Inl_iff dest: stdev_key mean_key confidence_key split: list.splits if_splits)

locale trial_writer =
  fixes writes :: "trial \<Rightarrow> bool"
  assumes complete_metrics: "writes r \<Longrightarrow> tr_valid r \<Longrightarrow> \<exists>metrics. tr_metrics r = Some metrics \<and> dict_keys metrics = TRIAL_METRICS"
begin

lemma metric_found: "writes r \<Longrightarrow> tr_valid r \<Longrightarrow> name \<in> set TRIAL_METRICS \<Longrightarrow> \<exists>v. metric_of name r = Inr v"
proof -
  assume "writes r" "tr_valid r" and name: "name \<in> set TRIAL_METRICS"
  from complete_metrics [OF this(1,2)] obtain metrics where m: "tr_metrics r = Some metrics" "dict_keys metrics = TRIAL_METRICS" by blast
  with name obtain v where "dict_get metrics name = Some v" by (metis domIff dom_map_of_conv_image_fst list.set_map option.exhaust)
  with m show ?thesis by (simp add: metric_of_def)
qed

lemma metric_figures_key:
  assumes "list_all writes rs" "list_all tr_valid rs" "name \<in> set TRIAL_METRICS" "metric_figures rs name = Inl e"
  shows "\<not> is_key_error e"
proof -
  have "\<exists>vs. map_res (metric_of name) rs = Inr vs"
    using assms(1,2) by (induction rs) (auto dest: metric_found [OF _ _ assms(3)])
  with assms(4) show ?thesis by (auto simp: metric_figures_def bind_res_Inl_iff dest: statistics_key)
qed

lemma aggregate_key:
  assumes "list_all writes rs" "aggregate rs = Inl e" shows "\<not> is_key_error e"
proof -
  from map_res_error [OF assms(2) [unfolded aggregate_def]] obtain item where
    item: "item \<in> set (sort_key fst (fold group_trial rs []))" "row_of item = Inl e" by blast
  let ?valid = "filter tr_valid (snd item)"
  have "list_all writes ?valid" "list_all tr_valid ?valid"
    using assms(1) by (auto simp: groups_of(3) [OF item(1)] list_all_iff)
  moreover from item(2) have "map_res (metric_figures ?valid) TRIAL_METRICS = Inl e"
    by (cases item) (auto simp: row_of_def Let_def bind_res_Inl_iff)
  from map_res_error [OF this] obtain name where "name \<in> set TRIAL_METRICS" "metric_figures ?valid name = Inl e" by blast
  ultimately show ?thesis by (rule metric_figures_key)
qed

end

definition recorded :: "trial \<Rightarrow> bool" where
  "recorded r \<longleftrightarrow> (\<exists>U args output. decimals_ok U \<and> record_trial U args output = Inr r)"

definition fixed_rate_trial :: "trial \<Rightarrow> bool" where
  "fixed_rate_trial r \<longleftrightarrow> (\<exists>U parts path s. fixed_rate_record U parts path s = Inr r)"

interpretation recorder: trial_writer recorded
proof
  fix r assume "recorded r" "tr_valid r"
  then obtain U args "output" where "decimals_ok U" "record_trial U args output = Inr r" by (auto simp: recorded_def)
  with trial_verdict [OF this(1), of args "output"] \<open>tr_valid r\<close>
  show "\<exists>metrics. tr_metrics r = Some metrics \<and> dict_keys metrics = TRIAL_METRICS" by (cases "tr_metrics r") auto
qed

lemma fixed_rate_metrics_keys: "fixed_rate_metrics s = Inr metrics \<Longrightarrow> dict_keys metrics = TRIAL_METRICS"
  by (auto simp: fixed_rate_metrics_def bind_res_Inr_iff map_fst_zip length_metrics)

interpretation client: trial_writer fixed_rate_trial
proof
  fix r assume "fixed_rate_trial r"
  then obtain U parts path s where "fixed_rate_record U parts path s = Inr r" by (auto simp: fixed_rate_trial_def)
  then show "\<exists>metrics. tr_metrics r = Some metrics \<and> dict_keys metrics = TRIAL_METRICS"
    by (auto simp: fixed_rate_record_def bind_res_Inr_iff Let_def dest: fixed_rate_metrics_keys split: list.splits)
qed

interpretation writers: trial_writer "\<lambda>r. recorded r \<or> fixed_rate_trial r"
  by unfold_locales (use recorder.complete_metrics client.complete_metrics in blast)

text \<open>Whatever the runs were, no record of either program makes the aggregation fail on a missing metric.\<close>

theorem written_trials_have_metrics:
  assumes "list_all (\<lambda>r. recorded r \<or> fixed_rate_trial r) rs" and "aggregate rs = Inl e"
  shows "\<not> is_key_error e"
  using assms by (rule writers.aggregate_key)

end
