(* ===== verification/TrialExamples.thy ===== *)
theory TrialExamples
  imports TrialWriters
begin

section \<open>Load runs evaluated\<close>

text \<open>
  A report as \<open>wrk\<close> and the script it runs print it, the verdict on it, the recorder on a command line, and the
  summary of three trials: the theorems apply to them.
\<close>

subsection \<open>Reports\<close>

definition report_head :: ustr where
  "report_head = concat (map (\<lambda>s. u s @ [10])
     [''  2 threads and 10 connections'', ''    Latency     1.50ms    2.00ms'',
      ''  5000 requests in 10.00s, 4.20MB read''])"

definition report_tail :: ustr where
  "report_tail = concat (map (\<lambda>s. u s @ [10])
     [[], ''Requests/sec:    500.00'', ''[Lua] latency percentiles: p50=1400.00us p95=1.90ms p99=0.01s''])"

definition failing_report :: ustr where
  "failing_report = report_head @ failure_text (Sockets 1 0 2 0) @ report_tail"

lemma after_failure: "report_tail = [] \<or> \<not> decimal_char ascii_db (hd report_tail)"
  by code_simp

lemma no_failure_overlooked_witness:
  "\<exists>reasons. invalid_reasons ascii_db failing_report = Inr reasons \<and>
    u ''connect errors=1'' \<in> set reasons \<and> u ''write errors=2'' \<in> set reasons"
proof -
  have texts: "u ''connect errors='' @ show_nat 1 = u ''connect errors=1''" "u ''write errors='' @ show_nat 2 = u ''write errors=2''"
    by code_simp+
  from no_failure_overlooked [OF decimals_ok_ascii failing_report_def after_failure] texts show ?thesis by auto
qed

definition plain_report :: ustr where
  "plain_report = report_head @ report_tail"

lemma plain_report_reasons: "invalid_reasons ascii_db plain_report = Inr []"
  by code_simp

lemma plain_report_found:
  "find_first ascii_db AVERAGE_RE plain_report = Some [u ''1.50ms'']"
  "find_first ascii_db PERCENTILES_RE plain_report = Some [u ''1400.00us'', u ''1.90ms'', u ''0.01s'']"
  "find_first ascii_db RATE_RE plain_report = Some [u ''500.00'']"
  by code_simp+

lemma plain_report_amounts:
  "takeWhile decimal_class (u ''1.50ms'') = u ''1.50''" "dict_get unit_scale (dropWhile decimal_class (u ''1.50ms'')) = Some 1000"
  "takeWhile decimal_class (u ''1400.00us'') = u ''1400.00''" "dict_get unit_scale (dropWhile decimal_class (u ''1400.00us'')) = Some 1"
  "takeWhile decimal_class (u ''1.90ms'') = u ''1.90''" "dict_get unit_scale (dropWhile decimal_class (u ''1.90ms'')) = Some 1000"
  "takeWhile decimal_class (u ''0.01s'') = u ''0.01''" "dict_get unit_scale (dropWhile decimal_class (u ''0.01s'')) = Some 1000000"
  "float_literal (u ''500.00'') = Some 500" "float_literal (u ''1.50'') = Some (3 / 2)" "float_literal (u ''1400.00'') = Some 1400"
  "float_literal (u ''1.90'') = Some (19 / 10)" "float_literal (u ''0.01'') = Some (1 / 100)"
  by code_simp+

subsection \<open>Records\<close>

lemma limit_large: "numeral k \<le> (2 ^ 53 :: nat) \<Longrightarrow> numeral k < float_limit"
proof -
  assume "numeral k \<le> (2 ^ 53 :: nat)"
  then have "(of_nat (numeral k) :: rat) \<le> of_nat (2 ^ 53)" by (simp only: of_nat_le_iff)
  also have "\<dots> < float_limit" by (simp add: float_limit_def)
  finally show ?thesis by simp
qed

lemma finite_numeral: "numeral k \<le> (2 ^ 53 :: nat) \<Longrightarrow> finite_float (numeral k) = Fin (numeral k)"
  using limit_large [of k] double_numeral [of k] by (simp add: finite_float_def)

lemma finite_three_halves: "finite_float (3 / 2) = Fin (3 / 2)"
proof -
  have "is_double (3 / 2)" unfolding is_double_def by (intro exI [of _ 3] exI [of _ "- 1"]) (simp add: power_int_minus)
  with limit_large [of "num.Bit0 num.One"] show ?thesis by (simp add: finite_float_def double_exact)
qed

lemma latency_parts:
  assumes "takeWhile decimal_class s = a" "a \<noteq> []" "dict_get unit_scale (dropWhile decimal_class s) = Some k" "float_literal a = Some q"
  shows "latency_us s = Inr (scaled (finite_float q) k)"
  using assms by (cases a) (auto simp: latency_us_def plain_float_def)

lemma plain_report_metrics:
  "\<exists>metrics. parse_metrics ascii_db plain_report = Inr metrics \<and>
    dict_get metrics (u ''throughput_rps'') = Some (Fin 500) \<and> dict_get metrics (u ''average_latency_us'') = Some (Fin 1500)"
proof -
  have "metric ascii_db plain_report RATE_RE ''requests/sec'' = Inr (Fin 500)"
    by (simp add: metric_def plain_report_found plain_float_def plain_report_amounts finite_numeral)
  moreover have "latency_us (u ''1.50ms'') = Inr (Fin 1500)"
    using latency_parts [OF plain_report_amounts(1) _ plain_report_amounts(2,10)] by (simp add: finite_three_halves finite_numeral)
  moreover note latency_parts [OF plain_report_amounts(3) _ plain_report_amounts(4,11), simplified]
    latency_parts [OF plain_report_amounts(5) _ plain_report_amounts(6,12), simplified]
    latency_parts [OF plain_report_amounts(7) _ plain_report_amounts(8,13), simplified]
  ultimately show ?thesis
    by (auto simp: parse_metrics_def plain_report_found TRIAL_METRICS_def)
qed

definition example_args :: "int \<Rightarrow> trial_args" where
  "example_args status = \<lparr>ta_raw = u ''wrk.txt'', ta_output = u ''result.json'', ta_system = u ''xsr'', ta_topology = u ''host-veth'',
     ta_mode = u ''saturation'', ta_configuration = u ''c10'', ta_trial = 1, ta_tool = u ''wrk'', ta_exit_status = status\<rparr>"

lemma record_trial_verdict_witness:
  "\<exists>t metrics. record_trial ascii_db (example_args 0) plain_report = Inr t \<and> tr_valid t \<and> tr_failure_reasons t = [] \<and>
    tr_metrics t = Some metrics \<and> dict_keys metrics = TRIAL_METRICS \<and> dict_get metrics (u ''average_latency_us'') = Some (Fin 1500)"
proof -
  obtain metrics where m: "parse_metrics ascii_db plain_report = Inr metrics" "dict_get metrics (u ''average_latency_us'') = Some (Fin 1500)"
    using plain_report_metrics by blast
  have "ta_exit_status (example_args 0) = 0" by (simp add: example_args_def)
  moreover obtain t where t: "record_trial ascii_db (example_args 0) plain_report = Inr t"
    "tr_valid t \<longleftrightarrow> ta_exit_status (example_args 0) = 0 \<and> invalid_reasons ascii_db plain_report = Inr [] \<and>
      (\<exists>metrics. parse_metrics ascii_db plain_report = Inr metrics)" "tr_valid t \<longleftrightarrow> tr_failure_reasons t = []"
    "case tr_metrics t of None \<Rightarrow> \<not> tr_valid t | Some metrics \<Rightarrow> tr_valid t \<and> parse_metrics ascii_db plain_report = Inr metrics \<and>
      dict_keys metrics = TRIAL_METRICS \<and> list_all (\<lambda>(_, v). amount v) metrics"
    using record_trial_verdict [OF decimals_ok_ascii, of "example_args 0" plain_report] by blast
  ultimately have "tr_valid t" using plain_report_reasons m(1) by blast
  with t(3,4) m obtain metrics' where "tr_metrics t = Some metrics'" "tr_failure_reasons t = []" "metrics' = metrics"
    "dict_keys metrics' = TRIAL_METRICS" by (cases "tr_metrics t") simp_all
  with t(1) m(2) \<open>tr_valid t\<close> show ?thesis by blast
qed

definition record_line :: "ustr list" where
  "record_line = map u [''--raw'', ''./wrk.txt'', ''--output=result.json'', ''--system'', ''xsr'', ''--topology'', ''host-veth'',
     ''--mode'', ''saturation'', ''--configuration'', ''c10'', ''--trial'', ''1'', ''--tool'', ''wrk'', ''--exit-status=0'']"

lemma record_line_args:
  "\<exists>ns. parse_args ascii_db record_parser record_line = Inr ns \<and> record_args_of ns = Some (example_args 0)"
proof -
  have "map_option id (case parse_args ascii_db record_parser record_line of Inr ns \<Rightarrow> record_args_of ns | _ \<Rightarrow> None) = Some (example_args 0)"
    by code_simp
  then show ?thesis by (auto split: sum.splits)
qed

lemma failing_report_reasons: "invalid_reasons ascii_db failing_report = Inr [u ''connect errors=1'', u ''write errors=2'']"
  by code_simp

lemma record_program_result_witness:
  "\<exists>t. record_program ascii_interp (\<lambda>_. Inr failing_report) record_line =
      Inr (Inr (u ''result.json'', json_dump 0 (trial_value ascii_interp t) @ [10])) \<and>
    record_trial ascii_db (example_args 0) failing_report = Inr t \<and> tr_system t = u ''xsr'' \<and> \<not> tr_valid t"
proof -
  obtain ns where ns: "parse_args (i_unicode ascii_interp) record_parser record_line = Inr ns" "record_args_of ns = Some (example_args 0)"
    using record_line_args by (auto simp: ascii_interp_def)
  then obtain r where r: "record_program ascii_interp (\<lambda>_. Inr failing_report) record_line = Inr r" by (simp add: record_program_def)
  have ok: "decimals_ok (i_unicode ascii_interp)" using decimals_ok_ascii by (simp add: ascii_interp_def)
  from record_program_result [OF ok r] ns obtain t where t: "record_trial ascii_db (example_args 0) failing_report = Inr t"
    "tr_system t = u ''xsr''" "r = Inr (u ''result.json'', json_dump 0 (trial_value ascii_interp t) @ [10])"
    by (auto simp: ascii_interp_def example_args_def)
  with trial_verdict [OF decimals_ok_ascii, of "example_args 0" failing_report] t(1) have "tr_valid t \<longrightarrow> invalid_reasons ascii_db failing_report = Inr []"
    by auto
  then have "\<not> tr_valid t" by (simp add: failing_report_reasons)
  with r t show ?thesis by auto
qed

subsection \<open>Summaries\<close>

lemma plain_numeral: "numeral k \<le> (2 ^ 52 :: nat) \<Longrightarrow> plain_double (numeral k)"
proof -
  assume k: "numeral k \<le> (2 ^ 52 :: nat)"
  have "(numeral (num.Bit0 k) :: nat) = numeral k + numeral k" "(2 ^ 53 :: nat) = 2 ^ 52 + 2 ^ 52" by (rule numeral_Bit0) simp
  with k have "numeral (num.Bit0 k) \<le> (2 ^ 53 :: nat)" by linarith
  from limit_large [OF this] have "2 * numeral k < float_limit" unfolding numeral_Bit0 [of k] mult_2 .
  moreover have "numeral k \<le> (2 ^ 53 :: nat)" using k by (rule order_trans) simp
  ultimately show ?thesis by (simp add: plain_double_def double_numeral)
qed

lemma statistics_sound_witness:
  "\<exists>s median ci95. statistics_for (map Fin [20, 10]) = Inr (Some \<lparr>fg_mean = Fin 15, fg_stdev = Fin s, fg_median = Fin median,
      fg_minimum = Fin 10, fg_maximum = Fin 20, fg_ci95 = ci95\<rparr>) \<and> 10 \<le> median \<and> median \<le> 20 \<and> \<bar>s * s - 50\<bar> * 2 ^ 51 \<le> 50"
proof -
  have p: "list_all plain_double [20, 10]" "[20 :: rat, 10] \<noteq> []" "length [20 :: rat, 10] < 2 ^ 64" by (simp_all add: plain_numeral)
  have v: "sample_variance [20, 10] = 50" "\<not> (50 * normal_scale < 1)" using scale_facts(1) by (simp_all add: sample_variance_def)
  have m: "double (sum_list [20, 10] / of_nat (length [20 :: rat, 10])) = 15" by (simp add: double_numeral)
  have e: "Min (set [20 :: rat, 10]) = 10" "Max (set [20 :: rat, 10]) = 20" by simp_all
  from statistics_sound [OF p] show ?thesis unfolding v m e using v(2) by auto
qed

definition example_trials :: "trial list" where
  "example_trials =
     [trial_of (example_args 0) [] (Some (zip TRIAL_METRICS [Fin 10, Fin 1500, Fin 1400, Fin 1900, Fin 10000])),
      trial_of ((example_args 0)\<lparr>ta_mode := u ''fixed-rate''\<rparr>) [] (Some (zip TRIAL_METRICS [Fin 100, Fin 450, Fin 400, Fin 700, Fin 900])),
      trial_of (example_args 1) [u ''tool exit status=1''] None]"

lemma example_trials_plain: "list_all plain_trial example_trials"
  by (simp add: example_trials_def plain_trial_def metric_value_def metric_of_def trial_of_def TRIAL_METRICS_def plain_numeral dict_index_def)

lemma aggregate_sound_witness:
  "\<exists>a b. aggregate example_trials = Inr [a, b] \<and>
    map (\<lambda>row. (row_valid_count row, row_failed_count row)) [a, b] = [(1, 0), (1, 1)]"
proof -
  have len: "length example_trials < 2 ^ 64" by (simp add: example_trials_def)
  let ?a = "(u ''fixed-rate'', u ''c10'', u ''xsr'', u ''host-veth'')" and ?b = "(u ''saturation'', u ''c10'', u ''xsr'', u ''host-veth'')"
  have keys: "key_of ` set example_trials = {?a, ?b}"
    by (auto simp: example_trials_def key_of_def trial_of_def example_args_def)
  have ab: "?a < ?b" by code_simp
  from aggregate_sound [OF example_trials_plain len] obtain rows where rows: "aggregate example_trials = Inr rows"
    "sorted_wrt (<) (map row_key rows)" "set (map row_key rows) = {?a, ?b}" "list_all (row_sound example_trials) rows"
    unfolding keys by blast
  have "map row_key rows = [?a, ?b]"
  proof (rule strict_sorted_equal)
    show "sorted_wrt (<) [?a, ?b]" using ab by simp
  qed (use rows in simp_all)
  then obtain a b where r: "rows = [a, b]" "row_key a = ?a" "row_key b = ?b" by (auto simp: map_eq_Cons_conv)
  from rows(4) have "row_sound example_trials a" "row_sound example_trials b" by (simp_all add: r(1))
  then have "(row_valid_count a, row_failed_count a) = (1, 0)" "(row_valid_count b, row_failed_count b) = (1, 1)"
    by (simp_all add: row_sound_def Let_def r example_trials_def key_of_def trial_of_def example_args_def)
  with rows(1) r(1) show ?thesis by simp
qed

text \<open>A run whose only request found no connection: the summary is written, the record is not.\<close>

definition refused_request :: request_result where
  "refused_request = \<lparr>rr_requested_rate = 100, rr_busy_when_scheduled = False, rr_response_complete_ns = None,
     rr_actual_latency_us = None, rr_scheduling_delay_us = 3, rr_http_status = None, rr_error_type = Some (u ''connection'')\<rparr>"

definition rate_parts :: "ustr list" where
  "rate_parts = [u ''fixed-rate'', u ''rate-100_concurrency-4'', u ''trial-'' @ u ''01'', u ''xsr''] @ [u ''summary.json'']"

lemma fixed_rate_recorded_witness:
  "\<exists>s. summarize_requests ascii_interp (u ''xsr'') 40 [refused_request] = Inr s \<and>
    fixed_rate_record ascii_db rate_parts (u ''requests.csv'') s = Inl (TypeErr ''float() argument must be a string or a real number'')"
proof -
  have none: "\<not> list_ex completed_request [refused_request]" by (simp add: completed_request_def refused_request_def)
  have all: "list_all (\<lambda>r. rr_requested_rate r \<noteq> 0 \<and> (\<not> completed_request r \<or> rr_actual_latency_us r \<noteq> None)) [refused_request]"
    by (simp add: completed_request_def refused_request_def)
  have number: "int_text ascii_db (u ''01'') = Some 1" by code_simp
  have size: "length [refused_request] \<le> 2 ^ 53" "(40 :: rat) \<noteq> 0" by simp_all
  show ?thesis
    using fixed_rate_recorded [OF list.distinct(2) size all rate_parts_def list.distinct(2) number, of ascii_interp "u ''xsr''" "u ''requests.csv''"] none
    by (simp only: if_False)
qed

end
