(* ===== verification/Spec2Isabelle.thy ===== *)
theory Spec2Isabelle
  imports CommandExamples WaiterExamples KeywordPolicy Bm25Table Bm25Reference JaccardReference ModuleExamples TrialExamples
begin

section \<open>The Python tools of XSR\<close>

text \<open>
  XSR routes LLM requests inside the kernel. The development models the Python programs that stand on
  both sides of it and on whose exactness its claims rest: the two profile scripts under scripts/, which read
  the counters of the kernel router and of the user-space semantic router and report the time per
  request, the policy generators under benchmarks/policy/, which compile routing policies into
  the headers of the eBPF programs, with the reference matchers, and the programs around a benchmark
  run: one waits for the router to come to rest, three validate, record and summarize the runs of the load generator. Every function of these files is a HOL function of the same shape
  (its guards in their order, every raise a branch), except for what is listed at the end.

  \<^bold>\<open>Conventions\<close> (Prelude, PyText, PyValue, Rounding, Floats, ProfileBase). A Python \<open>str\<close> or \<open>bytes\<close>
  is a list of integers, a dictionary an association list in insertion order, an exception a value of
  \<open>pyerr\<close>, and code that may raise returns \<open>pyerr + 'a\<close>; \<open>fold_res\<close> and \<open>map_res\<close> are its loops. Integers
  are unbounded as in Python; the counters of the kernel are 64-bit words. A float is the rational it
  denotes, with every operation rounded to a double (\<open>binary64\<close>, \<open>double\<close> with subnormals, \<open>true_div\<close>
  with its OverflowError, \<open>py_sum\<close> naive or compensated). What depends on the interpreter or on data
  outside the repository is an argument: the Unicode database, the shortest representation of a
  float, the logarithm, the vocabulary file. LineText, FixedPoint and Utf8 hold the facts about
  printed text the properties need: splitting joined text, decimals read back, strict UTF-8.

  \<^bold>\<open>The profile reader of the kernel router\<close> (scripts/sk_profile_components.py). SkProfile has the whole
  script: \<open>request\<close> over a \<open>peer\<close> (the outcome of each socket call; receiving is a partial function, as
  the peer need not close), \<open>parse_fields\<close>, \<open>aggregate_response\<close>, \<open>confirm_reset\<close>, the reports and
  \<open>sk_main\<close>. SkAggregate relates the loop over nested dictionaries to sums over parsed rows
  (\<open>aggregate_lines_iff\<close>), by the locale \<open>tally_cells\<close>. SkTheorems and SkProgram prove what an
  accepted response says, that the order of its rows does not matter, which exceptions there are,
  when the program returns, and how accurate the printed means are. SkRouter models the other end,
  the profile commands of src/sk_router.c and the recording of bpf/programs/sk_router.bpf.c on per-CPU
  64-bit counters, and proves the two ends correct together; SkRace takes the command apart into steps
  that interleave with requests (\<open>sys_step\<close>), with the invariant of the counters and the torn read
  that the equality of the counts does not exclude; SkQuiesce shows that the router comes to rest and
  is then read successfully. SkExamples has the resets, the exact condition of the overflow (from
  \<open>double_overflow_iff\<close> of Doubles) and the concrete inputs.

  \<^bold>\<open>The snapshots of the semantic router\<close> (scripts/vsr_profile_components.py). VsrProfile has the whole
  script: samples as the regular expression matches them, \<open>parse_snapshot\<close>, \<open>summarize_snapshots\<close>, the
  reports, \<open>capture\<close> and \<open>vsr_main\<close> over a \<open>world\<close> of a network and files. VsrSnapshot characterizes
  accepted snapshots line by line; VsrTheorems proves their type, that an exposition is read back, and
  the independence of the order of lines; VsrSummary what a summary promises, that the figure accounts for
  every stage once and that intervals add up; VsrProgram the exceptions, the CSV report, the safety of
  capturing and the workflow of two captures and a summary; VsrExamples three concrete snapshots.

  \<^bold>\<open>The keyword policy\<close> (generate_keyword_header.py). PolicyYaml models the reader of the YAML subset as a
  machine over lines whose containers live in a heap shared with a stack of open blocks; KeywordPolicy
  the decisions, the validation with every ValueError, the stable sort by priority and the emitted header.

  \<^bold>\<open>The BM25 policy\<close> (vsr_bm25_tokenizer.py, generate_bm25_policy_header.py, bm25_reference.py). Tokenizer has the
  word scanner and the Porter2 stemmer, Bm25Policy the parser, the term table and the header,
  Bm25Invariants and Bm25Table their invariants (sorted table, bounded weights, no internal
  error), Bm25Reference the reference scores.

  \<^bold>\<open>The n-gram policy\<close> (generate_jaccard_policy_header.py, jaccard_reference.py). JaccardPolicy has the generator;
  JaccardReference the reference matcher: its integer test is the exact test of the warped Jaccard similarity
  of multisets, and the table of the generator determines its verdict.

  \<^bold>\<open>The table of word characters\<close> (generate_unicode_word_header.py). UnicodeWords has the ranges, the search, the bitmap and
  the function of xdp_jaccard_classifier.bpf.h that reads it on 64-bit words: the kernel and the
  reference matcher agree on every character.

  \<^bold>\<open>The policy modules\<close> (generate_policy_modules.py). PolicyModules has the choice of the signal profile, the selection
  header and \<open>main\<close>, which runs the generators above: the profile agrees with the policy, and rules of
  different methods never have the same priority. ModuleExamples has a policy with both methods.

  \<^bold>\<open>The command lines.\<close> Arguments models \<open>argparse\<close> as of CPython 3.11, as far as the scripts use it: parsers are
  data, the arguments are classified and then consumed, with abbreviations, joined values, negative
  numbers, the positional, subcommands, conversions and every error; it is a model of the library and translates
  no code of the repository. ArgumentFacts proves, for every parser, that command
  lines are read back whatever their order and spelling, and that every namespace is complete.
  CommandLines has the parsers of the two scripts and the programs from the command line to the
  outcome (\<open>sk_program\<close>, \<open>vsr_program\<close>), to which the theorems about \<open>sk_main\<close> and \<open>vsr_main\<close> are carried over, and
  proves that every command line that follows the usage of the scripts (\<open>sk_usage\<close>, \<open>capture_usage\<close>,
  \<open>summary_usage\<close>) runs \<open>main\<close> on the arguments it means (\<open>sk_meant\<close>, \<open>capture_meant\<close>, \<open>summary_meant\<close>);
  CommandExamples concrete command lines. A timeout is checked as \<open>socket.settimeout\<close> does (\<open>settimeout\<close>).

  \<^bold>\<open>The quiescence waiter\<close> (benchmarks/routing_wrk/wait_for_xsr_quiescence.py). Waiter has the whole program: reading
  and checking a status and the loop over the clock and over the peers its attempts find; WaiterTheorems
  what a returned status says, when the loop ends and which exceptions escape; WaiterRouter the
  status report of src/sk_router.c and the two ends together; WaiterExamples concrete runs.

  \<^bold>\<open>The runs of the load generator\<close> (validate_output.py, record_result.py and aggregate_results.py of benchmarks/routing_wrk/).
  WrkOutput has the regular expressions as sequences of pieces and \<open>invalid_reasons\<close>; WrkTheorems proves that counting
  never fails and that no line in which \<open>wrk\<close> reports failures is overlooked, as no match can cover a part of it.
  TrialRecord has the metrics of a report, the record of a trial and both command lines; TrialTheorems the verdict on a trial
  and the ways the recorder ends. TrialSummary has \<open>statistics_for\<close> with what it uses of the \<open>statistics\<close> module,
  and \<open>aggregate\<close>; FixedRate the trials of the latency client: the fields it summarizes and the record that is made
  of them. Doubles proves what a double can hold, that rounding is monotone and when it overflows, Deviation the accuracy of the
  square root on integers, SummaryTheorems the figures of a metric and the aggregation, FixedRateTheorems that a run of which
  nothing completed stops the aggregation; TrialWriters states what the aggregation relies on as a locale, of which both
  writers are interpretations, so that no index of a metric fails; TrialExamples has reports, a command line and trials.

  \<^bold>\<open>How the parts interact.\<close> The script and the router are composed as a peer in SkRouter; the two
  commands of the snapshot script are composed through the files of a \<open>world\<close>; the policy
  generators share the reader, the validation of decisions and the tokenizer as the code does. The
  waiter uses the protocol of the profile reader and the parser of command lines. The recorder runs the validation, and
  the records it writes are what is summarized (\<open>recorded_plain\<close>). The
  interfaces are locales (\<open>key_store\<close> and \<open>count_store\<close>, \<open>unicode_case\<close>, \<open>tally_cells\<close>, \<open>answering_peer\<close>, the format
  of a float, the registry of token hashes, the verdict of a rule, \<open>trial_writer\<close>), each interpreted on the definitions of the model.

  \<^bold>\<open>Bounds.\<close> No fuel is used: every loop is structurally recursive or has a termination proof, except
  receiving and waiting, which are partial functions: receiving has the exact condition for its end
  (\<open>sk_main_returns_iff\<close>), and waiting ends when the clock passes the deadline (\<open>wait_ends\<close>). The totals in
  \<open>vsr_end_to_end\<close> and \<open>summarize_telescopes\<close> are below \<open>2 ^ 1022\<close> and \<open>2 ^ 1021\<close>, so that no division
  overflows; a nanosecond counter of 64 bits is far below both. The summary is proved right for metrics below half of the
  largest double, so that the sum of two of them does not overflow.

  \<^bold>\<open>Not modelled.\<close> The text of the help and the usage of \<open>argparse\<close>, and its use of the environment. The configurable
  limit on the digits of an integer and the exponent limits of
  the decimal module. Files are named by their path, without links; encoding of standard output and
  failures of writing to it. \<open>main\<close> of the other generators (reading and writing
  files), and their module tests. Of the summary of trials, \<open>load_records\<close> and \<open>write_outputs\<close>, which find files and put provenance data
  around the rows, and the fields of the client's summary that no trial has. The rest of the router (connections, sockmaps, matching in the kernel) is C, and the
  benchmark drivers, the distillation experiments and the baseline adapters are control of processes and
  third-party libraries; none of them is modelled.
\<close>

end
